(* ===== verification/Dedup_Prelude.thy ===== *)
theory Dedup_Prelude
  imports Main "HOL-Library.Word" "HOL-Library.Multiset" "HOL-Library.Monad_Syntax"
begin

text \<open>
  Shared vocabulary of the development: the machine types of the C code, the loop
  combinator \<open>ofold\<close> with its invariant rule, the view of a byte buffer as a sequence
  of \<open>BLOCK_SIZE\<close>-byte blocks, and the counting of references in a finite map.
  Every component theory imports this one.
\<close>

section \<open>Machine types\<close>

type_synonym byte = "8 word"
type_synonym u32 = "32 word"
type_synonym u64 = "64 word"

text \<open>A C string: its bytes up to, and without, the terminating NUL.\<close>

type_synonym path = "byte list"

text \<open>The block size (\<open>includes/passthrough_helpers.h\<close>).\<close>

definition BLOCK_SIZE :: nat where
  "BLOCK_SIZE = 4096"

lemma BLOCK_SIZE_pos [simp, intro]: "0 < BLOCK_SIZE" "BLOCK_SIZE \<noteq> 0"
  by (simp_all add: BLOCK_SIZE_def)

section \<open>Loops that may hit undefined behaviour\<close>

text \<open>
  A C loop over the elements of \<open>xs\<close>, threading a state. \<open>None\<close> is undefined
  behaviour (an access through a dangling pointer) and ends the run.
\<close>

primrec ofold :: "('a \<Rightarrow> 's \<Rightarrow> 's option) \<Rightarrow> 'a list \<Rightarrow> 's \<Rightarrow> 's option" where
  "ofold f [] s = Some s"
| "ofold f (x # xs) s = (case f x s of None \<Rightarrow> None | Some t \<Rightarrow> ofold f xs t)"

lemma ofold_append:
  "ofold f (xs @ ys) s = (case ofold f xs s of None \<Rightarrow> None | Some t \<Rightarrow> ofold f ys t)"
  by (induction xs arbitrary: s) (auto split: option.splits)

lemma ofold_invariant:
  assumes "P 0 s"
    and "\<And>i s. i < length xs \<Longrightarrow> P i s \<Longrightarrow> \<exists>t. f (xs ! i) s = Some t \<and> P (Suc i) t"
  shows "\<exists>t. ofold f xs s = Some t \<and> P (length xs) t"
  using assms
proof (induction xs arbitrary: P s)
  case Nil
  then show ?case by simp
next
  case (Cons x xs)
  obtain t where t: "f x s = Some t" "P (Suc 0) t"
    using Cons.prems(1) Cons.prems(2)[of 0 s] by auto
  have "\<exists>u. ofold f xs t = Some u \<and> P (Suc (length xs)) u"
    by (rule Cons.IH[where P = "\<lambda>i. P (Suc i)"]) (use t Cons.prems(2) in \<open>force+\<close>)
  with t show ?case by simp
qed

text \<open>The rule in the shape of a counting loop \<open>for (i = 0; i < n; i++)\<close>.\<close>

lemma ofold_upt:
  assumes "P 0 s"
    and "\<And>i s. i < n \<Longrightarrow> P i s \<Longrightarrow> \<exists>t. f i s = Some t \<and> P (Suc i) t"
  shows "\<exists>t. ofold f [0..<n] s = Some t \<and> P n t"
  using ofold_invariant[of P s "[0..<n]" f] assms by simp

lemma ofold_cong:
  assumes "\<And>x s. x \<in> set xs \<Longrightarrow> f x s = g x s"
  shows "ofold f xs s = ofold g xs s"
  using assms by (induction xs arbitrary: s) (auto split: option.splits)

lemma ofold_map: "ofold f (map h xs) s = ofold (\<lambda>x. f (h x)) xs s"
  by (induction xs arbitrary: s) (auto split: option.splits)

text \<open>Two loops in lock-step, related by \<open>R\<close>.\<close>

lemma ofold_simulation:
  assumes "R s t"
    and "\<And>x s t s'. x \<in> set xs \<Longrightarrow> R s t \<Longrightarrow> f x s = Some s' \<Longrightarrow> \<exists>t'. g x t = Some t' \<and> R s' t'"
    and "ofold f xs s = Some s'"
  shows "\<exists>t'. ofold g xs t = Some t' \<and> R s' t'"
  using assms
proof (induction xs arbitrary: s t)
  case Nil
  then show ?case by simp
next
  case (Cons x xs)
  from Cons.prems(3) obtain s1 where s1: "f x s = Some s1" "ofold f xs s1 = Some s'"
    by (auto split: option.splits)
  with Cons.prems(1,2) obtain t1 where t1: "g x t = Some t1" "R s1 t1"
    by (metis list.set_intros(1))
  have "\<exists>t'. ofold g xs t1 = Some t' \<and> R s' t'"
    by (rule Cons.IH[OF t1(2) _ s1(2)]) (use Cons.prems(2) in auto)
  with t1 show ?case by simp
qed

section \<open>Buffers as sequences of blocks\<close>

text \<open>Block \<open>i\<close> of a byte buffer or file: the bytes at \<open>[i * BLOCK_SIZE, (i+1) * BLOCK_SIZE)\<close>.\<close>

definition chunk :: "byte list \<Rightarrow> nat \<Rightarrow> byte list" where
  "chunk xs i = take BLOCK_SIZE (drop (i * BLOCK_SIZE) xs)"

lemma length_chunk: "Suc i * BLOCK_SIZE \<le> length xs \<Longrightarrow> length (chunk xs i) = BLOCK_SIZE"
  by (simp add: chunk_def)

lemma nth_chunk:
  "Suc i * BLOCK_SIZE \<le> length xs \<Longrightarrow> j < BLOCK_SIZE \<Longrightarrow> chunk xs i ! j = xs ! (i * BLOCK_SIZE + j)"
  by (simp add: chunk_def)

lemma Suc_mult_le_BLOCK: "i < n \<Longrightarrow> Suc i * BLOCK_SIZE \<le> n * BLOCK_SIZE"
  by (metis Suc_leI mult_le_mono1)

lemma chunk_take_drop:
  assumes "j < r"
  shows "chunk (take (r * BLOCK_SIZE) (drop (k * BLOCK_SIZE) xs)) j = chunk xs (k + j)"
proof -
  have "BLOCK_SIZE \<le> r * BLOCK_SIZE - j * BLOCK_SIZE"
    using Suc_mult_le_BLOCK[OF assms] by simp
  then show ?thesis
    by (simp add: chunk_def drop_take min_def algebra_simps)
qed

lemma concat_chunks:
  assumes "n * BLOCK_SIZE \<le> length xs"
  shows "concat (map (chunk xs) [0..<n]) = take (n * BLOCK_SIZE) xs"
  using assms
proof (induction n)
  case 0
  then show ?case by simp
next
  case (Suc n)
  have "take (Suc n * BLOCK_SIZE) xs
      = take (n * BLOCK_SIZE) xs @ take BLOCK_SIZE (drop (n * BLOCK_SIZE) xs)"
    using take_add[of "n * BLOCK_SIZE" BLOCK_SIZE xs] by (simp add: add.commute)
  with Suc show ?case by (simp add: chunk_def)
qed

lemma chunks_eqI:
  assumes "length xs = n * BLOCK_SIZE" "length ys = n * BLOCK_SIZE"
    and "\<And>i. i < n \<Longrightarrow> chunk xs i = chunk ys i"
  shows "xs = ys"
proof -
  have "xs = concat (map (chunk xs) [0..<n])" "ys = concat (map (chunk ys) [0..<n])"
    using assms(1,2) by (simp_all add: concat_chunks)
  moreover have "map (chunk xs) [0..<n] = map (chunk ys) [0..<n]"
    using assms(3) by simp
  ultimately show ?thesis by metis
qed

lemma drop_chunks_eqI:
  assumes "length xs = n * BLOCK_SIZE" "length ys = n * BLOCK_SIZE"
    and "\<And>i. m \<le> i \<Longrightarrow> i < n \<Longrightarrow> chunk xs i = chunk ys i"
  shows "drop (m * BLOCK_SIZE) xs = drop (m * BLOCK_SIZE) ys"
proof (rule chunks_eqI)
  show "length (drop (m * BLOCK_SIZE) xs) = (n - m) * BLOCK_SIZE"
    "length (drop (m * BLOCK_SIZE) ys) = (n - m) * BLOCK_SIZE"
    using assms(1,2) by (simp_all add: diff_mult_distrib)
  have shift: "chunk (drop (m * BLOCK_SIZE) zs) i = chunk zs (m + i)" for zs i
    by (simp add: chunk_def add_mult_distrib add.commute)
  show "chunk (drop (m * BLOCK_SIZE) xs) i = chunk (drop (m * BLOCK_SIZE) ys) i" if "i < n - m" for i
    unfolding shift using assms(3)[of "m + i"] that by simp
qed

section \<open>References in a finite map\<close>

definition refs :: "('k \<rightharpoonup> 'p) \<Rightarrow> 'p \<Rightarrow> 'k set" where
  "refs m p = {k. m k = Some p}"

lemma in_refs [simp]: "k \<in> refs m p \<longleftrightarrow> m k = Some p"
  by (simp add: refs_def)

lemma finite_refs [simp, intro]: "finite (dom m) \<Longrightarrow> finite (refs m p)"
  by (rule finite_subset[of _ "dom m"]) (auto simp: refs_def)

lemma refs_delete: "refs (m(k := None)) p = refs m p - {k}"
  by (auto simp: refs_def)

lemma refs_update: "refs (m(k \<mapsto> q)) p = (if p = q then insert k (refs m p) else refs m p - {k})"
  by (auto simp: refs_def)

lemma refs_empty [simp]: "refs Map.empty p = {}"
  by (auto simp: refs_def)

lemma refs_nonempty_iff: "refs m p \<noteq> {} \<longleftrightarrow> p \<in> ran m"
  by (auto simp: refs_def ran_def)

lemma card_refs_delete:
  assumes "finite (dom m)"
  shows "card (refs (m(k := None)) p) = card (refs m p) - (if m k = Some p then 1 else 0)"
  using assms by (auto simp: refs_delete card_Diff_singleton_if)

lemma card_refs_update_fresh:
  assumes "finite (dom m)" "m k = None"
  shows "card (refs (m(k \<mapsto> q)) p) = card (refs m p) + (if p = q then 1 else 0)"
  using assms by (auto simp: refs_update)

lemma card_refs_pos: "finite (dom m) \<Longrightarrow> m k = Some p \<Longrightarrow> 0 < card (refs m p)"
  by (metis card_gt_0_iff empty_iff finite_refs in_refs)

lemma card_refs_le_dom: "finite (dom m) \<Longrightarrow> card (refs m p) \<le> card (dom m)"
  by (rule card_mono) (auto simp: refs_def)

lemma ran_delete_inj:
  assumes "m k = Some q" "\<And>h. m h = Some q \<Longrightarrow> h = k"
  shows "ran (m(k := None)) = ran m - {q}"
proof
  show "ran (m(k := None)) \<subseteq> ran m - {q}"
  proof
    fix x assume "x \<in> ran (m(k := None))"
    then obtain h where "h \<noteq> k" "m h = Some x" by (auto simp: ran_def split: if_splits)
    with assms(2)[of h] show "x \<in> ran m - {q}" by (metis DiffI ranI singletonD)
  qed
  show "ran m - {q} \<subseteq> ran (m(k := None))"
  proof
    fix x assume "x \<in> ran m - {q}"
    then obtain h where "m h = Some x" "x \<noteq> q" by (auto simp: ran_def)
    with assms(1) have "(m(k := None)) h = Some x" by auto
    then show "x \<in> ran (m(k := None))" by (rule ranI)
  qed
qed

section \<open>Words\<close>

lemma unat_add_of_nat:
  fixes a :: u64
  assumes "unat a + i < 2 ^ 64"
  shows "unat (a + of_nat i) = unat a + i"
  using assms by (simp add: unat_word_ariths unat_of_nat take_bit_eq_mod)

lemma add_of_nat_inj:
  fixes a :: u64
  assumes "a + of_nat i = a + of_nat j" "i < 2 ^ 64" "j < 2 ^ 64"
  shows "i = j"
proof -
  have "(of_nat i :: u64) = of_nat j" using assms(1) by simp
  then have "unat (of_nat i :: u64) = unat (of_nat j :: u64)" by simp
  with assms(2,3) show ?thesis by (simp add: unat_of_nat take_bit_eq_mod)
qed

lemma unat_less64: "unat (x :: u64) < 2 ^ 64"
  using unsigned_less[of x, where 'a = nat] by simp

lemma unat_minus_one32: "0 < unat (x :: u32) \<Longrightarrow> unat (x - 1) = unat x - 1"
  by (metis unat_minus_one unat_gt_0)

lemma unat_plus_one32: "Suc (unat (x :: u32)) < 2 ^ 32 \<Longrightarrow> unat (x + 1) = Suc (unat x)"
  by (simp add: unat_word_ariths)

lemma unat_eq_1_32: "(x :: u32) = 1 \<longleftrightarrow> unat x = 1"
  by (metis unat_1 word_eq_iff_unsigned)

end
