(* ===== verification/Posix_File.thy ===== *)
theory Posix_File
  imports Dedup_Prelude "HOL-Library.Signed_Division"
begin

text \<open>
  The part of POSIX the program relies on: error numbers, a regular file as its bytes,
  \<open>pread\<close> and \<open>pwrite\<close> at an offset. What the kernel answers to one call (success, a
  short transfer, an error) is an \<open>io\<close> value; a run takes the answers from a list, so
  that every failure of every call is some input of the model. The block view of a file
  (\<open>chunk\<close>) is related to the calls the master file sees.
\<close>

section \<open>Error numbers\<close>

datatype errno = EPERM | ENOENT | EIO | ENOMEM | EACCES | EEXIST | EINVAL | ENOSPC
  | EOPNOTSUPP | ErrnoOther nat

primrec errno_val :: "errno \<Rightarrow> int" where
  "errno_val EPERM = 1"
| "errno_val ENOENT = 2"
| "errno_val EIO = 5"
| "errno_val ENOMEM = 12"
| "errno_val EACCES = 13"
| "errno_val EEXIST = 17"
| "errno_val EINVAL = 22"
| "errno_val ENOSPC = 28"
| "errno_val EOPNOTSUPP = 95"
| "errno_val (ErrnoOther n) = 200 + int n"

lemma errno_val_pos [simp]: "0 < errno_val e"
  by (cases e) simp_all

section \<open>Files and system calls\<close>

type_synonym fbytes = "byte list"

datatype io = IoOk | IoShort nat | IoErr errno

text \<open>The answer to the next call; a run whose list is used up meets no more failures.\<close>

fun next_io :: "io list \<Rightarrow> io \<times> io list" where
  "next_io [] = (IoOk, [])"
| "next_io (x # xs) = (x, xs)"

lemma next_io_healthy:
  "\<forall>io \<in> set ios. io = IoOk \<Longrightarrow> next_io ios = (io, ios') \<Longrightarrow> io = IoOk \<and> (\<forall>io \<in> set ios'. io = IoOk)"
  by (cases ios) auto

text \<open>Overwriting at an offset; a gap before it reads as zeros, and writing nothing changes nothing.\<close>

definition file_write :: "fbytes \<Rightarrow> nat \<Rightarrow> byte list \<Rightarrow> fbytes" where
  "file_write f off bs =
     (if bs = [] then f
      else take off f @ replicate (off - length f) 0 @ bs @ drop (off + length bs) f)"

text \<open>Result: the value returned, \<open>errno\<close> where that is -1, and the new file.\<close>

definition pwrite_sys :: "io \<Rightarrow> fbytes \<Rightarrow> byte list \<Rightarrow> int \<Rightarrow> int \<times> errno \<times> fbytes" where
  "pwrite_sys io f bs off =
     (if off < 0 then (-1, EINVAL, f)
      else case io of
        IoOk \<Rightarrow> (int (length bs), EIO, file_write f (nat off) bs)
      | IoShort k \<Rightarrow> (int (min k (length bs)), EIO, file_write f (nat off) (take k bs))
      | IoErr e \<Rightarrow> (-1, e, f))"

text \<open>Result: the value returned and the bytes transferred. Reading stops at the end of the file.\<close>

definition pread_sys :: "io \<Rightarrow> fbytes \<Rightarrow> nat \<Rightarrow> int \<Rightarrow> int \<times> byte list" where
  "pread_sys io f n off =
     (if off < 0 then (-1, [])
      else let bs = take n (drop (nat off) f) in
        case io of
          IoOk \<Rightarrow> (int (length bs), bs)
        | IoShort k \<Rightarrow> (int (min k (length bs)), take k bs)
        | IoErr e \<Rightarrow> (-1, []))"

text \<open>
  The byte offset of a slot of the master file. The product is computed in 64 bits and
  read as the signed \<open>off_t\<close>.
\<close>

definition blk_off :: "u64 \<Rightarrow> int" where
  "blk_off s = sint (s * of_nat BLOCK_SIZE)"

text \<open>Slots whose block lies below the largest \<open>off_t\<close>.\<close>

definition MAX_SLOTS :: nat where
  "MAX_SLOTS = 2 ^ 51"

lemma blk_off_eq:
  assumes "unat s < MAX_SLOTS"
  shows "blk_off s = int (unat s * BLOCK_SIZE)"
proof -
  have lt: "unat s * 4096 < 2 ^ 63"
    using assms by (simp add: MAX_SLOTS_def)
  then have u: "unat (s * 4096) = unat s * 4096"
    by (simp add: unat_word_ariths)
  have "uint (s * 4096) < 2 ^ 63"
    using lt u by (metis of_nat_less_iff of_nat_numeral of_nat_power uint_nat)
  then have "sint (s * 4096) = uint (s * 4096)"
    by (simp add: sint_uint signed_take_bit_int_eq_self_iff order_trans[OF _ uint_ge_0])
  also have "\<dots> = int (unat s * 4096)"
    using u by (metis uint_nat)
  finally show ?thesis
    by (simp add: blk_off_def BLOCK_SIZE_def)
qed

section \<open>Lengths and contents after a write\<close>

lemma length_file_write:
  "length (file_write f off bs) = (if bs = [] then length f else max (length f) (off + length bs))"
  by (auto simp: file_write_def)

lemma length_file_write_mono: "length f \<le> length (file_write f off bs)"
  by (simp add: length_file_write)

lemma nth_file_write:
  assumes "i < length (file_write f off bs)"
  shows "file_write f off bs ! i =
    (if off \<le> i \<and> i < off + length bs then bs ! (i - off)
     else if i < length f then f ! i else 0)"
  using assms by (auto simp: file_write_def nth_append min_def split: if_splits)

text \<open>A write outside a block leaves the block as it was.\<close>

lemma chunk_file_write_other:
  assumes k: "Suc k * BLOCK_SIZE \<le> length f"
    and disj: "Suc k * BLOCK_SIZE \<le> off \<or> off + length bs \<le> k * BLOCK_SIZE"
  shows "chunk (file_write f off bs) k = chunk f k"
proof (rule nth_equalityI)
  have k': "Suc k * BLOCK_SIZE \<le> length (file_write f off bs)"
    using k length_file_write_mono le_trans by blast
  show "length (chunk (file_write f off bs) k) = length (chunk f k)"
    using length_chunk[OF k] length_chunk[OF k'] by simp
  fix j assume "j < length (chunk (file_write f off bs) k)"
  then have j: "j < BLOCK_SIZE" using length_chunk[OF k'] by simp
  have "k * BLOCK_SIZE + j < length (file_write f off bs)"
    using k' j by simp
  then show "chunk (file_write f off bs) k ! j = chunk f k ! j"
    using nth_chunk[OF k' j] nth_chunk[OF k j] k j disj by (auto simp: nth_file_write)
qed

text \<open>A write of whole blocks at a block boundary stores them.\<close>

lemma chunk_file_write_same:
  assumes len: "length bs = r * BLOCK_SIZE" and j: "j < r"
  shows "chunk (file_write f (k * BLOCK_SIZE) bs) (k + j) = chunk bs j"
proof (rule nth_equalityI)
  let ?g = "file_write f (k * BLOCK_SIZE) bs"
  have jb: "Suc j * BLOCK_SIZE \<le> length bs"
    using Suc_mult_le_BLOCK[OF j] len by simp
  then have "bs \<noteq> []" by auto
  then have "Suc (k + j) * BLOCK_SIZE \<le> length ?g"
    using jb by (simp add: length_file_write algebra_simps)
  note kj = this
  show "length (chunk ?g (k + j)) = length (chunk bs j)"
    using length_chunk[OF kj] length_chunk[OF jb] by simp
  fix i assume "i < length (chunk ?g (k + j))"
  then have i: "i < BLOCK_SIZE" using length_chunk[OF kj] by simp
  have "(k + j) * BLOCK_SIZE + i < length ?g" using kj i by simp
  moreover have "(k + j) * BLOCK_SIZE + i < k * BLOCK_SIZE + length bs"
    using jb i by (simp add: algebra_simps)
  ultimately show "chunk ?g (k + j) ! i = chunk bs j ! i"
    using nth_chunk[OF kj i] nth_chunk[OF jb i] by (simp add: nth_file_write algebra_simps)
qed

lemma file_write_covers:
  assumes "length bs = r * BLOCK_SIZE" "j < r"
  shows "Suc (k + j) * BLOCK_SIZE \<le> length (file_write f (k * BLOCK_SIZE) bs)"
proof -
  have jb: "Suc j * BLOCK_SIZE \<le> length bs"
    using Suc_mult_le_BLOCK[OF assms(2)] assms(1) by simp
  then have "bs \<noteq> []" by auto
  then show ?thesis using jb by (simp add: length_file_write algebra_simps)
qed

section \<open>The outcome of one call on the master file\<close>

lemma pwrite_full:
  assumes "pwrite_sys io f bs off = (r, e, f')" "r = int (length bs)"
  shows "0 \<le> off \<and> f' = file_write f (nat off) bs"
  using assms by (auto simp: pwrite_sys_def split: if_splits io.splits)

lemma pwrite_full_nat:
  "pwrite_sys io f bs (int off) = (int (length bs), e, f') \<Longrightarrow> f' = file_write f off bs"
  using pwrite_full[of io f bs "int off"] by (metis nat_int)

lemma pwrite_ok: "pwrite_sys IoOk f bs (int off) = (int (length bs), EIO, file_write f off bs)"
  by (simp add: pwrite_sys_def)

text \<open>Whatever the outcome, at most the bytes of the call change, and the file does not shrink.\<close>

lemma pwrite_frame:
  assumes "pwrite_sys io f bs (int off) = (r, e, f')"
  shows "length f \<le> length f'"
    and "Suc k * BLOCK_SIZE \<le> length f \<Longrightarrow>
         Suc k * BLOCK_SIZE \<le> off \<or> off + length bs \<le> k * BLOCK_SIZE \<Longrightarrow>
         chunk f' k = chunk f k"
proof -
  have short: "chunk (file_write f off (take n bs)) k = chunk f k"
    if "Suc k * BLOCK_SIZE \<le> length f"
      "Suc k * BLOCK_SIZE \<le> off \<or> off + length bs \<le> k * BLOCK_SIZE" for n
    by (rule chunk_file_write_other) (use that in \<open>auto simp: min_def\<close>)
  show "length f \<le> length f'"
    using assms by (auto simp: pwrite_sys_def length_file_write_mono split: io.splits)
  show "chunk f' k = chunk f k" if "Suc k * BLOCK_SIZE \<le> length f"
      "Suc k * BLOCK_SIZE \<le> off \<or> off + length bs \<le> k * BLOCK_SIZE"
    using assms short[OF that] chunk_file_write_other[OF that]
    by (auto simp: pwrite_sys_def split: io.splits)
qed

lemma pread_full:
  assumes "pread_sys io f n (int off) = (r, bs)" "r = int n"
  shows "bs = take n (drop off f) \<and> off + n \<le> length f \<or> n = 0 \<and> bs = []"
  using assms by (auto simp: pread_sys_def Let_def min_def split: if_splits io.splits)

lemma pread_ok:
  "off + n \<le> length f \<Longrightarrow> pread_sys IoOk f n (int off) = (int n, take n (drop off f))"
  by (simp add: pread_sys_def)

section \<open>Conversions of sizes and offsets\<close>

text \<open>\<open>(int)(x)\<close> of a 64-bit size: the low 32 bits as a signed value.\<close>

definition int_of_size :: "nat \<Rightarrow> int" where
  "int_of_size n = sint (of_nat n :: 32 word)"

lemma int_of_size_small: "n < 2 ^ 31 \<Longrightarrow> int_of_size n = int n"
  by (simp add: int_of_size_def signed_of_nat signed_take_bit_int_eq_self_iff)

text \<open>\<open>uint64_t start_block = offset / BLOCK_SIZE\<close>, a signed division.\<close>

definition start_block_of :: "int \<Rightarrow> u64" where
  "start_block_of offset = word_of_int (offset sdiv int BLOCK_SIZE)"

lemma unat_start_block_of:
  assumes "0 \<le> offset" "offset < 2 ^ 63"
  shows "unat (start_block_of offset) = nat offset div BLOCK_SIZE"
proof -
  have q: "offset sdiv int BLOCK_SIZE = int (nat offset div BLOCK_SIZE)"
    using assms(1) by (simp add: signed_divide_int_def BLOCK_SIZE_def zdiv_int sgn_if)
  have "nat offset div BLOCK_SIZE < 2 ^ 64"
    using assms by (simp add: BLOCK_SIZE_def)
  then show ?thesis
    unfolding start_block_of_def q by (simp add: unat_of_nat take_bit_eq_mod)
qed

end
