(* ===== verification/Meta_Index.thy ===== *)
theory Meta_Index
  imports Posix_File
begin

text \<open>
  \<open>includes/metaindex.h\<close> and the table operations of \<open>src/metaindex.c\<close>. A \<open>MasterInfo\<close> is
  shared by two tables, so the tables hold pointers into a heap of \<open>MasterInfo\<close> objects and
  the heap is part of the modelled \<open>Index\<close>. GLib's hash tables are finite maps; that a map
  is what they implement for the key functions of this program is the locale
  \<open>ghash_key\<close>, interpreted on both pairs of key functions. An access through a pointer
  whose object was freed has no result (\<open>None\<close>).
\<close>

section \<open>Data\<close>

definition HASH_SIZE :: nat where
  "HASH_SIZE = 64"

type_synonym hash = "byte list"
type_synonym ptr = nat

record MasterInfo =
  mi_hash :: hash
  masterBlockIndex :: u64
  refcount :: u32

record BlockIndice =
  bi_path :: path
  bi_offset :: u64

text \<open>
  \<open>heap\<close> and \<open>next_ptr\<close> stand for the C heap: the live \<open>MasterInfo\<close> objects, and an
  address never handed out before.
\<close>

record Index =
  hash_to_master :: "hash \<rightharpoonup> ptr"
  file_to_master :: "BlockIndice \<rightharpoonup> ptr"
  free_block_list :: "u64 list"
  file_to_sizes :: "path \<rightharpoonup> u64"
  heap :: "ptr \<rightharpoonup> MasterInfo"
  next_ptr :: ptr

definition empty_index :: Index where
  "empty_index = \<lparr>hash_to_master = Map.empty, file_to_master = Map.empty,
     free_block_list = [], file_to_sizes = Map.empty, heap = Map.empty, next_ptr = 1\<rparr>"

abbreviation bkey :: "path \<Rightarrow> u64 \<Rightarrow> BlockIndice" where
  "bkey pa b \<equiv> \<lparr>bi_path = pa, bi_offset = b\<rparr>"

lemma BlockIndice_eq_iff: "(x :: BlockIndice) = y \<longleftrightarrow> bi_path x = bi_path y \<and> bi_offset x = bi_offset y"
  by (cases x; cases y) simp

section \<open>Key functions of the hash tables\<close>

text \<open>Little-endian reading of the bytes of an integer.\<close>

primrec le_word :: "byte list \<Rightarrow> 'a::len word" where
  "le_word [] = 0"
| "le_word (b # bs) = or (ucast b) (push_bit 8 (le_word bs))"

text \<open>The key as eight \<open>size_t\<close> words, folded with XOR to 32 bits.\<close>

definition hash512_hash :: "hash \<Rightarrow> u32" where
  "hash512_hash key =
     (let data = (\<lambda>i. le_word (take 8 (drop (8 * i) key)) :: u64);
          folded = fold (\<lambda>i acc. xor acc (data i)) [1..<8] (data 0)
      in ucast (xor folded (drop_bit 32 folded)))"

definition hash512_equal :: "hash \<Rightarrow> hash \<Rightarrow> bool" where
  "hash512_equal a b \<longleftrightarrow> take HASH_SIZE a = take HASH_SIZE b"

text \<open>\<open>g_str_hash\<close>, \<open>g_int64_hash\<close> and \<open>g_str_equal\<close> are GLib's, and parameters here.\<close>

definition blockIndice_hash :: "(path \<Rightarrow> u32) \<Rightarrow> (u64 \<Rightarrow> u32) \<Rightarrow> BlockIndice \<Rightarrow> u32" where
  "blockIndice_hash str_hash int64_hash b =
     (let h1 = str_hash (bi_path b); h2 = int64_hash (bi_offset b) in xor h1 (push_bit 1 h2))"

definition blockIndice_equal :: "(path \<Rightarrow> path \<Rightarrow> bool) \<Rightarrow> BlockIndice \<Rightarrow> BlockIndice \<Rightarrow> bool" where
  "blockIndice_equal str_equal x y \<longleftrightarrow>
     bi_offset x = bi_offset y \<and> str_equal (bi_path x) (bi_path y)"

text \<open>
  GLib's demand on the two functions of a table (equal keys have equal hashes), and what makes
  the table a map on the keys the program uses: \<open>eqf\<close> is equality on them.
\<close>

locale ghash_key =
  fixes ok :: "'k \<Rightarrow> bool" and hf :: "'k \<Rightarrow> u32" and eqf :: "'k \<Rightarrow> 'k \<Rightarrow> bool"
  assumes eqf_iff: "ok a \<Longrightarrow> ok b \<Longrightarrow> eqf a b \<longleftrightarrow> a = b"
    and eqf_hash: "ok a \<Longrightarrow> ok b \<Longrightarrow> eqf a b \<Longrightarrow> hf a = hf b"
begin

text \<open>Scanning the entries of the key's bucket finds what the map holds.\<close>

lemma bucket_scan:
  assumes "ok k" "\<forall>e \<in> set es. ok (fst e)"
  shows "map_option snd (find (\<lambda>e. hf (fst e) = hf k \<and> eqf (fst e) k) es) = map_of es k"
  using assms(2)
proof (induction es)
  case Nil
  then show ?case by simp
next
  case (Cons e es)
  then have "hf (fst e) = hf k \<and> eqf (fst e) k \<longleftrightarrow> fst e = k"
    using eqf_iff[of "fst e" k] eqf_hash[of "fst e" k] assms(1) by auto
  with Cons show ?case by (cases e) simp
qed

end

interpretation sha_key: ghash_key "\<lambda>h. length h = HASH_SIZE" hash512_hash hash512_equal
  by unfold_locales (auto simp: hash512_equal_def)

interpretation block_key: ghash_key "\<lambda>_. True" "blockIndice_hash str_hash int64_hash"
  "blockIndice_equal (=)" for str_hash int64_hash
  by unfold_locales (auto simp: blockIndice_equal_def blockIndice_hash_def)

section \<open>Table operations\<close>

definition lookup_by_file_block :: "Index \<Rightarrow> path \<Rightarrow> u64 \<Rightarrow> ptr option" where
  "lookup_by_file_block ix pa b = file_to_master ix (bkey pa b)"

definition insert_file_block :: "Index \<Rightarrow> path \<Rightarrow> u64 \<Rightarrow> ptr \<Rightarrow> Index" where
  "insert_file_block ix pa b p = ix\<lparr>file_to_master := (file_to_master ix)(bkey pa b \<mapsto> p)\<rparr>"

definition remove_file_block :: "Index \<Rightarrow> path \<Rightarrow> u64 \<Rightarrow> Index" where
  "remove_file_block ix pa b = ix\<lparr>file_to_master := (file_to_master ix)(bkey pa b := None)\<rparr>"

definition lookup_by_hash :: "Index \<Rightarrow> hash \<Rightarrow> ptr option" where
  "lookup_by_hash ix h = hash_to_master ix h"

definition insert_hash :: "Index \<Rightarrow> hash \<Rightarrow> ptr \<Rightarrow> Index" where
  "insert_hash ix h p = ix\<lparr>hash_to_master := (hash_to_master ix)(h \<mapsto> p)\<rparr>"

definition remove_hash :: "Index \<Rightarrow> hash \<Rightarrow> Index" where
  "remove_hash ix h = ix\<lparr>hash_to_master := (hash_to_master ix)(h := None)\<rparr>"

lemmas index_op_defs = lookup_by_file_block_def insert_file_block_def remove_file_block_def
  lookup_by_hash_def insert_hash_def remove_hash_def

text \<open>The laws the deduplication layer relies on, for either table.\<close>

locale index_table =
  fixes look :: "Index \<Rightarrow> 'k \<Rightarrow> ptr option"
    and ins :: "Index \<Rightarrow> 'k \<Rightarrow> ptr \<Rightarrow> Index"
    and rem :: "Index \<Rightarrow> 'k \<Rightarrow> Index"
  assumes look_ins: "look (ins ix k p) k' = (if k' = k then Some p else look ix k')"
    and look_rem: "look (rem ix k) k' = (if k' = k then None else look ix k')"
begin

lemma look_ins_batch:
  "look (fold (\<lambda>(k, p) ix. ins ix k p) kps ix) k
   = (case map_of (rev kps) k of None \<Rightarrow> look ix k | Some p \<Rightarrow> Some p)"
  by (induction kps arbitrary: ix)
    (auto simp: look_ins map_add_def split: option.splits)

lemma look_rem_batch:
  "look (fold (\<lambda>k ix. rem ix k) ks ix) k = (if k \<in> set ks then None else look ix k)"
  by (induction ks arbitrary: ix) (auto simp: look_rem)

lemma look_rem_ins: "look (rem (ins ix k p) k) k' = look (rem ix k) k'"
  by (simp add: look_ins look_rem)

end

interpretation by_hash: index_table lookup_by_hash insert_hash remove_hash
  by unfold_locales (auto simp: index_op_defs)

interpretation by_file: index_table
  "\<lambda>ix (k :: BlockIndice). lookup_by_file_block ix (bi_path k) (bi_offset k)"
  "\<lambda>ix (k :: BlockIndice). insert_file_block ix (bi_path k) (bi_offset k)"
  "\<lambda>ix (k :: BlockIndice). remove_file_block ix (bi_path k) (bi_offset k)"
  by unfold_locales (simp_all add: index_op_defs BlockIndice_eq_iff)

section \<open>Objects on the heap\<close>

text \<open>\<open>g_new(MasterInfo, 1)\<close> and the stores that initialise it.\<close>

definition new_info :: "MasterInfo \<Rightarrow> Index \<Rightarrow> ptr \<times> Index" where
  "new_info info ix =
     (next_ptr ix, ix\<lparr>heap := (heap ix)(next_ptr ix \<mapsto> info), next_ptr := Suc (next_ptr ix)\<rparr>)"

text \<open>\<open>free(info)\<close>; freeing an object twice is undefined.\<close>

definition free_info :: "ptr \<Rightarrow> Index \<Rightarrow> Index option" where
  "free_info p ix = (case heap ix p of None \<Rightarrow> None | Some _ \<Rightarrow> Some (ix\<lparr>heap := (heap ix)(p := None)\<rparr>))"

definition set_master_block :: "ptr \<Rightarrow> u64 \<Rightarrow> Index \<Rightarrow> Index option" where
  "set_master_block p s ix = (case heap ix p of None \<Rightarrow> None
     | Some info \<Rightarrow> Some (ix\<lparr>heap := (heap ix)(p \<mapsto> info\<lparr>masterBlockIndex := s\<rparr>)\<rparr>))"

text \<open>\<open>__atomic_fetch_add(&info->refcount, 1)\<close>: 32 bits, wrapping.\<close>

definition fetch_add_ref :: "ptr \<Rightarrow> Index \<Rightarrow> Index option" where
  "fetch_add_ref p ix = (case heap ix p of None \<Rightarrow> None
     | Some info \<Rightarrow> Some (ix\<lparr>heap := (heap ix)(p \<mapsto> info\<lparr>refcount := refcount info + 1\<rparr>)\<rparr>))"

text \<open>\<open>__atomic_fetch_sub(&info->refcount, 1)\<close>: the old value and the new state.\<close>

definition fetch_sub_ref :: "ptr \<Rightarrow> Index \<Rightarrow> (u32 \<times> Index) option" where
  "fetch_sub_ref p ix = (case heap ix p of None \<Rightarrow> None
     | Some info \<Rightarrow> Some (refcount info,
         ix\<lparr>heap := (heap ix)(p \<mapsto> info\<lparr>refcount := refcount info - 1\<rparr>)\<rparr>))"

text \<open>
  The block every release site of \<open>dedup.c\<close> has: decrement; if that was the last reference,
  take the slot, drop the hash entry and free the object. The site decides which list the
  slot joins.
\<close>

definition release_ref :: "ptr \<Rightarrow> Index \<Rightarrow> (u64 list \<times> Index) option" where
  "release_ref p ix = do {
     (old, ix) \<leftarrow> fetch_sub_ref p ix;
     if old = 1 then do {
       info \<leftarrow> heap ix p;
       let slot = masterBlockIndex info;
       let ix = remove_hash ix (mi_hash info);
       ix \<leftarrow> free_info p ix;
       Some ([slot], ix)
     } else Some ([], ix)
   }"

lemma release_ref_alt:
  "release_ref p ix = (case heap ix p of None \<Rightarrow> None | Some info \<Rightarrow>
     if refcount info = 1
     then Some ([masterBlockIndex info],
            ix\<lparr>hash_to_master := (hash_to_master ix)(mi_hash info := None),
               heap := (heap ix)(p := None)\<rparr>)
     else Some ([], ix\<lparr>heap := (heap ix)(p \<mapsto> info\<lparr>refcount := refcount info - 1\<rparr>)\<rparr>))"
  by (auto simp: release_ref_def fetch_sub_ref_def free_info_def remove_hash_def Let_def
      split: option.splits)

text \<open>Releasing a reference does not read the file table, so the two can be exchanged.\<close>

lemma release_ref_file_table:
  "release_ref p (ix\<lparr>file_to_master := m\<rparr>)
   = map_option (\<lambda>(ss, ix). (ss, ix\<lparr>file_to_master := m\<rparr>)) (release_ref p ix)"
  by (auto simp: release_ref_alt split: option.splits)

lemma release_ref_frame:
  assumes "release_ref p ix = Some (ss, ix')"
  shows "file_to_master ix' = file_to_master ix" "free_block_list ix' = free_block_list ix"
    "file_to_sizes ix' = file_to_sizes ix" "next_ptr ix' = next_ptr ix"
  using assms by (auto simp: release_ref_alt split: option.splits if_splits)

end
