(* ===== verification/Index_Invariant.thy ===== *)
theory Index_Invariant
  imports Meta_Index
begin

text \<open>
  The invariant of the index, stated so that it holds in the middle of an operation too:
  \<open>E\<close> is the multiset of references that an operation in progress holds (one per plan
  entry), \<open>P\<close> the set of \<open>MasterInfo\<close> objects it has created and not yet published, and
  \<open>H\<close> the slots of the master file it holds. Each primitive of \<open>Meta_Index\<close> has one lemma
  that says how it moves these. The content invariant ties the hash table to the master file.
\<close>

section \<open>The invariant\<close>

definition slot_of :: "Index \<Rightarrow> ptr \<Rightarrow> u64" where
  "slot_of ix p = masterBlockIndex (the (heap ix p))"

definition live_slots :: "Index \<Rightarrow> u64 set" where
  "live_slots ix = slot_of ix ` ran (hash_to_master ix)"

text \<open>Reference counts are exact, and no object without a reference stays allocated.\<close>

definition counts_exact :: "ptr multiset \<Rightarrow> Index \<Rightarrow> bool" where
  "counts_exact E ix \<longleftrightarrow>
     (\<forall>p info. heap ix p = Some info \<longrightarrow>
        unat (refcount info) = card (refs (file_to_master ix) p) + count E p
        \<and> 0 < card (refs (file_to_master ix) p) + count E p)"

definition wf_index :: "ptr multiset \<Rightarrow> ptr set \<Rightarrow> Index \<Rightarrow> bool" where
  "wf_index E P ix \<longleftrightarrow>
     finite (dom (file_to_master ix))
     \<and> (\<forall>p \<in> dom (heap ix). p < next_ptr ix)
     \<and> ran (hash_to_master ix) \<union> P = dom (heap ix) \<and> ran (hash_to_master ix) \<inter> P = {}
     \<and> ran (file_to_master ix) \<subseteq> ran (hash_to_master ix)
     \<and> (\<forall>h p. hash_to_master ix h = Some p \<longrightarrow> mi_hash (the (heap ix p)) = h)
     \<and> set_mset E \<subseteq> dom (heap ix)
     \<and> counts_exact E ix"

text \<open>Every slot below \<open>next\<close> is exactly one of: free, live, held.\<close>

definition wf_slots :: "u64 set \<Rightarrow> u64 \<Rightarrow> Index \<Rightarrow> bool" where
  "wf_slots H next ix \<longleftrightarrow>
     distinct (free_block_list ix) \<and> inj_on (slot_of ix) (ran (hash_to_master ix))
     \<and> set (free_block_list ix) \<inter> live_slots ix = {}
     \<and> set (free_block_list ix) \<inter> H = {} \<and> live_slots ix \<inter> H = {}
     \<and> set (free_block_list ix) \<union> live_slots ix \<union> H = {s. s < next}"

text \<open>A published hash is the hash of the block its slot holds.\<close>

definition wf_content :: "(byte list \<Rightarrow> hash) \<Rightarrow> fbytes \<Rightarrow> Index \<Rightarrow> bool" where
  "wf_content sha f ix \<longleftrightarrow>
     (\<forall>h p. hash_to_master ix h = Some p \<longrightarrow>
        Suc (unat (slot_of ix p)) * BLOCK_SIZE \<le> length f
        \<and> sha (chunk f (unat (slot_of ix p))) = h)"

text \<open>A mapped block lies inside the recorded size of its file, a multiple of the block size.\<close>

definition wf_sizes :: "Index \<Rightarrow> bool" where
  "wf_sizes ix \<longleftrightarrow>
     (\<forall>k. file_to_master ix k \<noteq> None \<longrightarrow>
        (\<exists>s. file_to_sizes ix (bi_path k) = Some s \<and> Suc (unat (bi_offset k)) * BLOCK_SIZE \<le> unat s))
     \<and> (\<forall>pa s. file_to_sizes ix pa = Some s \<longrightarrow> BLOCK_SIZE dvd unat s)"

text \<open>What a reader of the index sees: the block behind each file position.\<close>

definition block_view :: "fbytes \<Rightarrow> Index \<Rightarrow> BlockIndice \<rightharpoonup> byte list" where
  "block_view f ix k = map_option (\<lambda>p. chunk f (unat (slot_of ix p))) (file_to_master ix k)"

section \<open>Consequences\<close>

lemma wf_indexD:
  assumes "wf_index E P ix"
  shows "finite (dom (file_to_master ix))"
    and "p \<in> dom (heap ix) \<Longrightarrow> p < next_ptr ix"
    and "ran (hash_to_master ix) \<union> P = dom (heap ix)"
    and "ran (hash_to_master ix) \<inter> P = {}"
    and "ran (file_to_master ix) \<subseteq> ran (hash_to_master ix)"
    and "hash_to_master ix h = Some p \<Longrightarrow> mi_hash (the (heap ix p)) = h"
    and "set_mset E \<subseteq> dom (heap ix)"
    and "heap ix p = Some info \<Longrightarrow>
         unat (refcount info) = card (refs (file_to_master ix) p) + count E p"
    and "heap ix p = Some info \<Longrightarrow> 0 < card (refs (file_to_master ix) p) + count E p"
  using assms by (simp_all only: wf_index_def counts_exact_def)

lemma wf_indexI:
  assumes "finite (dom (file_to_master ix))"
    and "\<And>p info. heap ix p = Some info \<Longrightarrow> p < next_ptr ix"
    and "ran (hash_to_master ix) \<union> P = dom (heap ix)"
    and "ran (hash_to_master ix) \<inter> P = {}"
    and "ran (file_to_master ix) \<subseteq> ran (hash_to_master ix)"
    and "\<And>h p. hash_to_master ix h = Some p \<Longrightarrow> mi_hash (the (heap ix p)) = h"
    and "set_mset E \<subseteq> dom (heap ix)"
    and "\<And>p info. heap ix p = Some info \<Longrightarrow>
         unat (refcount info) = card (refs (file_to_master ix) p) + count E p
         \<and> 0 < card (refs (file_to_master ix) p) + count E p"
  shows "wf_index E P ix"
  unfolding wf_index_def counts_exact_def using assms by (intro conjI ballI allI impI) auto

lemma wf_index_heap:
  assumes "wf_index E P ix"
  shows "hash_to_master ix h = Some p \<Longrightarrow> \<exists>info. heap ix p = Some info \<and> mi_hash info = h"
    and "file_to_master ix k = Some p \<Longrightarrow> \<exists>info. heap ix p = Some info"
    and "file_to_master ix k = Some p \<Longrightarrow> p \<in> ran (hash_to_master ix)"
    and "p \<in># E \<Longrightarrow> \<exists>info. heap ix p = Some info"
proof -
  have dom: "p \<in> ran (hash_to_master ix) \<Longrightarrow> \<exists>info. heap ix p = Some info" for p
    using wf_indexD(3)[OF assms] by blast
  show ran: "file_to_master ix k = Some p \<Longrightarrow> p \<in> ran (hash_to_master ix)"
    using wf_indexD(5)[OF assms] ranI by fast
  then show "file_to_master ix k = Some p \<Longrightarrow> \<exists>info. heap ix p = Some info"
    by (rule dom)
  show "hash_to_master ix h = Some p \<Longrightarrow> \<exists>info. heap ix p = Some info \<and> mi_hash info = h"
    using dom[OF ranI] wf_indexD(6)[OF assms] by fastforce
  show "p \<in># E \<Longrightarrow> \<exists>info. heap ix p = Some info"
    using wf_indexD(7)[OF assms] by blast
qed

lemma wf_index_published:
  assumes "wf_index E P ix" "heap ix p = Some info" "p \<notin> P"
  shows "hash_to_master ix (mi_hash info) = Some p"
proof -
  have "p \<in> ran (hash_to_master ix)"
    using wf_indexD(3)[OF assms(1)] assms(2,3) by blast
  then obtain h where "hash_to_master ix h = Some p"
    by (auto simp: ran_def)
  with wf_indexD(6)[OF assms(1) this] assms(2) show ?thesis by simp
qed

lemma wf_index_ran_inj:
  "wf_index E P ix \<Longrightarrow> hash_to_master ix h = Some p \<Longrightarrow> hash_to_master ix h' = Some p \<Longrightarrow> h = h'"
  using wf_indexD(6) by metis

lemma wf_index_finite_heap: "wf_index E P ix \<Longrightarrow> finite (dom (heap ix))"
  using wf_indexD(2) by (meson finite_nat_set_iff_bounded)

section \<open>Creating and publishing an object\<close>

lemma new_info_wf:
  assumes wf: "wf_index E P ix" and nw: "new_info info ix = (p, ix')" and rc: "refcount info = 1"
  shows "wf_index (add_mset p E) (insert p P) ix'"
    and "p \<notin> dom (heap ix)" and "p \<notin> P" and "p \<notin># E"
    and "ix' = ix\<lparr>heap := (heap ix)(p \<mapsto> info), next_ptr := Suc p\<rparr>"
proof -
  have p: "p = next_ptr ix" and ix': "ix' = ix\<lparr>heap := (heap ix)(p \<mapsto> info), next_ptr := Suc p\<rparr>"
    using nw by (auto simp: new_info_def)
  show fresh: "p \<notin> dom (heap ix)"
    using wf_indexD(2)[OF wf, of p] p by blast
  show E: "p \<notin># E" and nP: "p \<notin> P"
    using wf_indexD(3,7)[OF wf] fresh by blast+
  show "ix' = ix\<lparr>heap := (heap ix)(p \<mapsto> info), next_ptr := Suc p\<rparr>" by (rule ix')
  have nh: "p \<notin> ran (hash_to_master ix)" and nf: "p \<notin> ran (file_to_master ix)"
    using wf_indexD(3,5)[OF wf] fresh by blast+
  then have none: "refs (file_to_master ix) p = {}"
    by (simp add: refs_nonempty_iff[symmetric])
  show "wf_index (add_mset p E) (insert p P) ix'"
  proof (rule wf_indexI)
    show "finite (dom (file_to_master ix'))" using wf_indexD(1)[OF wf] ix' by simp
    show "q < next_ptr ix'" if "heap ix' q = Some i" for q i
      using that wf_indexD(2)[OF wf, of q] p by (auto simp: ix' less_Suc_eq split: if_splits)
    show "ran (hash_to_master ix') \<union> insert p P = dom (heap ix')"
      using wf_indexD(3)[OF wf] by (auto simp: ix')
    show "ran (hash_to_master ix') \<inter> insert p P = {}"
      using wf_indexD(4)[OF wf] nh by (auto simp: ix')
    show "ran (file_to_master ix') \<subseteq> ran (hash_to_master ix')"
      using wf_indexD(5)[OF wf] by (simp add: ix')
    show "mi_hash (the (heap ix' q)) = h" if "hash_to_master ix' h = Some q" for h q
      using that wf_indexD(6)[OF wf, of h q] nh by (auto simp: ix' ran_def)
    show "set_mset (add_mset p E) \<subseteq> dom (heap ix')"
      using wf_indexD(7)[OF wf] by (auto simp: ix')
    show "unat (refcount i) = card (refs (file_to_master ix') q) + count (add_mset p E) q
        \<and> 0 < card (refs (file_to_master ix') q) + count (add_mset p E) q"
      if "heap ix' q = Some i" for q i
      using that wf_indexD(8,9)[OF wf, of q i] none E rc
      by (auto simp: ix' not_in_iff split: if_splits)
  qed
qed

lemma insert_hash_wf:
  assumes wf: "wf_index E P ix" and p: "p \<in> P" "heap ix p = Some info"
    and free: "hash_to_master ix (mi_hash info) = None"
  shows "wf_index E (P - {p}) (insert_hash ix (mi_hash info) p)"
proof -
  have ran: "ran ((hash_to_master ix)(mi_hash info \<mapsto> p)) = insert p (ran (hash_to_master ix))"
    using free by (simp add: ran_map_upd)
  show ?thesis
  proof (rule wf_indexI, goal_cases)
    case 3
    then show ?case using wf_indexD(3)[OF wf] ran p by (auto simp: insert_hash_def)
  next
    case 4
    then show ?case using wf_indexD(4)[OF wf] ran by (auto simp: insert_hash_def)
  next
    case 5
    then show ?case using wf_indexD(5)[OF wf] ran by (auto simp: insert_hash_def)
  next
    case (6 h q)
    then show ?case using wf_indexD(6)[OF wf, of h q] p by (auto simp: insert_hash_def split: if_splits)
  qed (use wf_indexD[OF wf] in \<open>auto simp: insert_hash_def\<close>)
qed

section \<open>Taking and moving references\<close>

lemma fetch_add_ref_wf:
  assumes wf: "wf_index E P ix" and p: "heap ix p = Some info"
    and room: "card (refs (file_to_master ix) p) + count E p + 1 < 2 ^ 32"
  obtains ix' where "fetch_add_ref p ix = Some ix'" "wf_index (add_mset p E) P ix'"
    "ix' = ix\<lparr>heap := (heap ix)(p \<mapsto> info\<lparr>refcount := refcount info + 1\<rparr>)\<rparr>"
proof -
  let ?ix = "ix\<lparr>heap := (heap ix)(p \<mapsto> info\<lparr>refcount := refcount info + 1\<rparr>)\<rparr>"
  have c: "unat (refcount info) = card (refs (file_to_master ix) p) + count E p"
    using wf p unfolding wf_index_def counts_exact_def by blast
  then have "unat (refcount info + 1) = Suc (unat (refcount info))"
    using room by (intro unat_plus_one32) simp
  note inc = this
  have "wf_index (add_mset p E) P ?ix"
  proof (rule wf_indexI, goal_cases)
    case (2 q i)
    then show ?case using wf_indexD(2)[OF wf, of q] p by (auto split: if_splits)
  next
    case 3
    then show ?case using wf_indexD(3)[OF wf] p by auto
  next
    case (6 h q)
    then show ?case using wf_indexD(6)[OF wf, of h q] p by auto
  next
    case 7
    then show ?case using wf_indexD(7)[OF wf] p by auto
  next
    case (8 q i)
    then show ?case using wf_indexD(8,9)[OF wf, of q] inc c p by (auto split: if_splits)
  qed (use wf_indexD(1,4,5)[OF wf] in simp_all)
  then show ?thesis
    using that[of ?ix] p by (simp add: fetch_add_ref_def)
qed

text \<open>Deleting a file mapping leaves its reference with the operation.\<close>

lemma remove_file_block_wf:
  assumes wf: "wf_index E P ix" and q: "file_to_master ix (bkey pa b) = Some q"
  shows "wf_index (add_mset q E) P (remove_file_block ix pa b)"
proof -
  let ?m = "file_to_master ix"
  have fin: "finite (dom ?m)" using wf unfolding wf_index_def by blast
  have q_pos: "0 < card (refs ?m q)" by (rule card_refs_pos[OF fin q])
  have "q \<in> dom (heap ix)" using wf_index_heap(2)[OF wf q] by auto
  moreover have "ran (?m(bkey pa b := None)) \<subseteq> ran ?m" by (auto simp: ran_def)
  moreover have "counts_exact (add_mset q E) (remove_file_block ix pa b)"
    using wf q q_pos unfolding wf_index_def counts_exact_def
    by (auto simp: remove_file_block_def card_refs_delete[OF fin])
  ultimately show ?thesis
    using wf unfolding wf_index_def by (auto simp: remove_file_block_def)
qed

text \<open>Inserting a file mapping stores a reference the operation holds.\<close>

lemma insert_file_block_wf:
  assumes wf: "wf_index E P ix" and k: "file_to_master ix (bkey pa b) = None"
    and p: "p \<in># E" "p \<in> ran (hash_to_master ix)"
  shows "wf_index (E - {#p#}) P (insert_file_block ix pa b p)"
proof -
  let ?m = "file_to_master ix"
  have fin: "finite (dom ?m)" using wf unfolding wf_index_def by blast
  have "ran (?m(bkey pa b \<mapsto> p)) \<subseteq> insert p (ran ?m)"
    using k by (simp add: ran_map_upd)
  moreover have "0 < count E p" using p(1) by simp
  moreover have "counts_exact (E - {#p#}) (insert_file_block ix pa b p)"
    using wf p(1) unfolding wf_index_def counts_exact_def
    by (auto simp: insert_file_block_def card_refs_update_fresh[OF fin k])
  moreover have "set_mset (E - {#p#}) \<subseteq> set_mset E"
    by (meson in_diffD subsetI)
  ultimately show ?thesis
    using wf p(2) fin unfolding wf_index_def by (auto simp: insert_file_block_def)
qed

section \<open>Giving up a reference\<close>

lemma slot_of_heap_cong: "heap ix p = heap ix' p \<Longrightarrow> slot_of ix p = slot_of ix' p"
  by (simp add: slot_of_def)

text \<open>The two outcomes of a release that the invariant allows.\<close>

lemma release_ref_cases:
  assumes wf: "wf_index (add_mset q E) P ix" and keep: "q \<in> P \<longrightarrow> q \<in># E"
  obtains (last) info where "heap ix q = Some info" "q \<notin> P"
      "hash_to_master ix (mi_hash info) = Some q"
      "refs (file_to_master ix) q = {}" "q \<notin># E"
      "release_ref q ix = Some ([slot_of ix q], ix\<lparr>hash_to_master := (hash_to_master ix)(mi_hash info := None),
          heap := (heap ix)(q := None)\<rparr>)"
  | (more) info where "heap ix q = Some info" "1 < unat (refcount info)"
      "release_ref q ix = Some ([], ix\<lparr>heap := (heap ix)(q \<mapsto> info\<lparr>refcount := refcount info - 1\<rparr>)\<rparr>)"
proof -
  obtain info where info: "heap ix q = Some info"
    using wf_index_heap(4)[OF wf, of q] by auto
  have fin: "finite (dom (file_to_master ix))" using wf unfolding wf_index_def by blast
  have c: "unat (refcount info) = card (refs (file_to_master ix) q) + Suc (count E q)"
    using wf info unfolding wf_index_def counts_exact_def by auto
  show ?thesis
  proof (cases "refcount info = 1")
    case True
    then have "card (refs (file_to_master ix) q) = 0" "count E q = 0"
      using c by (simp_all add: unat_eq_1_32)
    then have e: "refs (file_to_master ix) q = {}" "q \<notin># E"
      using fin by (auto simp: not_in_iff)
    then have "q \<notin> P" using keep by blast
    with True e info show ?thesis
      by (intro last[of info])
        (auto simp: release_ref_alt slot_of_def wf_index_published[OF wf info])
  next
    case False
    then have "1 < unat (refcount info)"
      using c by (metis Suc_lessI add_Suc_right unat_eq_1_32 zero_less_Suc One_nat_def)
    with False info show ?thesis
      by (intro more[of info]) (auto simp: release_ref_alt)
  qed
qed

lemma release_ref_wf:
  assumes wf: "wf_index (add_mset q E) P ix" and keep: "q \<in> P \<longrightarrow> q \<in># E"
  obtains ss ix' where "release_ref q ix = Some (ss, ix')" "wf_index E P ix'"
    "ran (hash_to_master ix') = ran (hash_to_master ix) - (if ss = [] then {} else {q})"
    "ss = [] \<or> ss = [slot_of ix q] \<and> q \<in> ran (hash_to_master ix)"
    "\<forall>p \<in> dom (heap ix'). p \<in> dom (heap ix) \<and> slot_of ix' p = slot_of ix p"
    "\<forall>h p. hash_to_master ix' h = Some p \<longrightarrow> hash_to_master ix h = Some p"
proof (rule release_ref_cases[OF wf keep])
  fix info
  assume q: "heap ix q = Some info" "q \<notin> P" "hash_to_master ix (mi_hash info) = Some q"
    and e: "refs (file_to_master ix) q = {}" "q \<notin># E"
    and rel: "release_ref q ix = Some ([slot_of ix q],
      ix\<lparr>hash_to_master := (hash_to_master ix)(mi_hash info := None), heap := (heap ix)(q := None)\<rparr>)"
  let ?ix = "ix\<lparr>hash_to_master := (hash_to_master ix)(mi_hash info := None), heap := (heap ix)(q := None)\<rparr>"
  have ran: "ran ((hash_to_master ix)(mi_hash info := None)) = ran (hash_to_master ix) - {q}"
    using q(3) wf_index_ran_inj[OF wf] by (intro ran_delete_inj) blast+
  have nf: "q \<notin> ran (file_to_master ix)"
    using e(1) by (auto simp: refs_nonempty_iff[symmetric])
  have "wf_index E P ?ix"
  proof (rule wf_indexI, goal_cases)
    case (2 p i)
    then show ?case using wf_indexD(2)[OF wf, of p] by (auto split: if_splits)
  next
    case 3
    then show ?case using wf_indexD(3)[OF wf] ran q(2) by auto
  next
    case 4
    then show ?case using wf_indexD(4)[OF wf] ran by auto
  next
    case 5
    then show ?case using wf_indexD(5)[OF wf] ran nf by auto
  next
    case (6 h p)
    then show ?case using wf_indexD(6)[OF wf, of h p] wf_index_ran_inj[OF wf _ q(3), of h]
      by (auto split: if_splits)
  next
    case 7
    then show ?case using wf_indexD(7)[OF wf] e(2) by auto
  next
    case (8 p i)
    then show ?case using wf_indexD(8,9)[OF wf, of p i] by (auto split: if_splits)
  qed (use wf_indexD(1)[OF wf] in simp)
  moreover have "q \<in> ran (hash_to_master ix)"
    using q(3) by (rule ranI)
  ultimately show ?thesis
    using rel ran by (intro that[of "[slot_of ix q]" ?ix]) (auto simp: slot_of_def split: if_splits)
next
  fix info
  assume q: "heap ix q = Some info" "1 < unat (refcount info)"
    and rel: "release_ref q ix = Some ([], ix\<lparr>heap := (heap ix)(q \<mapsto> info\<lparr>refcount := refcount info - 1\<rparr>)\<rparr>)"
  let ?ix = "ix\<lparr>heap := (heap ix)(q \<mapsto> info\<lparr>refcount := refcount info - 1\<rparr>)\<rparr>"
  have dec: "unat (refcount info - 1) = unat (refcount info) - 1"
    by (rule unat_minus_one32) (use q(2) in simp)
  have "wf_index E P ?ix"
  proof (rule wf_indexI, goal_cases)
    case (2 p i)
    then show ?case using wf_indexD(2)[OF wf, of p] q(1) by (auto split: if_splits)
  next
    case 3
    then show ?case using wf_indexD(3)[OF wf] q(1) by auto
  next
    case (6 h p)
    then show ?case using wf_indexD(6)[OF wf, of h p] q(1) by auto
  next
    case 7
    then show ?case using wf_indexD(7)[OF wf] by auto
  next
    case (8 p i)
    then show ?case using wf_indexD(8,9)[OF wf, of p] q dec by (auto split: if_splits)
  qed (use wf_indexD(1,4,5)[OF wf] in simp_all)
  then show ?thesis
    using rel q(1) by (intro that[of "[]" ?ix]) (auto simp: slot_of_def)
qed

text \<open>A release moves the slot it frees from the live ones to the held ones.\<close>

lemma release_ref_slots:
  assumes slots: "wf_slots H next ix"
    and ran: "ran (hash_to_master ix') = ran (hash_to_master ix) - (if ss = [] then {} else {q})"
    and ss: "ss = [] \<or> ss = [slot_of ix q] \<and> q \<in> ran (hash_to_master ix)"
    and same: "\<And>p. p \<in> ran (hash_to_master ix') \<Longrightarrow> slot_of ix' p = slot_of ix p"
    and fl: "free_block_list ix' = free_block_list ix"
  shows "wf_slots (H \<union> set ss) next ix'" "set ss \<inter> H = {}" "distinct ss"
proof -
  have sub: "ran (hash_to_master ix') \<subseteq> ran (hash_to_master ix)" using ran by auto
  have inj: "inj_on (slot_of ix) (ran (hash_to_master ix))"
    using slots unfolding wf_slots_def by blast
  have inj': "inj_on (slot_of ix') (ran (hash_to_master ix'))"
    using inj_on_subset[OF inj sub] same by (simp cong: inj_on_cong)
  have "slot_of ix' ` ran (hash_to_master ix') = slot_of ix ` ran (hash_to_master ix')"
    using same by (intro image_cong) auto
  then have img: "live_slots ix' = slot_of ix ` ran (hash_to_master ix')"
    by (simp add: live_slots_def)
  have live: "live_slots ix' = live_slots ix - set ss"
  proof (cases "ss = []")
    case True
    then show ?thesis using img ran by (simp add: live_slots_def)
  next
    case False
    then have "ss = [slot_of ix q]" "{q} \<subseteq> ran (hash_to_master ix)" using ss by auto
    with inj_on_image_set_diff[OF inj, of "ran (hash_to_master ix)" "{q}"] img ran False
    show ?thesis by (simp add: live_slots_def)
  qed
  have ss_live: "set ss \<subseteq> live_slots ix"
    using ss unfolding live_slots_def by auto
  show "set ss \<inter> H = {}" "distinct ss"
    using ss_live ss slots unfolding wf_slots_def by auto
  show "wf_slots (H \<union> set ss) next ix'"
    using slots live ss_live inj' fl unfolding wf_slots_def by auto
qed

lemma wf_content_mono:
  assumes "wf_content sha f ix"
    and "\<And>h p. hash_to_master ix' h = Some p \<Longrightarrow> hash_to_master ix h = Some p \<and> slot_of ix' p = slot_of ix p"
  shows "wf_content sha f ix'"
  using assms unfolding wf_content_def by metis

section \<open>Returning held slots\<close>

lemma prepend_slots_wf:
  assumes "wf_slots H next ix" "set ss \<subseteq> H" "distinct ss"
  shows "wf_slots (H - set ss) next (ix\<lparr>free_block_list := ss @ free_block_list ix\<rparr>)"
proof -
  let ?ix = "ix\<lparr>free_block_list := ss @ free_block_list ix\<rparr>"
  have "slot_of ?ix = slot_of ix" by (auto simp: slot_of_def)
  then have "live_slots ?ix = live_slots ix" by (simp add: live_slots_def)
  with assms \<open>slot_of ?ix = slot_of ix\<close> show ?thesis
    unfolding wf_slots_def by auto
qed

lemma wf_index_free_list [simp]: "wf_index E P (ix\<lparr>free_block_list := fl\<rparr>) = wf_index E P ix"
  by (simp add: wf_index_def counts_exact_def)

lemma wf_index_sizes [simp]: "wf_index E P (ix\<lparr>file_to_sizes := z\<rparr>) = wf_index E P ix"
  by (simp add: wf_index_def counts_exact_def)

lemma slot_of_simps [simp]:
  "slot_of (ix\<lparr>free_block_list := fl\<rparr>) = slot_of ix"
  "slot_of (ix\<lparr>file_to_sizes := z\<rparr>) = slot_of ix"
  "slot_of (ix\<lparr>file_to_master := m\<rparr>) = slot_of ix"
  "slot_of (ix\<lparr>hash_to_master := g\<rparr>) = slot_of ix"
  by (auto simp: slot_of_def)

lemma wf_slots_simps [simp]:
  "wf_slots H next (ix\<lparr>file_to_sizes := z\<rparr>) = wf_slots H next ix"
  "wf_slots H next (ix\<lparr>file_to_master := m\<rparr>) = wf_slots H next ix"
  by (auto simp: wf_slots_def live_slots_def)

lemma wf_content_simps [simp]:
  "wf_content sha f (ix\<lparr>free_block_list := fl\<rparr>) = wf_content sha f ix"
  "wf_content sha f (ix\<lparr>file_to_sizes := z\<rparr>) = wf_content sha f ix"
  "wf_content sha f (ix\<lparr>file_to_master := m\<rparr>) = wf_content sha f ix"
  by (auto simp: wf_content_def)

section \<open>Steps that touch unpublished objects only\<close>

lemma wf_slots_cong:
  assumes "hash_to_master ix' = hash_to_master ix" "free_block_list ix' = free_block_list ix"
    and "\<And>p. p \<in> ran (hash_to_master ix) \<Longrightarrow> slot_of ix' p = slot_of ix p"
  shows "wf_slots H nb ix' = wf_slots H nb ix"
proof -
  have "inj_on (slot_of ix') (ran (hash_to_master ix)) = inj_on (slot_of ix) (ran (hash_to_master ix))"
    using assms(3) by (rule inj_on_cong)
  moreover have "live_slots ix' = live_slots ix"
    unfolding live_slots_def assms(1) using assms(3) by (rule image_cong[OF refl])
  ultimately show ?thesis by (simp add: wf_slots_def assms(1,2))
qed

lemma wf_content_cong:
  assumes "hash_to_master ix' = hash_to_master ix"
    and "\<And>p. p \<in> ran (hash_to_master ix) \<Longrightarrow> slot_of ix' p = slot_of ix p"
  shows "wf_content sha f ix' = wf_content sha f ix"
proof -
  have "slot_of ix' p = slot_of ix p" if "hash_to_master ix h = Some p" for h p
    using assms(2) that by (simp add: ranI)
  then show ?thesis unfolding wf_content_def assms(1) by metis
qed

section \<open>The invariants together\<close>

definition wf_all ::
  "(byte list \<Rightarrow> hash) \<Rightarrow> fbytes \<Rightarrow> u64 \<Rightarrow> ptr multiset \<Rightarrow> ptr set \<Rightarrow> u64 set \<Rightarrow> Index \<Rightarrow> bool"
where
  "wf_all sha f next E P H ix \<longleftrightarrow>
     wf_index E P ix \<and> wf_slots H next ix \<and> wf_content sha f ix"

lemma dom_block_view: "dom (block_view f ix) = dom (file_to_master ix)"
  by (auto simp: block_view_def)

lemma block_view_None_iff: "block_view f ix k = None \<longleftrightarrow> file_to_master ix k = None"
  by (simp add: block_view_def)

lemma wf_sizes_antimono:
  assumes "wf_sizes ix" "file_to_sizes ix' = file_to_sizes ix"
    and "dom (file_to_master ix') \<subseteq> dom (file_to_master ix)"
  shows "wf_sizes ix'"
  using assms unfolding wf_sizes_def by (metis domI domIff subsetD)

lemma wf_sizes_free_list [simp]: "wf_sizes (ix\<lparr>free_block_list := fl\<rparr>) = wf_sizes ix"
  by (simp add: wf_sizes_def)

lemma block_view_cong:
  assumes "file_to_master ix' = file_to_master ix"
    and "\<And>k p. file_to_master ix k = Some p \<Longrightarrow> slot_of ix' p = slot_of ix p"
  shows "block_view f ix' = block_view f ix"
  using assms by (auto simp: block_view_def fun_eq_iff intro: option.map_cong0)

lemma block_view_simps [simp]:
  "block_view f (ix\<lparr>free_block_list := fl\<rparr>) = block_view f ix"
  "block_view f (ix\<lparr>file_to_sizes := z\<rparr>) = block_view f ix"
  by (auto simp: block_view_def fun_eq_iff)

lemma wf_all_release:
  assumes wf: "wf_all sha f next (add_mset q E) P H ix" and keep: "q \<in> P \<longrightarrow> q \<in># E"
  obtains ss ix' where "release_ref q ix = Some (ss, ix')" "wf_all sha f next E P (H \<union> set ss) ix'"
    "set ss \<inter> H = {}" "distinct ss"
    "file_to_master ix' = file_to_master ix" "free_block_list ix' = free_block_list ix"
    "file_to_sizes ix' = file_to_sizes ix"
    "\<forall>p \<in> dom (heap ix'). p \<in> dom (heap ix) \<and> slot_of ix' p = slot_of ix p"
    "block_view f ix' = block_view f ix"
    "\<forall>h p. hash_to_master ix' h = Some p \<longrightarrow> hash_to_master ix h = Some p"
proof -
  have wi: "wf_index (add_mset q E) P ix" and ws: "wf_slots H next ix"
    and wc: "wf_content sha f ix"
    using wf by (simp_all add: wf_all_def)
  obtain ss ix' where rel: "release_ref q ix = Some (ss, ix')" and wi': "wf_index E P ix'"
    and ran: "ran (hash_to_master ix') = ran (hash_to_master ix) - (if ss = [] then {} else {q})"
    and ss: "ss = [] \<or> ss = [slot_of ix q] \<and> q \<in> ran (hash_to_master ix)"
    and same: "\<forall>p \<in> dom (heap ix'). p \<in> dom (heap ix) \<and> slot_of ix' p = slot_of ix p"
    and hash: "\<forall>h p. hash_to_master ix' h = Some p \<longrightarrow> hash_to_master ix h = Some p"
    by (rule release_ref_wf[OF wi keep])
  note frame = release_ref_frame[OF rel]
  have live: "p \<in> ran (hash_to_master ix') \<Longrightarrow> p \<in> dom (heap ix')" for p
    using wf_indexD(3)[OF wi'] by blast
  have sm: "slot_of ix' p = slot_of ix p" if "p \<in> ran (hash_to_master ix')" for p
    using same live[OF that] by blast
  note s = release_ref_slots[OF ws ran ss sm frame(2)]
  have c: "wf_content sha f ix'"
    by (rule wf_content_mono[OF wc]) (use hash sm ranI in metis)
  have "block_view f ix' = block_view f ix"
  proof (rule block_view_cong[OF frame(1)])
    show "slot_of ix' p = slot_of ix p" if "file_to_master ix k = Some p" for k p
      using wf_index_heap(2)[OF wi', of k p] that frame(1) same by auto
  qed
  note view = this
  have "wf_all sha f next E P (H \<union> set ss) ix'"
    using wi' s(1) c by (simp add: wf_all_def)
  then show ?thesis
    by (rule that[OF rel _ s(2,3) frame(1,2,3) same view hash])
qed

lemma wf_all_remove_file:
  assumes wf: "wf_all sha f next E P H ix" and q: "file_to_master ix (bkey pa b) = Some q"
  shows "wf_all sha f next (add_mset q E) P H (remove_file_block ix pa b)"
    and "block_view f (remove_file_block ix pa b) = (block_view f ix)(bkey pa b := None)"
proof -
  have "wf_index (add_mset q E) P (remove_file_block ix pa b)"
    using wf q by (auto simp: wf_all_def intro: remove_file_block_wf)
  then show "wf_all sha f next (add_mset q E) P H (remove_file_block ix pa b)"
    using wf unfolding wf_all_def by (auto simp: remove_file_block_def)
  show "block_view f (remove_file_block ix pa b) = (block_view f ix)(bkey pa b := None)"
    by (auto simp: block_view_def remove_file_block_def fun_eq_iff)
qed

lemma wf_all_prepend:
  assumes "wf_all sha f next E P H ix" "set ss \<subseteq> H" "distinct ss"
  shows "wf_all sha f next E P (H - set ss) (ix\<lparr>free_block_list := ss @ free_block_list ix\<rparr>)"
  using assms prepend_slots_wf by (simp add: wf_all_def)

end
