(* ===== verification/Dedup_Alloc.thy ===== *)
theory Dedup_Alloc
  imports Index_Invariant
begin

text \<open>
  The storage-first allocator of \<open>src/dedup.c\<close>: \<open>allocate_batch_storage_first\<close> drains the
  free list from its head and appends the rest at \<open>nextBlockIndex\<close>. The locale
  \<open>slot_allocator\<close> is what \<open>write_dedup\<close> relies on: new slots are distinct, become held,
  and hold no live block.
\<close>

section \<open>The allocator\<close>

fun drain_free_list :: "nat \<Rightarrow> u64 list \<Rightarrow> u64 list \<times> u64 list" where
  "drain_free_list 0 fl = ([], fl)"
| "drain_free_list (Suc n) [] = ([], [])"
| "drain_free_list (Suc n) (slot # fl) = (let (out, rest) = drain_free_list n fl in (slot # out, rest))"

definition allocate_batch_storage_first :: "Index \<Rightarrow> nat \<Rightarrow> u64 \<Rightarrow> u64 list \<times> Index \<times> u64" where
  "allocate_batch_storage_first ix miss_count next_block_index =
     (let (out, fl) = drain_free_list miss_count (free_block_list ix);
          ix = ix\<lparr>free_block_list := fl\<rparr>;
          remaining = miss_count - length out
      in if remaining > 0
         then let base = next_block_index
              in (out @ map (\<lambda>i. base + of_nat i) [0..<remaining], ix, base + of_nat remaining)
         else (out, ix, next_block_index))"

lemma drain_free_list_eq: "drain_free_list n fl = (take n fl, drop n fl)"
  by (induction n fl rule: drain_free_list.induct) simp_all

lemma allocate_eq:
  "allocate_batch_storage_first ix n next =
     (take n (free_block_list ix)
        @ map (\<lambda>i. next + of_nat i) [0..<n - length (free_block_list ix)],
      ix\<lparr>free_block_list := drop n (free_block_list ix)\<rparr>,
      next + of_nat (n - length (free_block_list ix)))"
  by (auto simp: allocate_batch_storage_first_def drain_free_list_eq Let_def min_def)

section \<open>What the writer relies on\<close>

locale slot_allocator =
  fixes alloc :: "Index \<Rightarrow> nat \<Rightarrow> u64 \<Rightarrow> u64 list \<times> Index \<times> u64"
  assumes alloc_slots: "wf_slots H next ix \<Longrightarrow> unat next + n \<le> MAX_SLOTS \<Longrightarrow>
      alloc ix n next = (out, ix', next') \<Longrightarrow>
      length out = n \<and> distinct out \<and> set out \<inter> H = {}
      \<and> wf_slots (H \<union> set out) next' ix' \<and> unat next' \<le> unat next + n"
    and alloc_frame: "alloc ix n next = (out, ix', next') \<Longrightarrow>
      ix' = ix\<lparr>free_block_list := free_block_list ix'\<rparr>"
begin

lemma alloc_wf_all:
  assumes "wf_all sha f next E P H ix" "unat next + n \<le> MAX_SLOTS"
    and "alloc ix n next = (out, ix', next')"
  shows "wf_all sha f next' E P (H \<union> set out) ix'" "length out = n" "distinct out"
    "set out \<inter> H = {}" "unat next' \<le> unat next + n"
proof -
  have s: "wf_slots H next ix" using assms(1) by (simp add: wf_all_def)
  note a = alloc_slots[OF s assms(2,3)]
  show "length out = n" "distinct out" "set out \<inter> H = {}" "unat next' \<le> unat next + n"
    using a by blast+
  have "wf_index E P ix'" "wf_content sha f ix'"
    using assms(1) by (subst alloc_frame[OF assms(3)], simp add: wf_all_def)+
  then show "wf_all sha f next' E P (H \<union> set out) ix'"
    using a by (simp add: wf_all_def)
qed

text \<open>Slots handed out hold no live block: whatever is written to them, the content invariant stays.\<close>

lemma alloc_not_live:
  assumes "wf_slots H next ix" "unat next + n \<le> MAX_SLOTS" "alloc ix n next = (out, ix', next')"
  shows "set out \<inter> live_slots ix' = {}"
  using alloc_slots[OF assms] unfolding wf_slots_def by blast

end

section \<open>The storage-first allocator is such an allocator\<close>

lemma append_slots:
  assumes "unat next + k \<le> MAX_SLOTS"
  shows "distinct (map (\<lambda>i. next + of_nat i :: u64) [0..<k])"
    and "set (map (\<lambda>i. next + of_nat i :: u64) [0..<k]) = {s. next \<le> s \<and> s < next + of_nat k}"
    and "unat (next + of_nat k :: u64) = unat next + k"
proof -
  have lt: "unat next + k < 2 ^ 64" using assms by (simp add: MAX_SLOTS_def)
  have u: "unat (next + of_nat i) = unat next + i" if "i \<le> k" for i
    using lt that by (intro unat_add_of_nat) simp
  show "unat (next + of_nat k) = unat next + k" by (rule u) simp
  show "distinct (map (\<lambda>i. next + of_nat i :: u64) [0..<k])"
    by (auto simp: distinct_map intro!: inj_onI dest!: arg_cong[where f = unat] simp: u)
  show "set (map (\<lambda>i. next + of_nat i :: u64) [0..<k]) = {s. next \<le> s \<and> s < next + of_nat k}"
  proof (intro set_eqI iffI)
    fix s :: u64
    assume "s \<in> set (map (\<lambda>i. next + of_nat i :: u64) [0..<k])"
    then obtain i where "i < k" "s = next + of_nat i" by auto
    then show "s \<in> {s. next \<le> s \<and> s < next + of_nat k}"
      using u[of i] u[of k] by (simp add: word_le_nat_alt word_less_nat_alt)
  next
    fix s :: u64
    assume "s \<in> {s. next \<le> s \<and> s < next + of_nat k}"
    then have s: "unat next \<le> unat s" "unat s < unat next + k"
      using u[of k] by (simp_all add: word_le_nat_alt word_less_nat_alt)
    define i where "i = unat s - unat next"
    have "i < k" "unat s = unat (next + of_nat i)" using s u[of i] by (simp_all add: i_def)
    then have "s = next + of_nat i" by (metis word_unat_eq_iff)
    with \<open>i < k\<close> show "s \<in> set (map (\<lambda>i. next + of_nat i :: u64) [0..<k])" by auto
  qed
qed

lemma allocate_slots:
  assumes wf: "wf_slots H next ix" and room: "unat next + n \<le> MAX_SLOTS"
    and al: "allocate_batch_storage_first ix n next = (out, ix', next')"
  shows "length out = n \<and> distinct out \<and> set out \<inter> H = {}
    \<and> wf_slots (H \<union> set out) next' ix' \<and> unat next' \<le> unat next + n"
proof -
  let ?fl = "free_block_list ix"
  let ?k = "n - length ?fl"
  let ?new = "map (\<lambda>i. next + of_nat i :: u64) [0..<?k]"
  have room': "unat next + ?k \<le> MAX_SLOTS" using room by simp
  note app = append_slots[OF room']
  have out: "out = take n ?fl @ ?new" and ix': "ix' = ix\<lparr>free_block_list := drop n ?fl\<rparr>"
    and next': "next' = next + of_nat ?k"
    using al by (simp_all add: allocate_eq)
  define A where "A = set (take n ?fl)"
  define D where "D = set (drop n ?fl)"
  define N where "N = set ?new"
  define L where "L = live_slots ix"
  have fl: "set ?fl = A \<union> D" "A \<inter> D = {}" "distinct (take n ?fl)" "distinct (drop n ?fl)"
  proof -
    have "distinct ?fl" using wf unfolding wf_slots_def by blast
    then show "A \<inter> D = {}" "distinct (take n ?fl)" "distinct (drop n ?fl)"
      unfolding A_def D_def by (simp_all add: set_take_disj_set_drop_if_distinct)
    show "set ?fl = A \<union> D"
      unfolding A_def D_def by (metis append_take_drop_id set_append)
  qed
  have d: "(A \<union> D) \<inter> L = {}" "(A \<union> D) \<inter> H = {}" "L \<inter> H = {}" "A \<union> D \<union> L \<union> H = {s. s < next}"
    using wf fl(1) unfolding wf_slots_def L_def by simp_all
  have inj: "inj_on (slot_of ix) (ran (hash_to_master ix))"
    using wf unfolding wf_slots_def by blast
  have N: "N = {s. next \<le> s \<and> s < next'}"
    unfolding N_def next' by (rule app(2))
  then have N_new: "N \<inter> {s. s < next} = {}" by auto
  have "next \<le> next'" using app(3) next' by (simp add: word_le_nat_alt)
  then have cover: "{s. s < next} \<union> N = {s. s < next'}"
    unfolding N by auto
  have set_out: "set out = A \<union> N" unfolding out A_def N_def by simp
  have same: "live_slots ix' = L" "slot_of ix' = slot_of ix"
    "hash_to_master ix' = hash_to_master ix" "free_block_list ix' = drop n ?fl"
    by (auto simp: ix' live_slots_def L_def)
  have "wf_slots (H \<union> set out) next' ix'"
    unfolding wf_slots_def same set_out D_def[symmetric]
  proof (intro conjI)
    show "distinct (drop n ?fl)" "inj_on (slot_of ix) (ran (hash_to_master ix))"
      by (fact fl(4), fact inj)
    show "D \<inter> L = {}" "D \<inter> (H \<union> (A \<union> N)) = {}" "L \<inter> (H \<union> (A \<union> N)) = {}"
      using d N_new fl(2) by blast+
    show "D \<union> L \<union> (H \<union> (A \<union> N)) = {s. s < next'}"
      using d(4) cover by blast
  qed
  moreover have "length out = n" using out by simp
  moreover have "distinct out"
    unfolding out distinct_append A_def[symmetric] N_def[symmetric]
    using fl(3) app(1) d(4) N_new by blast
  moreover have "set out \<inter> H = {}"
    unfolding set_out using d N_new by blast
  ultimately show ?thesis using app(3) next' by simp
qed

interpretation storage_first: slot_allocator allocate_batch_storage_first
proof
  show "length out = n \<and> distinct out \<and> set out \<inter> H = {}
      \<and> wf_slots (H \<union> set out) nb' ix' \<and> unat nb' \<le> unat nb + n"
    if "wf_slots H nb ix" "unat nb + n \<le> MAX_SLOTS"
      "allocate_batch_storage_first ix n nb = (out, ix', nb')" for H nb ix n out ix' nb'
    using that by (rule allocate_slots)
  show "ix' = ix\<lparr>free_block_list := free_block_list ix'\<rparr>"
    if "allocate_batch_storage_first ix n nb = (out, ix', nb')" for ix n nb out ix' nb'
    using that by (auto simp: allocate_eq)
qed

end
