(* ===== verification/Dedup_Flush.thy ===== *)
theory Dedup_Flush
  imports Meta_Index
begin

text \<open>
  The plan of a \<open>write_dedup\<close> request and \<open>flush_plan\<close> of \<open>src/dedup.c\<close>, which groups the
  MISS entries into runs of consecutive slots and writes each run with one \<open>pwrite\<close>.
\<close>

section \<open>The plan\<close>

datatype PlanKind = PLAN_HIT | PLAN_MISS

text \<open>
  \<open>payload\<close> is the offset of the block in the request's buffer, where the C field is a
  pointer into it. \<open>master_blk\<close> is uninitialised in C until the slots are assigned, and for
  HIT entries for ever; the model starts it at 0, and no step reads it before.
\<close>

record PlanEntry =
  kind :: PlanKind
  logical_blk :: u64
  master_blk :: u64
  payload :: nat
  pe_hash :: hash
  info :: ptr

section \<open>Flushing\<close>

function skip_hits :: "PlanEntry list \<Rightarrow> nat \<Rightarrow> nat" where
  "skip_hits plan i =
     (if i < length plan \<and> kind (plan ! i) = PLAN_HIT then skip_hits plan (Suc i) else i)"
  by pat_completeness auto
termination
  by (relation "measure (\<lambda>(plan, i). length plan - i)") auto

function run_end :: "PlanEntry list \<Rightarrow> nat \<Rightarrow> nat" where
  "run_end plan i =
     (if i < length plan \<and> kind (plan ! i) = PLAN_MISS
         \<and> master_blk (plan ! i) = master_blk (plan ! (i - 1)) + 1
      then run_end plan (Suc i) else i)"
  by pat_completeness auto
termination
  by (relation "measure (\<lambda>(plan, i). length plan - i)") auto

declare skip_hits.simps [simp del] run_end.simps [simp del]

lemma skip_hits_ge: "i \<le> skip_hits plan i"
  by (induction plan i rule: skip_hits.induct) (subst skip_hits.simps, auto)

lemma run_end_ge: "i \<le> run_end plan i"
  by (induction plan i rule: run_end.induct) (subst run_end.simps, auto)

lemma flush_progress: "i < run_end plan (Suc (skip_hits plan i))"
  by (rule less_le_trans[OF le_imp_less_Suc[OF skip_hits_ge] run_end_ge])

text \<open>The result: 0 or a negative error, the master file, and the unused answers of the kernel.\<close>

function flush_loop ::
  "PlanEntry list \<Rightarrow> byte list \<Rightarrow> nat \<Rightarrow> fbytes \<Rightarrow> io list \<Rightarrow> int \<times> fbytes \<times> io list" where
  "flush_loop plan buf i f ios =
     (if \<not> i < length plan then (0, f, ios)
      else let run_start = skip_hits plan i in
        if run_start \<ge> length plan then (0, f, ios)
        else
          let i = run_end plan (Suc run_start);
              run_len = i - run_start;
              offset = blk_off (master_blk (plan ! run_start));
              bytes = run_len * BLOCK_SIZE;
              (io, ios) = next_io ios;
              (written, err, f) =
                pwrite_sys io f (take bytes (drop (payload (plan ! run_start)) buf)) offset
          in if written \<noteq> int bytes
             then ((if written < 0 then - errno_val err else - errno_val EIO), f, ios)
             else flush_loop plan buf i f ios)"
  by pat_completeness auto
termination
  by (relation "measure (\<lambda>(plan, buf, i, f, ios). length plan - i)")
    (simp, auto intro: diff_less_mono2 flush_progress)

declare flush_loop.simps [simp del]

definition flush_plan ::
  "fbytes \<Rightarrow> io list \<Rightarrow> PlanEntry list \<Rightarrow> byte list \<Rightarrow> int \<times> fbytes \<times> io list" where
  "flush_plan f ios plan buf = flush_loop plan buf 0 f ios"

section \<open>Runs\<close>

lemma skip_hits_spec:
  assumes "i \<le> length plan"
  shows "skip_hits plan i \<le> length plan"
    and "\<forall>j. i \<le> j \<and> j < skip_hits plan i \<longrightarrow> kind (plan ! j) = PLAN_HIT"
    and "skip_hits plan i < length plan \<longrightarrow> kind (plan ! skip_hits plan i) = PLAN_MISS"
proof (atomize (full), use assms in \<open>induction plan i rule: skip_hits.induct\<close>)
  case (1 plan i)
  show ?case
  proof (cases "i < length plan \<and> kind (plan ! i) = PLAN_HIT")
    case True
    then have eq: "skip_hits plan i = skip_hits plan (Suc i)"
      by (subst skip_hits.simps) simp
    have IH: "skip_hits plan (Suc i) \<le> length plan
        \<and> (\<forall>j. Suc i \<le> j \<and> j < skip_hits plan (Suc i) \<longrightarrow> kind (plan ! j) = PLAN_HIT)
        \<and> (skip_hits plan (Suc i) < length plan \<longrightarrow> kind (plan ! skip_hits plan (Suc i)) = PLAN_MISS)"
      using "1.IH"[OF True] True by simp
    show ?thesis
      unfolding eq using IH True by (metis Suc_leI le_neq_implies_less)
  next
    case False
    then have eq: "skip_hits plan i = i"
      by (subst skip_hits.simps) auto
    with False "1.prems" show ?thesis
      by (cases "kind (plan ! i)") auto
  qed
qed

lemma run_end_spec:
  assumes "i \<le> length plan"
  shows "run_end plan i \<le> length plan"
    and "\<forall>j. i \<le> j \<and> j < run_end plan i \<longrightarrow>
           kind (plan ! j) = PLAN_MISS \<and> master_blk (plan ! j) = master_blk (plan ! (j - 1)) + 1"
proof (atomize (full), use assms in \<open>induction plan i rule: run_end.induct\<close>)
  case (1 plan i)
  show ?case
  proof (cases "i < length plan \<and> kind (plan ! i) = PLAN_MISS
      \<and> master_blk (plan ! i) = master_blk (plan ! (i - 1)) + 1")
    case True
    then have eq: "run_end plan i = run_end plan (Suc i)"
      by (subst run_end.simps) simp
    have IH: "run_end plan (Suc i) \<le> length plan
        \<and> (\<forall>j. Suc i \<le> j \<and> j < run_end plan (Suc i) \<longrightarrow>
             kind (plan ! j) = PLAN_MISS \<and> master_blk (plan ! j) = master_blk (plan ! (j - 1)) + 1)"
      using "1.IH"[OF True] True by simp
    show ?thesis
      unfolding eq using IH True by (metis Suc_leI le_neq_implies_less)
  next
    case False
    then have eq: "run_end plan i = i"
      by (subst run_end.simps) auto
    with "1.prems" show ?thesis by auto
  qed
qed

text \<open>The slots of a run are numbered consecutively from its first.\<close>

lemma run_slots:
  assumes "\<forall>j. s < j \<and> j < e \<longrightarrow> master_blk (plan ! j) = master_blk (plan ! (j - 1)) + 1"
    and "\<forall>j. s \<le> j \<and> j < e \<longrightarrow> unat (master_blk (plan ! j)) < MAX_SLOTS"
    and "s + d < e"
  shows "unat (master_blk (plan ! (s + d))) = unat (master_blk (plan ! s)) + d"
  using assms(3)
proof (induction d)
  case 0
  then show ?case by simp
next
  case (Suc d)
  let ?m = "master_blk (plan ! (s + d))"
  have m: "master_blk (plan ! (s + Suc d)) = ?m + 1"
    using assms(1)[rule_format, of "s + Suc d"] Suc.prems by simp
  have "unat ?m < MAX_SLOTS"
    using assms(2) Suc.prems by simp
  then have "unat (?m + 1) = Suc (unat ?m)"
    by (simp add: MAX_SLOTS_def unat_word_ariths)
  with m Suc show ?case by simp
qed

section \<open>Correctness\<close>

text \<open>
  What a plan satisfies when it is flushed: the entries' payloads are the blocks of the
  buffer in order, and the slots of its MISS entries are distinct and addressable.
\<close>

definition miss_slots :: "PlanEntry list \<Rightarrow> u64 set" where
  "miss_slots plan = {master_blk e | e. e \<in> set plan \<and> kind e = PLAN_MISS}"

definition plan_ready :: "PlanEntry list \<Rightarrow> byte list \<Rightarrow> bool" where
  "plan_ready plan buf \<longleftrightarrow>
     length buf = length plan * BLOCK_SIZE
     \<and> (\<forall>j < length plan. payload (plan ! j) = j * BLOCK_SIZE)
     \<and> (\<forall>j < length plan. kind (plan ! j) = PLAN_MISS \<longrightarrow> unat (master_blk (plan ! j)) < MAX_SLOTS)
     \<and> (\<forall>j < length plan. \<forall>k < length plan. kind (plan ! j) = PLAN_MISS \<longrightarrow>
          kind (plan ! k) = PLAN_MISS \<longrightarrow> master_blk (plan ! j) = master_blk (plan ! k) \<longrightarrow> j = k)"

text \<open>One run: a full \<open>pwrite\<close> stores its blocks; in every outcome only its slots change.\<close>

lemma run_write:
  assumes ready: "plan_ready plan buf" and s: "s < length plan" "kind (plan ! s) = PLAN_MISS"
    and e: "e = run_end plan (Suc s)"
    and pw: "pwrite_sys io f (take ((e - s) * BLOCK_SIZE) (drop (payload (plan ! s)) buf))
               (blk_off (master_blk (plan ! s))) = (w, err, f')"
  shows "length f \<le> length f'"
    and "s < e" and "e \<le> length plan" and "\<forall>j. s \<le> j \<and> j < e \<longrightarrow> kind (plan ! j) = PLAN_MISS"
    and "\<forall>k. Suc k * BLOCK_SIZE \<le> length f \<longrightarrow> (\<forall>j. s \<le> j \<and> j < e \<longrightarrow> unat (master_blk (plan ! j)) \<noteq> k)
           \<longrightarrow> chunk f' k = chunk f k"
    and "w = int ((e - s) * BLOCK_SIZE) \<longrightarrow> (\<forall>j. s \<le> j \<and> j < e \<longrightarrow>
           Suc (unat (master_blk (plan ! j))) * BLOCK_SIZE \<le> length f'
           \<and> chunk f' (unat (master_blk (plan ! j))) = chunk buf j)"
proof -
  let ?m = "unat (master_blk (plan ! s))"
  let ?bs = "take ((e - s) * BLOCK_SIZE) (drop (s * BLOCK_SIZE) buf)"
  have Suc_s: "Suc s \<le> length plan" using s(1) by simp
  note r = run_end_spec[OF Suc_s, folded e]
  show se: "s < e" using run_end_ge[of "Suc s" plan] e by simp
  show el: "e \<le> length plan" by (rule r(1))
  show miss: "\<forall>j. s \<le> j \<and> j < e \<longrightarrow> kind (plan ! j) = PLAN_MISS"
    using r(2) s(2) by (metis Suc_leI le_neq_implies_less)
  have lt: "\<forall>j. s \<le> j \<and> j < e \<longrightarrow> unat (master_blk (plan ! j)) < MAX_SLOTS"
    using ready miss el unfolding plan_ready_def by auto
  have slot: "unat (master_blk (plan ! j)) = ?m + (j - s)" if "s \<le> j" "j < e" for j
    using run_slots[of s e plan "j - s"] r(2) lt that by (auto simp: Suc_le_eq)
  have len: "length ?bs = (e - s) * BLOCK_SIZE"
  proof -
    have "(e - s) * BLOCK_SIZE \<le> (length plan - s) * BLOCK_SIZE"
      using el by (intro mult_le_mono1) simp
    then show ?thesis using ready unfolding plan_ready_def by (simp add: diff_mult_distrib min_def)
  qed
  have pw': "pwrite_sys io f ?bs (int (?m * BLOCK_SIZE)) = (w, err, f')"
    using pw blk_off_eq[of "master_blk (plan ! s)"] lt se ready s(1)
    unfolding plan_ready_def by simp
  show "length f \<le> length f'" by (rule pwrite_frame(1)[OF pw'])
  show "\<forall>k. Suc k * BLOCK_SIZE \<le> length f \<longrightarrow> (\<forall>j. s \<le> j \<and> j < e \<longrightarrow> unat (master_blk (plan ! j)) \<noteq> k)
      \<longrightarrow> chunk f' k = chunk f k"
  proof (intro allI impI)
    fix k assume k: "Suc k * BLOCK_SIZE \<le> length f"
      and ne: "\<forall>j. s \<le> j \<and> j < e \<longrightarrow> unat (master_blk (plan ! j)) \<noteq> k"
    have "k < ?m \<or> ?m + (e - s) \<le> k"
    proof (rule ccontr)
      assume "\<not> ?thesis"
      then have "s \<le> s + (k - ?m)" "s + (k - ?m) < e" "?m \<le> k" by auto
      with slot[of "s + (k - ?m)"] ne show False by auto
    qed
    then have "Suc k * BLOCK_SIZE \<le> ?m * BLOCK_SIZE \<or> ?m * BLOCK_SIZE + length ?bs \<le> k * BLOCK_SIZE"
      unfolding len add_mult_distrib[symmetric] by (metis Suc_leI mult_le_mono1)
    then show "chunk f' k = chunk f k" by (rule pwrite_frame(2)[OF pw' k])
  qed
  show "w = int ((e - s) * BLOCK_SIZE) \<longrightarrow> (\<forall>j. s \<le> j \<and> j < e \<longrightarrow>
           Suc (unat (master_blk (plan ! j))) * BLOCK_SIZE \<le> length f'
           \<and> chunk f' (unat (master_blk (plan ! j))) = chunk buf j)"
  proof (intro impI allI, elim conjE)
    fix j assume w: "w = int ((e - s) * BLOCK_SIZE)" and j: "s \<le> j" "j < e"
    have "pwrite_sys io f ?bs (int (?m * BLOCK_SIZE)) = (int (length ?bs), err, f')"
      unfolding len using pw' w by simp
    then have f': "f' = file_write f (?m * BLOCK_SIZE) ?bs"
      by (rule pwrite_full_nat)
    have d: "j - s < e - s" using j by simp
    show "Suc (unat (master_blk (plan ! j))) * BLOCK_SIZE \<le> length f'
        \<and> chunk f' (unat (master_blk (plan ! j))) = chunk buf j"
      unfolding slot[OF j] f' chunk_file_write_same[OF len d]
      using file_write_covers[OF len d] chunk_take_drop[OF d, of s buf] j by simp
  qed
qed

text \<open>The whole flush, from entry \<open>i\<close> on.\<close>

lemma flush_loop_correct:
  assumes "plan_ready plan buf" "i \<le> length plan" "flush_loop plan buf i f ios = (rc, f', ios')"
  shows "rc \<le> 0 \<and> length f \<le> length f'
    \<and> (\<forall>k. Suc k * BLOCK_SIZE \<le> length f \<longrightarrow>
         (\<forall>j. i \<le> j \<and> j < length plan \<longrightarrow> kind (plan ! j) = PLAN_MISS \<longrightarrow> unat (master_blk (plan ! j)) \<noteq> k)
         \<longrightarrow> chunk f' k = chunk f k)
    \<and> (rc = 0 \<longrightarrow> (\<forall>j. i \<le> j \<and> j < length plan \<longrightarrow> kind (plan ! j) = PLAN_MISS \<longrightarrow>
         Suc (unat (master_blk (plan ! j))) * BLOCK_SIZE \<le> length f'
         \<and> chunk f' (unat (master_blk (plan ! j))) = chunk buf j))"
  using assms
proof (induction plan buf i f ios rule: flush_loop.induct)
  case (1 plan buf i f ios)
  let ?s = "skip_hits plan i"
  note sk = skip_hits_spec[OF "1.prems"(2)]
  show ?case
  proof (cases "i < length plan \<and> ?s < length plan")
    case False
    then have "rc = 0 \<and> f' = f" "?s = length plan"
      using "1.prems"(3) sk(1) "1.prems"(2) skip_hits_ge[of i plan]
      by (auto simp: flush_loop.simps[of plan buf i f ios] split: if_splits)
    with sk(2) show ?thesis by auto
  next
    case True
    then have s: "?s < length plan" "kind (plan ! ?s) = PLAN_MISS" using sk(3) by auto
    define e where "e = run_end plan (Suc ?s)"
    obtain io ios1 where io: "next_io ios = (io, ios1)" by fastforce
    let ?bs = "take ((e - ?s) * BLOCK_SIZE) (drop (payload (plan ! ?s)) buf)"
    obtain w err f1 where pw: "pwrite_sys io f ?bs (blk_off (master_blk (plan ! ?s))) = (w, err, f1)"
      by (metis prod_cases3)
    note run = run_write[OF "1.prems"(1) s e_def pw]
    have loop: "flush_loop plan buf i f ios =
        (if w \<noteq> int ((e - ?s) * BLOCK_SIZE)
         then ((if w < 0 then - errno_val err else - errno_val EIO), f1, ios1)
         else flush_loop plan buf e f1 ios1)"
      using True io pw by (simp add: flush_loop.simps[of plan buf i f ios] e_def Let_def)
    have run_frame: "chunk f1 k = chunk f k" if "Suc k * BLOCK_SIZE \<le> length f"
      "\<forall>j. i \<le> j \<and> j < length plan \<longrightarrow> kind (plan ! j) = PLAN_MISS \<longrightarrow> unat (master_blk (plan ! j)) \<noteq> k" for k
      using run(3,4,5) that skip_hits_ge[of i plan] by (meson le_trans order_less_le_trans)
    show ?thesis
    proof (cases "w = int ((e - ?s) * BLOCK_SIZE)")
      case False
      then have "f' = f1" "rc < 0"
        using loop "1.prems"(3) errno_val_pos[of err] by (auto split: if_splits)
      with run(1) run_frame show ?thesis by simp
    next
      case w: True
      then have rest: "flush_loop plan buf e f1 ios1 = (rc, f', ios')"
        using loop "1.prems"(3) by simp
      have IH: "rc \<le> 0 \<and> length f1 \<le> length f'
        \<and> (\<forall>k. Suc k * BLOCK_SIZE \<le> length f1 \<longrightarrow>
             (\<forall>j. e \<le> j \<and> j < length plan \<longrightarrow> kind (plan ! j) = PLAN_MISS \<longrightarrow> unat (master_blk (plan ! j)) \<noteq> k)
             \<longrightarrow> chunk f' k = chunk f1 k)
        \<and> (rc = 0 \<longrightarrow> (\<forall>j. e \<le> j \<and> j < length plan \<longrightarrow> kind (plan ! j) = PLAN_MISS \<longrightarrow>
             Suc (unat (master_blk (plan ! j))) * BLOCK_SIZE \<le> length f'
             \<and> chunk f' (unat (master_blk (plan ! j))) = chunk buf j))"
        using "1.IH"[OF _ refl _ refl refl refl refl io[symmetric] refl pw[symmetric, unfolded e_def] refl refl]
          True w rest "1.prems"(1) run(3) by (simp add: e_def)
      have ie: "i \<le> e" using skip_hits_ge[of i plan] run(2) by simp
      have part: "j < ?s \<or> ?s \<le> j \<and> j < e \<or> e \<le> j" for j by linarith
      have hit: "kind (plan ! j) \<noteq> PLAN_MISS" if "i \<le> j" "j < ?s" for j
        using sk(2) that by auto
      have tail: "chunk f' (unat (master_blk (plan ! j))) = chunk f1 (unat (master_blk (plan ! j)))"
        if j: "?s \<le> j" "j < e" for j
      proof -
        have jm: "kind (plan ! j) = PLAN_MISS" "j < length plan" using run(3,4) j by auto
        have "unat (master_blk (plan ! l)) \<noteq> unat (master_blk (plan ! j))"
          if "e \<le> l" "l < length plan" "kind (plan ! l) = PLAN_MISS" for l
          using "1.prems"(1) jm that j unfolding plan_ready_def
          by (metis not_le word_unat_eq_iff)
        then show ?thesis using IH run(6) w j by blast
      qed
      show ?thesis
      proof (intro conjI allI impI)
        show "rc \<le> 0" "length f \<le> length f'" using IH run(1) by auto
        show "chunk f' k = chunk f k" if k: "Suc k * BLOCK_SIZE \<le> length f"
          "\<forall>j. i \<le> j \<and> j < length plan \<longrightarrow> kind (plan ! j) = PLAN_MISS \<longrightarrow> unat (master_blk (plan ! j)) \<noteq> k" for k
          using IH run_frame[OF k] k run(1) ie by (metis le_trans)
      next
        fix j assume rc: "rc = 0" and j: "i \<le> j \<and> j < length plan" and jm: "kind (plan ! j) = PLAN_MISS"
        show "Suc (unat (master_blk (plan ! j))) * BLOCK_SIZE \<le> length f'"
          using part[of j] hit[of j] IH rc j jm run(6) w by (metis le_trans)
        show "chunk f' (unat (master_blk (plan ! j))) = chunk buf j"
          using part[of j] hit[of j] tail[of j] IH rc j jm run(6) w by metis
      qed
    qed
  qed
qed

text \<open>With a kernel that serves every call in full, the flush succeeds.\<close>

lemma flush_loop_healthy:
  assumes "plan_ready plan buf" "i \<le> length plan" "\<forall>io \<in> set ios. io = IoOk"
  shows "fst (flush_loop plan buf i f ios) = 0"
  using assms
proof (induction plan buf i f ios rule: flush_loop.induct)
  case (1 plan buf i f ios)
  let ?s = "skip_hits plan i"
  note sk = skip_hits_spec[OF "1.prems"(2)]
  show ?case
  proof (cases "i < length plan \<and> ?s < length plan")
    case False
    then show ?thesis by (auto simp: flush_loop.simps[of plan buf i f ios])
  next
    case True
    then have s: "?s < length plan" "kind (plan ! ?s) = PLAN_MISS" using sk(3) by auto
    define e where "e = run_end plan (Suc ?s)"
    have e: "e \<le> length plan" using run_end_spec(1)[of "Suc ?s" plan] s(1) by (simp add: e_def)
    obtain io ios1 where io: "next_io ios = (io, ios1)" by fastforce
    have ok: "io = IoOk" "\<forall>io \<in> set ios1. io = IoOk"
      using next_io_healthy[OF "1.prems"(3) io] by blast+
    let ?bs = "take ((e - ?s) * BLOCK_SIZE) (drop (payload (plan ! ?s)) buf)"
    obtain w err f1 where pw: "pwrite_sys io f ?bs (blk_off (master_blk (plan ! ?s))) = (w, err, f1)"
      by (metis prod_cases3)
    have "(e - ?s) * BLOCK_SIZE \<le> (length plan - ?s) * BLOCK_SIZE"
      using e by (intro mult_le_mono1) simp
    then have len: "length ?bs = (e - ?s) * BLOCK_SIZE"
      using "1.prems"(1) s(1) unfolding plan_ready_def by (simp add: diff_mult_distrib min_def)
    have off: "blk_off (master_blk (plan ! ?s)) = int (unat (master_blk (plan ! ?s)) * BLOCK_SIZE)"
      using "1.prems"(1) s unfolding plan_ready_def by (intro blk_off_eq) blast
    have w: "w = int ((e - ?s) * BLOCK_SIZE)"
      using pw unfolding ok(1) off pwrite_ok len by simp
    have "flush_loop plan buf i f ios = flush_loop plan buf e f1 ios1"
      using True io pw w by (simp add: flush_loop.simps[of plan buf i f ios] e_def Let_def)
    moreover have "fst (flush_loop plan buf e f1 ios1) = 0"
      using "1.IH"[OF _ refl _ refl refl refl refl io[symmetric] refl pw[symmetric, unfolded e_def] refl refl]
        True w ok(2) "1.prems"(1) e by (simp add: e_def)
    ultimately show ?thesis by simp
  qed
qed

end
