(* ===== verification/Dedup_Write.thy ===== *)
theory Dedup_Write
  imports Dedup_Alloc Dedup_Flush
begin

text \<open>
  \<open>write_dedup\<close> of \<open>src/dedup.c\<close>, pass by pass: the decision pass, the assignment of slots,
  the flush of \<open>Dedup_Flush\<close>, the rollback, and the consolidation with its double-checked
  insertion. Each pass is a definition of its own, because the locks are released between
  passes; the theory \<open>Threads\<close> runs the same definitions interleaved.
\<close>

section \<open>Hashing\<close>

text \<open>
  \<open>src/hashing.c\<close>: \<open>SHA512\<close> (OpenSSL, the parameter \<open>sha\<close>) over exactly 4096 bytes from the
  input pointer, all 64 bytes of the digest copied out.
\<close>

definition hash_block :: "(byte list \<Rightarrow> hash) \<Rightarrow> byte list \<Rightarrow> hash" where
  "hash_block sha input = sha (take 4096 input)"

lemma hash_block_chunk: "hash_block sha (drop (i * BLOCK_SIZE) buf) = sha (chunk buf i)"
  by (simp add: hash_block_def chunk_def BLOCK_SIZE_def)

section \<open>Pass 1: decision\<close>

text \<open>
  One round of the loop over the blocks of the request. The state: the index, the table
  \<open>pending_hashes\<close> of this batch, the plan so far, \<open>miss_count\<close>.
\<close>

type_synonym pass1_state = "Index \<times> (hash \<rightharpoonup> ptr) \<times> PlanEntry list \<times> nat"

definition pass1_step ::
  "(byte list \<Rightarrow> hash) \<Rightarrow> byte list \<Rightarrow> u64 \<Rightarrow> nat \<Rightarrow> pass1_state \<Rightarrow> pass1_state option" where
  "pass1_step sha buf start_block i = (\<lambda>(ix, pending, plan, miss_count).
     (let off = i * BLOCK_SIZE;
          h = hash_block sha (drop off buf);
          existing = (case lookup_by_hash ix h of Some p \<Rightarrow> Some p | None \<Rightarrow> pending h)
      in case existing of
           Some p \<Rightarrow> do {
             ix \<leftarrow> fetch_add_ref p ix;
             Some (ix, pending,
               plan @ [\<lparr>kind = PLAN_HIT, logical_blk = start_block + of_nat i, master_blk = 0,
                        payload = off, pe_hash = h, info = p\<rparr>], miss_count)
           }
         | None \<Rightarrow>
             (let (p, ix) = new_info \<lparr>mi_hash = h, masterBlockIndex = 0, refcount = 1\<rparr> ix
              in Some (ix, pending(h \<mapsto> p),
                   plan @ [\<lparr>kind = PLAN_MISS, logical_blk = start_block + of_nat i, master_blk = 0,
                            payload = off, pe_hash = h, info = p\<rparr>], Suc miss_count))))"

definition pass1 ::
  "(byte list \<Rightarrow> hash) \<Rightarrow> byte list \<Rightarrow> u64 \<Rightarrow> nat \<Rightarrow> Index \<Rightarrow> pass1_state option" where
  "pass1 sha buf start_block num_blocks ix =
     ofold (pass1_step sha buf start_block) [0..<num_blocks] (ix, Map.empty, [], 0)"

section \<open>Pass 1.5: slots for the misses\<close>

definition assign_step ::
  "u64 list \<Rightarrow> nat \<Rightarrow> Index \<times> PlanEntry list \<times> nat \<Rightarrow> (Index \<times> PlanEntry list \<times> nat) option" where
  "assign_step master_blks i = (\<lambda>(ix, plan, m).
     if kind (plan ! i) = PLAN_MISS then do {
       let plan = plan[i := (plan ! i)\<lparr>master_blk := master_blks ! m\<rparr>];
       ix \<leftarrow> set_master_block (info (plan ! i)) (master_blks ! m) ix;
       Some (ix, plan, Suc m)
     } else Some (ix, plan, m))"

definition assign_slots ::
  "Index \<Rightarrow> u64 \<Rightarrow> PlanEntry list \<Rightarrow> nat \<Rightarrow> (Index \<times> u64 \<times> PlanEntry list) option" where
  "assign_slots ix next_block_index plan miss_count =
     (if miss_count > 0 then do {
        let (master_blks, ix, next_block_index) =
              allocate_batch_storage_first ix miss_count next_block_index;
        (ix, plan, _) \<leftarrow> ofold (assign_step master_blks) [0..<length plan] (ix, plan, 0);
        Some (ix, next_block_index, plan)
      } else Some (ix, next_block_index, plan))"

section \<open>Rollback\<close>

definition rollback_hit_step ::
  "PlanEntry list \<Rightarrow> nat \<Rightarrow> Index \<times> u64 list \<Rightarrow> (Index \<times> u64 list) option" where
  "rollback_hit_step plan i = (\<lambda>(ix, to_release).
     if kind (plan ! i) \<noteq> PLAN_HIT then Some (ix, to_release)
     else do {
       (slots, ix) \<leftarrow> release_ref (info (plan ! i)) ix;
       Some (ix, slots @ to_release)
     })"

definition rollback_miss_step :: "PlanEntry list \<Rightarrow> nat \<Rightarrow> Index \<Rightarrow> Index option" where
  "rollback_miss_step plan i ix =
     (if kind (plan ! i) = PLAN_MISS
      then free_info (info (plan ! i)) (ix\<lparr>free_block_list := master_blk (plan ! i) # free_block_list ix\<rparr>)
      else Some ix)"

definition rollback_allocations :: "Index \<Rightarrow> PlanEntry list \<Rightarrow> Index option" where
  "rollback_allocations ix plan = do {
     (ix, hit_slots) \<leftarrow> ofold (rollback_hit_step plan) [0..<length plan] (ix, []);
     let ix = ix\<lparr>free_block_list := hit_slots @ free_block_list ix\<rparr>;
     ofold (rollback_miss_step plan) [0..<length plan] ix
   }"

section \<open>Pass 3: consolidation\<close>

text \<open>Publishing the pending objects; a MISS that lost a race adopts the winner.\<close>

definition publish_step ::
  "nat \<Rightarrow> Index \<times> PlanEntry list \<times> u64 list \<Rightarrow> (Index \<times> PlanEntry list \<times> u64 list) option" where
  "publish_step i = (\<lambda>(ix, plan, to_release).
     if kind (plan ! i) \<noteq> PLAN_MISS then Some (ix, plan, to_release)
     else do {
       mi \<leftarrow> heap ix (info (plan ! i));
       (case lookup_by_hash ix (mi_hash mi) of
          Some winner \<Rightarrow> do {
            ix \<leftarrow> free_info (info (plan ! i)) ix;
            ix \<leftarrow> fetch_add_ref winner ix;
            Some (ix, plan[i := (plan ! i)\<lparr>info := winner\<rparr>], master_blk (plan ! i) # to_release)
          }
        | None \<Rightarrow> Some (insert_hash ix (mi_hash mi) (info (plan ! i)), plan, to_release))
     })"

text \<open>Mapping the blocks of the file, releasing what they overwrite.\<close>

definition map_block_step ::
  "path \<Rightarrow> PlanEntry list \<Rightarrow> nat \<Rightarrow> Index \<times> u64 list \<Rightarrow> (Index \<times> u64 list) option" where
  "map_block_step pa plan i = (\<lambda>(ix, to_release). do {
     (ix, to_release) \<leftarrow>
       (case lookup_by_file_block ix pa (logical_blk (plan ! i)) of
          None \<Rightarrow> Some (ix, to_release)
        | Some old \<Rightarrow> do {
            (slots, ix) \<leftarrow> release_ref old ix;
            Some (ix, slots @ to_release)
          });
     Some (insert_file_block ix pa (logical_blk (plan ! i)) (info (plan ! i)), to_release)
   })"

text \<open>The logical size grows to the end of the request, and never shrinks here.\<close>

definition grow_size :: "path \<Rightarrow> u64 \<Rightarrow> Index \<Rightarrow> Index" where
  "grow_size pa new_end ix =
     (case file_to_sizes ix pa of
        None \<Rightarrow> ix\<lparr>file_to_sizes := (file_to_sizes ix)(pa \<mapsto> new_end)\<rparr>
      | Some logical_size \<Rightarrow>
          if new_end > logical_size
          then ix\<lparr>file_to_sizes := (file_to_sizes ix)(pa \<mapsto> new_end)\<rparr> else ix)"

text \<open>
  The section under the write lock (its \<open>slots_to_release\<close> is returned), and the section
  under the free-list mutex after it.
\<close>

definition consolidate ::
  "path \<Rightarrow> u64 \<Rightarrow> PlanEntry list \<Rightarrow> Index \<Rightarrow> (Index \<times> u64 list) option" where
  "consolidate pa start_block plan ix = do {
     let n = length plan;
     (ix, plan, to_release) \<leftarrow> ofold publish_step [0..<n] (ix, plan, []);
     (ix, to_release) \<leftarrow> ofold (map_block_step pa plan) [0..<n] (ix, to_release);
     let new_end = (start_block + of_nat n) * of_nat BLOCK_SIZE;
     Some (grow_size pa new_end ix, to_release)
   }"

definition release_slots :: "u64 list \<Rightarrow> Index \<Rightarrow> Index" where
  "release_slots slots ix = ix\<lparr>free_block_list := slots @ free_block_list ix\<rparr>"

section \<open>The entry point\<close>

text \<open>
  Results: the returned value, the index, the master file, \<open>nextBlockIndex\<close>, and the answers
  of the kernel that were not used.
\<close>

type_synonym write_result = "int \<times> Index \<times> fbytes \<times> u64 \<times> io list"

definition write_dedup ::
  "(byte list \<Rightarrow> hash) \<Rightarrow> Index \<Rightarrow> path \<Rightarrow> byte list \<Rightarrow> nat \<Rightarrow> int \<Rightarrow> fbytes \<Rightarrow> u64 \<Rightarrow> io list
   \<Rightarrow> write_result option" where
  "write_dedup sha ix pa buf sz offset master next_block ios =
     (if sz = 0 then Some (0, ix, master, next_block, ios)
      else let num_blocks = sz div BLOCK_SIZE in
        if num_blocks = 0 \<or> sz mod BLOCK_SIZE \<noteq> 0
        then Some (- errno_val EOPNOTSUPP, ix, master, next_block, ios)
        else do {
          let start_block = start_block_of offset;
          (ix, _, plan, miss_count) \<leftarrow> pass1 sha buf start_block num_blocks ix;
          (ix, next_block, plan) \<leftarrow> assign_slots ix next_block plan miss_count;
          let (rc, master, ios) =
            (if miss_count > 0 then flush_plan master ios plan buf else (0, master, ios));
          if rc < 0 then do {
            ix \<leftarrow> rollback_allocations ix plan;
            Some (rc, ix, master, next_block, ios)
          } else do {
            (ix, to_release) \<leftarrow> consolidate pa start_block plan ix;
            Some (int_of_size (num_blocks * BLOCK_SIZE), release_slots to_release ix,
                  master, next_block, ios)
          }
        })"

end
