(* ===== verification/Write_Pass1.thy ===== *)
theory Write_Pass1
  imports Dedup_Write
begin

text \<open>
  The decision pass of \<open>write_dedup\<close>. Afterwards the operation holds one reference per plan entry and
  one unpublished object per MISS, and nothing a reader can see has changed. The assignment of slots
  is in the theory \<open>Write_Assign\<close>.
\<close>

section \<open>What a plan means\<close>

definition miss :: "PlanEntry \<Rightarrow> bool" where
  "miss e \<longleftrightarrow> kind e = PLAN_MISS"

lemma kind_cases: "\<not> miss e \<longleftrightarrow> kind e = PLAN_HIT"
  by (cases "kind e") (auto simp: miss_def)

definition infos :: "PlanEntry list \<Rightarrow> ptr multiset" where
  "infos plan = mset (map info plan)"

lemma infos_snoc [simp]: "infos (plan @ [e]) = add_mset (info e) (infos plan)"
  by (simp add: infos_def)

lemma infos_Nil [simp]: "infos [] = {#}"
  by (simp add: infos_def)

lemma size_infos [simp]: "size (infos plan) = length plan"
  by (simp add: infos_def)

text \<open>The entries describe the blocks of the request, in order.\<close>

definition plan_describes ::
  "(byte list \<Rightarrow> hash) \<Rightarrow> byte list \<Rightarrow> u64 \<Rightarrow> PlanEntry list \<Rightarrow> bool" where
  "plan_describes sha buf start plan \<longleftrightarrow>
     (\<forall>j < length plan. logical_blk (plan ! j) = start + of_nat j
        \<and> payload (plan ! j) = j * BLOCK_SIZE \<and> pe_hash (plan ! j) = sha (chunk buf j))"

text \<open>
  How the plan refers to objects: each entry to an object with its hash; the MISS entries to
  distinct objects, the pending ones; a HIT to a published object or a pending one.
\<close>

definition plan_objects :: "(ptr \<rightharpoonup> MasterInfo) \<Rightarrow> ptr set \<Rightarrow> ptr set \<Rightarrow> PlanEntry list \<Rightarrow> bool" where
  "plan_objects hp pub pend plan \<longleftrightarrow>
     (\<forall>e \<in> set plan. \<exists>mi. hp (info e) = Some mi \<and> mi_hash mi = pe_hash e)
     \<and> distinct (map info (filter miss plan)) \<and> info ` {e \<in> set plan. miss e} = pend
     \<and> (\<forall>e \<in> set plan. info e \<in> pub \<union> pend)"

lemma plan_objects_snoc:
  assumes "plan_objects hp pub pend plan"
    and "\<And>e. e \<in> set plan \<Longrightarrow> \<exists>mi mi'. hp (info e) = Some mi \<and> hp' (info e) = Some mi' \<and> mi_hash mi' = mi_hash mi"
    and "hp' (info e) = Some mi" "mi_hash mi = pe_hash e"
    and "miss e \<Longrightarrow> info e \<notin> pend \<and> pend' = insert (info e) pend"
    and "\<not> miss e \<Longrightarrow> info e \<in> pub \<union> pend \<and> pend' = pend"
  shows "plan_objects hp' pub pend' (plan @ [e])"
proof -
  have old: "\<exists>mi. hp' (info x) = Some mi \<and> mi_hash mi = pe_hash x" if "x \<in> set plan" for x
    using assms(1) assms(2)[OF that] that unfolding plan_objects_def by force
  have fresh: "miss e \<Longrightarrow> info e \<notin> set (map info (filter miss plan))"
    using assms(1,5) unfolding plan_objects_def by auto
  show ?thesis
  proof (cases "miss e")
    case True
    then show ?thesis
      using old fresh assms(1,3,4) assms(5)[OF True] unfolding plan_objects_def by auto
  next
    case False
    then show ?thesis
      using old assms(1,3,4) assms(6)[OF False] unfolding plan_objects_def by auto
  qed
qed

section \<open>The decision pass\<close>

text \<open>What a reader can see of the index: both tables, the sizes, and the slots of the objects.\<close>

definition same_view :: "Index \<Rightarrow> Index \<Rightarrow> bool" where
  "same_view ix0 ix \<longleftrightarrow>
     hash_to_master ix = hash_to_master ix0 \<and> file_to_master ix = file_to_master ix0
     \<and> file_to_sizes ix = file_to_sizes ix0
     \<and> (\<forall>p \<in> dom (heap ix0). p \<in> dom (heap ix) \<and> slot_of ix p = slot_of ix0 p)"

lemma same_view_trans: "same_view a b \<Longrightarrow> same_view b c \<Longrightarrow> same_view a c"
  unfolding same_view_def by auto

definition pass1_inv ::
  "(byte list \<Rightarrow> hash) \<Rightarrow> byte list \<Rightarrow> u64 \<Rightarrow> fbytes \<Rightarrow> u64 \<Rightarrow> ptr multiset \<Rightarrow> ptr set \<Rightarrow> u64 set
   \<Rightarrow> Index \<Rightarrow> nat \<Rightarrow> pass1_state \<Rightarrow> bool" where
  "pass1_inv sha buf start f nb E P H ix0 i = (\<lambda>(ix, pend, plan, mc).
     wf_all sha f nb (E + infos plan) (P \<union> ran pend) H ix
     \<and> same_view ix0 ix \<and> free_block_list ix = free_block_list ix0
     \<and> length plan = i \<and> mc = length (filter miss plan)
     \<and> plan_describes sha buf start plan
     \<and> plan_objects (heap ix) (ran (hash_to_master ix)) (ran pend) plan
     \<and> ran pend \<inter> dom (heap ix0) = {}
     \<and> (\<forall>h p. pend h = Some p \<longrightarrow> hash_to_master ix0 h = None
          \<and> (\<exists>mi. heap ix p = Some mi \<and> mi_hash mi = h)))"

lemma plan_describes_snoc:
  assumes "plan_describes sha buf start plan" "length plan = i"
    and "logical_blk e = start + of_nat i" "payload e = i * BLOCK_SIZE" "pe_hash e = sha (chunk buf i)"
  shows "plan_describes sha buf start (plan @ [e])"
  using assms unfolding plan_describes_def by (auto simp: nth_append less_Suc_eq)

text \<open>A HIT takes a reference to the object found.\<close>

lemma pass1_hit:
  assumes inv: "pass1_inv sha buf start f nb E P H ix0 i (ix, pend, plan, mc)"
    and room: "card (dom (file_to_master ix0)) + size E + Suc i < 2 ^ 32"
    and mi: "heap ix p = Some mi" "mi_hash mi = sha (chunk buf i)"
    and p: "p \<in> ran (hash_to_master ix) \<union> ran pend"
    and e: "kind e = PLAN_HIT" "logical_blk e = start + of_nat i" "payload e = i * BLOCK_SIZE"
      "pe_hash e = sha (chunk buf i)" "info e = p"
  shows "\<exists>ix'. fetch_add_ref p ix = Some ix'
    \<and> pass1_inv sha buf start f nb E P H ix0 (Suc i) (ix', pend, plan @ [e], mc)"
proof -
  have wf: "wf_all sha f nb (E + infos plan) (P \<union> ran pend) H ix" and sv: "same_view ix0 ix"
    and len: "length plan = i"
    using inv by (simp_all add: pass1_inv_def)
  have wi: "wf_index (E + infos plan) (P \<union> ran pend) ix" using wf by (simp add: wf_all_def)
  have "card (refs (file_to_master ix) p) \<le> card (dom (file_to_master ix))"
    by (rule card_refs_le_dom[OF wf_indexD(1)[OF wi]])
  moreover have "count (E + infos plan) p \<le> size E + i"
    using count_le_size[of "E + infos plan" p] len by simp
  ultimately have room': "card (refs (file_to_master ix) p) + count (E + infos plan) p + 1 < 2 ^ 32"
    using room sv unfolding same_view_def by simp
  obtain ix' where fa: "fetch_add_ref p ix = Some ix'"
    and wi': "wf_index (add_mset p (E + infos plan)) (P \<union> ran pend) ix'"
    and ix': "ix' = ix\<lparr>heap := (heap ix)(p \<mapsto> mi\<lparr>refcount := refcount mi + 1\<rparr>)\<rparr>"
    by (rule fetch_add_ref_wf[OF wi mi(1) room'])
  have slot: "slot_of ix' q = slot_of ix q" for q
    using mi(1) by (simp add: ix' slot_of_def)
  have "wf_all sha f nb (E + infos (plan @ [e])) (P \<union> ran pend) H ix'"
    using wf wi' wf_slots_cong[of ix' ix] wf_content_cong[of ix' ix] slot
    by (simp add: wf_all_def ix' e(5))
  moreover have "plan_objects (heap ix') (ran (hash_to_master ix')) (ran pend) (plan @ [e])"
  proof (rule plan_objects_snoc)
    show "plan_objects (heap ix) (ran (hash_to_master ix')) (ran pend) plan"
      using inv by (simp add: pass1_inv_def ix')
    then show "\<exists>mi mi'. heap ix (info x) = Some mi \<and> heap ix' (info x) = Some mi' \<and> mi_hash mi' = mi_hash mi"
      if "x \<in> set plan" for x
      using that mi(1) unfolding plan_objects_def ix' by fastforce
    show "heap ix' (info e) = Some (mi\<lparr>refcount := refcount mi + 1\<rparr>)"
      by (simp add: ix' e(5))
  qed (use e mi(2) p in \<open>simp_all add: miss_def ix'\<close>)
  moreover have "plan_describes sha buf start (plan @ [e])"
    using inv len e(2-4) by (intro plan_describes_snoc) (simp_all add: pass1_inv_def)
  moreover have "same_view ix0 ix'"
    by (rule same_view_trans[OF sv]) (use slot mi(1) in \<open>auto simp: same_view_def ix'\<close>)
  moreover have "\<forall>h q. pend h = Some q \<longrightarrow> hash_to_master ix0 h = None
      \<and> (\<exists>mi. heap ix' q = Some mi \<and> mi_hash mi = h)"
  proof (intro allI impI conjI)
    fix h q assume hq: "pend h = Some q"
    have old: "hash_to_master ix0 h = None \<and> (\<exists>mi. heap ix q = Some mi \<and> mi_hash mi = h)"
      using inv hq by (simp add: pass1_inv_def)
    then show "hash_to_master ix0 h = None" by blast
    show "\<exists>mi. heap ix' q = Some mi \<and> mi_hash mi = h"
      using old mi(1) by (auto simp: ix')
  qed
  ultimately show ?thesis
    using fa inv len e(1) by (simp add: pass1_inv_def miss_def ix')
qed

text \<open>A MISS creates a pending object.\<close>

lemma pass1_miss:
  assumes inv: "pass1_inv sha buf start f nb E P H ix0 i (ix, pend, plan, mc)"
    and h: "h = sha (chunk buf i)" "hash_to_master ix h = None" "pend h = None"
    and nw: "new_info \<lparr>mi_hash = h, masterBlockIndex = 0, refcount = 1\<rparr> ix = (p, ix')"
    and e: "kind e = PLAN_MISS" "logical_blk e = start + of_nat i" "payload e = i * BLOCK_SIZE"
      "pe_hash e = h" "info e = p"
  shows "pass1_inv sha buf start f nb E P H ix0 (Suc i) (ix', pend(h \<mapsto> p), plan @ [e], Suc mc)"
proof -
  have wf: "wf_all sha f nb (E + infos plan) (P \<union> ran pend) H ix" and sv: "same_view ix0 ix"
    and len: "length plan = i"
    using inv by (simp_all add: pass1_inv_def)
  have wi: "wf_index (E + infos plan) (P \<union> ran pend) ix" using wf by (simp add: wf_all_def)
  note new = new_info_wf[OF wi nw, simplified]
  have ix': "ix' = ix\<lparr>heap := (heap ix)(p \<mapsto> \<lparr>mi_hash = h, masterBlockIndex = 0, refcount = 1\<rparr>),
      next_ptr := Suc p\<rparr>"
    by (rule new(5))
  have fresh: "heap ix p = None" using new(2) by (simp add: domIff)
  have slot: "slot_of ix' q = slot_of ix q" if "q \<in> dom (heap ix)" for q
    using that fresh by (auto simp: ix' slot_of_def)
  have pubs: "q \<in> ran (hash_to_master ix) \<Longrightarrow> slot_of ix' q = slot_of ix q" for q
    using wf_indexD(3)[OF wi] slot by blast
  have ran: "ran (pend(h \<mapsto> p)) = insert p (ran pend)"
    using h(3) by (simp add: ran_map_upd)
  have "wf_all sha f nb (E + infos (plan @ [e])) (P \<union> ran (pend(h \<mapsto> p))) H ix'"
    using wf new(1) wf_slots_cong[of ix' ix] wf_content_cong[of ix' ix] pubs
    by (simp add: wf_all_def e(5) ran ix')
  moreover have "plan_objects (heap ix') (ran (hash_to_master ix')) (ran (pend(h \<mapsto> p))) (plan @ [e])"
  proof (rule plan_objects_snoc)
    show "plan_objects (heap ix) (ran (hash_to_master ix')) (ran pend) plan"
      using inv by (simp add: pass1_inv_def ix')
    then show "\<exists>mi mi'. heap ix (info x) = Some mi \<and> heap ix' (info x) = Some mi' \<and> mi_hash mi' = mi_hash mi"
      if "x \<in> set plan" for x
      using that fresh unfolding plan_objects_def ix' by fastforce
    show "heap ix' (info e) = Some \<lparr>mi_hash = h, masterBlockIndex = 0, refcount = 1\<rparr>"
      by (simp add: ix' e(5))
  qed (use e new(3,4) ran in \<open>simp_all add: miss_def\<close>)
  moreover have "plan_describes sha buf start (plan @ [e])"
    using inv len e(2-4) h(1) by (intro plan_describes_snoc) (simp_all add: pass1_inv_def)
  moreover have "same_view ix0 ix'"
    by (rule same_view_trans[OF sv]) (use slot in \<open>auto simp: same_view_def ix'\<close>)
  moreover have "ran (pend(h \<mapsto> p)) \<inter> dom (heap ix0) = {}"
    using inv fresh sv unfolding ran by (auto simp: pass1_inv_def same_view_def)
  moreover have "\<forall>h' q. (pend(h \<mapsto> p)) h' = Some q \<longrightarrow> hash_to_master ix0 h' = None
      \<and> (\<exists>mi. heap ix' q = Some mi \<and> mi_hash mi = h')"
  proof (intro allI impI)
    fix h' q assume hq: "(pend(h \<mapsto> p)) h' = Some q"
    show "hash_to_master ix0 h' = None \<and> (\<exists>mi. heap ix' q = Some mi \<and> mi_hash mi = h')"
    proof (cases "h' = h")
      case True
      then show ?thesis using hq h(2) sv by (simp add: same_view_def ix')
    next
      case False
      then have "hash_to_master ix0 h' = None \<and> (\<exists>mi. heap ix q = Some mi \<and> mi_hash mi = h')"
        using hq inv by (simp add: pass1_inv_def)
      then show ?thesis using fresh by (auto simp: ix')
    qed
  qed
  ultimately show ?thesis
    using inv len e(1) by (simp add: pass1_inv_def miss_def ix')
qed

lemma pass1_step_inv:
  assumes inv: "pass1_inv sha buf start f nb E P H ix0 i st"
    and room: "card (dom (file_to_master ix0)) + size E + Suc i < 2 ^ 32"
  shows "\<exists>st'. pass1_step sha buf start i st = Some st'
    \<and> pass1_inv sha buf start f nb E P H ix0 (Suc i) st'"
proof -
  obtain ix pend plan mc where st: "st = (ix, pend, plan, mc)" by (metis prod_cases4)
  note inv' = inv[unfolded st]
  let ?h = "sha (chunk buf i)"
  have wi: "wf_index (E + infos plan) (P \<union> ran pend) ix"
    using inv' by (simp add: pass1_inv_def wf_all_def)
  consider (pub) p where "hash_to_master ix ?h = Some p"
    | (pend) p where "hash_to_master ix ?h = None" "pend ?h = Some p"
    | (none) "hash_to_master ix ?h = None" "pend ?h = None"
    by (cases "hash_to_master ix ?h"; cases "pend ?h") auto
  then show ?thesis
  proof cases
    case pub
    obtain mi where mi: "heap ix p = Some mi" "mi_hash mi = ?h"
      using wf_index_heap(1)[OF wi pub] by blast
    have "p \<in> ran (hash_to_master ix) \<union> ran pend" using pub by (auto simp: ran_def)
    from pass1_hit[OF inv' room mi this, of "\<lparr>kind = PLAN_HIT, logical_blk = start + of_nat i,
        master_blk = 0, payload = i * BLOCK_SIZE, pe_hash = ?h, info = p\<rparr>"] pub show ?thesis
      by (auto simp: st pass1_step_def Let_def lookup_by_hash_def hash_block_chunk)
  next
    case pend
    obtain mi where mi: "heap ix p = Some mi" "mi_hash mi = ?h"
    proof -
      have "\<forall>h p. pend h = Some p \<longrightarrow> (\<exists>mi. heap ix p = Some mi \<and> mi_hash mi = h)"
        using inv' by (simp add: pass1_inv_def)
      with pend(2) that show ?thesis by blast
    qed
    have "p \<in> ran (hash_to_master ix) \<union> ran pend" using pend(2) by (auto simp: ran_def)
    from pass1_hit[OF inv' room mi this, of "\<lparr>kind = PLAN_HIT, logical_blk = start + of_nat i,
        master_blk = 0, payload = i * BLOCK_SIZE, pe_hash = ?h, info = p\<rparr>"] pend show ?thesis
      by (auto simp: st pass1_step_def Let_def lookup_by_hash_def hash_block_chunk)
  next
    case none
    obtain p ix' where nw: "new_info \<lparr>mi_hash = ?h, masterBlockIndex = 0, refcount = 1\<rparr> ix = (p, ix')"
      by fastforce
    from pass1_miss[OF inv' refl none nw, of "\<lparr>kind = PLAN_MISS, logical_blk = start + of_nat i,
        master_blk = 0, payload = i * BLOCK_SIZE, pe_hash = ?h, info = p\<rparr>"] none nw show ?thesis
      by (auto simp: st pass1_step_def Let_def lookup_by_hash_def hash_block_chunk)
  qed
qed

lemma pass1_correct:
  assumes wf: "wf_all sha f nb E P H ix"
    and room: "card (dom (file_to_master ix)) + size E + n < 2 ^ 32"
  obtains ix' pend plan mc where "pass1 sha buf start n ix = Some (ix', pend, plan, mc)"
    "pass1_inv sha buf start f nb E P H ix n (ix', pend, plan, mc)"
proof -
  have "pass1_inv sha buf start f nb E P H ix 0 (ix, Map.empty, [], 0)"
    using wf by (simp add: pass1_inv_def same_view_def plan_describes_def plan_objects_def)
  then have "\<exists>st. ofold (pass1_step sha buf start) [0..<n] (ix, Map.empty, [], 0) = Some st
      \<and> pass1_inv sha buf start f nb E P H ix n st"
    by (rule ofold_upt) (use pass1_step_inv room in force)
  with that show ?thesis unfolding pass1_def by (metis prod_cases4)
qed

end
