(* ===== verification/Write_Assign.thy ===== *)
theory Write_Assign
  imports Write_Pass1
begin

text \<open>
  Pass 1.5 of \<open>write_dedup\<close>: the slots the allocator returns are dealt to the MISS entries in
  order. Afterwards the request is ready to be flushed: every MISS entry has a slot of its
  own, which its pending object records and nothing else uses.
\<close>

section \<open>Dealing slots in order\<close>

text \<open>The number of MISS entries before entry \<open>j\<close>: the slot entry \<open>j\<close> receives.\<close>

definition rank :: "PlanEntry list \<Rightarrow> nat \<Rightarrow> nat" where
  "rank plan j = length (filter miss (take j plan))"

lemma rank_0 [simp]: "rank plan 0 = 0"
  by (simp add: rank_def)

lemma rank_Suc: "j < length plan \<Longrightarrow> rank plan (Suc j) = rank plan j + of_bool (miss (plan ! j))"
  by (simp add: rank_def take_Suc_conv_app_nth)

lemma rank_length: "rank plan (length plan) = length (filter miss plan)"
  by (simp add: rank_def)

lemma rank_mono: "i \<le> j \<Longrightarrow> rank plan i \<le> rank plan j"
proof -
  assume "i \<le> j"
  then have "take j plan = take i plan @ take (j - i) (drop i plan)"
    by (metis le_add_diff_inverse take_add)
  then show ?thesis by (simp add: rank_def)
qed

lemma rank_less:
  assumes "i < j" "j \<le> length plan" "miss (plan ! i)"
  shows "rank plan i < rank plan j"
proof -
  have "rank plan i < rank plan (Suc i)" using assms by (simp add: rank_Suc)
  also have "\<dots> \<le> rank plan j" using assms(1) by (intro rank_mono) simp
  finally show ?thesis .
qed

lemma rank_inj:
  assumes "rank plan i = rank plan j" "i < length plan" "j < length plan" "miss (plan ! i)" "miss (plan ! j)"
  shows "i = j"
  using assms rank_less[of i j plan] rank_less[of j i plan] by (metis less_imp_le nat_neq_iff)

lemma rank_less_count: "j < length plan \<Longrightarrow> miss (plan ! j) \<Longrightarrow> rank plan j < length (filter miss plan)"
  using rank_less[of j "length plan" plan] by (simp add: rank_length)

lemma rank_surj:
  assumes "m < length (filter miss plan)"
  obtains j where "j < length plan" "miss (plan ! j)" "rank plan j = m"
  using assms
proof (induction plan arbitrary: m thesis rule: rev_induct)
  case Nil
  then show ?case by simp
next
  case (snoc e plan)
  show ?case
  proof (cases "m < length (filter miss plan)")
    case True
    obtain j where "j < length plan" "miss (plan ! j)" "rank plan j = m"
      by (rule snoc.IH[OF _ True]) blast
    then show ?thesis by (intro snoc.prems(1)[of j]) (auto simp: nth_append rank_def)
  next
    case False
    with snoc.prems(2) have "miss e" "m = length (filter miss plan)"
      by (auto split: if_splits)
    then show ?thesis by (intro snoc.prems(1)[of "length plan"]) (auto simp: rank_def)
  qed
qed

lemma distinct_filter_nth:
  assumes "distinct (map g (filter Q xs))" "i < length xs" "j < length xs" "Q (xs ! i)" "Q (xs ! j)"
    and "g (xs ! i) = g (xs ! j)"
  shows "i = j"
  using assms
proof (induction xs arbitrary: i j)
  case Nil
  then show ?case by simp
next
  case (Cons x xs)
  have no: "g (xs ! l) \<noteq> g x" if "Q x" "l < length xs" "Q (xs ! l)" for l
  proof -
    have "g (xs ! l) \<in> set (map g (filter Q xs))" using that by simp
    then show ?thesis using Cons.prems(1) that(1) by auto
  qed
  have IH: "i' = j'" if "i = Suc i'" "j = Suc j'" for i' j'
    by (rule Cons.IH) (use Cons.prems that in \<open>auto split: if_splits\<close>)
  show ?case
  proof (cases i; cases j)
    show "i = j" if "i = 0" "j = 0" using that by simp
    show "i = j" if "i = 0" "j = Suc j'" for j'
      using that Cons.prems no[of j'] by auto
    show "i = j" if "i = Suc i'" "j = 0" for i'
      using that Cons.prems no[of i'] by auto
    show "i = j" if "i = Suc i'" "j = Suc j'" for i' j'
      using IH[OF that] that by simp
  qed
qed

lemma miss_slots_nth: "miss_slots plan = {master_blk (plan ! j) | j. j < length plan \<and> miss (plan ! j)}"
  unfolding miss_slots_def miss_def by (auto simp: in_set_conv_nth)

section \<open>The loop\<close>

lemma set_master_block_wf:
  assumes wf: "wf_all sha f nb E P H ix" and p: "p \<in> P" "heap ix p = Some mi"
  shows "set_master_block p s ix = Some (ix\<lparr>heap := (heap ix)(p \<mapsto> mi\<lparr>masterBlockIndex := s\<rparr>)\<rparr>)"
    and "wf_all sha f nb E P H (ix\<lparr>heap := (heap ix)(p \<mapsto> mi\<lparr>masterBlockIndex := s\<rparr>)\<rparr>)"
proof -
  let ?ix = "ix\<lparr>heap := (heap ix)(p \<mapsto> mi\<lparr>masterBlockIndex := s\<rparr>)\<rparr>"
  show "set_master_block p s ix = Some ?ix"
    using p(2) by (simp add: set_master_block_def)
  have wi: "wf_index E P ix" using wf by (simp add: wf_all_def)
  have "wf_index E P ?ix"
  proof (rule wf_indexI, goal_cases)
    case (2 q i)
    then show ?case using wf_indexD(2)[OF wi, of q] p(2) by (auto split: if_splits)
  next
    case 3
    then show ?case using wf_indexD(3)[OF wi] p(2) by auto
  next
    case (6 h q)
    then show ?case using wf_indexD(6)[OF wi, of h q] p(2) by auto
  next
    case 7
    then show ?case using wf_indexD(7)[OF wi] by auto
  next
    case (8 q i)
    then show ?case using wf_indexD(8,9)[OF wi, of q] p(2) by (auto split: if_splits)
  qed (use wf_indexD(1,4,5)[OF wi] in simp_all)
  moreover have "q \<in> ran (hash_to_master ix) \<Longrightarrow> slot_of ?ix q = slot_of ix q" for q
    using wf_indexD(4)[OF wi] p(1) by (auto simp: slot_of_def)
  ultimately show "wf_all sha f nb E P H ?ix"
    using wf wf_slots_cong[of ?ix ix] wf_content_cong[of ?ix ix] by (simp add: wf_all_def)
qed

text \<open>Entry \<open>j\<close> of the plan once the loop has passed it.\<close>

definition dealt :: "PlanEntry list \<Rightarrow> u64 list \<Rightarrow> nat \<Rightarrow> nat \<Rightarrow> PlanEntry" where
  "dealt plan0 out i j =
     (if j < i \<and> miss (plan0 ! j) then (plan0 ! j)\<lparr>master_blk := out ! rank plan0 j\<rparr> else plan0 ! j)"

lemma dealt_simps [simp]:
  "kind (dealt plan0 out i j) = kind (plan0 ! j)" "logical_blk (dealt plan0 out i j) = logical_blk (plan0 ! j)"
  "payload (dealt plan0 out i j) = payload (plan0 ! j)" "pe_hash (dealt plan0 out i j) = pe_hash (plan0 ! j)"
  "info (dealt plan0 out i j) = info (plan0 ! j)"
  by (simp_all add: dealt_def)

definition assign_inv ::
  "(byte list \<Rightarrow> hash) \<Rightarrow> fbytes \<Rightarrow> u64 \<Rightarrow> ptr multiset \<Rightarrow> ptr set \<Rightarrow> u64 set \<Rightarrow> Index \<Rightarrow> PlanEntry list
   \<Rightarrow> u64 list \<Rightarrow> nat \<Rightarrow> Index \<times> PlanEntry list \<times> nat \<Rightarrow> bool" where
  "assign_inv sha f nb E P H ix1 plan0 out i = (\<lambda>(ix, plan, m).
     wf_all sha f nb E P H ix
     \<and> ix = ix1\<lparr>heap := heap ix\<rparr>
     \<and> (\<forall>p. heap ix1 p = None \<longrightarrow> heap ix p = None)
     \<and> (\<forall>p mi. heap ix1 p = Some mi \<longrightarrow>
          (\<exists>s. heap ix p = Some (mi\<lparr>masterBlockIndex := s\<rparr>)
             \<and> (p \<notin> info ` {e \<in> set plan0. miss e} \<longrightarrow> s = masterBlockIndex mi)))
     \<and> length plan = length plan0 \<and> (\<forall>j < length plan0. plan ! j = dealt plan0 out i j)
     \<and> (\<forall>j < i. miss (plan0 ! j) \<longrightarrow> slot_of ix (info (plan0 ! j)) = out ! rank plan0 j)
     \<and> m = rank plan0 i)"

lemma assign_step_inv:
  assumes inv: "assign_inv sha f nb E P H ix1 plan0 out i st" and i: "i < length plan0"
    and d: "distinct (map info (filter miss plan0))"
    and P: "info ` {e \<in> set plan0. miss e} \<subseteq> P"
  shows "\<exists>st'. assign_step out i st = Some st' \<and> assign_inv sha f nb E P H ix1 plan0 out (Suc i) st'"
proof -
  obtain ix plan m where st: "st = (ix, plan, m)" by (metis prod_cases3)
  note inv' = inv[unfolded st assign_inv_def prod.case]
  have nth: "j < length plan0 \<Longrightarrow> plan ! j = dealt plan0 out i j" and len: "length plan = length plan0"
    and m: "m = rank plan0 i" for j
    using inv' by blast+
  have pi: "plan ! i = plan0 ! i" using nth[OF i] by (simp add: dealt_def)
  show ?thesis
  proof (cases "miss (plan0 ! i)")
    case False
    have "dealt plan0 out (Suc i) j = dealt plan0 out i j" for j
      using False by (auto simp: dealt_def less_Suc_eq)
    then have "assign_inv sha f nb E P H ix1 plan0 out (Suc i) st"
      using inv' False i unfolding st assign_inv_def prod.case by (auto simp: less_Suc_eq rank_Suc)
    moreover have "assign_step out i st = Some st"
      using False pi by (simp add: st assign_step_def miss_def)
    ultimately show ?thesis by blast
  next
    case True
    let ?p = "info (plan0 ! i)"
    have mem: "plan0 ! i \<in> {e \<in> set plan0. miss e}" using True i by simp
    have pP: "?p \<in> P" using P mem by blast
    have wf: "wf_all sha f nb E P H ix" using inv' by blast
    then obtain mi where mi: "heap ix ?p = Some mi"
      using pP wf_indexD(3)[of E P ix] unfolding wf_all_def by blast
    let ?ix = "ix\<lparr>heap := (heap ix)(?p \<mapsto> mi\<lparr>masterBlockIndex := out ! m\<rparr>)\<rparr>"
    let ?plan = "plan[i := (plan ! i)\<lparr>master_blk := out ! m\<rparr>]"
    note set_wf = set_master_block_wf[OF wf pP mi, of "out ! m"]
    have "assign_step out i st = Some (?ix, ?plan, Suc m)"
      using True pi set_wf(1) i len by (simp add: st assign_step_def miss_def Let_def)
    moreover have "assign_inv sha f nb E P H ix1 plan0 out (Suc i) (?ix, ?plan, Suc m)"
      unfolding assign_inv_def prod.case
    proof (intro conjI allI impI)
      show "wf_all sha f nb E P H ?ix" by (rule set_wf(2))
      have ixe: "ix = ix1\<lparr>heap := heap ix\<rparr>" using inv' by blast
      show "?ix = ix1\<lparr>heap := heap ?ix\<rparr>" by (subst ixe) simp
      show "heap ?ix q = None" if "heap ix1 q = None" for q
        using inv' that mi by force
      show "\<exists>s. heap ?ix q = Some (mi'\<lparr>masterBlockIndex := s\<rparr>)
             \<and> (q \<notin> info ` {e \<in> set plan0. miss e} \<longrightarrow> s = masterBlockIndex mi')"
        if q: "heap ix1 q = Some mi'" for q mi'
      proof (cases "q = ?p")
        case qp: True
        obtain s where "heap ix ?p = Some (mi'\<lparr>masterBlockIndex := s\<rparr>)"
          using inv' q qp by blast
        with mi qp mem show ?thesis by auto
      next
        case False
        then show ?thesis using inv' q by auto
      qed
      show "length ?plan = length plan0" using len by simp
      show "?plan ! j = dealt plan0 out (Suc i) j" if "j < length plan0" for j
        using nth[OF that] that i len True m by (auto simp: dealt_def nth_list_update)
      show "slot_of ?ix (info (plan0 ! j)) = out ! rank plan0 j" if "j < Suc i" "miss (plan0 ! j)" for j
      proof (cases "j = i")
        case True
        then show ?thesis using m by (simp add: slot_of_def)
      next
        case False
        then have j: "j < i" using that(1) by simp
        then have "info (plan0 ! j) \<noteq> ?p"
          using distinct_filter_nth[OF d _ i that(2) True] i by auto
        then have "slot_of ?ix (info (plan0 ! j)) = slot_of ix (info (plan0 ! j))"
          by (simp add: slot_of_def)
        with inv' j that(2) show ?thesis by simp
      qed
      show "Suc m = rank plan0 (Suc i)" using m True i by (simp add: rank_Suc)
    qed
    ultimately show ?thesis by blast
  qed
qed

section \<open>A request ready to be flushed\<close>

definition write_ready ::
  "(byte list \<Rightarrow> hash) \<Rightarrow> byte list \<Rightarrow> u64 \<Rightarrow> fbytes \<Rightarrow> u64 \<Rightarrow> ptr multiset \<Rightarrow> ptr set \<Rightarrow> u64 set
   \<Rightarrow> Index \<Rightarrow> ptr set \<Rightarrow> Index \<Rightarrow> PlanEntry list \<Rightarrow> bool" where
  "write_ready sha buf start f nb E P H ix0 pend ix plan \<longleftrightarrow>
     wf_all sha f nb (E + infos plan) (P \<union> pend) (H \<union> miss_slots plan) ix
     \<and> same_view ix0 ix \<and> plan_describes sha buf start plan
     \<and> plan_objects (heap ix) (ran (hash_to_master ix)) pend plan
     \<and> pend \<inter> dom (heap ix0) = {} \<and> miss_slots plan \<inter> H = {}
     \<and> (\<forall>e \<in> set plan. miss e \<longrightarrow> hash_to_master ix (pe_hash e) = None
          \<and> slot_of ix (info e) = master_blk e \<and> unat (master_blk e) < MAX_SLOTS)
     \<and> (\<forall>j < length plan. \<forall>k < length plan. miss (plan ! j) \<longrightarrow> miss (plan ! k) \<longrightarrow>
          pe_hash (plan ! j) = pe_hash (plan ! k) \<or> master_blk (plan ! j) = master_blk (plan ! k)
          \<longrightarrow> j = k)"

lemma pass1_miss_facts:
  assumes "pass1_inv sha buf start f nb E P H ix0 n (ix, pend, plan, mc)"
  shows "j < length plan \<Longrightarrow> miss (plan ! j) \<Longrightarrow>
      pend (pe_hash (plan ! j)) = Some (info (plan ! j)) \<and> hash_to_master ix (pe_hash (plan ! j)) = None"
    and "j < length plan \<Longrightarrow> k < length plan \<Longrightarrow> miss (plan ! j) \<Longrightarrow> miss (plan ! k) \<Longrightarrow>
      pe_hash (plan ! j) = pe_hash (plan ! k) \<Longrightarrow> j = k"
proof -
  have obj: "plan_objects (heap ix) (ran (hash_to_master ix)) (ran pend) plan"
    and pd: "\<And>h p. pend h = Some p \<Longrightarrow> hash_to_master ix0 h = None \<and> (\<exists>mi. heap ix p = Some mi \<and> mi_hash mi = h)"
    and sv: "same_view ix0 ix"
    using assms by (simp_all add: pass1_inv_def)
  show one: "pend (pe_hash (plan ! j)) = Some (info (plan ! j)) \<and> hash_to_master ix (pe_hash (plan ! j)) = None"
    if j: "j < length plan" "miss (plan ! j)" for j
  proof -
    have "info (plan ! j) \<in> ran pend" using obj j unfolding plan_objects_def by auto
    then obtain h where h: "pend h = Some (info (plan ! j))" by (auto simp: ran_def)
    moreover have "\<exists>mi. heap ix (info (plan ! j)) = Some mi \<and> mi_hash mi = pe_hash (plan ! j)"
      using obj j(1) unfolding plan_objects_def by (meson nth_mem)
    ultimately have "h = pe_hash (plan ! j)" using pd[OF h] by auto
    with h pd[OF h] sv show ?thesis by (simp add: same_view_def)
  qed
  show "j = k" if "j < length plan" "k < length plan" "miss (plan ! j)" "miss (plan ! k)"
    "pe_hash (plan ! j) = pe_hash (plan ! k)" for j k
    using one[of j] one[of k] that obj distinct_filter_nth[of info miss plan j k]
    unfolding plan_objects_def by auto
qed

text \<open>
  What the assignment does to a plan with MISS entries, whatever else is in progress: the entries
  get distinct slots that nobody held, and the pending objects record them.
\<close>

definition assigned_plan :: "PlanEntry list \<Rightarrow> PlanEntry list \<Rightarrow> bool" where
  "assigned_plan plan plan' \<longleftrightarrow> length plan' = length plan
     \<and> (\<forall>j < length plan. kind (plan' ! j) = kind (plan ! j) \<and> info (plan' ! j) = info (plan ! j)
          \<and> pe_hash (plan' ! j) = pe_hash (plan ! j) \<and> logical_blk (plan' ! j) = logical_blk (plan ! j)
          \<and> payload (plan' ! j) = payload (plan ! j))"

lemma assigned_plan_facts:
  assumes "assigned_plan plan plan'"
  shows "map info plan' = map info plan" "map miss plan' = map miss plan" "map pe_hash plan' = map pe_hash plan"
    "map info (filter miss plan') = map info (filter miss plan)"
    "length (filter miss plan') = length (filter miss plan)" "infos plan' = infos plan"
    "plan_describes sha buf start plan' = plan_describes sha buf start plan"
proof -
  show maps: "map info plan' = map info plan" "map miss plan' = map miss plan" "map pe_hash plan' = map pe_hash plan"
    by (rule nth_equalityI; use assms in \<open>simp add: assigned_plan_def miss_def\<close>)+
  have "map info (filter miss xs) = map info (filter miss ys)"
    if "map info xs = map info ys" "map miss xs = map miss ys" for xs ys
    using that by (induction xs ys rule: list_induct2') auto
  with maps show misses: "map info (filter miss plan') = map info (filter miss plan)" by blast
  show "length (filter miss plan') = length (filter miss plan)"
    using arg_cong[OF misses, of length] by simp
  show "infos plan' = infos plan" using maps(1) by (simp add: infos_def)
  show "plan_describes sha buf start plan' = plan_describes sha buf start plan"
    using assms by (simp add: plan_describes_def assigned_plan_def)
qed

lemma assign_slots_effect:
  assumes wf: "wf_all sha f nb (E + infos plan) (P \<union> info ` {e \<in> set plan. miss e}) H ix"
    and d: "distinct (map info (filter miss plan))" and mc: "mc = length (filter miss plan)" "mc > 0"
    and room: "unat nb + mc \<le> MAX_SLOTS"
  obtains ix' nb' plan' where "assign_slots ix nb plan mc = Some (ix', nb', plan')"
    "assigned_plan plan plan'"
    "wf_all sha f nb' (E + infos plan') (P \<union> info ` {e \<in> set plan. miss e}) (H \<union> miss_slots plan') ix'"
    "miss_slots plan' \<inter> H = {}" "unat nb' \<le> unat nb + mc"
    "hash_to_master ix' = hash_to_master ix" "file_to_master ix' = file_to_master ix"
    "file_to_sizes ix' = file_to_sizes ix" "next_ptr ix' = next_ptr ix"
    "\<forall>p. heap ix p = None \<longrightarrow> heap ix' p = None"
    "\<forall>p mi. heap ix p = Some mi \<longrightarrow> (\<exists>s. heap ix' p = Some (mi\<lparr>masterBlockIndex := s\<rparr>)
       \<and> (p \<notin> info ` {e \<in> set plan. miss e} \<longrightarrow> s = masterBlockIndex mi))"
    "\<forall>e \<in> set plan'. miss e \<longrightarrow> slot_of ix' (info e) = master_blk e \<and> unat (master_blk e) < MAX_SLOTS"
    "\<forall>j < length plan. \<forall>k < length plan. miss (plan ! j) \<longrightarrow> miss (plan ! k) \<longrightarrow>
       master_blk (plan' ! j) = master_blk (plan' ! k) \<longrightarrow> j = k"
proof -
  let ?P = "info ` {e \<in> set plan. miss e}"
  obtain out ix1 nb' where al: "allocate_batch_storage_first ix mc nb = (out, ix1, nb')"
    by (metis prod_cases3)
  note al_wf = storage_first.alloc_wf_all[OF wf room al]
  have ix1: "ix1 = ix\<lparr>free_block_list := free_block_list ix1\<rparr>" by (rule storage_first.alloc_frame[OF al])
  have tabs: "heap ix1 = heap ix" "hash_to_master ix1 = hash_to_master ix" "next_ptr ix1 = next_ptr ix"
    "file_to_master ix1 = file_to_master ix" "file_to_sizes ix1 = file_to_sizes ix"
    by (subst ix1, simp)+
  let ?H = "H \<union> set out"
  have "assign_inv sha f nb' (E + infos plan) (P \<union> ?P) ?H ix1 plan out 0 (ix1, plan, 0)"
    using al_wf(1) by (auto simp: assign_inv_def dealt_def intro!: exI[of _ "masterBlockIndex _"])
  then have "\<exists>st. ofold (assign_step out) [0..<length plan] (ix1, plan, 0) = Some st
      \<and> assign_inv sha f nb' (E + infos plan) (P \<union> ?P) ?H ix1 plan out (length plan) st"
    by (rule ofold_upt) (rule assign_step_inv, use d in auto)
  then obtain st where st: "ofold (assign_step out) [0..<length plan] (ix1, plan, 0) = Some st"
      "assign_inv sha f nb' (E + infos plan) (P \<union> ?P) ?H ix1 plan out (length plan) st"
    by blast
  obtain ix' plan' m where st': "st = (ix', plan', m)" by (cases st)
  note loop = st(1)[unfolded st'] and ai = st(2)[unfolded st']
  note ai' = ai[unfolded assign_inv_def prod.case]
  have len: "length plan' = length plan" and nth: "\<And>j. j < length plan \<Longrightarrow> plan' ! j = dealt plan out (length plan) j"
    using ai' by blast+
  have ap: "assigned_plan plan plan'" using len nth by (simp add: assigned_plan_def)
  have fld: "info (plan' ! j) = info (plan ! j)" "miss (plan' ! j) = miss (plan ! j)" if "j < length plan" for j
    using nth[OF that] by (simp_all add: miss_def)
  have blk: "master_blk (plan' ! j) = out ! rank plan j" if "j < length plan" "miss (plan ! j)" for j
    using nth[OF that(1)] that by (simp add: dealt_def)
  have rk: "rank plan j < length out" if "j < length plan" "miss (plan ! j)" for j
    using rank_less_count[OF that] mc al_wf(2) by simp
  have slots: "miss_slots plan' = set out"
  proof
    show "miss_slots plan' \<subseteq> set out"
      unfolding miss_slots_nth using len fld blk rk by auto
    show "set out \<subseteq> miss_slots plan'"
    proof
      fix s assume "s \<in> set out"
      then obtain l where l: "l < length (filter miss plan)" "s = out ! l"
        using al_wf(2) mc by (metis in_set_conv_nth)
      then obtain j where j: "j < length plan" "miss (plan ! j)" "rank plan j = l"
        using rank_surj[OF l(1)] by metis
      then show "s \<in> miss_slots plan'"
        unfolding miss_slots_nth using blk[OF j(1,2)] len fld(2)[OF j(1)] l(2)
        by (intro CollectI exI[of _ j]) simp
    qed
  qed
  have wf': "wf_all sha f nb' (E + infos plan') (P \<union> ?P) (H \<union> miss_slots plan') ix'"
    using ai' slots assigned_plan_facts(6)[OF ap] by simp
  have ixe: "ix' = ix1\<lparr>heap := heap ix'\<rparr>" using ai' by blast
  have tabs': "hash_to_master ix' = hash_to_master ix" "file_to_master ix' = file_to_master ix"
    "file_to_sizes ix' = file_to_sizes ix" "next_ptr ix' = next_ptr ix"
    by (subst ixe, simp add: tabs)+
  have each: "slot_of ix' (info e) = master_blk e \<and> unat (master_blk e) < MAX_SLOTS"
    if e: "e \<in> set plan'" "miss e" for e
  proof -
    obtain j where j: "j < length plan" "e = plan' ! j" using e(1) len by (metis in_set_conv_nth)
    then have m: "miss (plan ! j)" using e(2) fld(2) by simp
    have "slot_of ix' (info (plan ! j)) = out ! rank plan j" using ai' j(1) m by blast
    moreover have "master_blk e \<in> miss_slots plan'" using e unfolding miss_slots_def miss_def by blast
    then have "master_blk e < nb'" using wf' unfolding wf_all_def wf_slots_def by blast
    then have "unat (master_blk e) < MAX_SLOTS" using al_wf(5) room by (simp add: word_less_nat_alt)
    ultimately show ?thesis using j fld(1) blk m by simp
  qed
  have inj: "j = k" if "j < length plan" "k < length plan" "miss (plan ! j)" "miss (plan ! k)"
    "master_blk (plan' ! j) = master_blk (plan' ! k)" for j k
  proof -
    have "out ! rank plan j = out ! rank plan k"
      using that(5) unfolding blk[OF that(1,3)] blk[OF that(2,4)] .
    then have "rank plan j = rank plan k"
      by (simp only: nth_eq_iff_index_eq[OF al_wf(3) rk[OF that(1,3)] rk[OF that(2,4)]])
    then show ?thesis using that(1-4) by (rule rank_inj)
  qed
  have "assign_slots ix nb plan mc = Some (ix', nb', plan')"
    using mc(2) al loop by (simp add: assign_slots_def)
  then show ?thesis
  proof (rule that[OF _ ap wf' _ al_wf(5) tabs'])
    show "miss_slots plan' \<inter> H = {}" using al_wf(4) slots by simp
    show "\<forall>p. heap ix p = None \<longrightarrow> heap ix' p = None" using ai' tabs(1) by metis
    show "\<forall>p mi. heap ix p = Some mi \<longrightarrow> (\<exists>s. heap ix' p = Some (mi\<lparr>masterBlockIndex := s\<rparr>)
       \<and> (p \<notin> ?P \<longrightarrow> s = masterBlockIndex mi))"
      using ai' tabs(1) by metis
  qed (use each inj in blast)+
qed

lemma assign_slots_correct:
  assumes inv: "pass1_inv sha buf start f nb E P H ix0 n (ix, pend, plan, mc)"
    and room: "unat nb + n \<le> MAX_SLOTS"
  obtains ix' nb' plan' where "assign_slots ix nb plan mc = Some (ix', nb', plan')"
    "write_ready sha buf start f nb' E P H ix0 (ran pend) ix' plan'"
    "length plan' = n" "unat nb' \<le> unat nb + n" "mc = length (filter miss plan')"
proof (cases "mc > 0")
  case False
  have mc: "mc = length (filter miss plan)" "length plan = n"
    using inv by (simp_all add: pass1_inv_def)
  with False have no: "\<forall>e \<in> set plan. \<not> miss e" by (simp add: filter_empty_conv)
  then have "miss_slots plan = {}" by (auto simp: miss_slots_def miss_def)
  with inv no have "write_ready sha buf start f nb E P H ix0 (ran pend) ix plan"
    unfolding write_ready_def pass1_inv_def by (simp add: all_set_conv_all_nth)
  with False mc that[of ix nb plan] show ?thesis by (simp add: assign_slots_def)
next
  case True
  have mc: "mc = length (filter miss plan)" "length plan = n" and sv: "same_view ix0 ix"
    and wf: "wf_all sha f nb (E + infos plan) (P \<union> ran pend) H ix"
    and obj: "plan_objects (heap ix) (ran (hash_to_master ix)) (ran pend) plan"
    and desc: "plan_describes sha buf start plan" and disj: "ran pend \<inter> dom (heap ix0) = {}"
    using inv by (simp_all add: pass1_inv_def)
  have d: "distinct (map info (filter miss plan))" and im: "info ` {e \<in> set plan. miss e} = ran pend"
    using obj by (simp_all add: plan_objects_def)
  have room': "unat nb + mc \<le> MAX_SLOTS" using room mc length_filter_le[of miss plan] by simp
  from wf have wf: "wf_all sha f nb (E + infos plan) (P \<union> info ` {e \<in> set plan. miss e}) H ix"
    unfolding im .
  obtain ix' nb' plan' where asg: "assign_slots ix nb plan mc = Some (ix', nb', plan')"
    and ap: "assigned_plan plan plan'"
    and wf': "wf_all sha f nb' (E + infos plan') (P \<union> ran pend) (H \<union> miss_slots plan') ix'"
    and dH: "miss_slots plan' \<inter> H = {}" and nb': "unat nb' \<le> unat nb + mc"
    and tabs: "hash_to_master ix' = hash_to_master ix" "file_to_master ix' = file_to_master ix"
      "file_to_sizes ix' = file_to_sizes ix"
    and hp: "\<forall>p mi. heap ix p = Some mi \<longrightarrow> (\<exists>s. heap ix' p = Some (mi\<lparr>masterBlockIndex := s\<rparr>)
       \<and> (p \<notin> ran pend \<longrightarrow> s = masterBlockIndex mi))"
    and each: "\<forall>e \<in> set plan'. miss e \<longrightarrow> slot_of ix' (info e) = master_blk e \<and> unat (master_blk e) < MAX_SLOTS"
    and inj: "\<forall>j < length plan. \<forall>k < length plan. miss (plan ! j) \<longrightarrow> miss (plan ! k) \<longrightarrow>
       master_blk (plan' ! j) = master_blk (plan' ! k) \<longrightarrow> j = k"
    by (rule assign_slots_effect[OF wf d mc(1) True room', unfolded im])
  have len: "length plan' = length plan"
    and fld: "info (plan' ! j) = info (plan ! j)" "pe_hash (plan' ! j) = pe_hash (plan ! j)"
      "miss (plan' ! j) = miss (plan ! j)" if "j < length plan" for j
    using ap that by (simp_all add: assigned_plan_def miss_def)
  note pf = assigned_plan_facts[OF ap]
  have sv': "same_view ix0 ix'"
    unfolding same_view_def
  proof (intro conjI ballI)
    fix p assume p: "p \<in> dom (heap ix0)"
    then have "p \<in> dom (heap ix)" "slot_of ix p = slot_of ix0 p" "p \<notin> ran pend"
      using sv disj unfolding same_view_def by blast+
    then show "p \<in> dom (heap ix')" "slot_of ix' p = slot_of ix0 p"
      using hp by (fastforce simp: slot_of_def)+
  qed (use sv tabs in \<open>simp_all add: same_view_def\<close>)
  have obj': "plan_objects (heap ix') (ran (hash_to_master ix')) (ran pend) plan'"
    unfolding plan_objects_def tabs
  proof (intro conjI ballI)
    fix e assume "e \<in> set plan'"
    then obtain j where j: "j < length plan" "e = plan' ! j" using ap by (metis assigned_plan_def in_set_conv_nth)
    have e0: "plan ! j \<in> set plan" using j(1) by simp
    then obtain mi where "heap ix (info (plan ! j)) = Some mi" "mi_hash mi = pe_hash (plan ! j)"
      using obj unfolding plan_objects_def by blast
    then show "\<exists>mi. heap ix' (info e) = Some mi \<and> mi_hash mi = pe_hash e"
      using hp fld[OF j(1)] j(2) by fastforce
    show "info e \<in> ran (hash_to_master ix) \<union> ran pend"
      using obj e0 fld(1)[OF j(1)] j(2) unfolding plan_objects_def by simp
  next
    show "distinct (map info (filter miss plan'))" using d pf(4) by simp
    have as_list: "info ` {e \<in> set p. miss e} = set (map info (filter miss p))" for p by auto
    show "info ` {e \<in> set plan'. miss e} = ran pend"
      unfolding as_list pf(4) im[symmetric] by (rule refl)
  qed
  note facts = pass1_miss_facts[OF inv]
  have none: "hash_to_master ix' (pe_hash e) = None" if e: "e \<in> set plan'" "miss e" for e
  proof -
    obtain j where j: "j < length plan" "e = plan' ! j" using e(1) ap by (metis assigned_plan_def in_set_conv_nth)
    then show ?thesis using facts(1)[OF j(1)] e(2) fld[OF j(1)] tabs(1) by simp
  qed
  have inj': "j = k" if "j < length plan'" "k < length plan'" "miss (plan' ! j)" "miss (plan' ! k)"
    "pe_hash (plan' ! j) = pe_hash (plan' ! k) \<or> master_blk (plan' ! j) = master_blk (plan' ! k)" for j k
  proof -
    have l: "length plan' = length plan" using ap by (simp add: assigned_plan_def)
    have jk: "j < length plan" "k < length plan" "miss (plan ! j)" "miss (plan ! k)"
      using that fld(3) unfolding l by auto
    show ?thesis using that(5) facts(2)[OF jk] inj jk fld(2)[OF jk(1)] fld(2)[OF jk(2)] by auto
  qed
  have "write_ready sha buf start f nb' E P H ix0 (ran pend) ix' plan'"
    unfolding write_ready_def
  proof (intro conjI ballI allI impI)
    show "j = k" if "j < length plan'" "k < length plan'" "miss (plan' ! j)" "miss (plan' ! k)"
      "pe_hash (plan' ! j) = pe_hash (plan' ! k) \<or> master_blk (plan' ! j) = master_blk (plan' ! k)" for j k
      using that by (rule inj')
  qed (use wf' sv' desc pf(7) obj' disj dH each none in simp_all)
  moreover have "length plan' = n" "unat nb' \<le> unat nb + n" "mc = length (filter miss plan')"
    using ap mc pf(5) nb' length_filter_le[of miss plan] by (simp_all add: assigned_plan_def)
  ultimately show ?thesis using asg that by blast
qed

end
