(* ===== verification/Write_Rollback.thy ===== *)
theory Write_Rollback
  imports Write_Assign
begin

text \<open>
  The flush seen from the index (it writes only slots the operation holds, so no published
  block changes, whatever the kernel answers), and the rollback after a failed flush, which
  gives every reference, object and slot of the request back.
\<close>

section \<open>Writing held slots only\<close>

lemma wf_all_held_write:
  assumes wf: "wf_all sha f nb E P H ix"
    and grow: "length f \<le> length f'"
    and frame: "\<forall>k. Suc k * BLOCK_SIZE \<le> length f \<longrightarrow> (\<forall>s \<in> H. unat s \<noteq> k) \<longrightarrow> chunk f' k = chunk f k"
  shows "wf_all sha f' nb E P H ix"
    and "block_view f' ix = block_view f ix"
    and "p \<in> ran (hash_to_master ix) \<Longrightarrow>
         chunk f' (unat (slot_of ix p)) = chunk f (unat (slot_of ix p))"
proof -
  have wi: "wf_index E P ix" and ws: "wf_slots H nb ix" and wc: "wf_content sha f ix"
    using wf by (simp_all add: wf_all_def)
  have len: "Suc (unat (slot_of ix p)) * BLOCK_SIZE \<le> length f" if "p \<in> ran (hash_to_master ix)" for p
    using wc that unfolding wf_content_def ran_def by blast
  show pub: "chunk f' (unat (slot_of ix p)) = chunk f (unat (slot_of ix p))"
    if p: "p \<in> ran (hash_to_master ix)" for p
  proof -
    have "slot_of ix p \<in> live_slots ix" using p by (simp add: live_slots_def)
    then have "slot_of ix p \<notin> H" using ws unfolding wf_slots_def by blast
    then have "\<forall>s \<in> H. unat s \<noteq> unat (slot_of ix p)" by (metis word_unat_eq_iff)
    with frame len[OF p] show ?thesis by blast
  qed
  have "wf_content sha f' ix"
    unfolding wf_content_def
  proof (intro allI impI)
    fix h p assume hp: "hash_to_master ix h = Some p"
    then have p: "p \<in> ran (hash_to_master ix)" by (rule ranI)
    show "Suc (unat (slot_of ix p)) * BLOCK_SIZE \<le> length f' \<and> sha (chunk f' (unat (slot_of ix p))) = h"
      using wc hp le_trans[OF len[OF p] grow] pub[OF p] unfolding wf_content_def by simp
  qed
  with wi ws show "wf_all sha f' nb E P H ix" by (simp add: wf_all_def)
  show "block_view f' ix = block_view f ix"
  proof
    fix k show "block_view f' ix k = block_view f ix k"
      using pub[OF wf_index_heap(3)[OF wi, of k]] by (cases "file_to_master ix k") (auto simp: block_view_def)
  qed
qed

text \<open>Two indexes that look the same to a reader have the same block view.\<close>

lemma same_view_block_view:
  assumes "same_view ix0 ix" "wf_index E P ix0"
  shows "block_view f ix = block_view f ix0"
proof (rule block_view_cong)
  show "file_to_master ix = file_to_master ix0" using assms(1) by (simp add: same_view_def)
  show "slot_of ix p = slot_of ix0 p" if "file_to_master ix0 k = Some p" for k p
    using wf_index_heap(2)[OF assms(2) that] assms(1) unfolding same_view_def by blast
qed

section \<open>The flush\<close>

lemma write_ready_plan_ready:
  assumes "write_ready sha buf start f nb E P H ix0 pend ix plan"
    and "length buf = length plan * BLOCK_SIZE"
  shows "plan_ready plan buf"
  unfolding plan_ready_def
proof (intro conjI allI impI)
  note w = assms(1)[unfolded write_ready_def]
  show "length buf = length plan * BLOCK_SIZE" by (rule assms(2))
  show "payload (plan ! j) = j * BLOCK_SIZE" if "j < length plan" for j
    using w that by (simp add: plan_describes_def)
  show "unat (master_blk (plan ! j)) < MAX_SLOTS" if "j < length plan" "kind (plan ! j) = PLAN_MISS" for j
    using w that by (simp add: miss_def)
  show "j = k" if "j < length plan" "k < length plan" "kind (plan ! j) = PLAN_MISS"
    "kind (plan ! k) = PLAN_MISS" "master_blk (plan ! j) = master_blk (plan ! k)" for j k
    using w that by (simp add: miss_def)
qed

lemma flush_correct:
  assumes ready: "write_ready sha buf start f nb E P H ix0 pend ix plan"
    and len: "length buf = length plan * BLOCK_SIZE"
    and fl: "flush_plan f ios plan buf = (rc, f', ios')"
  shows "rc \<le> 0" and "write_ready sha buf start f' nb E P H ix0 pend ix plan"
    and "block_view f' ix = block_view f ix"
    and "p \<in> ran (hash_to_master ix) \<Longrightarrow>
         chunk f' (unat (slot_of ix p)) = chunk f (unat (slot_of ix p))"
    and "rc = 0 \<Longrightarrow> j < length plan \<Longrightarrow> miss (plan ! j) \<Longrightarrow>
         Suc (unat (master_blk (plan ! j))) * BLOCK_SIZE \<le> length f'
         \<and> chunk f' (unat (master_blk (plan ! j))) = chunk buf j"
proof -
  note fc = flush_loop_correct[OF write_ready_plan_ready[OF ready len] _ fl[unfolded flush_plan_def]]
  have wf: "wf_all sha f nb (E + infos plan) (P \<union> pend) (H \<union> miss_slots plan) ix"
    using ready by (simp add: write_ready_def)
  have grow: "length f \<le> length f'" using fc by simp
  have frame: "\<forall>k. Suc k * BLOCK_SIZE \<le> length f \<longrightarrow> (\<forall>s \<in> H \<union> miss_slots plan. unat s \<noteq> k)
      \<longrightarrow> chunk f' k = chunk f k"
  proof (intro allI impI)
    fix k assume k: "Suc k * BLOCK_SIZE \<le> length f" "\<forall>s \<in> H \<union> miss_slots plan. unat s \<noteq> k"
    have "\<forall>j. 0 \<le> j \<and> j < length plan \<longrightarrow> kind (plan ! j) = PLAN_MISS \<longrightarrow> unat (master_blk (plan ! j)) \<noteq> k"
    proof (intro allI impI)
      fix j assume "0 \<le> j \<and> j < length plan" "kind (plan ! j) = PLAN_MISS"
      then have "master_blk (plan ! j) \<in> miss_slots plan"
        unfolding miss_slots_nth by (intro CollectI exI[of _ j]) (simp add: miss_def)
      with k(2) show "unat (master_blk (plan ! j)) \<noteq> k" by blast
    qed
    with fc k(1) show "chunk f' k = chunk f k" by simp
  qed
  note held = wf_all_held_write[OF wf grow frame]
  show "rc \<le> 0" using fc by simp
  show "write_ready sha buf start f' nb E P H ix0 pend ix plan"
    using ready held(1) by (simp add: write_ready_def)
  show "block_view f' ix = block_view f ix" by (rule held(2))
  show "p \<in> ran (hash_to_master ix) \<Longrightarrow>
      chunk f' (unat (slot_of ix p)) = chunk f (unat (slot_of ix p))" by (rule held(3))
  show "Suc (unat (master_blk (plan ! j))) * BLOCK_SIZE \<le> length f'
      \<and> chunk f' (unat (master_blk (plan ! j))) = chunk buf j"
    if "rc = 0" "j < length plan" "miss (plan ! j)"
    using fc that by (simp add: miss_def)
qed

section \<open>Rollback, first loop: the references of the HIT entries\<close>

abbreviation hit_infos :: "PlanEntry list \<Rightarrow> ptr multiset" where
  "hit_infos plan \<equiv> infos (filter (\<lambda>e. \<not> miss e) plan)"

abbreviation miss_infos :: "PlanEntry list \<Rightarrow> ptr multiset" where
  "miss_infos plan \<equiv> infos (filter miss plan)"

lemma infos_split: "infos plan = miss_infos plan + hit_infos plan"
  by (induction plan) (simp_all add: infos_def)

lemma infos_Cons [simp]: "infos (e # plan) = add_mset (info e) (infos plan)"
  by (simp add: infos_def)

lemma set_infos [simp]: "set_mset (infos plan) = info ` set plan"
  by (simp add: infos_def)

definition rollback_inv ::
  "(byte list \<Rightarrow> hash) \<Rightarrow> fbytes \<Rightarrow> u64 \<Rightarrow> ptr multiset \<Rightarrow> ptr set \<Rightarrow> u64 set \<Rightarrow> Index \<Rightarrow> PlanEntry list
   \<Rightarrow> nat \<Rightarrow> Index \<times> u64 list \<Rightarrow> bool" where
  "rollback_inv sha f nb E P H ix1 plan i = (\<lambda>(ix, tr).
     wf_all sha f nb (E + miss_infos plan + hit_infos (drop i plan)) P (H \<union> set tr) ix
     \<and> set tr \<inter> H = {} \<and> distinct tr
     \<and> file_to_master ix = file_to_master ix1 \<and> file_to_sizes ix = file_to_sizes ix1
     \<and> block_view f ix = block_view f ix1)"

lemma rollback_hit_step_inv:
  assumes inv: "rollback_inv sha f nb E P H ix1 plan i st" and i: "i < length plan"
    and pend: "\<forall>e \<in> set plan. info e \<in> P \<longrightarrow> info e \<in># miss_infos plan"
  shows "\<exists>st'. rollback_hit_step plan i st = Some st' \<and> rollback_inv sha f nb E P H ix1 plan (Suc i) st'"
proof -
  obtain ix tr where st: "st = (ix, tr)" by fastforce
  note inv' = inv[unfolded st rollback_inv_def prod.case]
  have d: "drop i plan = plan ! i # drop (Suc i) plan" using i by (simp add: Cons_nth_drop_Suc)
  show ?thesis
  proof (cases "miss (plan ! i)")
    case True
    then have "rollback_inv sha f nb E P H ix1 plan (Suc i) st"
      using inv' unfolding d by (simp add: st rollback_inv_def)
    moreover have "rollback_hit_step plan i st = Some st"
      using True by (simp add: st rollback_hit_step_def miss_def)
    ultimately show ?thesis by blast
  next
    case False
    let ?q = "info (plan ! i)"
    let ?E = "E + miss_infos plan + hit_infos (drop (Suc i) plan)"
    have wf: "wf_all sha f nb (add_mset ?q ?E) P (H \<union> set tr) ix"
      using inv' False unfolding d by simp
    have mem: "plan ! i \<in> set plan" using i by simp
    have keep: "?q \<in> P \<longrightarrow> ?q \<in># ?E" using pend mem by fastforce
    obtain ss ix' where rel: "release_ref ?q ix = Some (ss, ix')"
      and wf': "wf_all sha f nb ?E P (H \<union> set tr \<union> set ss) ix'"
      and ss: "set ss \<inter> (H \<union> set tr) = {}" "distinct ss"
      and fr: "file_to_master ix' = file_to_master ix" "file_to_sizes ix' = file_to_sizes ix"
      and v: "block_view f ix' = block_view f ix"
      by (rule wf_all_release[OF wf keep])
    have H: "H \<union> set tr \<union> set ss = H \<union> set (ss @ tr)" by auto
    have "rollback_inv sha f nb E P H ix1 plan (Suc i) (ix', ss @ tr)"
      using inv' wf' ss fr v unfolding rollback_inv_def prod.case H by auto
    moreover have "rollback_hit_step plan i st = Some (ix', ss @ tr)"
      using False[unfolded kind_cases] rel by (simp add: st rollback_hit_step_def)
    ultimately show ?thesis by blast
  qed
qed

section \<open>Rollback, second loop: the pending objects and their slots\<close>

lemma free_unpublished_wf:
  assumes wf: "wf_all sha f nb (add_mset p E) (insert p P) H ix" and p: "p \<notin> P" "p \<notin># E"
  obtains "free_info p ix = Some (ix\<lparr>heap := (heap ix)(p := None)\<rparr>)"
    "wf_all sha f nb E P H (ix\<lparr>heap := (heap ix)(p := None)\<rparr>)"
    "block_view f (ix\<lparr>heap := (heap ix)(p := None)\<rparr>) = block_view f ix"
    "p \<notin> ran (hash_to_master ix)"
proof -
  let ?ix = "ix\<lparr>heap := (heap ix)(p := None)\<rparr>"
  have wi: "wf_index (add_mset p E) (insert p P) ix" using wf by (simp add: wf_all_def)
  have hp: "p \<in> dom (heap ix)" and nh: "p \<notin> ran (hash_to_master ix)" and nf: "p \<notin> ran (file_to_master ix)"
    using wf_indexD(3,4,5)[OF wi] by auto
  have "wf_index E P ?ix"
  proof (rule wf_indexI, goal_cases)
    case (2 q i)
    then show ?case using wf_indexD(2)[OF wi, of q] by (auto split: if_splits)
  next
    case 3
    have "dom (heap ix) - {p} = ran (hash_to_master ix) \<union> P"
      using wf_indexD(3)[OF wi] nh p(1) by auto
    then show ?case by simp
  next
    case 4
    then show ?case using wf_indexD(4)[OF wi] by auto
  next
    case (6 h q)
    then have "hash_to_master ix h = Some q" by simp
    with nh have "q \<noteq> p" by (metis ranI)
    with 6 show ?case using wf_indexD(6)[OF wi, of h q] by simp
  next
    case 7
    then show ?case using wf_indexD(7)[OF wi] p(2) by auto
  next
    case (8 q i)
    then show ?case using wf_indexD(8,9)[OF wi, of q i] by (auto split: if_splits)
  qed (use wf_indexD(1,5)[OF wi] in simp_all)
  moreover have sl: "slot_of ?ix q = slot_of ix q" if "q \<noteq> p" for q
    using that by (simp add: slot_of_def)
  moreover have "wf_slots H nb ?ix = wf_slots H nb ix"
    by (rule wf_slots_cong) (use nh in \<open>auto simp: slot_of_def\<close>)
  moreover have "wf_content sha f ?ix = wf_content sha f ix"
    by (rule wf_content_cong) (use nh in \<open>auto simp: slot_of_def\<close>)
  ultimately have "wf_all sha f nb E P H ?ix"
    using wf by (simp add: wf_all_def)
  moreover have "block_view f ?ix = block_view f ix"
  proof (rule block_view_cong)
    show "slot_of ?ix q = slot_of ix q" if "file_to_master ix k = Some q" for k q
      by (rule sl) (use that nf ranI in metis)
  qed simp
  moreover have "free_info p ix = Some ?ix" using hp by (auto simp: free_info_def)
  ultimately show ?thesis using that nh by blast
qed

lemma free_pending_wf:
  assumes wf: "wf_all sha f nb (add_mset p E) (insert p P) (insert s H) ix"
    and p: "p \<notin> P" "p \<notin># E" and s: "s \<notin> H"
  obtains ix' where "free_info p (ix\<lparr>free_block_list := s # free_block_list ix\<rparr>) = Some ix'"
    "wf_all sha f nb E P H ix'" "file_to_master ix' = file_to_master ix"
    "file_to_sizes ix' = file_to_sizes ix" "block_view f ix' = block_view f ix"
proof -
  let ?ix = "ix\<lparr>free_block_list := s # free_block_list ix\<rparr>"
  have "wf_all sha f nb (add_mset p E) (insert p P) (insert s H - set [s])
      (ix\<lparr>free_block_list := [s] @ free_block_list ix\<rparr>)"
    by (rule wf_all_prepend[OF wf]) simp_all
  moreover have "insert s H - set [s] = H" using s by auto
  ultimately have "wf_all sha f nb (add_mset p E) (insert p P) H ?ix" by simp
  from free_unpublished_wf[OF this p] that show ?thesis by (metis (no_types, lifting) Index.select_convs(2,4)
      Index.surjective Index.update_convs(3,5) block_view_simps(1))
qed

definition undo_inv ::
  "(byte list \<Rightarrow> hash) \<Rightarrow> fbytes \<Rightarrow> u64 \<Rightarrow> ptr multiset \<Rightarrow> ptr set \<Rightarrow> u64 set \<Rightarrow> Index \<Rightarrow> PlanEntry list
   \<Rightarrow> nat \<Rightarrow> Index \<Rightarrow> bool" where
  "undo_inv sha f nb E P H ix1 plan i ix \<longleftrightarrow>
     wf_all sha f nb (E + miss_infos (drop i plan)) (P \<union> set_mset (miss_infos (drop i plan)))
       (H \<union> miss_slots (drop i plan)) ix
     \<and> file_to_master ix = file_to_master ix1 \<and> file_to_sizes ix = file_to_sizes ix1
     \<and> block_view f ix = block_view f ix1"

lemma miss_slots_Cons:
  "miss_slots (e # plan) = (if miss e then insert (master_blk e) (miss_slots plan) else miss_slots plan)"
  by (auto simp: miss_slots_def miss_def)

lemma undo_step_inv:
  assumes inv: "undo_inv sha f nb E P H ix1 plan i ix" and i: "i < length plan"
    and dp: "distinct (map info (filter miss plan))"
    and ds: "\<forall>j < length plan. \<forall>k < length plan. miss (plan ! j) \<longrightarrow> miss (plan ! k) \<longrightarrow>
               master_blk (plan ! j) = master_blk (plan ! k) \<longrightarrow> j = k"
    and fresh: "\<forall>e \<in> set plan. miss e \<longrightarrow> info e \<notin> P \<and> info e \<notin># E \<and> master_blk e \<notin> H"
  shows "\<exists>ix'. rollback_miss_step plan i ix = Some ix' \<and> undo_inv sha f nb E P H ix1 plan (Suc i) ix'"
proof -
  note inv' = inv[unfolded undo_inv_def]
  have d: "drop i plan = plan ! i # drop (Suc i) plan" using i by (simp add: Cons_nth_drop_Suc)
  show ?thesis
  proof (cases "miss (plan ! i)")
    case False
    then have "undo_inv sha f nb E P H ix1 plan (Suc i) ix"
      using inv' unfolding d by (simp add: undo_inv_def miss_slots_Cons)
    moreover have "rollback_miss_step plan i ix = Some ix"
      using False by (simp add: rollback_miss_step_def miss_def)
    ultimately show ?thesis by blast
  next
    case True
    let ?p = "info (plan ! i)" and ?s = "master_blk (plan ! i)" and ?r = "drop (Suc i) plan"
    have mem: "plan ! i \<in> set plan" using i by simp
    have wf: "wf_all sha f nb (add_mset ?p (E + miss_infos ?r)) (insert ?p (P \<union> set_mset (miss_infos ?r)))
        (insert ?s (H \<union> miss_slots ?r)) ix"
      using inv' True unfolding d by (simp add: miss_slots_Cons)
    have rest: "?p \<notin># miss_infos ?r"
    proof -
      have "distinct (map info (filter miss (drop i plan)))"
        using dp by (metis append_take_drop_id distinct_append filter_append map_append)
      then show ?thesis unfolding d using True by auto
    qed
    have "?s \<notin> miss_slots ?r"
    proof
      assume "?s \<in> miss_slots ?r"
      then obtain k where "k < length ?r" "miss (?r ! k)" "?s = master_blk (?r ! k)"
        unfolding miss_slots_nth by blast
      then have "Suc i + k < length plan" "miss (plan ! (Suc i + k))" "?s = master_blk (plan ! (Suc i + k))"
        using i by (simp_all add: nth_drop)
      with ds i True have "i = Suc i + k" by blast
      then show False by simp
    qed
    then have "?s \<notin> H \<union> miss_slots ?r" using fresh mem True by blast
    moreover have "?p \<notin> P \<union> set_mset (miss_infos ?r)" "?p \<notin># E + miss_infos ?r"
      using rest fresh mem True by auto
    ultimately obtain ix' where ix': "free_info ?p (ix\<lparr>free_block_list := ?s # free_block_list ix\<rparr>) = Some ix'"
      "wf_all sha f nb (E + miss_infos ?r) (P \<union> set_mset (miss_infos ?r)) (H \<union> miss_slots ?r) ix'"
      "file_to_master ix' = file_to_master ix" "file_to_sizes ix' = file_to_sizes ix"
      "block_view f ix' = block_view f ix"
      using free_pending_wf[OF wf] by metis
    then have "undo_inv sha f nb E P H ix1 plan (Suc i) ix'"
      using inv' by (simp add: undo_inv_def)
    moreover have "rollback_miss_step plan i ix = Some ix'"
      using True ix'(1) by (simp add: rollback_miss_step_def miss_def)
    ultimately show ?thesis by blast
  qed
qed

section \<open>The rollback\<close>

lemma rollback_correct:
  assumes ready: "write_ready sha buf start f nb E P H ix0 pend ix plan"
    and wf0: "wf_index E P ix0"
  shows "\<exists>ix'. rollback_allocations ix plan = Some ix' \<and> wf_all sha f nb E P H ix'
    \<and> file_to_master ix' = file_to_master ix0 \<and> file_to_sizes ix' = file_to_sizes ix0
    \<and> block_view f ix' = block_view f ix0"
proof -
  note w = ready[unfolded write_ready_def]
  have obj: "plan_objects (heap ix) (ran (hash_to_master ix)) pend plan" using w by blast
  have wf: "wf_all sha f nb (E + infos plan) (P \<union> pend) (H \<union> miss_slots plan) ix" using w by blast
  have im: "pend = set_mset (miss_infos plan)"
    using obj unfolding plan_objects_def by auto
  have fresh: "pend \<inter> dom (heap ix0) = {}" and sv: "same_view ix0 ix" using w by blast+
  have pE: "p \<notin> P \<and> p \<notin># E" if "p \<in> pend" for p
    using wf_indexD(3,7)[OF wf0] fresh that by blast
  have PR: "P \<inter> ran (hash_to_master ix) = {}"
    using wf wf_indexD(4)[of "E + infos plan" "P \<union> pend" ix] unfolding wf_all_def by blast
  have keep: "\<forall>e \<in> set plan. info e \<in> P \<union> pend \<longrightarrow> info e \<in># miss_infos plan"
    using obj PR unfolding im plan_objects_def by blast
  have "rollback_inv sha f nb E (P \<union> pend) (H \<union> miss_slots plan) ix plan 0 (ix, [])"
    using wf unfolding rollback_inv_def prod.case by (simp add: infos_split[of plan] add.assoc)
  then have "\<exists>st. ofold (rollback_hit_step plan) [0..<length plan] (ix, []) = Some st
      \<and> rollback_inv sha f nb E (P \<union> pend) (H \<union> miss_slots plan) ix plan (length plan) st"
    by (rule ofold_upt) (rule rollback_hit_step_inv[OF _ _ keep])
  then obtain ix1 tr where l1: "ofold (rollback_hit_step plan) [0..<length plan] (ix, []) = Some (ix1, tr)"
    and r1: "rollback_inv sha f nb E (P \<union> pend) (H \<union> miss_slots plan) ix plan (length plan) (ix1, tr)"
    by (metis surj_pair)
  note r1' = r1[unfolded rollback_inv_def prod.case]
  let ?ix1 = "ix1\<lparr>free_block_list := tr @ free_block_list ix1\<rparr>"
  have wf1: "wf_all sha f nb (E + miss_infos plan) (P \<union> pend) (H \<union> miss_slots plan \<union> set tr) ix1"
    and tr: "set tr \<inter> (H \<union> miss_slots plan) = {}" "distinct tr"
    using r1' by simp_all
  have "wf_all sha f nb (E + miss_infos plan) (P \<union> pend) (H \<union> miss_slots plan \<union> set tr - set tr) ?ix1"
    by (rule wf_all_prepend[OF wf1 _ tr(2)]) simp
  moreover have "H \<union> miss_slots plan \<union> set tr - set tr = H \<union> miss_slots plan" using tr(1) by blast
  ultimately have "undo_inv sha f nb E P H ix plan 0 ?ix1"
    using r1' im by (simp add: undo_inv_def)
  then have "\<exists>ix'. ofold (rollback_miss_step plan) [0..<length plan] ?ix1 = Some ix'
      \<and> undo_inv sha f nb E P H ix plan (length plan) ix'"
  proof (rule ofold_upt)
    fix i ix2 assume i: "i < length plan" and u: "undo_inv sha f nb E P H ix plan i ix2"
    show "\<exists>t. rollback_miss_step plan i ix2 = Some t \<and> undo_inv sha f nb E P H ix plan (Suc i) t"
    proof (rule undo_step_inv[OF u i])
      show "distinct (map info (filter miss plan))" using obj unfolding plan_objects_def by blast
      show "\<forall>j < length plan. \<forall>k < length plan. miss (plan ! j) \<longrightarrow> miss (plan ! k) \<longrightarrow>
               master_blk (plan ! j) = master_blk (plan ! k) \<longrightarrow> j = k"
        using w by blast
      have "miss_slots plan \<inter> H = {}" using w by blast
      moreover have "info e \<in> pend" "master_blk e \<in> miss_slots plan" if "e \<in> set plan" "miss e" for e
        using that by (simp_all add: im) (auto simp: miss_slots_def miss_def)
      ultimately show "\<forall>e \<in> set plan. miss e \<longrightarrow> info e \<notin> P \<and> info e \<notin># E \<and> master_blk e \<notin> H"
        using pE by blast
    qed
  qed
  then obtain ix' where l2: "ofold (rollback_miss_step plan) [0..<length plan] ?ix1 = Some ix'"
    and u: "undo_inv sha f nb E P H ix plan (length plan) ix'" by blast
  have "rollback_allocations ix plan = Some ix'"
    using l1 l2 by (simp add: rollback_allocations_def)
  moreover have "miss_slots [] = {}" by (simp add: miss_slots_def)
  ultimately show ?thesis
    using u sv same_view_block_view[OF sv wf0, of f] by (simp add: undo_inv_def same_view_def)
qed

end
