(* ===== verification/Write_Publish.thy ===== *)
theory Write_Publish
  imports Write_Rollback
begin

text \<open>
  The consolidation of \<open>write_dedup\<close> when no other thread runs between its passes: every
  pending object is published, every block of the request is mapped to the object with its
  content, and what the mappings overwrite is released.
\<close>

section \<open>Publishing\<close>

text \<open>The blocks of the master file that published objects stand for.\<close>

definition stored :: "fbytes \<Rightarrow> Index \<Rightarrow> byte list set" where
  "stored f ix = (\<lambda>p. chunk f (unat (slot_of ix p))) ` ran (hash_to_master ix)"

lemma insert_hash_wf_all:
  assumes wf: "wf_all sha f nb E (insert p P) (insert (masterBlockIndex mi) H) ix"
    and p: "p \<notin> P" "heap ix p = Some mi" and s: "masterBlockIndex mi \<notin> H"
    and free: "hash_to_master ix (mi_hash mi) = None"
    and content: "Suc (unat (masterBlockIndex mi)) * BLOCK_SIZE \<le> length f"
      "sha (chunk f (unat (masterBlockIndex mi))) = mi_hash mi"
  shows "wf_all sha f nb E P H (insert_hash ix (mi_hash mi) p)"
proof -
  let ?ix = "insert_hash ix (mi_hash mi) p" and ?s = "masterBlockIndex mi"
  have wi: "wf_index E (insert p P) ix" and ws: "wf_slots (insert ?s H) nb ix" and wc: "wf_content sha f ix"
    using wf by (simp_all add: wf_all_def)
  have "wf_index E (insert p P - {p}) ?ix"
    by (rule insert_hash_wf[OF wi _ p(2) free]) simp
  then have wi': "wf_index E P ?ix" using p(1) by simp
  have ran: "ran (hash_to_master ?ix) = insert p (ran (hash_to_master ix))"
    using free by (simp add: insert_hash_def ran_map_upd)
  have sl: "slot_of ?ix = slot_of ix" and ps: "slot_of ix p = ?s"
    using p(2) by (simp_all add: insert_hash_def slot_of_def)
  have live: "live_slots ?ix = insert ?s (live_slots ix)"
    by (simp add: live_slots_def ran sl ps)
  have fl: "free_block_list ?ix = free_block_list ix" by (simp add: insert_hash_def)
  have snl: "?s \<notin> live_slots ix" using ws unfolding wf_slots_def by blast
  have "inj_on (slot_of ix) (insert p (ran (hash_to_master ix)))"
    using ws snl ps unfolding wf_slots_def live_slots_def by (auto simp: inj_on_insert)
  then have "wf_slots H nb ?ix"
    using ws s snl unfolding wf_slots_def live fl sl ran by auto
  moreover have "wf_content sha f ?ix"
    unfolding wf_content_def sl
    using wc content ps by (auto simp: insert_hash_def wf_content_def)
  ultimately show ?thesis using wi' by (simp add: wf_all_def)
qed

definition publish_inv ::
  "(byte list \<Rightarrow> hash) \<Rightarrow> fbytes \<Rightarrow> u64 \<Rightarrow> ptr multiset \<Rightarrow> ptr set \<Rightarrow> u64 set \<Rightarrow> Index \<Rightarrow> PlanEntry list
   \<Rightarrow> nat \<Rightarrow> Index \<times> PlanEntry list \<times> u64 list \<Rightarrow> bool" where
  "publish_inv sha f nb E P H ix1 plan0 i = (\<lambda>(ix, plan, tr).
     plan = plan0 \<and> tr = []
     \<and> wf_all sha f nb E (P \<union> set_mset (miss_infos (drop i plan))) (H \<union> miss_slots (drop i plan)) ix
     \<and> ix = ix1\<lparr>hash_to_master := hash_to_master ix\<rparr>
     \<and> ran (hash_to_master ix) = ran (hash_to_master ix1) \<union> set_mset (miss_infos (take i plan))
     \<and> (\<forall>j. i \<le> j \<and> j < length plan \<longrightarrow> miss (plan ! j) \<longrightarrow> hash_to_master ix (pe_hash (plan ! j)) = None))"

text \<open>What the publishing loop needs of each MISS entry, from \<open>write_ready\<close> and the flush.\<close>

definition publishable ::
  "(byte list \<Rightarrow> hash) \<Rightarrow> fbytes \<Rightarrow> ptr set \<Rightarrow> u64 set \<Rightarrow> Index \<Rightarrow> PlanEntry list \<Rightarrow> bool" where
  "publishable sha f P H ix plan \<longleftrightarrow>
     (\<forall>e \<in> set plan. miss e \<longrightarrow>
        (\<exists>mi. heap ix (info e) = Some mi \<and> mi_hash mi = pe_hash e \<and> masterBlockIndex mi = master_blk e)
        \<and> info e \<notin> P \<and> master_blk e \<notin> H \<and> hash_to_master ix (pe_hash e) = None
        \<and> Suc (unat (master_blk e)) * BLOCK_SIZE \<le> length f
        \<and> sha (chunk f (unat (master_blk e))) = pe_hash e)
     \<and> distinct (map info (filter miss plan))
     \<and> (\<forall>j < length plan. \<forall>k < length plan. miss (plan ! j) \<longrightarrow> miss (plan ! k) \<longrightarrow>
          pe_hash (plan ! j) = pe_hash (plan ! k) \<or> master_blk (plan ! j) = master_blk (plan ! k)
          \<longrightarrow> j = k)"

text \<open>In a plan whose MISS entries differ in \<open>g\<close>, the entries after \<open>i\<close> do not repeat entry \<open>i\<close>.\<close>

lemma miss_rest_distinct:
  assumes i: "i < length plan" "miss (plan ! i)"
    and d: "\<forall>j < length plan. \<forall>k < length plan. miss (plan ! j) \<longrightarrow> miss (plan ! k) \<longrightarrow>
              pe_hash (plan ! j) = pe_hash (plan ! k) \<or> master_blk (plan ! j) = master_blk (plan ! k) \<longrightarrow> j = k"
  shows "master_blk (plan ! i) \<notin> miss_slots (drop (Suc i) plan)"
proof
  assume "master_blk (plan ! i) \<in> miss_slots (drop (Suc i) plan)"
  then obtain k where k: "k < length (drop (Suc i) plan)" "miss (drop (Suc i) plan ! k)"
    "master_blk (plan ! i) = master_blk (drop (Suc i) plan ! k)"
    unfolding miss_slots_nth by blast
  then have "Suc i + k < length plan" "miss (plan ! (Suc i + k))"
    "master_blk (plan ! i) = master_blk (plan ! (Suc i + k))"
    using i by (simp_all add: nth_drop)
  with d i have "i = Suc i + k" by blast
  then show False by simp
qed

lemma miss_info_rest_distinct:
  assumes i: "i < length plan" "miss (plan ! i)" and dp: "distinct (map info (filter miss plan))"
  shows "info (plan ! i) \<notin># miss_infos (drop (Suc i) plan)"
proof -
  have "drop i plan = plan ! i # drop (Suc i) plan" using i by (simp add: Cons_nth_drop_Suc)
  moreover have "distinct (map info (filter miss (drop i plan)))"
    using dp by (metis append_take_drop_id distinct_append filter_append map_append)
  ultimately show ?thesis using i(2) by auto
qed

lemma publish_step_inv:
  assumes pb: "publishable sha f P H ix1 plan0"
    and inv: "publish_inv sha f nb E P H ix1 plan0 i st" and i: "i < length plan0"
  shows "\<exists>st'. publish_step i st = Some st' \<and> publish_inv sha f nb E P H ix1 plan0 (Suc i) st'"
proof -
  obtain ix where st: "st = (ix, plan0, [])"
    using inv by (cases st) (auto simp: publish_inv_def)
  note inv' = inv[unfolded st publish_inv_def prod.case]
  have d: "drop i plan0 = plan0 ! i # drop (Suc i) plan0" using i by (simp add: Cons_nth_drop_Suc)
  have t: "take (Suc i) plan0 = take i plan0 @ [plan0 ! i]" using i by (simp add: take_Suc_conv_app_nth)
  show ?thesis
  proof (cases "miss (plan0 ! i)")
    case False
    then have "publish_inv sha f nb E P H ix1 plan0 (Suc i) st"
      using inv' unfolding st publish_inv_def prod.case d t by (simp add: miss_slots_Cons)
    moreover have "publish_step i st = Some st"
      using False by (simp add: st publish_step_def miss_def)
    ultimately show ?thesis by blast
  next
    case True
    let ?e = "plan0 ! i" and ?r = "drop (Suc i) plan0"
    have mem: "?e \<in> set plan0" using i by simp
    obtain mi where mi1: "heap ix1 (info ?e) = Some mi" and mi: "mi_hash mi = pe_hash ?e" "masterBlockIndex mi = master_blk ?e"
      and e: "info ?e \<notin> P" "master_blk ?e \<notin> H"
        "Suc (unat (master_blk ?e)) * BLOCK_SIZE \<le> length f" "sha (chunk f (unat (master_blk ?e))) = pe_hash ?e"
      using pb mem True unfolding publishable_def by blast
    have ixe: "ix = ix1\<lparr>hash_to_master := hash_to_master ix\<rparr>" using inv' by blast
    have hp: "heap ix (info ?e) = Some mi" by (subst ixe) (simp add: mi1)
    have dj: "\<forall>j < length plan0. \<forall>k < length plan0. miss (plan0 ! j) \<longrightarrow> miss (plan0 ! k) \<longrightarrow>
        pe_hash (plan0 ! j) = pe_hash (plan0 ! k) \<or> master_blk (plan0 ! j) = master_blk (plan0 ! k) \<longrightarrow> j = k"
      and di: "distinct (map info (filter miss plan0))"
      using pb unfolding publishable_def by blast+
    have free: "hash_to_master ix (mi_hash mi) = None" using inv' i True mi(1) by simp
    let ?ix = "insert_hash ix (mi_hash mi) (info ?e)"
    have wf: "wf_all sha f nb E (insert (info ?e) (P \<union> set_mset (miss_infos ?r)))
        (insert (masterBlockIndex mi) (H \<union> miss_slots ?r)) ix"
      using inv' True unfolding d mi(2) by (simp add: miss_slots_Cons)
    have "wf_all sha f nb E (P \<union> set_mset (miss_infos ?r)) (H \<union> miss_slots ?r) ?ix"
    proof (rule insert_hash_wf_all[OF wf _ hp _ free])
      show "info ?e \<notin> P \<union> set_mset (miss_infos ?r)"
        using miss_info_rest_distinct[OF i True di] e(1) by blast
      show "masterBlockIndex mi \<notin> H \<union> miss_slots ?r"
        using miss_rest_distinct[OF i True dj] e(2) mi(2) by simp
    qed (use e(3,4) mi in simp_all)
    moreover have "?ix = ix1\<lparr>hash_to_master := hash_to_master ?ix\<rparr>"
      by (subst ixe) (simp add: insert_hash_def)
    moreover have "ran (hash_to_master ?ix) = ran (hash_to_master ix1) \<union> set_mset (miss_infos (take (Suc i) plan0))"
      using inv' free True unfolding t by (simp add: insert_hash_def ran_map_upd)
    moreover have "hash_to_master ?ix (pe_hash (plan0 ! j)) = None"
      if "Suc i \<le> j \<and> j < length plan0" "miss (plan0 ! j)" for j
    proof -
      have "pe_hash (plan0 ! j) \<noteq> pe_hash ?e" using dj[rule_format, of j i] i True that by auto
      with inv' that mi(1) show ?thesis by (simp add: insert_hash_def)
    qed
    ultimately have "publish_inv sha f nb E P H ix1 plan0 (Suc i) (?ix, plan0, [])"
      by (simp add: publish_inv_def)
    moreover have "publish_step i st = Some (?ix, plan0, [])"
      using True hp free by (simp add: st publish_step_def miss_def lookup_by_hash_def)
    ultimately show ?thesis by blast
  qed
qed

lemma publish_correct:
  assumes pb: "publishable sha f P H ix plan"
    and wf: "wf_all sha f nb E (P \<union> set_mset (miss_infos plan)) (H \<union> miss_slots plan) ix"
  shows "\<exists>ix'. ofold publish_step [0..<length plan] (ix, plan, []) = Some (ix', plan, [])
    \<and> wf_all sha f nb E P H ix' \<and> ix' = ix\<lparr>hash_to_master := hash_to_master ix'\<rparr>
    \<and> ran (hash_to_master ix') = ran (hash_to_master ix) \<union> set_mset (miss_infos plan)"
proof -
  have "publish_inv sha f nb E P H ix plan 0 (ix, plan, [])"
    using pb wf by (auto simp: publish_inv_def publishable_def)
  then have "\<exists>st. ofold publish_step [0..<length plan] (ix, plan, []) = Some st
      \<and> publish_inv sha f nb E P H ix plan (length plan) st"
    by (rule ofold_upt) (rule publish_step_inv[OF pb])
  moreover have "miss_slots [] = {}" by (simp add: miss_slots_def)
  ultimately show ?thesis by (auto simp: publish_inv_def)
qed

end
