(* ===== verification/Dedup_Spec.thy ===== *)
theory Dedup_Spec
  imports Index_Invariant
begin

text \<open>
  What the deduplication layer promises, without deduplication: a store of blocks indexed by
  file and block number, and a logical size per file. \<open>block_view\<close> is the abstraction
  function from the index and the master file to this store.
\<close>

section \<open>Block numbers\<close>

text \<open>Block \<open>b\<close> lies among the \<open>n\<close> blocks from \<open>start\<close>.\<close>

definition in_blocks :: "u64 \<Rightarrow> nat \<Rightarrow> u64 \<Rightarrow> bool" where
  "in_blocks start n b \<longleftrightarrow> unat start \<le> unat b \<and> unat b < unat start + n"

lemma in_blocks_0 [simp]: "\<not> in_blocks start 0 b"
  by (simp add: in_blocks_def)

lemma in_blocks_Suc:
  assumes "unat start + n < 2 ^ 64"
  shows "in_blocks start (Suc n) b \<longleftrightarrow> in_blocks start n b \<or> b = start + of_nat n"
proof -
  have "unat (start + of_nat n) = unat start + n" using assms by (rule unat_add_of_nat)
  then have "b = start + of_nat n \<longleftrightarrow> unat b = unat start + n" by (metis word_unat_eq_iff)
  then show ?thesis by (auto simp: in_blocks_def)
qed

section \<open>The abstract operations\<close>

type_synonym store = "BlockIndice \<rightharpoonup> byte list"

definition spec_write :: "path \<Rightarrow> u64 \<Rightarrow> byte list list \<Rightarrow> store \<Rightarrow> store" where
  "spec_write pa start bs v = (\<lambda>k.
     if bi_path k = pa \<and> in_blocks start (length bs) (bi_offset k)
     then Some (bs ! (unat (bi_offset k) - unat start)) else v k)"

definition spec_trim :: "path \<Rightarrow> u64 \<Rightarrow> u64 \<Rightarrow> store \<Rightarrow> store" where
  "spec_trim pa s e v = (\<lambda>k. if bi_path k = pa \<and> s \<le> bi_offset k \<and> bi_offset k < e then None else v k)"

text \<open>The mapped blocks from \<open>start\<close> on, up to the first hole and at most \<open>n\<close>.\<close>

fun spec_read :: "path \<Rightarrow> u64 \<Rightarrow> nat \<Rightarrow> store \<Rightarrow> byte list list" where
  "spec_read pa start 0 v = []"
| "spec_read pa start (Suc n) v =
     (case v (bkey pa start) of None \<Rightarrow> [] | Some b \<Rightarrow> b # spec_read pa (start + 1) n v)"

lemma spec_write_Nil [simp]: "spec_write pa start [] v = v"
  by (auto simp: spec_write_def)

lemma spec_write_snoc:
  assumes "unat start + length bs < 2 ^ 64"
  shows "spec_write pa start (bs @ [b]) v
    = (spec_write pa start bs v)(bkey pa (start + of_nat (length bs)) \<mapsto> b)"
proof -
  have "unat (start + of_nat (length bs)) = unat start + length bs" using assms by (rule unat_add_of_nat)
  moreover have "unat k - unat start < length bs" if "in_blocks start (length bs) k" for k
    using that by (auto simp: in_blocks_def)
  ultimately show ?thesis
    using in_blocks_Suc[OF assms]
    by (auto simp: spec_write_def fun_eq_iff nth_append BlockIndice_eq_iff in_blocks_def)
qed

lemma spec_write_other: "bi_path k \<noteq> pa \<Longrightarrow> spec_write pa start bs v k = v k"
  by (simp add: spec_write_def)

lemma spec_write_same:
  assumes "j < length bs" "unat start + length bs \<le> 2 ^ 64"
  shows "spec_write pa start bs v (bkey pa (start + of_nat j)) = Some (bs ! j)"
proof -
  have "unat (start + of_nat j) = unat start + j" using assms by (intro unat_add_of_nat) simp
  then show ?thesis using assms by (simp add: spec_write_def in_blocks_def)
qed

text \<open>Reading back what was written.\<close>

lemma spec_read_mapped:
  assumes "\<And>j. j < n \<Longrightarrow> v (bkey pa (start + of_nat j)) = Some (b j)"
  shows "spec_read pa start n v = map b [0..<n]"
  using assms
proof (induction n arbitrary: start b)
  case 0
  then show ?case by simp
next
  case (Suc n)
  have "spec_read pa (start + 1) n v = map (\<lambda>j. b (Suc j)) [0..<n]"
    by (rule Suc.IH) (use Suc.prems[of "Suc _"] in \<open>simp add: add.assoc\<close>)
  with Suc.prems[of 0] show ?case by (simp add: map_upt_Suc del: upt_Suc)
qed

lemma spec_read_write:
  assumes "unat start + length bs \<le> 2 ^ 64"
  shows "spec_read pa start (length bs) (spec_write pa start bs v) = bs"
proof -
  have "spec_read pa start (length bs) (spec_write pa start bs v) = map (\<lambda>j. bs ! j) [0..<length bs]"
    by (rule spec_read_mapped) (rule spec_write_same[OF _ assms])
  then show ?thesis by (simp add: map_nth)
qed

lemma spec_read_cong:
  assumes "\<And>b. in_blocks start n b \<Longrightarrow> v (bkey pa b) = v' (bkey pa b)" "unat start + n \<le> 2 ^ 64"
  shows "spec_read pa start n v = spec_read pa start n v'"
  using assms
proof (induction n arbitrary: start)
  case 0
  then show ?case by simp
next
  case (Suc n)
  have here: "v (bkey pa start) = v' (bkey pa start)"
    by (rule Suc.prems(1)) (simp add: in_blocks_def)
  show ?case
  proof (cases n)
    case 0
    with here show ?thesis by (simp split: option.splits)
  next
    case (Suc m)
    have "unat (start + of_nat 1) = unat start + 1"
      using Suc.prems(2) Suc by (intro unat_add_of_nat) simp
    then have u: "unat (start + 1) = unat start + 1" by simp
    have "spec_read pa (start + 1) n v = spec_read pa (start + 1) n v'"
      by (rule Suc.IH) (use Suc.prems u in \<open>auto simp: in_blocks_def\<close>)
    with here show ?thesis by (simp split: option.splits)
  qed
qed

section \<open>Logical sizes\<close>

text \<open>The size after a write that ends at byte \<open>e\<close>: it grows, and never shrinks.\<close>

definition spec_grow :: "path \<Rightarrow> u64 \<Rightarrow> (path \<rightharpoonup> u64) \<Rightarrow> path \<rightharpoonup> u64" where
  "spec_grow pa e z = z(pa \<mapsto> (case z pa of None \<Rightarrow> e | Some s \<Rightarrow> max s e))"

text \<open>The block invariant of the sizes, kept by a write of whole blocks.\<close>

lemma wf_sizes_write:
  assumes wf: "wf_sizes ix0"
    and v: "block_view f ix = spec_write pa start bs (block_view f ix0)"
    and z: "file_to_sizes ix = spec_grow pa ((start + of_nat (length bs)) * of_nat BLOCK_SIZE) (file_to_sizes ix0)"
    and room: "(unat start + length bs) * BLOCK_SIZE < 2 ^ 64"
  shows "wf_sizes ix"
proof -
  let ?e = "(start + of_nat (length bs)) * of_nat BLOCK_SIZE :: u64"
  have "unat start + length bs < 2 ^ 64" using room by (simp add: BLOCK_SIZE_def)
  then have "unat (start + of_nat (length bs)) = unat start + length bs" by (rule unat_add_of_nat)
  moreover have "unat (of_nat BLOCK_SIZE :: u64) = BLOCK_SIZE" by (simp add: BLOCK_SIZE_def)
  ultimately have e: "unat ?e = (unat start + length bs) * BLOCK_SIZE"
    using room by (simp add: unat_word_ariths)
  have szE: "\<exists>s'. file_to_sizes ix qa = Some s' \<and> unat s \<le> unat s'" if "file_to_sizes ix0 qa = Some s" for qa s
    using that by (auto simp: z spec_grow_def max_def word_le_nat_alt)
  have end_le: "\<exists>s'. file_to_sizes ix pa = Some s' \<and> unat ?e \<le> unat s'"
    by (auto simp: z spec_grow_def max_def word_le_nat_alt split: option.splits)
  show ?thesis
    unfolding wf_sizes_def
  proof (intro conjI allI impI)
    fix k assume "file_to_master ix k \<noteq> None"
    then have k: "spec_write pa start bs (block_view f ix0) k \<noteq> None"
      using block_view_None_iff[of f ix k] v by simp
    show "\<exists>s. file_to_sizes ix (bi_path k) = Some s \<and> Suc (unat (bi_offset k)) * BLOCK_SIZE \<le> unat s"
    proof (cases "bi_path k = pa \<and> in_blocks start (length bs) (bi_offset k)")
      case True
      then have "Suc (unat (bi_offset k)) * BLOCK_SIZE \<le> unat ?e"
        unfolding e by (intro mult_le_mono1) (simp add: in_blocks_def)
      moreover obtain s' where "file_to_sizes ix pa = Some s'" "unat ?e \<le> unat s'"
        using end_le by blast
      ultimately show ?thesis
        using True by (intro exI[of _ s'] conjI) (simp, rule le_trans)
    next
      case False
      then have "file_to_master ix0 k \<noteq> None"
        using k block_view_None_iff[of f ix0 k] by (auto simp: spec_write_def)
      then obtain s where "file_to_sizes ix0 (bi_path k) = Some s"
        "Suc (unat (bi_offset k)) * BLOCK_SIZE \<le> unat s"
        using wf unfolding wf_sizes_def by blast
      moreover from szE[OF this(1)] obtain s' where "file_to_sizes ix (bi_path k) = Some s'" "unat s \<le> unat s'"
        by blast
      ultimately show ?thesis by (intro exI[of _ s'] conjI) (assumption, rule le_trans)
    qed
  next
    fix qa s assume "file_to_sizes ix qa = Some s"
    then have "file_to_sizes ix0 qa = Some s \<or> s = ?e"
      by (auto simp: z spec_grow_def max_def split: if_splits option.splits)
    then show "BLOCK_SIZE dvd unat s"
      using wf e unfolding wf_sizes_def by (metis dvd_triv_right)
  qed
qed

end
