(* ===== verification/Write_Map.thy ===== *)
theory Write_Map
  imports Write_Publish Dedup_Spec
begin

text \<open>
  The mapping loop of the consolidation: block after block, the old mapping is released and
  the new one stored; a slot released here is held until the end of the request.
\<close>

lemma wf_all_insert_file:
  assumes wf: "wf_all sha f nb E P H ix" and k: "file_to_master ix (bkey pa b) = None"
    and p: "p \<in># E" "p \<notin> P"
  shows "wf_all sha f nb (E - {#p#}) P H (insert_file_block ix pa b p)"
    and "block_view f (insert_file_block ix pa b p)
      = (block_view f ix)(bkey pa b \<mapsto> chunk f (unat (slot_of ix p)))"
proof -
  have wi: "wf_index E P ix" using wf by (simp add: wf_all_def)
  then have "p \<in> ran (hash_to_master ix)" using wf_indexD(3,7)[OF wi] p by blast
  then have "wf_index (E - {#p#}) P (insert_file_block ix pa b p)"
    by (rule insert_file_block_wf[OF wi k p(1)])
  then show "wf_all sha f nb (E - {#p#}) P H (insert_file_block ix pa b p)"
    using wf by (simp add: wf_all_def insert_file_block_def)
  show "block_view f (insert_file_block ix pa b p)
      = (block_view f ix)(bkey pa b \<mapsto> chunk f (unat (slot_of ix p)))"
    by (auto simp: block_view_def insert_file_block_def fun_eq_iff)
qed

text \<open>
  Overwriting a mapping. The C code releases the old object first and replaces the table entry
  afterwards; since a release does not read the file table, this is the same as removing the
  entry, releasing, and inserting.
\<close>

lemma overwrite_file_block:
  assumes wf: "wf_all sha f nb E P H ix" and q: "file_to_master ix (bkey pa b) = Some q"
    and p: "p \<in># E" "p \<notin> P"
  obtains ss ix2 where "release_ref q ix = Some (ss, ix2)"
    "wf_all sha f nb (E - {#p#}) P (H \<union> set ss) (insert_file_block ix2 pa b p)"
    "set ss \<inter> H = {}" "distinct ss" "file_to_sizes ix2 = file_to_sizes ix"
    "free_block_list ix2 = free_block_list ix"
    "\<forall>r \<in> set_mset E. slot_of (insert_file_block ix2 pa b p) r = slot_of ix r"
    "block_view f (insert_file_block ix2 pa b p)
      = (block_view f ix)(bkey pa b \<mapsto> chunk f (unat (slot_of ix p)))"
proof -
  let ?ix1 = "remove_file_block ix pa b"
  note rem = wf_all_remove_file[OF wf q]
  have wi: "wf_index E P ix" using wf by (simp add: wf_all_def)
  have "q \<notin> P" using wf_index_heap(3)[OF wi q] wf_indexD(4)[OF wi] by blast
  then have keep: "q \<in> P \<longrightarrow> q \<in># E" by blast
  obtain ss ix2 where rel: "release_ref q ?ix1 = Some (ss, ix2)"
    and wf2: "wf_all sha f nb E P (H \<union> set ss) ix2" and ss: "set ss \<inter> H = {}" "distinct ss"
    and fr: "file_to_master ix2 = file_to_master ?ix1" "free_block_list ix2 = free_block_list ?ix1"
      "file_to_sizes ix2 = file_to_sizes ?ix1"
    and sl: "\<forall>r \<in> dom (heap ix2). r \<in> dom (heap ?ix1) \<and> slot_of ix2 r = slot_of ?ix1 r"
    and v: "block_view f ix2 = block_view f ?ix1"
    by (rule wf_all_release[OF rem(1) keep])
  let ?ix2 = "ix2\<lparr>file_to_master := file_to_master ix\<rparr>"
  have "?ix1\<lparr>file_to_master := file_to_master ix\<rparr> = ix" by (simp add: remove_file_block_def)
  then have rel': "release_ref q ix = Some (ss, ?ix2)"
    using release_ref_file_table[where p = q and ix = ?ix1 and m = "file_to_master ix"] rel by simp
  have none: "file_to_master ix2 (bkey pa b) = None" by (simp add: fr(1) remove_file_block_def)
  have same: "insert_file_block ?ix2 pa b p = insert_file_block ix2 pa b p"
    by (simp add: insert_file_block_def fr(1) remove_file_block_def)
  note ins = wf_all_insert_file[OF wf2 none p]
  have E: "set_mset E \<subseteq> dom (heap ix2)"
    using wf2 wf_indexD(7)[of E P ix2] by (simp add: wf_all_def)
  have sl': "slot_of ix2 r = slot_of ix r" if "r \<in># E" for r
    using sl E that by (auto simp: remove_file_block_def subset_iff)
  show ?thesis
  proof (rule that[OF rel'])
    show "wf_all sha f nb (E - {#p#}) P (H \<union> set ss) (insert_file_block ?ix2 pa b p)"
      unfolding same by (rule ins(1))
    show "\<forall>r \<in> set_mset E. slot_of (insert_file_block ?ix2 pa b p) r = slot_of ix r"
      unfolding same using sl' by (simp add: insert_file_block_def)
    show "block_view f (insert_file_block ?ix2 pa b p)
      = (block_view f ix)(bkey pa b \<mapsto> chunk f (unat (slot_of ix p)))"
      unfolding same ins(2) v rem(2) using sl' p(1) by simp
  qed (use ss fr in \<open>simp_all add: remove_file_block_def\<close>)
qed

section \<open>The loop\<close>

definition map_inv ::
  "(byte list \<Rightarrow> hash) \<Rightarrow> fbytes \<Rightarrow> u64 \<Rightarrow> ptr multiset \<Rightarrow> ptr set \<Rightarrow> u64 set \<Rightarrow> Index \<Rightarrow> path \<Rightarrow> u64
   \<Rightarrow> byte list \<Rightarrow> PlanEntry list \<Rightarrow> nat \<Rightarrow> Index \<times> u64 list \<Rightarrow> bool" where
  "map_inv sha f nb E P H ix1 pa start buf plan i = (\<lambda>(ix, tr).
     wf_all sha f nb (E + infos (drop i plan)) P (H \<union> set tr) ix
     \<and> set tr \<inter> H = {} \<and> distinct tr
     \<and> file_to_sizes ix = file_to_sizes ix1 \<and> free_block_list ix = free_block_list ix1
     \<and> (\<forall>p \<in># infos (drop i plan). slot_of ix p = slot_of ix1 p)
     \<and> block_view f ix = spec_write pa start (map (chunk buf) [0..<i]) (block_view f ix1))"

lemma map_block_step_inv:
  assumes inv: "map_inv sha f nb E P H ix1 pa start buf plan i st" and i: "i < length plan"
    and nP: "\<forall>e \<in> set plan. info e \<notin> P"
    and blk: "logical_blk (plan ! i) = start + of_nat i"
    and content: "chunk f (unat (slot_of ix1 (info (plan ! i)))) = chunk buf i"
    and room: "unat start + length plan < 2 ^ 64"
  shows "\<exists>st'. map_block_step pa plan i st = Some st'
    \<and> map_inv sha f nb E P H ix1 pa start buf plan (Suc i) st'"
proof -
  obtain ix tr where st: "st = (ix, tr)" by fastforce
  note inv' = inv[unfolded st map_inv_def prod.case]
  let ?p = "info (plan ! i)" and ?b = "start + of_nat i" and ?E = "E + infos (drop i plan)"
  have d: "drop i plan = plan ! i # drop (Suc i) plan" using i by (simp add: Cons_nth_drop_Suc)
  have rest: "?E - {#?p#} = E + infos (drop (Suc i) plan)" unfolding d by simp
  have wf: "wf_all sha f nb ?E P (H \<union> set tr) ix" and v: "block_view f ix = spec_write pa start (map (chunk buf) [0..<i]) (block_view f ix1)"
    and sl: "\<forall>p \<in># infos (drop i plan). slot_of ix p = slot_of ix1 p" and dtr: "distinct tr"
    and trH: "set tr \<inter> H = {}" and sz: "file_to_sizes ix = file_to_sizes ix1"
    and fl: "free_block_list ix = free_block_list ix1"
    using inv' by blast+
  have pE: "?p \<in># ?E" unfolding d by simp
  have pP: "?p \<notin> P" using nP i by simp
  have "slot_of ix ?p = slot_of ix1 ?p" using sl unfolding d by simp
  then have c: "chunk f (unat (slot_of ix ?p)) = chunk buf i" using content by simp
  have "unat start + length (map (chunk buf) [0..<i]) < 2 ^ 64" using room i by simp
  from spec_write_snoc[OF this, of pa "chunk buf i"]
  have view: "(block_view f ix)(bkey pa ?b \<mapsto> chunk buf i)
      = spec_write pa start (map (chunk buf) [0..<Suc i]) (block_view f ix1)"
    unfolding v by simp
  have tail: "p \<in># infos (drop (Suc i) plan) \<Longrightarrow> p \<in># infos (drop i plan)" for p
    unfolding d by simp
  show ?thesis
  proof (cases "file_to_master ix (bkey pa ?b)")
    case None
    let ?ix = "insert_file_block ix pa ?b ?p"
    note ins = wf_all_insert_file[OF wf None pE pP, unfolded rest c view]
    have "slot_of ?ix = slot_of ix" by (simp add: insert_file_block_def)
    then have "map_inv sha f nb E P H ix1 pa start buf plan (Suc i) (?ix, tr)"
      using ins sl tail dtr trH sz fl by (simp add: map_inv_def insert_file_block_def del: set_infos)
    moreover have "map_block_step pa plan i st = Some (?ix, tr)"
      using None blk by (simp add: st map_block_step_def lookup_by_file_block_def)
    ultimately show ?thesis by blast
  next
    case (Some q)
    obtain ss ix2 where rel: "release_ref q ix = Some (ss, ix2)"
      and wf2: "wf_all sha f nb (?E - {#?p#}) P (H \<union> set tr \<union> set ss) (insert_file_block ix2 pa ?b ?p)"
      and ss: "set ss \<inter> (H \<union> set tr) = {}" "distinct ss"
      and fr: "file_to_sizes ix2 = file_to_sizes ix" "free_block_list ix2 = free_block_list ix"
      and sl2: "\<forall>r \<in># ?E. slot_of (insert_file_block ix2 pa ?b ?p) r = slot_of ix r"
      and v2: "block_view f (insert_file_block ix2 pa ?b ?p)
        = (block_view f ix)(bkey pa ?b \<mapsto> chunk f (unat (slot_of ix ?p)))"
      by (rule overwrite_file_block[OF wf Some pE pP])
    let ?ix = "insert_file_block ix2 pa ?b ?p"
    have H: "H \<union> set tr \<union> set ss = H \<union> set (ss @ tr)" by auto
    have "slot_of ?ix p = slot_of ix1 p" if "p \<in># infos (drop (Suc i) plan)" for p
    proof -
      have "p \<in># infos (drop i plan)" "p \<in># ?E" using tail[OF that] by simp_all
      then show ?thesis using sl2 sl by metis
    qed
    then have "map_inv sha f nb E P H ix1 pa start buf plan (Suc i) (?ix, ss @ tr)"
      using wf2[unfolded rest H] v2[unfolded c view] ss dtr trH fr sz fl
      by (auto simp: map_inv_def insert_file_block_def simp del: set_infos)
    moreover have "map_block_step pa plan i st = Some (?ix, ss @ tr)"
      using Some blk rel by (simp add: st map_block_step_def lookup_by_file_block_def)
    ultimately show ?thesis by blast
  qed
qed

lemma map_loop_from:
  assumes wf: "wf_all sha f nb (E + infos plan) P (H \<union> set tr0) ix"
    and tr0: "set tr0 \<inter> H = {}" "distinct tr0"
    and nP: "\<forall>e \<in> set plan. info e \<notin> P"
    and blk: "\<forall>j < length plan. logical_blk (plan ! j) = start + of_nat j"
    and content: "\<forall>j < length plan. chunk f (unat (slot_of ix (info (plan ! j)))) = chunk buf j"
    and room: "unat start + length plan < 2 ^ 64"
  shows "\<exists>ix' tr. ofold (map_block_step pa plan) [0..<length plan] (ix, tr0) = Some (ix', tr)
    \<and> wf_all sha f nb E P (H \<union> set tr) ix' \<and> set tr \<inter> H = {} \<and> distinct tr
    \<and> file_to_sizes ix' = file_to_sizes ix \<and> free_block_list ix' = free_block_list ix
    \<and> block_view f ix' = spec_write pa start (map (chunk buf) [0..<length plan]) (block_view f ix)"
proof -
  have "map_inv sha f nb E P H ix pa start buf plan 0 (ix, tr0)"
    using wf tr0 by (simp add: map_inv_def)
  then have "\<exists>st. ofold (map_block_step pa plan) [0..<length plan] (ix, tr0) = Some st
      \<and> map_inv sha f nb E P H ix pa start buf plan (length plan) st"
  proof (rule ofold_upt)
    show "\<exists>t. map_block_step pa plan i s = Some t \<and> map_inv sha f nb E P H ix pa start buf plan (Suc i) t"
      if "i < length plan" "map_inv sha f nb E P H ix pa start buf plan i s" for i s
      using that blk content by (intro map_block_step_inv[OF _ _ nP _ _ room]) simp_all
  qed
  then show ?thesis by (auto simp: map_inv_def)
qed

lemma map_loop_correct:
  assumes "wf_all sha f nb (E + infos plan) P H ix" "\<forall>e \<in> set plan. info e \<notin> P"
    and "\<forall>j < length plan. logical_blk (plan ! j) = start + of_nat j"
    and "\<forall>j < length plan. chunk f (unat (slot_of ix (info (plan ! j)))) = chunk buf j"
    and "unat start + length plan < 2 ^ 64"
  shows "\<exists>ix' tr. ofold (map_block_step pa plan) [0..<length plan] (ix, []) = Some (ix', tr)
    \<and> wf_all sha f nb E P (H \<union> set tr) ix' \<and> set tr \<inter> H = {} \<and> distinct tr
    \<and> file_to_sizes ix' = file_to_sizes ix \<and> free_block_list ix' = free_block_list ix
    \<and> block_view f ix' = spec_write pa start (map (chunk buf) [0..<length plan]) (block_view f ix)"
  by (rule map_loop_from[OF _ _ _ assms(2-5)]) (use assms(1) in simp_all)

end
