(* ===== verification/Write_Correct.thy ===== *)
theory Write_Correct
  imports Write_Map
begin

text \<open>
  \<open>write_dedup\<close> run without interference refines the abstract write: on success the view of
  the file changes as \<open>spec_write\<close> says and nothing else does, on failure nothing changes at
  all, and in both cases the invariant holds again. The lemmas hold for any references,
  objects and slots that other operations hold at the time.
\<close>

section \<open>Consolidation\<close>

lemma grow_size_eq:
  "grow_size pa e ix = ix\<lparr>file_to_sizes := spec_grow pa e (file_to_sizes ix)\<rparr>"
proof (cases "file_to_sizes ix pa")
  case None
  then show ?thesis by (simp add: grow_size_def spec_grow_def)
next
  case (Some s)
  show ?thesis
  proof (cases "e > s")
    case True
    with Some show ?thesis by (simp add: grow_size_def spec_grow_def max_def)
  next
    case False
    then have "spec_grow pa e (file_to_sizes ix) = file_to_sizes ix"
      using Some by (simp add: spec_grow_def max_def fun_upd_idem_iff)
    with False Some show ?thesis by (simp add: grow_size_def)
  qed
qed

lemma write_ready_publishable:
  assumes ready: "write_ready sha buf start f nb E P H ix0 pend ix plan" and wf0: "wf_index E P ix0"
    and content: "\<forall>j < length plan. miss (plan ! j) \<longrightarrow>
        Suc (unat (master_blk (plan ! j))) * BLOCK_SIZE \<le> length f
        \<and> chunk f (unat (master_blk (plan ! j))) = chunk buf j"
  shows "publishable sha f P H ix plan" and "pend = set_mset (miss_infos plan)"
proof -
  note w = ready[unfolded write_ready_def]
  have obj: "plan_objects (heap ix) (ran (hash_to_master ix)) pend plan" using w by blast
  show im: "pend = set_mset (miss_infos plan)"
    using obj unfolding plan_objects_def by auto
  have fresh: "pend \<inter> dom (heap ix0) = {}" and sH: "miss_slots plan \<inter> H = {}"
    and desc: "plan_describes sha buf start plan" using w by blast+
  have each: "\<forall>e \<in> set plan. miss e \<longrightarrow> hash_to_master ix (pe_hash e) = None
      \<and> slot_of ix (info e) = master_blk e \<and> unat (master_blk e) < MAX_SLOTS"
    and inj: "\<forall>j < length plan. \<forall>k < length plan. miss (plan ! j) \<longrightarrow> miss (plan ! k) \<longrightarrow>
          pe_hash (plan ! j) = pe_hash (plan ! k) \<or> master_blk (plan ! j) = master_blk (plan ! k) \<longrightarrow> j = k"
    using w by blast+
  show "publishable sha f P H ix plan"
    unfolding publishable_def
  proof (intro conjI ballI impI)
    fix e assume e: "e \<in> set plan" "miss e"
    then obtain j where j: "j < length plan" "e = plan ! j" by (metis in_set_conv_nth)
    obtain mi where mi: "heap ix (info e) = Some mi" "mi_hash mi = pe_hash e"
      using obj e(1) unfolding plan_objects_def by blast
    show "\<exists>mi. heap ix (info e) = Some mi \<and> mi_hash mi = pe_hash e \<and> masterBlockIndex mi = master_blk e"
      using mi each e by (auto simp: slot_of_def)
    have "info e \<in> pend" using e by (simp add: im)
    then show "info e \<notin> P" using wf_indexD(3)[OF wf0] fresh by blast
    have "master_blk e \<in> miss_slots plan" using e unfolding miss_slots_def miss_def by blast
    then show "master_blk e \<notin> H" using sH by blast
    show "hash_to_master ix (pe_hash e) = None" using each e by blast
    show "Suc (unat (master_blk e)) * BLOCK_SIZE \<le> length f"
      using content j e(2) by simp
    show "sha (chunk f (unat (master_blk e))) = pe_hash e"
      using content j e(2) desc by (simp add: plan_describes_def)
  next
    show "distinct (map info (filter miss plan))" using obj unfolding plan_objects_def by blast
  qed (use inj in blast)
qed

text \<open>Once all objects are published, each entry's object holds the entry's block.\<close>

lemma published_content:
  assumes ready: "write_ready sha buf start f nb E P H ix0 pend ix plan"
    and content: "\<forall>j < length plan. miss (plan ! j) \<longrightarrow> chunk f (unat (master_blk (plan ! j))) = chunk buf j"
    and coll: "inj_on sha (stored f ix \<union> chunk buf ` {..<length plan})"
    and wf1: "wf_all sha f nb E' P H ix1" and ix1: "ix1 = ix\<lparr>hash_to_master := hash_to_master ix1\<rparr>"
    and ran: "ran (hash_to_master ix1) = ran (hash_to_master ix) \<union> set_mset (miss_infos plan)"
    and j: "j < length plan"
  shows "info (plan ! j) \<in> ran (hash_to_master ix1)"
    and "chunk f (unat (slot_of ix1 (info (plan ! j)))) = chunk buf j"
proof -
  note w = ready[unfolded write_ready_def]
  have obj: "plan_objects (heap ix) (ran (hash_to_master ix)) pend plan"
    and desc: "plan_describes sha buf start plan" using w by blast+
  let ?p = "info (plan ! j)"
  have mem: "plan ! j \<in> set plan" using j by simp
  have im: "pend = set_mset (miss_infos plan)" using obj unfolding plan_objects_def by auto
  show pub: "?p \<in> ran (hash_to_master ix1)"
    using obj mem unfolding ran im plan_objects_def by blast
  have sl: "slot_of ix1 = slot_of ix" by (subst ix1) simp
  have hp: "heap ix1 = heap ix" by (subst ix1) simp
  obtain mi where mi: "heap ix ?p = Some mi" "mi_hash mi = pe_hash (plan ! j)"
    using obj mem unfolding plan_objects_def by blast
  obtain h where h: "hash_to_master ix1 h = Some ?p" using pub by (auto simp: ran_def)
  have "mi_hash (the (heap ix1 ?p)) = h"
    using wf1 h wf_indexD(6)[of E' P ix1] by (simp add: wf_all_def)
  then have "h = sha (chunk buf j)" using mi hp desc j by (simp add: plan_describes_def)
  moreover have "sha (chunk f (unat (slot_of ix1 ?p))) = h"
    using wf1 h unfolding wf_all_def wf_content_def by blast
  ultimately have eq: "sha (chunk f (unat (slot_of ix1 ?p))) = sha (chunk buf j)" by simp
  have "chunk f (unat (slot_of ix1 ?p)) \<in> stored f ix \<union> chunk buf ` {..<length plan}"
  proof (cases "?p \<in> ran (hash_to_master ix)")
    case True
    then show ?thesis by (simp add: stored_def sl)
  next
    case False
    then obtain e where e: "e \<in> set plan" "miss e" "info e = ?p" using pub by (auto simp: ran)
    then obtain l where l: "l < length plan" "e = plan ! l" by (metis in_set_conv_nth)
    have "slot_of ix (info e) = master_blk e" using w e by blast
    then have "chunk f (unat (slot_of ix1 ?p)) = chunk buf l"
      using content l e by (simp add: sl)
    with l(1) show ?thesis by simp
  qed
  with coll eq j show "chunk f (unat (slot_of ix1 ?p)) = chunk buf j"
    by (auto dest: inj_onD)
qed

lemma consolidate_correct:
  assumes ready: "write_ready sha buf start f nb E P H ix0 pend ix plan"
    and wf0: "wf_index E P ix0" and sizes: "wf_sizes ix0"
    and content: "\<forall>j < length plan. miss (plan ! j) \<longrightarrow>
        Suc (unat (master_blk (plan ! j))) * BLOCK_SIZE \<le> length f
        \<and> chunk f (unat (master_blk (plan ! j))) = chunk buf j"
    and coll: "inj_on sha (stored f ix \<union> chunk buf ` {..<length plan})"
    and room: "(unat start + length plan) * BLOCK_SIZE < 2 ^ 64"
  shows "\<exists>ix' tr. consolidate pa start plan ix = Some (ix', tr)
    \<and> wf_all sha f nb E P H (release_slots tr ix') \<and> wf_sizes (release_slots tr ix')
    \<and> block_view f (release_slots tr ix')
        = spec_write pa start (map (chunk buf) [0..<length plan]) (block_view f ix0)
    \<and> file_to_sizes (release_slots tr ix')
        = spec_grow pa ((start + of_nat (length plan)) * of_nat BLOCK_SIZE) (file_to_sizes ix0)"
proof -
  note w = ready[unfolded write_ready_def]
  let ?n = "length plan"
  let ?e = "(start + of_nat ?n) * of_nat BLOCK_SIZE :: u64"
  note pb = write_ready_publishable[OF ready wf0 content]
  have wf: "wf_all sha f nb (E + infos plan) (P \<union> set_mset (miss_infos plan)) (H \<union> miss_slots plan) ix"
    using w unfolding pb(2) by blast
  have sv: "same_view ix0 ix" and desc: "plan_describes sha buf start plan" using w by blast+
  obtain ix1 where l1: "ofold publish_step [0..<?n] (ix, plan, []) = Some (ix1, plan, [])"
    and wf1: "wf_all sha f nb (E + infos plan) P H ix1" and ix1: "ix1 = ix\<lparr>hash_to_master := hash_to_master ix1\<rparr>"
    and ran: "ran (hash_to_master ix1) = ran (hash_to_master ix) \<union> set_mset (miss_infos plan)"
    using publish_correct[OF pb(1) wf] by blast
  have content': "\<forall>j < ?n. miss (plan ! j) \<longrightarrow> chunk f (unat (master_blk (plan ! j))) = chunk buf j"
    using content by blast
  note pc = published_content[OF ready content' coll wf1 ix1 ran]
  have pubP: "ran (hash_to_master ix1) \<inter> P = {}"
    using wf1 wf_indexD(4)[of "E + infos plan" P ix1] by (simp add: wf_all_def)
  have nP: "\<forall>e \<in> set plan. info e \<notin> P"
  proof
    fix e assume "e \<in> set plan"
    then obtain j where "j < ?n" "e = plan ! j" by (metis in_set_conv_nth)
    with pc(1)[of j] pubP show "info e \<notin> P" by blast
  qed
  have room': "unat start + ?n < 2 ^ 64" using room by (simp add: BLOCK_SIZE_def)
  have blk: "\<forall>j < ?n. logical_blk (plan ! j) = start + of_nat j"
    using desc by (simp add: plan_describes_def)
  obtain ix2 tr where l2: "ofold (map_block_step pa plan) [0..<?n] (ix1, []) = Some (ix2, tr)"
    and wf2: "wf_all sha f nb E P (H \<union> set tr) ix2" and tr: "set tr \<inter> H = {}" "distinct tr"
    and sz: "file_to_sizes ix2 = file_to_sizes ix1"
    and v: "block_view f ix2 = spec_write pa start (map (chunk buf) [0..<?n]) (block_view f ix1)"
    using map_loop_correct[OF wf1 nP blk _ room'] pc(2) by blast
  have v1: "block_view f ix1 = block_view f ix0"
  proof -
    have "block_view f ix1 = block_view f ix" by (rule block_view_cong) (subst ix1, simp)+
    then show ?thesis using same_view_block_view[OF sv wf0] by simp
  qed
  have sz1: "file_to_sizes ix1 = file_to_sizes ix0"
    by (subst ix1) (use sv in \<open>simp add: same_view_def\<close>)
  let ?ix = "release_slots tr (grow_size pa ?e ix2)"
  have eq: "?ix = (ix2\<lparr>free_block_list := tr @ free_block_list ix2\<rparr>)\<lparr>file_to_sizes := spec_grow pa ?e (file_to_sizes ix2)\<rparr>"
    by (simp add: release_slots_def grow_size_eq)
  have "wf_all sha f nb E P (H \<union> set tr - set tr) (ix2\<lparr>free_block_list := tr @ free_block_list ix2\<rparr>)"
    by (rule wf_all_prepend[OF wf2 _ tr(2)]) simp
  moreover have "H \<union> set tr - set tr = H" using tr(1) by blast
  ultimately have "wf_all sha f nb E P H ?ix" unfolding eq by (simp add: wf_all_def)
  moreover have view: "block_view f ?ix = spec_write pa start (map (chunk buf) [0..<?n]) (block_view f ix0)"
    unfolding eq using v v1 by simp
  moreover have grow: "file_to_sizes ?ix = spec_grow pa ?e (file_to_sizes ix0)"
    unfolding eq using sz sz1 by simp
  moreover have "wf_sizes ?ix"
    by (rule wf_sizes_write[OF sizes view]) (use grow room in simp_all)
  moreover have "consolidate pa start plan ix = Some (grow_size pa ?e ix2, tr)"
    using l1 l2 by (simp add: consolidate_def Let_def)
  ultimately show ?thesis by blast
qed

section \<open>The whole request\<close>

text \<open>
  A request the file system serves: whole blocks, in range, with room for its slots and its
  references (\<open>held\<close> of which other operations in progress have).
\<close>

definition write_pre :: "nat \<Rightarrow> Index \<Rightarrow> byte list \<Rightarrow> nat \<Rightarrow> int \<Rightarrow> u64 \<Rightarrow> bool" where
  "write_pre held ix buf sz offset nb \<longleftrightarrow>
     length buf = sz \<and> 0 < sz \<and> BLOCK_SIZE dvd sz \<and> sz < 2 ^ 31
     \<and> 0 \<le> offset \<and> offset + int sz < 2 ^ 63
     \<and> unat nb + sz div BLOCK_SIZE \<le> MAX_SLOTS
     \<and> card (dom (file_to_master ix)) + held + sz div BLOCK_SIZE < 2 ^ 32"

text \<open>SHA-512 does not collide on the blocks stored and the blocks of the request.\<close>

definition collision_free :: "(byte list \<Rightarrow> hash) \<Rightarrow> fbytes \<Rightarrow> Index \<Rightarrow> byte list \<Rightarrow> bool" where
  "collision_free sha f ix buf \<longleftrightarrow>
     inj_on sha (stored f ix \<union> chunk buf ` {..<length buf div BLOCK_SIZE})"

definition blocks_of :: "byte list \<Rightarrow> byte list list" where
  "blocks_of buf = map (chunk buf) [0..<length buf div BLOCK_SIZE]"

lemma length_blocks_of [simp]: "length (blocks_of buf) = length buf div BLOCK_SIZE"
  by (simp add: blocks_of_def)

text \<open>The index and the view after a request that succeeded, and after one that failed.\<close>

definition write_done :: "fbytes \<Rightarrow> Index \<Rightarrow> fbytes \<Rightarrow> Index \<Rightarrow> path \<Rightarrow> int \<Rightarrow> byte list \<Rightarrow> bool" where
  "write_done f ix f' ix' pa offset buf \<longleftrightarrow>
     block_view f' ix' = spec_write pa (start_block_of offset) (blocks_of buf) (block_view f ix)
     \<and> file_to_sizes ix' = spec_grow pa
         ((start_block_of offset + of_nat (length (blocks_of buf))) * of_nat BLOCK_SIZE) (file_to_sizes ix)"

definition write_undone :: "fbytes \<Rightarrow> Index \<Rightarrow> fbytes \<Rightarrow> Index \<Rightarrow> bool" where
  "write_undone f ix f' ix' \<longleftrightarrow>
     block_view f' ix' = block_view f ix \<and> file_to_sizes ix' = file_to_sizes ix"

lemma request_in_range:
  assumes o: "0 \<le> offset" "offset + int sz < 2 ^ 63"
  shows "(unat (start_block_of offset) + sz div BLOCK_SIZE) * BLOCK_SIZE < 2 ^ 64"
proof -
  from o have "int (nat offset + sz) < int (2 ^ 63)" by simp
  then have "nat offset + sz < 2 ^ 63" by (simp only: of_nat_less_iff)
  moreover have "nat offset div BLOCK_SIZE * BLOCK_SIZE \<le> nat offset"
    "sz div BLOCK_SIZE * BLOCK_SIZE \<le> sz" by (rule div_times_less_eq_dividend)+
  ultimately have "(nat offset div BLOCK_SIZE + sz div BLOCK_SIZE) * BLOCK_SIZE < 2 ^ 63"
    unfolding add_mult_distrib by linarith
  moreover have "unat (start_block_of offset) = nat offset div BLOCK_SIZE"
    using o by (intro unat_start_block_of) linarith+
  ultimately show ?thesis by simp
qed

lemma write_pre_start:
  assumes "write_pre held ix buf sz offset nb"
  shows "(unat (start_block_of offset) + sz div BLOCK_SIZE) * BLOCK_SIZE < 2 ^ 64"
  by (rule request_in_range) (use assms in \<open>simp_all add: write_pre_def\<close>)

lemma write_dedup_correct:
  assumes wf: "wf_all sha f nb E P H ix" and sizes: "wf_sizes ix"
    and pre: "write_pre (size E) ix buf sz offset nb" and coll: "collision_free sha f ix buf"
  shows "\<exists>rc ix' f' nb' ios'.
      write_dedup sha ix pa buf sz offset f nb ios = Some (rc, ix', f', nb', ios')
      \<and> wf_all sha f' nb' E P H ix' \<and> wf_sizes ix'
      \<and> (rc = int sz \<and> write_done f ix f' ix' pa offset buf \<or> rc < 0 \<and> write_undone f ix f' ix')
      \<and> ((\<forall>io \<in> set ios. io = IoOk) \<longrightarrow> rc = int sz)"
proof -
  let ?n = "sz div BLOCK_SIZE" and ?start = "start_block_of offset"
  have sz: "length buf = sz" "0 < sz" "BLOCK_SIZE dvd sz" "sz < 2 ^ 31"
    and room: "unat nb + ?n \<le> MAX_SLOTS" "card (dom (file_to_master ix)) + size E + ?n < 2 ^ 32"
    using pre by (simp_all add: write_pre_def)
  then have n: "?n \<noteq> 0" "sz mod BLOCK_SIZE = 0" "?n * BLOCK_SIZE = sz"
    by (auto simp: dvd_div_eq_0_iff)
  have wi: "wf_index E P ix" using wf by (simp add: wf_all_def)
  obtain ix1 pend plan1 mc where p1: "pass1 sha buf ?start ?n ix = Some (ix1, pend, plan1, mc)"
    and inv1: "pass1_inv sha buf ?start f nb E P H ix ?n (ix1, pend, plan1, mc)"
    by (rule pass1_correct[OF wf room(2)])
  obtain ix2 nb2 plan where p2: "assign_slots ix1 nb plan1 mc = Some (ix2, nb2, plan)"
    and ready: "write_ready sha buf ?start f nb2 E P H ix (ran pend) ix2 plan"
    and len: "length plan = ?n" and mc: "mc = length (filter miss plan)"
    by (rule assign_slots_correct[OF inv1 room(1)])
  have lenb: "length buf = length plan * BLOCK_SIZE" using sz(1) n(3) len by simp
  obtain rc f' ios' where fl: "(if mc > 0 then flush_plan f ios plan buf else (0, f, ios)) = (rc, f', ios')"
    by (metis prod_cases3)
  have rc: "rc \<le> 0" and ready': "write_ready sha buf ?start f' nb2 E P H ix (ran pend) ix2 plan"
    and view: "block_view f' ix2 = block_view f ix2"
    and kept: "\<forall>p \<in> ran (hash_to_master ix2). chunk f' (unat (slot_of ix2 p)) = chunk f (unat (slot_of ix2 p))"
    and content: "rc = 0 \<Longrightarrow> \<forall>j < length plan. miss (plan ! j) \<longrightarrow>
        Suc (unat (master_blk (plan ! j))) * BLOCK_SIZE \<le> length f'
        \<and> chunk f' (unat (master_blk (plan ! j))) = chunk buf j"
    and healthy: "(\<forall>io \<in> set ios. io = IoOk) \<longrightarrow> rc = 0"
  proof -
    have "rc \<le> 0 \<and> write_ready sha buf ?start f' nb2 E P H ix (ran pend) ix2 plan
      \<and> block_view f' ix2 = block_view f ix2
      \<and> (\<forall>p \<in> ran (hash_to_master ix2). chunk f' (unat (slot_of ix2 p)) = chunk f (unat (slot_of ix2 p)))
      \<and> (rc = 0 \<longrightarrow> (\<forall>j < length plan. miss (plan ! j) \<longrightarrow>
        Suc (unat (master_blk (plan ! j))) * BLOCK_SIZE \<le> length f'
        \<and> chunk f' (unat (master_blk (plan ! j))) = chunk buf j))
      \<and> ((\<forall>io \<in> set ios. io = IoOk) \<longrightarrow> rc = 0)"
    proof (cases "mc > 0")
      case True
      then have fl': "flush_plan f ios plan buf = (rc, f', ios')" using fl by simp
      have "fst (flush_plan f ios plan buf) = 0" if "\<forall>io \<in> set ios. io = IoOk"
        unfolding flush_plan_def
        by (rule flush_loop_healthy[OF write_ready_plan_ready[OF ready lenb] _ that]) simp
      with flush_correct[OF ready lenb fl'] fl' show ?thesis by (metis fst_conv)
    next
      case False
      then have no: "\<not> miss (plan ! j)" if "j < length plan" for j
        using that mc by (auto simp: filter_empty_conv)
      from False fl have eqs: "rc = 0" "f' = f" by simp_all
      with no ready show ?thesis by auto
    qed
    then show "rc \<le> 0" "write_ready sha buf ?start f' nb2 E P H ix (ran pend) ix2 plan"
      "block_view f' ix2 = block_view f ix2"
      "\<forall>p \<in> ran (hash_to_master ix2). chunk f' (unat (slot_of ix2 p)) = chunk f (unat (slot_of ix2 p))"
      "rc = 0 \<Longrightarrow> \<forall>j < length plan. miss (plan ! j) \<longrightarrow>
        Suc (unat (master_blk (plan ! j))) * BLOCK_SIZE \<le> length f'
        \<and> chunk f' (unat (master_blk (plan ! j))) = chunk buf j"
      "(\<forall>io \<in> set ios. io = IoOk) \<longrightarrow> rc = 0"
      by blast+
  qed
  have sv: "same_view ix ix2" using ready by (simp add: write_ready_def)
  have v0: "block_view f' ix = block_view f ix"
    using view same_view_block_view[OF sv wi] by metis
  have run: "write_dedup sha ix pa buf sz offset f nb ios =
      (if rc < 0 then do { ix \<leftarrow> rollback_allocations ix2 plan; Some (rc, ix, f', nb2, ios') }
       else do { (ix, to_release) \<leftarrow> consolidate pa ?start plan ix2;
         Some (int_of_size (?n * BLOCK_SIZE), release_slots to_release ix, f', nb2, ios') })"
    using sz(2) n(1,2) p1 p2 fl by (simp add: write_dedup_def Let_def split del: if_split)
  show ?thesis
  proof (cases "rc < 0")
    case True
    obtain ix' where "rollback_allocations ix2 plan = Some ix'" "wf_all sha f' nb2 E P H ix'"
      "file_to_master ix' = file_to_master ix" "file_to_sizes ix' = file_to_sizes ix"
      "block_view f' ix' = block_view f' ix"
      using rollback_correct[OF ready' wi] by blast
    moreover have "wf_sizes ix'"
      by (rule wf_sizes_antimono[OF sizes]) (use calculation in simp_all)
    ultimately show ?thesis
      using True run healthy v0 by (simp add: write_undone_def)
  next
    case False
    with rc have rc0: "rc = 0" by simp
    have "stored f' ix2 \<subseteq> stored f ix"
    proof
      fix b assume "b \<in> stored f' ix2"
      then obtain p where p: "p \<in> ran (hash_to_master ix2)" "b = chunk f' (unat (slot_of ix2 p))"
        by (auto simp: stored_def)
      then have p0: "p \<in> ran (hash_to_master ix)" using sv by (simp add: same_view_def)
      then have "p \<in> dom (heap ix)" using wf_indexD(3)[OF wi] by blast
      then have "slot_of ix2 p = slot_of ix p" using sv by (simp add: same_view_def)
      then have "b = chunk f (unat (slot_of ix p))" using p kept by metis
      with p0 show "b \<in> stored f ix" unfolding stored_def by blast
    qed
    then have coll': "inj_on sha (stored f' ix2 \<union> chunk buf ` {..<length plan})"
      using coll len sz(1) unfolding collision_free_def by (auto intro: inj_on_subset)
    have room': "(unat ?start + length plan) * BLOCK_SIZE < 2 ^ 64"
      using write_pre_start[OF pre] len by simp
    obtain ix' tr where c: "consolidate pa ?start plan ix2 = Some (ix', tr)"
      "wf_all sha f' nb2 E P H (release_slots tr ix')" "wf_sizes (release_slots tr ix')"
      "block_view f' (release_slots tr ix')
        = spec_write pa ?start (map (chunk buf) [0..<length plan]) (block_view f' ix)"
      "file_to_sizes (release_slots tr ix')
        = spec_grow pa ((?start + of_nat (length plan)) * of_nat BLOCK_SIZE) (file_to_sizes ix)"
      using consolidate_correct[OF ready' wi sizes content[OF rc0] coll' room'] by blast
    have "write_done f ix f' (release_slots tr ix') pa offset buf"
      using c(4,5) v0 len sz(1) by (simp add: write_done_def blocks_of_def)
    moreover have "int_of_size (?n * BLOCK_SIZE) = int sz"
      using n(3) sz(4) by (simp add: int_of_size_small)
    ultimately show ?thesis using False run c by simp
  qed
qed

end
