(* ===== verification/Block_Sort.thy ===== *)
theory Block_Sort
  imports Dedup_Prelude
begin

text \<open>
  \<open>includes/dedup.h\<close>: the pairs that \<open>read_dedup\<close> sorts by physical position, the in-place
  insertion sort used up to \<open>INSERTION_SORT_THRESHOLD\<close> pairs, and the comparison function
  handed to \<open>qsort\<close> above it (\<open>src/dedup.c\<close>). \<open>qsort\<close> itself is a parameter with its
  documented contract. The locale \<open>pair_sort\<close> is what the reader relies on.
\<close>

section \<open>Pairs and the two sorting routines\<close>

record BlockPair =
  logical_idx :: nat
  master_block_index :: u64

definition INSERTION_SORT_THRESHOLD :: nat where
  "INSERTION_SORT_THRESHOLD = 32"

text \<open>The inner loop: shift larger entries one place to the right until \<open>tmp\<close> fits at \<open>j\<close>.\<close>

function shift_right :: "BlockPair list \<Rightarrow> BlockPair \<Rightarrow> nat \<Rightarrow> BlockPair list \<times> nat" where
  "shift_right arr tmp j =
     (if 0 < j \<and> master_block_index (arr ! (j - 1)) > master_block_index tmp
      then shift_right (arr[j := arr ! (j - 1)]) tmp (j - 1)
      else (arr, j))"
  by pat_completeness auto
termination
  by (relation "measure (\<lambda>(arr, tmp, j). j)") auto

declare shift_right.simps [simp del]

definition insertion_step :: "nat \<Rightarrow> BlockPair list \<Rightarrow> BlockPair list" where
  "insertion_step i arr =
     (if master_block_index (arr ! (i - 1)) \<le> master_block_index (arr ! i) then arr
      else let tmp = arr ! i; (arr', j) = shift_right arr tmp i in arr'[j := tmp])"

definition insertion_sort :: "BlockPair list \<Rightarrow> nat \<Rightarrow> BlockPair list" where
  "insertion_sort arr n = fold insertion_step [1..<n] arr"

definition cmp_master_idx :: "BlockPair \<Rightarrow> BlockPair \<Rightarrow> int" where
  "cmp_master_idx a b =
     of_bool (master_block_index a > master_block_index b)
     - of_bool (master_block_index a < master_block_index b)"

text \<open>Phase 2 of \<open>read_dedup\<close>: which routine sorts how many pairs.\<close>

definition sort_pairs ::
  "((BlockPair \<Rightarrow> BlockPair \<Rightarrow> int) \<Rightarrow> BlockPair list \<Rightarrow> BlockPair list) \<Rightarrow>
   BlockPair list \<Rightarrow> BlockPair list" where
  "sort_pairs qs pairs =
     (if length pairs \<le> INSERTION_SORT_THRESHOLD then insertion_sort pairs (length pairs)
      else qs cmp_master_idx pairs)"

text \<open>The contract of \<open>qsort\<close>: a permutation, in the order of the comparison function.\<close>

definition qsort_contract ::
  "((BlockPair \<Rightarrow> BlockPair \<Rightarrow> int) \<Rightarrow> BlockPair list \<Rightarrow> BlockPair list) \<Rightarrow> bool" where
  "qsort_contract qs \<longleftrightarrow>
     (\<forall>ps. mset (qs cmp_master_idx ps) = mset ps \<and>
           sorted_wrt (\<lambda>a b. cmp_master_idx a b \<le> 0) (qs cmp_master_idx ps))"

section \<open>What a reader needs of a sorting routine\<close>

locale pair_sort =
  fixes srt :: "BlockPair list \<Rightarrow> BlockPair list"
  assumes srt_mset: "mset (srt ps) = mset ps"
    and srt_sorted: "sorted (map master_block_index (srt ps))"
begin

lemma srt_set: "set (srt ps) = set ps"
  by (metis srt_mset set_mset_mset)

lemma srt_length: "length (srt ps) = length ps"
  by (metis srt_mset size_mset)

lemma srt_distinct: "distinct (srt ps) = distinct ps"
  by (metis srt_mset mset_eq_imp_distinct_iff)

lemma srt_map_mset: "mset (map f (srt ps)) = mset (map f ps)"
  by (simp add: srt_mset)

end

section \<open>The insertion sort is a stable sort\<close>

text \<open>Where the inner loop stops, and what the array is once \<open>tmp\<close> is stored there.\<close>

lemma shift_right_spec:
  assumes "shift_right arr tmp j = (arr', k)" "j < length arr"
  shows "k \<le> j"
    and "arr'[k := tmp] = take k arr @ tmp # drop k (take j arr) @ drop (Suc j) arr"
    and "k = 0 \<or> master_block_index (arr ! (k - 1)) \<le> master_block_index tmp"
    and "\<forall>x \<in> set (drop k (take j arr)). master_block_index tmp < master_block_index x"
proof (atomize (full), use assms in \<open>induction arr tmp j rule: shift_right.induct\<close>)
  case (1 arr tmp j)
  show ?case
  proof (cases "0 < j \<and> master_block_index (arr ! (j - 1)) > master_block_index tmp")
    case True
    then obtain i where i: "j = Suc i" by (metis gr0_implies_Suc)
    let ?arr = "arr[j := arr ! i]"
    have rec: "shift_right ?arr tmp i = (arr', k)"
      using "1.prems"(1) True i by (subst (asm) shift_right.simps) simp
    have IH: "k \<le> i \<and> arr'[k := tmp] = take k ?arr @ tmp # drop k (take i ?arr) @ drop (Suc i) ?arr \<and>
        (k = 0 \<or> master_block_index (?arr ! (k - 1)) \<le> master_block_index tmp) \<and>
        (\<forall>x \<in> set (drop k (take i ?arr)). master_block_index tmp < master_block_index x)"
      using "1.IH"[OF True] rec "1.prems"(2) i by simp
    have tk: "take k ?arr = take k arr" "take i ?arr = take i arr"
      using IH i by simp_all
    have dr: "drop (Suc i) ?arr = arr ! i # drop (Suc j) arr"
      using "1.prems"(2) i by (simp add: drop_update_swap Cons_nth_drop_Suc[symmetric])
    have seg: "drop k (take j arr) = drop k (take i arr) @ [arr ! i]"
      using IH i "1.prems"(2) by (simp add: take_Suc_conv_app_nth)
    show ?thesis
      using IH tk dr seg True i by (auto simp: nth_list_update)
  next
    case False
    with "1.prems"(1) have "arr' = arr" "k = j"
      by (subst (asm) shift_right.simps, auto)+
    with False "1.prems"(2) show ?thesis
      by (auto simp: upd_conv_take_nth_drop)
  qed
qed

text \<open>One round of the outer loop moves entry \<open>i\<close> to its place \<open>k\<close> in the sorted prefix.\<close>

lemma insertion_step_spec:
  assumes "0 < i" "i < length arr"
  obtains k where "k \<le> i"
    and "insertion_step i arr = take k arr @ arr ! i # drop k (take i arr) @ drop (Suc i) arr"
    and "k = 0 \<or> master_block_index (arr ! (k - 1)) \<le> master_block_index (arr ! i)"
    and "\<forall>x \<in> set (drop k (take i arr)). master_block_index (arr ! i) < master_block_index x"
proof (cases "master_block_index (arr ! (i - 1)) \<le> master_block_index (arr ! i)")
  case True
  have "insertion_step i arr = take i arr @ arr ! i # drop i (take i arr) @ drop (Suc i) arr"
    using True assms by (simp add: insertion_step_def id_take_nth_drop[symmetric])
  with True that[of i] show ?thesis by simp
next
  case False
  obtain arr' k where sh: "shift_right arr (arr ! i) i = (arr', k)"
    by fastforce
  note spec = shift_right_spec[OF sh assms(2)]
  have "insertion_step i arr = arr'[k := arr ! i]"
    using False sh by (simp add: insertion_step_def)
  with spec that[of k] show ?thesis by simp
qed

lemma insertion_step_sorted:
  assumes "0 < i" "i < length arr" "sorted (map master_block_index (take i arr))"
  shows "sorted (map master_block_index (take (Suc i) (insertion_step i arr)))"
proof -
  obtain k where k: "k \<le> i"
    and eq: "insertion_step i arr = take k arr @ arr ! i # drop k (take i arr) @ drop (Suc i) arr"
    and low: "k = 0 \<or> master_block_index (arr ! (k - 1)) \<le> master_block_index (arr ! i)"
    and high: "\<forall>x \<in> set (drop k (take i arr)). master_block_index (arr ! i) < master_block_index x"
    using insertion_step_spec[OF assms(1,2)] by blast
  have pre: "take (Suc i) (insertion_step i arr) = take k arr @ arr ! i # drop k (take i arr)"
    using eq k assms(2) by (simp add: min_def Suc_diff_le)
  have split: "take i arr = take k arr @ drop k (take i arr)"
    using k by (metis append_take_drop_id min.absorb1 take_take)
  have "sorted (map master_block_index (take k arr @ drop k (take i arr)))"
    using assms(3) split by metis
  then have parts: "sorted (map master_block_index (take k arr))"
      "sorted (map master_block_index (drop k (take i arr)))"
      "\<forall>x \<in> set (take k arr). \<forall>y \<in> set (drop k (take i arr)).
         master_block_index x \<le> master_block_index y"
    by (auto simp: sorted_append)
  have le: "\<forall>x \<in> set (take k arr). master_block_index x \<le> master_block_index (arr ! i)"
  proof (cases "k = 0")
    case False
    then have last: "master_block_index (arr ! (k - 1)) \<le> master_block_index (arr ! i)"
      using low by simp
    show ?thesis
    proof
      fix x assume "x \<in> set (take k arr)"
      then obtain l where l: "l < k" "x = arr ! l"
        using k assms(2) by (auto simp: in_set_conv_nth)
      have "map master_block_index (take k arr) ! l \<le> map master_block_index (take k arr) ! (k - 1)"
        by (rule sorted_nth_mono[OF parts(1)]) (use l k assms(2) in auto)
      then show "master_block_index x \<le> master_block_index (arr ! i)"
        using l k assms(2) last by auto
    qed
  qed simp
  show ?thesis
    unfolding pre using parts le high by (auto simp: sorted_append less_imp_le)
qed

lemma insertion_step_perm:
  assumes "0 < i" "i < length arr"
  shows "length (insertion_step i arr) = length arr"
    and "mset (insertion_step i arr) = mset arr"
    and "filter (\<lambda>x. v = master_block_index x) (insertion_step i arr)
         = filter (\<lambda>x. v = master_block_index x) arr"
proof -
  obtain k where k: "k \<le> i"
    and eq: "insertion_step i arr = take k arr @ arr ! i # drop k (take i arr) @ drop (Suc i) arr"
    and high: "\<forall>x \<in> set (drop k (take i arr)). master_block_index (arr ! i) < master_block_index x"
    using insertion_step_spec[OF assms(1,2)] by blast
  have arr: "arr = take k arr @ drop k (take i arr) @ arr ! i # drop (Suc i) arr"
    using id_take_nth_drop[OF assms(2)] k
    by (metis append.assoc append_take_drop_id min.absorb1 take_take)
  show m: "mset (insertion_step i arr) = mset arr"
    unfolding eq by (subst (5) arr) simp
  then show "length (insertion_step i arr) = length arr"
    by (metis size_mset)
  have none: "v = master_block_index (arr ! i) \<Longrightarrow>
      filter (\<lambda>x. v = master_block_index x) (drop k (take i arr)) = []"
    using high by (auto simp: filter_empty_conv)
  show "filter (\<lambda>x. v = master_block_index x) (insertion_step i arr)
      = filter (\<lambda>x. v = master_block_index x) arr"
    unfolding eq by (subst (5) arr) (use none in auto)
qed

lemma insertion_rounds:
  assumes "n \<le> length arr"
  shows "length (fold insertion_step [1..<n] arr) = length arr
    \<and> mset (fold insertion_step [1..<n] arr) = mset arr
    \<and> (\<forall>v. filter (\<lambda>x. v = master_block_index x) (fold insertion_step [1..<n] arr)
         = filter (\<lambda>x. v = master_block_index x) arr)
    \<and> sorted (map master_block_index (take n (fold insertion_step [1..<n] arr)))"
  using assms
proof (induction n)
  case 0
  then show ?case by simp
next
  case (Suc n)
  let ?a = "fold insertion_step [1..<n] arr"
  show ?case
  proof (cases "n = 0")
    case True
    then show ?thesis by (cases arr) simp_all
  next
    case False
    then have n: "0 < n" "n < length ?a" and step: "[1..<Suc n] = [1..<n] @ [n]"
      using Suc by simp_all
    show ?thesis
      using Suc insertion_step_perm[OF n] insertion_step_sorted[OF n] step by simp
  qed
qed

lemma insertion_sort_is_sort_key:
  "insertion_sort arr (length arr) = sort_key master_block_index arr"
proof -
  let ?s = "insertion_sort arr (length arr)"
  note r = insertion_rounds[OF order_refl, of arr, folded insertion_sort_def]
  have "sort_key master_block_index arr = ?s"
  proof (rule properties_for_sort_key)
    show "mset ?s = mset arr" using r by blast
    show "filter (\<lambda>x. master_block_index k = master_block_index x) ?s
        = filter (\<lambda>x. master_block_index k = master_block_index x) arr" for k
      using r by blast
    have "take (length arr) ?s = ?s" using r by (metis order_refl take_all)
    with r show "sorted (map master_block_index ?s)" by metis
  qed
  then show ?thesis by simp
qed

interpretation insertion: pair_sort "\<lambda>arr. insertion_sort arr (length arr)"
  by unfold_locales (simp_all add: insertion_sort_is_sort_key)

lemma cmp_master_idx_le: "cmp_master_idx a b \<le> 0 \<longleftrightarrow> master_block_index a \<le> master_block_index b"
  by (auto simp: cmp_master_idx_def)

lemma pair_sort_sort_pairs:
  assumes "qsort_contract qs"
  shows "pair_sort (sort_pairs qs)"
  using assms insertion.srt_mset insertion.srt_sorted
  by unfold_locales
    (auto simp: sort_pairs_def qsort_contract_def cmp_master_idx_le sorted_wrt_map)

text \<open>The library's stable sort is one possible \<open>qsort\<close>.\<close>

lemma qsort_contract_sort_key: "qsort_contract (\<lambda>cmp. sort_key master_block_index)"
proof -
  have "sorted_wrt (\<lambda>a b. master_block_index a \<le> master_block_index b)
      (sort_key master_block_index ps)" for ps
    using sorted_sort_key[of master_block_index ps] by (simp add: sorted_wrt_map)
  then show ?thesis by (auto simp: qsort_contract_def cmp_master_idx_le)
qed

section \<open>Properties\<close>

text \<open>
  The in-place insertion sort of \<open>dedup.h\<close> computes exactly the library's stable sort by
  physical block index.
\<close>

lemma insertion_sort_stable:
  "insertion_sort arr (length arr) = sort_key master_block_index arr"
  by (rule insertion_sort_is_sort_key)

end
