(* ===== verification/Dedup_Read.thy ===== *)
theory Dedup_Read
  imports Dedup_Spec Block_Sort
begin

text \<open>
  \<open>read_dedup\<close> of \<open>src/dedup.c\<close>: look the blocks up until the first hole, sort them by
  physical position, read each run of consecutive slots with one \<open>pread\<close>, and copy the blocks
  to their places. Whenever it returns a length, that many bytes of the buffer are the blocks
  of the abstract read, and a healthy kernel makes it return.
\<close>

section \<open>The routine\<close>

text \<open>Phase 1; the loop breaks at the first block without a mapping.\<close>

fun lookup_pairs :: "Index \<Rightarrow> path \<Rightarrow> u64 \<Rightarrow> nat \<Rightarrow> nat \<Rightarrow> BlockPair list option" where
  "lookup_pairs ix pa start_block i 0 = Some []"
| "lookup_pairs ix pa start_block i (Suc n) =
     (case lookup_by_file_block ix pa (start_block + of_nat i) of
        None \<Rightarrow> Some []
      | Some p \<Rightarrow> do {
          info \<leftarrow> heap ix p;
          pairs \<leftarrow> lookup_pairs ix pa start_block (Suc i) n;
          Some (\<lparr>logical_idx = i, master_block_index = masterBlockIndex info\<rparr> # pairs)
        })"

text \<open>\<open>memcpy\<close> or \<open>pread\<close> of bytes into block \<open>i\<close> of the caller's buffer.\<close>

definition put_block :: "byte list \<Rightarrow> nat \<Rightarrow> byte list \<Rightarrow> byte list" where
  "put_block buf i bs = file_write buf (i * BLOCK_SIZE) bs"

text \<open>Phases 4 and 5 for the group \<open>[group_start, i)\<close>: 0 or an error, the buffer, unused answers.\<close>

definition read_group ::
  "BlockPair list \<Rightarrow> fbytes \<Rightarrow> nat \<Rightarrow> nat \<Rightarrow> byte list \<Rightarrow> io list \<Rightarrow> int \<times> byte list \<times> io list" where
  "read_group pairs master group_start i buf ios =
     (let min_master = master_block_index (pairs ! group_start);
          blocks_in_group = i - group_start;
          (io, ios) = next_io ios
      in if blocks_in_group = 1
         then let (res, bs) = pread_sys io master BLOCK_SIZE (blk_off min_master);
                  buf = put_block buf (logical_idx (pairs ! group_start)) bs
              in ((if res \<noteq> int BLOCK_SIZE then - errno_val EIO else 0), buf, ios)
         else let read_size = blocks_in_group * BLOCK_SIZE;
                  (res, master_buf) = pread_sys io master read_size (blk_off min_master)
              in if res \<noteq> int read_size then (- errno_val EIO, buf, ios)
                 else (0, fold (\<lambda>j buf. put_block buf (logical_idx (pairs ! j))
                             (take BLOCK_SIZE (drop (unat (master_block_index (pairs ! j) - min_master)
                                                      * BLOCK_SIZE) master_buf)))
                           [group_start..<i] buf, ios))"

function read_groups ::
  "BlockPair list \<Rightarrow> fbytes \<Rightarrow> nat \<Rightarrow> nat \<Rightarrow> byte list \<Rightarrow> io list \<Rightarrow> int \<times> byte list \<times> io list" where
  "read_groups pairs master group_start i buf ios =
     (if \<not> i \<le> length pairs then (0, buf, ios)
      else let is_last = (i = length pairs);
               is_consec = (\<not> is_last \<and> master_block_index (pairs ! i)
                              = master_block_index (pairs ! (i - 1)) + 1)
      in if \<not> is_last \<and> is_consec then read_groups pairs master group_start (Suc i) buf ios
         else let (rc, buf, ios) = read_group pairs master group_start i buf ios
              in if rc < 0 then (rc, buf, ios)
                 else read_groups pairs master i (Suc i) buf ios)"
  by pat_completeness auto
termination
  by (relation "measure (\<lambda>(pairs, master, gs, i, buf, ios). Suc (length pairs) - i)") auto

declare read_groups.simps [simp del]

text \<open>
  \<open>qs\<close> is \<open>qsort\<close>; \<open>malloc_ok\<close> says whether the allocation of \<open>master_buf\<close> succeeds. Result:
  the returned value, the caller's buffer, the unused answers of the kernel.
\<close>

definition read_dedup ::
  "((BlockPair \<Rightarrow> BlockPair \<Rightarrow> int) \<Rightarrow> BlockPair list \<Rightarrow> BlockPair list) \<Rightarrow> bool \<Rightarrow> Index \<Rightarrow> path
   \<Rightarrow> byte list \<Rightarrow> nat \<Rightarrow> int \<Rightarrow> fbytes \<Rightarrow> io list \<Rightarrow> (int \<times> byte list \<times> io list) option" where
  "read_dedup qs malloc_ok ix pa buf sz offset master ios =
     (let num_blocks = sz div BLOCK_SIZE; start_block = start_block_of offset
      in if num_blocks = 0 \<or> sz mod BLOCK_SIZE \<noteq> 0
         then Some (- errno_val EOPNOTSUPP, buf, ios)
         else do {
           pairs \<leftarrow> lookup_pairs ix pa start_block 0 num_blocks;
           let valid_blocks = length pairs;
           if valid_blocks = 0 then Some (0, buf, ios)
           else let pairs = sort_pairs qs pairs in
             if \<not> malloc_ok then Some (- errno_val ENOMEM, buf, ios)
             else let (rc, buf, ios) = read_groups pairs master 0 1 buf ios in
               if rc < 0 then Some (rc, buf, ios)
               else Some (int_of_size (valid_blocks * BLOCK_SIZE), buf, ios)
         })"

end
