(* ===== verification/Read_Correct.thy ===== *)
theory Read_Correct
  imports Dedup_Read
begin

text \<open>
  \<open>read_dedup\<close> refines the abstract read: with the pairs in any order a permutation gives, each
  group is copied to the places its pairs name, so the buffer ends with the mapped blocks in
  logical order.
\<close>

section \<open>Phase 1\<close>

lemma lookup_pairs_spec:
  assumes wf: "wf_index E P ix"
  shows "\<exists>ps. lookup_pairs ix pa start i n = Some ps
    \<and> map (\<lambda>q. chunk f (unat (master_block_index q))) ps
        = spec_read pa (start + of_nat i) n (block_view f ix)
    \<and> map logical_idx ps = [i..<i + length ps]
    \<and> (\<forall>q \<in> set ps. master_block_index q \<in> live_slots ix)"
proof (induction n arbitrary: i)
  case 0
  then show ?case by simp
next
  case (Suc n)
  show ?case
  proof (cases "file_to_master ix (bkey pa (start + of_nat i))")
    case None
    then show ?thesis by (simp add: lookup_by_file_block_def block_view_def)
  next
    case (Some p)
    obtain mi where mi: "heap ix p = Some mi" using wf_index_heap(2)[OF wf Some] by blast
    have here: "block_view f ix (bkey pa (start + of_nat i)) = Some (chunk f (unat (masterBlockIndex mi)))"
      using Some mi by (simp add: block_view_def slot_of_def)
    have live: "masterBlockIndex mi \<in> live_slots ix"
      using wf_index_heap(3)[OF wf Some] mi by (force simp: live_slots_def slot_of_def)
    obtain ps where "lookup_pairs ix pa start (Suc i) n = Some ps"
      "map (\<lambda>q. chunk f (unat (master_block_index q))) ps
        = spec_read pa (start + of_nat (Suc i)) n (block_view f ix)"
      and li: "map logical_idx ps = [Suc i..<Suc i + length ps]"
      and "\<forall>q \<in> set ps. master_block_index q \<in> live_slots ix"
      using Suc.IH by blast
    moreover have "i # map logical_idx ps = [i..<i + Suc (length ps)]"
      unfolding li by (simp add: upt_conv_Cons del: upt_Suc)
    ultimately show ?thesis
      using Some mi live here
      by (simp add: lookup_by_file_block_def add.assoc add.commute[of 1] del: upt_Suc)
  qed
qed

section \<open>Copying blocks into the buffer\<close>

lemma length_put_block:
  assumes "Suc i * BLOCK_SIZE \<le> length buf" "length bs = BLOCK_SIZE"
  shows "length (put_block buf i bs) = length buf"
  using assms by (simp add: put_block_def length_file_write)

lemma chunk_put_block:
  assumes "Suc i * BLOCK_SIZE \<le> length buf" "length bs = BLOCK_SIZE" "Suc k * BLOCK_SIZE \<le> length buf"
  shows "chunk (put_block buf i bs) k = (if k = i then bs else chunk buf k)"
proof (cases "k = i")
  case True
  have "chunk (file_write buf (i * BLOCK_SIZE) bs) (i + 0) = chunk bs 0"
    by (rule chunk_file_write_same[where r = 1]) (use assms(2) in simp_all)
  moreover have "chunk bs 0 = bs" using assms(2) by (simp add: chunk_def)
  ultimately show ?thesis using True by (simp add: put_block_def)
next
  case False
  then have "Suc k \<le> i \<or> Suc i \<le> k" by linarith
  then have "Suc k * BLOCK_SIZE \<le> i * BLOCK_SIZE \<or> Suc i * BLOCK_SIZE \<le> k * BLOCK_SIZE"
    by (metis mult_le_mono1)
  then have "Suc k * BLOCK_SIZE \<le> i * BLOCK_SIZE \<or> i * BLOCK_SIZE + length bs \<le> k * BLOCK_SIZE"
    using assms(2) by (simp add: add.commute)
  with False show ?thesis
    unfolding put_block_def using chunk_file_write_other[OF assms(3)] by simp
qed

text \<open>The blocks copied so far: the first \<open>m\<close> pairs have been served, the rest is untouched.\<close>

definition copied :: "BlockPair list \<Rightarrow> fbytes \<Rightarrow> byte list \<Rightarrow> nat \<Rightarrow> byte list \<Rightarrow> bool" where
  "copied pairs f buf0 m buf \<longleftrightarrow>
     length buf = length buf0
     \<and> (\<forall>j < m. chunk buf (logical_idx (pairs ! j)) = chunk f (unat (master_block_index (pairs ! j))))
     \<and> (\<forall>k. Suc k * BLOCK_SIZE \<le> length buf0 \<longrightarrow> (\<forall>j < m. logical_idx (pairs ! j) \<noteq> k)
          \<longrightarrow> chunk buf k = chunk buf0 k)"

text \<open>The pairs a read works on: distinct places inside the buffer, blocks inside the file.\<close>

definition pairs_ok :: "BlockPair list \<Rightarrow> fbytes \<Rightarrow> byte list \<Rightarrow> bool" where
  "pairs_ok pairs f buf0 \<longleftrightarrow>
     distinct (map logical_idx pairs)
     \<and> (\<forall>q \<in> set pairs. Suc (logical_idx q) * BLOCK_SIZE \<le> length buf0
          \<and> unat (master_block_index q) < MAX_SLOTS
          \<and> Suc (unat (master_block_index q)) * BLOCK_SIZE \<le> length f)"

lemma copied_Suc:
  assumes ok: "pairs_ok pairs f buf0" and c: "copied pairs f buf0 m buf" and m: "m < length pairs"
    and bs: "bs = chunk f (unat (master_block_index (pairs ! m)))"
  shows "copied pairs f buf0 (Suc m) (put_block buf (logical_idx (pairs ! m)) bs)"
proof -
  let ?l = "\<lambda>j. logical_idx (pairs ! j)"
  have q: "Suc (?l j) * BLOCK_SIZE \<le> length buf0"
    "Suc (unat (master_block_index (pairs ! j))) * BLOCK_SIZE \<le> length f" if "j < length pairs" for j
    using ok that unfolding pairs_ok_def by simp_all
  have len: "length buf = length buf0" using c by (simp add: copied_def)
  have lb: "length bs = BLOCK_SIZE" unfolding bs using q(2)[OF m] by (rule length_chunk)
  have qm: "Suc (?l m) * BLOCK_SIZE \<le> length buf" using q(1)[OF m] len by simp
  note put = chunk_put_block[OF qm lb]
  have ne: "?l j \<noteq> ?l m" if "j < m" for j
    using ok that m unfolding pairs_ok_def by (auto simp: distinct_conv_nth)
  show ?thesis
    unfolding copied_def
  proof (intro conjI allI impI)
    show "length (put_block buf (?l m) bs) = length buf0"
      using length_put_block[OF qm lb] len by simp
    fix j assume j: "j < Suc m"
    show "chunk (put_block buf (?l m) bs) (?l j) = chunk f (unat (master_block_index (pairs ! j)))"
    proof (cases "j = m")
      case True
      then show ?thesis using put[OF qm] bs by simp
    next
      case False
      then have jm: "j < m" using j by simp
      have "Suc (?l j) * BLOCK_SIZE \<le> length buf" using q(1)[of j] jm m len by simp
      from put[OF this] ne[OF jm] c jm show ?thesis by (simp add: copied_def)
    qed
  next
    fix k assume k: "Suc k * BLOCK_SIZE \<le> length buf0" "\<forall>j < Suc m. ?l j \<noteq> k"
    then have "k \<noteq> ?l m" "\<forall>j < m. ?l j \<noteq> k" by auto
    moreover have "Suc k * BLOCK_SIZE \<le> length buf" using k(1) len by simp
    ultimately show "chunk (put_block buf (?l m) bs) k = chunk buf0 k"
      using put[of k] c k(1) by (simp add: copied_def)
  qed
qed

section \<open>One group\<close>

definition consecutive :: "BlockPair list \<Rightarrow> nat \<Rightarrow> nat \<Rightarrow> bool" where
  "consecutive pairs gs i \<longleftrightarrow>
     (\<forall>j. gs < j \<and> j < i \<longrightarrow> master_block_index (pairs ! j) = master_block_index (pairs ! (j - 1)) + 1)"

lemma consecutive_slots:
  assumes "consecutive pairs gs i" "pairs_ok pairs f buf0" "i \<le> length pairs" "gs + d < i"
  shows "unat (master_block_index (pairs ! (gs + d))) = unat (master_block_index (pairs ! gs)) + d"
  using assms(4)
proof (induction d)
  case 0
  then show ?case by simp
next
  case (Suc d)
  let ?m = "master_block_index (pairs ! (gs + d))"
  have "master_block_index (pairs ! (gs + Suc d)) = ?m + 1"
    using assms(1) Suc.prems unfolding consecutive_def by (metis add_Suc_right diff_Suc_1 less_add_Suc1)
  moreover have "unat ?m < MAX_SLOTS"
    using assms(2,3) Suc.prems unfolding pairs_ok_def by simp
  then have "unat (?m + 1) = Suc (unat ?m)" by (simp add: MAX_SLOTS_def unat_word_ariths)
  ultimately show ?case using Suc by simp
qed

lemma copy_loop:
  assumes ok: "pairs_ok pairs f buf0" and c: "copied pairs f buf0 gs buf" and gi: "gs \<le> i" "i \<le> length pairs"
    and src: "\<And>j. gs \<le> j \<Longrightarrow> j < i \<Longrightarrow> src j = chunk f (unat (master_block_index (pairs ! j)))"
  shows "copied pairs f buf0 i (fold (\<lambda>j. \<lambda>buf. put_block buf (logical_idx (pairs ! j)) (src j)) [gs..<i] buf)"
  using gi(1) gi(2) src
proof (induction i rule: dec_induct)
  case base
  then show ?case using c by simp
next
  case (step i)
  have "copied pairs f buf0 i (fold (\<lambda>j. \<lambda>buf. put_block buf (logical_idx (pairs ! j)) (src j)) [gs..<i] buf)"
    using step by simp
  from copied_Suc[OF ok this _ step.prems(2)] step show ?case by simp
qed

lemma read_group_correct:
  assumes ok: "pairs_ok pairs f buf0" and c: "copied pairs f buf0 gs buf"
    and gi: "gs < i" "i \<le> length pairs" and cons: "consecutive pairs gs i"
    and rg: "read_group pairs f gs i buf ios = (rc, buf', ios')"
  shows "rc \<le> 0" and "rc = 0 \<Longrightarrow> copied pairs f buf0 i buf'"
    and "\<forall>io \<in> set ios. io = IoOk \<Longrightarrow> rc = 0 \<and> (\<forall>io \<in> set ios'. io = IoOk)"
proof -
  let ?min = "master_block_index (pairs ! gs)" and ?n = "i - gs"
  obtain io ios1 where io: "next_io ios = (io, ios1)" by fastforce
  have gsl: "gs < length pairs" using gi by simp
  have q: "Suc (unat (master_block_index (pairs ! j))) * BLOCK_SIZE \<le> length f"
    "unat (master_block_index (pairs ! j)) < MAX_SLOTS" if "j < length pairs" for j
    using ok that unfolding pairs_ok_def by simp_all
  have off: "blk_off ?min = int (unat ?min * BLOCK_SIZE)" by (rule blk_off_eq) (rule q(2)[OF gsl])
  have slot: "unat (master_block_index (pairs ! j)) = unat ?min + (j - gs)" if "gs \<le> j" "j < i" for j
    using consecutive_slots[OF cons ok gi(2), of "j - gs"] that by simp
  have cover: "unat ?min * BLOCK_SIZE + ?n * BLOCK_SIZE \<le> length f"
  proof -
    have "i - 1 < length pairs" "gs \<le> i - 1" "i - 1 < i" using gi by auto
    then have "Suc (unat ?min + (i - 1 - gs)) * BLOCK_SIZE \<le> length f"
      using q(1)[of "i - 1"] slot[of "i - 1"] by simp
    moreover have "Suc (unat ?min + (i - 1 - gs)) = unat ?min + ?n" using gi by linarith
    ultimately show ?thesis by (metis add_mult_distrib)
  qed
  obtain res bs where pr: "pread_sys io f (?n * BLOCK_SIZE) (int (unat ?min * BLOCK_SIZE)) = (res, bs)"
    by fastforce
  note pr' = pr[folded off]
  have full: "bs = take (?n * BLOCK_SIZE) (drop (unat ?min * BLOCK_SIZE) f)" if "res = int (?n * BLOCK_SIZE)"
    using pread_full[OF pr that] gi(1) by auto
  have ok_res: "io = IoOk \<Longrightarrow> res = int (?n * BLOCK_SIZE)"
    using pr pread_ok[OF cover] by simp
  note healthy = next_io_healthy[OF _ io]
  have src: "take BLOCK_SIZE (drop (unat (master_block_index (pairs ! j) - ?min) * BLOCK_SIZE) bs)
      = chunk f (unat (master_block_index (pairs ! j)))" if "res = int (?n * BLOCK_SIZE)" "gs \<le> j" "j < i" for j
  proof -
    have "?min \<le> master_block_index (pairs ! j)" using slot[OF that(2,3)] by (simp add: word_le_nat_alt)
    then have "unat (master_block_index (pairs ! j) - ?min) = j - gs"
      using slot[OF that(2,3)] by (simp add: unat_sub)
    moreover have "chunk bs (j - gs) = chunk f (unat ?min + (j - gs))"
      unfolding full[OF that(1)] by (rule chunk_take_drop) (use that in simp)
    ultimately show ?thesis using slot[OF that(2,3)] by (simp add: chunk_def)
  qed
  have "rc \<le> 0 \<and> (rc = 0 \<longrightarrow> res = int (?n * BLOCK_SIZE) \<and> copied pairs f buf0 i buf')
      \<and> (res = int (?n * BLOCK_SIZE) \<longrightarrow> rc = 0) \<and> ios' = ios1"
  proof (cases "?n = 1")
    case True
    have i: "i = Suc gs" using True gi(1) by simp
    have "buf' = put_block buf (logical_idx (pairs ! gs)) bs" "ios' = ios1"
      and rc: "rc = (if res \<noteq> int BLOCK_SIZE then - errno_val EIO else 0)"
      using rg io pr' True unfolding read_group_def by (simp_all add: Let_def)
    moreover have "copied pairs f buf0 (Suc gs) (put_block buf (logical_idx (pairs ! gs)) bs)" if "res = int BLOCK_SIZE"
    proof (rule copied_Suc[OF ok c gsl])
      show "bs = chunk f (unat ?min)" using full True that by (simp add: chunk_def)
    qed
    ultimately show ?thesis using True i by auto
  next
    case False
    show ?thesis
    proof (cases "res = int (?n * BLOCK_SIZE)")
      case True
      have "rc = 0" "ios' = ios1"
        "buf' = fold (\<lambda>j. \<lambda>buf. put_block buf (logical_idx (pairs ! j))
           (take BLOCK_SIZE (drop (unat (master_block_index (pairs ! j) - ?min) * BLOCK_SIZE) bs))) [gs..<i] buf"
        using rg io pr' True False unfolding read_group_def by (simp_all add: Let_def)
      with copy_loop[OF ok c less_imp_le[OF gi(1)] gi(2) src[OF True]] True show ?thesis by simp
    next
      case res: False
      then have "rc = - errno_val EIO" "ios' = ios1"
        using rg io pr' False unfolding read_group_def by (simp_all add: Let_def)
      with res show ?thesis by simp
    qed
  qed
  then show "rc \<le> 0" "rc = 0 \<Longrightarrow> copied pairs f buf0 i buf'"
    "\<forall>io \<in> set ios. io = IoOk \<Longrightarrow> rc = 0 \<and> (\<forall>io \<in> set ios'. io = IoOk)"
    using healthy ok_res by auto
qed

section \<open>All groups\<close>

lemma read_groups_correct:
  assumes "pairs_ok pairs f buf0" "copied pairs f buf0 gs buf" "gs < i"
    and "i \<le> length pairs \<or> gs = length pairs" "consecutive pairs gs i"
    and "read_groups pairs f gs i buf ios = (rc, buf', ios')"
  shows "rc \<le> 0 \<and> (rc = 0 \<longrightarrow> copied pairs f buf0 (length pairs) buf')
    \<and> ((\<forall>io \<in> set ios. io = IoOk) \<longrightarrow> rc = 0)"
  using assms
proof (induction pairs f gs i buf ios rule: read_groups.induct)
  case (1 pairs f gs i buf ios)
  show ?case
  proof (cases "i \<le> length pairs")
    case False
    then have "read_groups pairs f gs i buf ios = (0, buf, ios)"
      by (simp add: read_groups.simps[of pairs f gs i buf ios])
    then have "rc = 0" "buf' = buf" "gs = length pairs"
      using "1.prems"(4,6) False by simp_all
    with "1.prems"(2) show ?thesis by simp
  next
    case True
    show ?thesis
    proof (cases "i \<noteq> length pairs \<and> master_block_index (pairs ! i) = master_block_index (pairs ! (i - 1)) + 1")
      case more: True
      have "read_groups pairs f gs (Suc i) buf ios = (rc, buf', ios')"
        using "1.prems"(6) True more by (simp add: read_groups.simps[of pairs f gs i buf ios])
      moreover have "consecutive pairs gs (Suc i)"
        using "1.prems"(5) more by (auto simp: consecutive_def less_Suc_eq)
      ultimately show ?thesis
        using "1.IH"(1)[OF _ refl refl] True more "1.prems" by simp
    next
      case False
      obtain rc1 buf1 ios1 where rg: "read_group pairs f gs i buf ios = (rc1, buf1, ios1)"
        by (metis prod_cases3)
      note g = read_group_correct[OF "1.prems"(1,2,3) True "1.prems"(5) rg]
      have step: "read_groups pairs f gs i buf ios =
          (if rc1 < 0 then (rc1, buf1, ios1) else read_groups pairs f i (Suc i) buf1 ios1)"
        using True False rg by (auto simp: read_groups.simps[of pairs f gs i buf ios])
      show ?thesis
      proof (cases "rc1 < 0")
        case True
        then show ?thesis using step g "1.prems"(6) by auto
      next
        case nf: False
        then have rc1: "rc1 = 0" using g(1) by simp
        have "consecutive pairs i (Suc i)" by (auto simp: consecutive_def)
        moreover have "Suc i \<le> length pairs \<or> i = length pairs" using True by linarith
        moreover have "read_groups pairs f i (Suc i) buf1 ios1 = (rc, buf', ios')"
          using step nf "1.prems"(6) by simp
        ultimately have "rc \<le> 0 \<and> (rc = 0 \<longrightarrow> copied pairs f buf0 (length pairs) buf')
            \<and> ((\<forall>io \<in> set ios1. io = IoOk) \<longrightarrow> rc = 0)"
          using "1.IH"(2)[OF _ refl refl _ rg[symmetric] refl refl] nf False True g(2)[OF rc1] "1.prems"(1)
          by auto
        then show ?thesis using g(3) by blast
      qed
    qed
  qed
qed

lemma copied_0: "copied pairs f buf 0 buf"
  by (simp add: copied_def)

lemma consecutive_one: "consecutive pairs gs (Suc gs)"
  by (auto simp: consecutive_def)

section \<open>The routine refines the abstract read\<close>

lemma read_dedup_correct:
  assumes wf: "wf_all sha f nb E P H ix" and qs: "qsort_contract qs"
    and nb: "unat nb \<le> MAX_SLOTS"
    and sz: "length buf = sz" "0 < sz" "BLOCK_SIZE dvd sz" "sz < 2 ^ 31"
    and bs: "bs = spec_read pa (start_block_of offset) (sz div BLOCK_SIZE) (block_view f ix)"
  shows "\<exists>rc buf' ios'. read_dedup qs malloc_ok ix pa buf sz offset f ios = Some (rc, buf', ios')
    \<and> (rc \<ge> 0 \<longrightarrow> rc = int (length bs * BLOCK_SIZE) \<and> length buf' = sz
         \<and> take (length bs * BLOCK_SIZE) buf' = concat bs
         \<and> drop (length bs * BLOCK_SIZE) buf' = drop (length bs * BLOCK_SIZE) buf)
    \<and> (malloc_ok \<and> (\<forall>io \<in> set ios. io = IoOk) \<longrightarrow> rc \<ge> 0)"
proof -
  let ?n = "sz div BLOCK_SIZE" and ?start = "start_block_of offset"
  have n: "?n \<noteq> 0" "sz mod BLOCK_SIZE = 0" "?n * BLOCK_SIZE = sz"
    using sz by (auto simp: dvd_div_eq_0_iff)
  have wi: "wf_index E P ix" and ws: "wf_slots H nb ix" and wc: "wf_content sha f ix"
    using wf by (simp_all add: wf_all_def)
  obtain ps where lp: "lookup_pairs ix pa ?start 0 ?n = Some ps"
    and vals: "map (\<lambda>q. chunk f (unat (master_block_index q))) ps = bs"
    and li: "map logical_idx ps = [0..<length ps]"
    and live: "\<forall>q \<in> set ps. master_block_index q \<in> live_slots ix"
    using lookup_pairs_spec[OF wi, of pa ?start 0 ?n f] bs by auto
  have len: "length bs = length ps" using vals by auto
  have short: "length (spec_read pa s m v) \<le> m" for s m v
    by (induction pa s m v rule: spec_read.induct) (auto split: option.splits)
  then have le: "length ps \<le> ?n" using len bs by metis
  show ?thesis
  proof (cases "ps = []")
    case True
    then show ?thesis
      using n(1,2) lp len sz(1) by (simp add: read_dedup_def Let_def)
  next
    case False
    let ?ps = "sort_pairs qs ps"
    note srt = pair_sort.srt_mset[OF pair_sort_sort_pairs[OF qs], of ps]
    have set: "set ?ps = set ps" using srt by (metis set_mset_mset)
    have lens: "length ?ps = length ps" using srt by (metis size_mset)
    have nthps: "logical_idx (ps ! l) = l" "chunk f (unat (master_block_index (ps ! l))) = bs ! l"
      if "l < length ps" for l
      using arg_cong[OF li, of "\<lambda>xs. xs ! l"] arg_cong[OF vals, of "\<lambda>xs. xs ! l"] that by simp_all
    have ok: "pairs_ok ?ps f buf"
      unfolding pairs_ok_def
    proof (intro conjI ballI)
      have "mset (map logical_idx ?ps) = mset (map logical_idx ps)" using srt by simp
      then show "distinct (map logical_idx ?ps)" unfolding li by (metis distinct_upt mset_eq_imp_distinct_iff)
      fix q assume "q \<in> set ?ps"
      then obtain l where l: "l < length ps" "q = ps ! l" using set by (metis in_set_conv_nth)
      have "Suc l * BLOCK_SIZE \<le> ?n * BLOCK_SIZE" using l(1) le by (intro Suc_mult_le_BLOCK) simp
      then show "Suc (logical_idx q) * BLOCK_SIZE \<le> length buf" using l nthps(1) n(3) sz(1) by simp
      have q: "master_block_index q \<in> live_slots ix" using live l by simp
      then have "master_block_index q < nb" using ws unfolding wf_slots_def by blast
      then show "unat (master_block_index q) < MAX_SLOTS" using nb by (simp add: word_less_nat_alt)
      obtain h p where "hash_to_master ix h = Some p" "master_block_index q = slot_of ix p"
        using q by (auto simp: live_slots_def ran_def)
      then show "Suc (unat (master_block_index q)) * BLOCK_SIZE \<le> length f"
        using wc unfolding wf_content_def by simp
    qed
    obtain rc buf' ios' where rg: "read_groups ?ps f 0 1 buf ios = (rc, buf', ios')" by (metis prod_cases3)
    have "1 \<le> length ?ps" using False lens by (cases ps) simp_all
    then have r: "rc \<le> 0" "rc = 0 \<longrightarrow> copied ?ps f buf (length ?ps) buf'" "(\<forall>io \<in> set ios. io = IoOk) \<longrightarrow> rc = 0"
      using read_groups_correct[OF ok _ _ _ _ rg] by (simp_all add: copied_0 consecutive_one)
    have run: "read_dedup qs malloc_ok ix pa buf sz offset f ios =
        (if \<not> malloc_ok then Some (- errno_val ENOMEM, buf, ios)
         else if rc < 0 then Some (rc, buf', ios')
         else Some (int_of_size (length ps * BLOCK_SIZE), buf', ios'))"
      using n(1,2) lp False rg by (simp add: read_dedup_def Let_def)
    have fits: "length ps * BLOCK_SIZE \<le> sz" using le n(3) by (metis mult_le_mono1)
    then have ret: "int_of_size (length ps * BLOCK_SIZE) = int (length bs * BLOCK_SIZE)"
      using sz(4) len by (simp add: int_of_size_small)
    have out: "length buf' = sz \<and> take (length bs * BLOCK_SIZE) buf' = concat bs
        \<and> drop (length bs * BLOCK_SIZE) buf' = drop (length bs * BLOCK_SIZE) buf" if rc0: "rc = 0"
    proof -
      have cp: "copied ?ps f buf (length ps) buf'" using r(2) rc0 lens by simp
      have lb: "length buf' = sz" using cp sz(1) by (simp add: copied_def)
      have front: "chunk buf' l = bs ! l" if l: "l < length ps" for l
      proof -
        have "ps ! l \<in> set ?ps" using l set by simp
        then obtain j where j: "j < length ps" "?ps ! j = ps ! l" using lens by (metis in_set_conv_nth)
        have "chunk buf' (logical_idx (?ps ! j)) = chunk f (unat (master_block_index (?ps ! j)))"
          using cp j(1) by (simp add: copied_def)
        then show ?thesis using j(2) nthps[OF l] by simp
      qed
      have rest: "chunk buf' k = chunk buf k" if k: "length ps \<le> k" "k < ?n" for k
      proof -
        have "Suc k * BLOCK_SIZE \<le> length buf" using Suc_mult_le_BLOCK[OF k(2)] n(3) sz(1) by simp
        moreover have "logical_idx (?ps ! j) \<noteq> k" if "j < length ps" for j
        proof -
          have "?ps ! j \<in> set ps" using that lens set by (metis nth_mem)
          then obtain l where "l < length ps" "?ps ! j = ps ! l" by (metis in_set_conv_nth)
          then show ?thesis using nthps(1) k(1) by simp
        qed
        ultimately show ?thesis using cp by (simp add: copied_def)
      qed
      have "map (chunk buf') [0..<length ps] = bs"
        using front len by (intro nth_equalityI) simp_all
      then have "concat bs = take (length ps * BLOCK_SIZE) buf'"
        using concat_chunks[of "length ps" buf'] fits lb by simp
      moreover have "drop (length ps * BLOCK_SIZE) buf' = drop (length ps * BLOCK_SIZE) buf"
        by (rule drop_chunks_eqI[of _ ?n]) (use lb sz(1) n(3) rest in auto)
      ultimately show ?thesis using lb len by simp
    qed
    show ?thesis
    proof (cases "malloc_ok \<and> rc = 0")
      case True
      with run ret out r show ?thesis by simp
    next
      case no: False
      with r have "\<not> malloc_ok \<or> rc < 0" by linarith
      then show ?thesis using run r(3) by (cases malloc_ok) simp_all
    qed
  qed
qed

end
