(* ===== verification/Dedup_Remove.thy ===== *)
theory Dedup_Remove
  imports Index_Invariant
begin

text \<open>
  \<open>src/dedup.c\<close>: \<open>remove_block_dedup\<close> and \<open>remove_blocks_dedup_batch\<close>. The batch version
  collects the slots in a local list and joins it to the free list once; it is shown equal
  to removing the blocks one by one. Both keep the invariant and delete exactly the mappings
  they are asked to delete.
\<close>

section \<open>The two routines\<close>

definition remove_block_dedup :: "Index \<Rightarrow> path \<Rightarrow> u64 \<Rightarrow> Index option" where
  "remove_block_dedup ix pa b =
     (case lookup_by_file_block ix pa b of
        None \<Rightarrow> Some ix
      | Some p \<Rightarrow> do {
          let ix = remove_file_block ix pa b;
          (slots, ix) \<leftarrow> release_ref p ix;
          Some (ix\<lparr>free_block_list := slots @ free_block_list ix\<rparr>)
        })"

text \<open>One round of the batch loop; the second component is \<open>to_release\<close>.\<close>

definition remove_batch_step :: "path \<Rightarrow> u64 \<Rightarrow> Index \<times> u64 list \<Rightarrow> (Index \<times> u64 list) option" where
  "remove_batch_step pa i = (\<lambda>(ix, to_release).
     (case lookup_by_file_block ix pa i of
        None \<Rightarrow> Some (ix, to_release)
      | Some p \<Rightarrow> do {
          let ix = remove_file_block ix pa i;
          (slots, ix) \<leftarrow> release_ref p ix;
          Some (ix, slots @ to_release)
        }))"

text \<open>The loop counter runs through \<open>[start_block, end_block)\<close>.\<close>

definition block_range :: "u64 \<Rightarrow> u64 \<Rightarrow> u64 list" where
  "block_range s e = map of_nat [unat s..<unat e]"

definition remove_blocks_dedup_batch :: "Index \<Rightarrow> path \<Rightarrow> u64 \<Rightarrow> u64 \<Rightarrow> Index option" where
  "remove_blocks_dedup_batch ix pa start_block end_block =
     (if start_block \<ge> end_block then Some ix
      else do {
        (ix, to_release) \<leftarrow> ofold (remove_batch_step pa) (block_range start_block end_block) (ix, []);
        Some (ix\<lparr>free_block_list := to_release @ free_block_list ix\<rparr>)
      })"

lemma set_block_range: "b \<in> set (block_range s e) \<longleftrightarrow> s \<le> b \<and> b < e"
proof
  assume "b \<in> set (block_range s e)"
  then obtain n where n: "unat s \<le> n" "n < unat e" "b = of_nat n"
    by (auto simp: block_range_def)
  have "n < 2 ^ 64" using n(2) unat_less64[of e] by simp
  then have "unat b = n" using n(3) by (simp add: unat_of_nat take_bit_eq_mod)
  with n show "s \<le> b \<and> b < e" by (simp add: word_le_nat_alt word_less_nat_alt)
next
  assume "s \<le> b \<and> b < e"
  then have "unat s \<le> unat b" "unat b < unat e" "b = of_nat (unat b)"
    by (simp_all add: word_le_nat_alt word_less_nat_alt)
  then show "b \<in> set (block_range s e)"
    unfolding block_range_def by (metis atLeastLessThan_iff image_eqI set_map set_upt)
qed

lemma block_range_empty: "e \<le> s \<Longrightarrow> block_range s e = []"
  by (simp add: block_range_def word_le_nat_alt)

section \<open>The batch is the loop of single removals\<close>

lemma release_ref_free_list:
  "release_ref p (ix\<lparr>free_block_list := fl\<rparr>)
   = map_option (\<lambda>(ss, ix). (ss, ix\<lparr>free_block_list := fl\<rparr>)) (release_ref p ix)"
  by (auto simp: release_ref_alt split: option.splits)

lemma batch_step_single:
  "map_option (\<lambda>(ix, tr). ix\<lparr>free_block_list := tr @ free_block_list ix\<rparr>) (remove_batch_step pa i (ix, tr))
   = remove_block_dedup (ix\<lparr>free_block_list := tr @ free_block_list ix\<rparr>) pa i"
proof (cases "lookup_by_file_block ix pa i")
  case None
  then show ?thesis
    by (simp add: remove_batch_step_def remove_block_dedup_def lookup_by_file_block_def)
next
  case (Some p)
  let ?ix = "remove_file_block ix pa i"
  have "remove_file_block (ix\<lparr>free_block_list := tr @ free_block_list ix\<rparr>) pa i
      = ?ix\<lparr>free_block_list := tr @ free_block_list ?ix\<rparr>"
    by (simp add: remove_file_block_def)
  with Some show ?thesis
    using release_ref_frame(2)[of p ?ix]
    by (cases "release_ref p ?ix")
      (auto simp: remove_batch_step_def remove_block_dedup_def lookup_by_file_block_def
        release_ref_free_list Let_def)
qed

lemma batch_loop_single:
  "map_option (\<lambda>(ix, tr). ix\<lparr>free_block_list := tr @ free_block_list ix\<rparr>)
     (ofold (remove_batch_step pa) bs (ix, tr))
   = ofold (\<lambda>i ix. remove_block_dedup ix pa i) bs (ix\<lparr>free_block_list := tr @ free_block_list ix\<rparr>)"
proof (induction bs arbitrary: ix tr)
  case Nil
  then show ?case by simp
next
  case (Cons b bs)
  show ?case
  proof (cases "remove_batch_step pa b (ix, tr)")
    case None
    with batch_step_single[of pa b ix tr] show ?thesis by (auto split: option.splits)
  next
    case (Some r)
    obtain ix1 tr1 where r: "r = (ix1, tr1)" by fastforce
    then have "remove_block_dedup (ix\<lparr>free_block_list := tr @ free_block_list ix\<rparr>) pa b
        = Some (ix1\<lparr>free_block_list := tr1 @ free_block_list ix1\<rparr>)"
      using batch_step_single[of pa b ix tr] Some by simp
    with Some r Cons.IH[of ix1 tr1] show ?thesis by simp
  qed
qed

lemma batch_is_loop:
  "remove_blocks_dedup_batch ix pa s e
   = ofold (\<lambda>i ix. remove_block_dedup ix pa i) (block_range s e) ix"
proof (cases "s \<ge> e")
  case True
  then show ?thesis by (simp add: remove_blocks_dedup_batch_def block_range_empty)
next
  case False
  have "ofold (\<lambda>i ix. remove_block_dedup ix pa i) (block_range s e) ix
      = map_option (\<lambda>(ix, tr). ix\<lparr>free_block_list := tr @ free_block_list ix\<rparr>)
          (ofold (remove_batch_step pa) (block_range s e) (ix, []))"
    by (simp add: batch_loop_single)
  with False show ?thesis
    by (cases "ofold (remove_batch_step pa) (block_range s e) (ix, [])")
      (auto simp: remove_blocks_dedup_batch_def)
qed

section \<open>Effect on the invariant and on the file view\<close>

lemma remove_block_dedup_correct:
  assumes wf: "wf_all sha f next {#} {} {} ix"
  obtains ix' where "remove_block_dedup ix pa b = Some ix'" "wf_all sha f next {#} {} {} ix'"
    "block_view f ix' = (block_view f ix)(bkey pa b := None)"
    "file_to_sizes ix' = file_to_sizes ix"
proof (cases "lookup_by_file_block ix pa b")
  case None
  then have "(block_view f ix)(bkey pa b := None) = block_view f ix"
    by (auto simp: lookup_by_file_block_def block_view_def fun_eq_iff)
  with None wf that[of ix] show ?thesis by (simp add: remove_block_dedup_def)
next
  case (Some q)
  then have q: "file_to_master ix (bkey pa b) = Some q"
    by (simp add: lookup_by_file_block_def)
  let ?ix = "remove_file_block ix pa b"
  note rem = wf_all_remove_file[OF wf q]
  obtain ss ix' where rel: "release_ref q ?ix = Some (ss, ix')"
    and wf': "wf_all sha f next {#} {} ({} \<union> set ss) ix'" and d: "distinct ss"
    and z: "file_to_sizes ix' = file_to_sizes ?ix" and v: "block_view f ix' = block_view f ?ix"
    by (rule wf_all_release[OF rem(1)]) auto
  have "wf_all sha f next {#} {} ({} \<union> set ss - set ss) (ix'\<lparr>free_block_list := ss @ free_block_list ix'\<rparr>)"
    by (rule wf_all_prepend[OF wf' _ d]) simp
  with Some rel rem(2) z v show ?thesis
    by (intro that[of "ix'\<lparr>free_block_list := ss @ free_block_list ix'\<rparr>"])
      (auto simp: remove_block_dedup_def remove_file_block_def)
qed

lemma remove_loop_correct:
  assumes "wf_all sha f next {#} {} {} ix"
  shows "\<exists>ix'. ofold (\<lambda>i ix. remove_block_dedup ix pa i) bs ix = Some ix'
    \<and> wf_all sha f next {#} {} {} ix' \<and> file_to_sizes ix' = file_to_sizes ix
    \<and> block_view f ix' = (\<lambda>k. if bi_path k = pa \<and> bi_offset k \<in> set bs then None else block_view f ix k)"
  using assms
proof (induction bs arbitrary: ix)
  case Nil
  then show ?case by simp
next
  case (Cons b bs)
  obtain ix1 where ix1: "remove_block_dedup ix pa b = Some ix1" "wf_all sha f next {#} {} {} ix1"
    "block_view f ix1 = (block_view f ix)(bkey pa b := None)" "file_to_sizes ix1 = file_to_sizes ix"
    by (rule remove_block_dedup_correct[OF Cons.prems, of pa b])
  obtain ix' where ix': "ofold (\<lambda>i ix. remove_block_dedup ix pa i) bs ix1 = Some ix'"
    "wf_all sha f next {#} {} {} ix'" "file_to_sizes ix' = file_to_sizes ix1"
    "block_view f ix' = (\<lambda>k. if bi_path k = pa \<and> bi_offset k \<in> set bs then None else block_view f ix1 k)"
    using Cons.IH[OF ix1(2)] by blast
  have "block_view f ix'
      = (\<lambda>k. if bi_path k = pa \<and> bi_offset k \<in> set (b # bs) then None else block_view f ix k)"
    unfolding ix'(4) ix1(3) by (auto simp: fun_eq_iff BlockIndice_eq_iff)
  with ix' ix1 show ?case by simp
qed

lemma remove_batch_correct:
  assumes "wf_all sha f next {#} {} {} ix"
  shows "\<exists>ix'. remove_blocks_dedup_batch ix pa s e = Some ix'
    \<and> wf_all sha f next {#} {} {} ix' \<and> file_to_sizes ix' = file_to_sizes ix
    \<and> block_view f ix' =
        (\<lambda>k. if bi_path k = pa \<and> s \<le> bi_offset k \<and> bi_offset k < e then None else block_view f ix k)"
  using remove_loop_correct[OF assms, of pa "block_range s e"]
  by (simp add: batch_is_loop[symmetric] set_block_range)

section \<open>Property\<close>

text \<open>
  C23: \<open>remove_blocks_dedup_batch\<close> leaves the index, the free list with its order included,
  exactly as the loop of \<open>remove_block_dedup\<close> calls it replaces; undefined behaviour
  included.
\<close>

theorem remove_batch_equiv_loop:
  "remove_blocks_dedup_batch ix pa s e
   = ofold (\<lambda>i ix. remove_block_dedup ix pa i) (block_range s e) ix"
  by (rule batch_is_loop)

end
