(* ===== verification/Example_Run.thy ===== *)
theory Example_Run
  imports Write_Correct Read_Correct Dedup_Remove
begin

text \<open>
  The invariant between operations, and a concrete run on which the properties are applied: one
  block is written to an empty store, once with a healthy kernel and once with a full disk. The
  runs are evaluated through the definitions of every pass.
\<close>

section \<open>Consistent states\<close>

text \<open>Between operations: the invariants hold, and no reference, object or slot is in transit.\<close>

definition consistent :: "(byte list \<Rightarrow> hash) \<Rightarrow> fbytes \<Rightarrow> u64 \<Rightarrow> Index \<Rightarrow> bool" where
  "consistent sha f nb ix \<longleftrightarrow> wf_all sha f nb {#} {} {} ix \<and> wf_sizes ix"

lemma consistent_empty: "consistent sha f 0 empty_index"
  by (auto simp: consistent_def wf_all_def empty_index_def wf_index_def wf_slots_def live_slots_def
      counts_exact_def wf_content_def wf_sizes_def)

lemma consistent_published:
  assumes "consistent sha f nb ix"
  shows "ran (hash_to_master ix) = ran (file_to_master ix)" "finite (ran (file_to_master ix))"
proof -
  have wi: "wf_index {#} {} ix" using assms by (simp add: consistent_def wf_all_def)
  show "ran (hash_to_master ix) = ran (file_to_master ix)"
  proof
    show "ran (hash_to_master ix) \<subseteq> ran (file_to_master ix)"
    proof
      fix p assume "p \<in> ran (hash_to_master ix)"
      then obtain info where "heap ix p = Some info" using wf_indexD(3)[OF wi] by blast
      from wf_indexD(9)[OF wi this] have "refs (file_to_master ix) p \<noteq> {}" by auto
      then show "p \<in> ran (file_to_master ix)" by (simp add: refs_nonempty_iff)
    qed
  qed (rule wf_indexD(5)[OF wi])
  show "finite (ran (file_to_master ix))"
    using wf_indexD(1)[OF wi] by (simp add: finite_ran)
qed

section \<open>A concrete request\<close>

text \<open>A stand-in for SHA-512 that tells blocks apart by their first byte.\<close>

definition demo_sha :: "byte list \<Rightarrow> hash" where
  "demo_sha b = replicate 64 (b ! 0)"

definition demo_path :: path where
  "demo_path = [47, 97]"

definition demo_buf :: "byte list" where
  "demo_buf = replicate 4096 7"

lemma demo_pre: "write_pre 0 empty_index demo_buf 4096 0 0"
  by (simp add: write_pre_def demo_buf_def empty_index_def BLOCK_SIZE_def MAX_SLOTS_def)

lemma demo_coll: "collision_free demo_sha f empty_index demo_buf"
  by (simp add: collision_free_def stored_def empty_index_def demo_buf_def BLOCK_SIZE_def lessThan_Suc)

definition demo_hash :: hash where
  "demo_hash = replicate 64 7"

definition demo_plan :: "PlanEntry list" where
  "demo_plan = [\<lparr>kind = PLAN_MISS, logical_blk = 0, master_blk = 0, payload = 0, pe_hash = demo_hash, info = 1\<rparr>]"

text \<open>After the decision pass: one pending object.\<close>

definition demo_held :: Index where
  "demo_held = empty_index\<lparr>heap := [1 \<mapsto> \<lparr>mi_hash = demo_hash, masterBlockIndex = 0, refcount = 1\<rparr>], next_ptr := 2\<rparr>"

text \<open>After the whole request.\<close>

definition demo_ix :: Index where
  "demo_ix = demo_held\<lparr>hash_to_master := [demo_hash \<mapsto> 1], file_to_master := [bkey demo_path 0 \<mapsto> 1],
     file_to_sizes := [demo_path \<mapsto> 4096]\<rparr>"

lemma demo_pass1: "pass1 demo_sha demo_buf 0 1 empty_index = Some (demo_held, [demo_hash \<mapsto> 1], demo_plan, 1)"
  by (simp add: pass1_def pass1_step_def hash_block_def demo_sha_def demo_buf_def lookup_by_hash_def
      empty_index_def new_info_def demo_held_def demo_plan_def demo_hash_def Let_def numeral_2_eq_2)

lemma demo_assign: "assign_slots demo_held 0 demo_plan 1 = Some (demo_held, 1, demo_plan)"
  by (simp add: assign_slots_def allocate_eq assign_step_def set_master_block_def demo_held_def
      demo_plan_def empty_index_def Let_def)

lemma demo_flush_full: "flush_plan [] [IoErr ENOSPC] demo_plan demo_buf = (-28, [], [])"
  by (simp add: flush_plan_def flush_loop.simps skip_hits.simps run_end.simps pwrite_sys_def blk_off_def
      demo_plan_def)

lemma demo_flush_ok: "flush_plan [] [] demo_plan demo_buf = (0, demo_buf, [])"
  by (simp add: flush_plan_def flush_loop.simps skip_hits.simps run_end.simps pwrite_sys_def blk_off_def
      demo_plan_def demo_buf_def BLOCK_SIZE_def file_write_def)

lemma demo_rollback:
  "rollback_allocations demo_held demo_plan = Some (empty_index\<lparr>free_block_list := [0], next_ptr := 2\<rparr>)"
  by (simp add: rollback_allocations_def rollback_hit_step_def rollback_miss_step_def free_info_def
      demo_held_def demo_plan_def empty_index_def Let_def)

lemma demo_consolidate: "consolidate demo_path 0 demo_plan demo_held = Some (demo_ix, [])"
  by (simp add: consolidate_def publish_step_def map_block_step_def index_op_defs grow_size_def
      demo_held_def demo_plan_def demo_ix_def empty_index_def BLOCK_SIZE_def Let_def)

lemma demo_start: "start_block_of 0 = 0"
  by (simp add: start_block_of_def)

text \<open>The disk is full: the slot goes to the free list, and nothing is mapped.\<close>

lemma demo_write_full:
  "write_dedup demo_sha empty_index demo_path demo_buf 4096 0 [] 0 [IoErr ENOSPC]
   = Some (-28, empty_index\<lparr>free_block_list := [0], next_ptr := 2\<rparr>, [], 1, [])"
  using demo_pass1 demo_assign demo_flush_full demo_rollback
  by (simp add: write_dedup_def BLOCK_SIZE_def demo_start)

lemma demo_write_ok:
  "write_dedup demo_sha empty_index demo_path demo_buf 4096 0 [] 0 [] = Some (4096, demo_ix, demo_buf, 1, [])"
  using demo_pass1 demo_assign demo_flush_ok demo_consolidate
  by (simp add: write_dedup_def BLOCK_SIZE_def demo_start int_of_size_def release_slots_def)

lemma demo_consistent: "consistent demo_sha demo_buf 1 demo_ix"
  using write_dedup_correct[of demo_sha "[]" 0 "{#}" "{}" "{}" empty_index demo_buf 4096 0 demo_path "[]"]
    consistent_empty[of demo_sha "[]"] demo_pre demo_coll demo_write_ok
  by (simp add: consistent_def)

end
