(* ===== verification/Dedup_Properties.thy ===== *)
theory Dedup_Properties
  imports Example_Run
begin

text \<open>
  The properties of the deduplication layer as a whole: its operations against the abstract
  store of \<open>Dedup_Spec\<close>, what a duplicate write costs, and a concrete state and request
  on which each of them is applied.
\<close>

section \<open>Writing\<close>

text \<open>
  C5: \<open>write_dedup\<close> never follows a dangling pointer, whatever the kernel answers to the
  \<open>pwrite\<close> calls, and leaves the index consistent: exact reference counts, every slot free or
  live and never both, every published hash that of the block in its slot.
\<close>

theorem write_dedup_keeps_consistent:
  assumes "consistent sha f nb ix" "write_pre 0 ix buf sz offset nb" "collision_free sha f ix buf"
  shows "\<exists>rc ix' f' nb' ios'. write_dedup sha ix pa buf sz offset f nb ios = Some (rc, ix', f', nb', ios')
    \<and> consistent sha f' nb' ix'"
  using write_dedup_correct[of sha f nb "{#}" "{}" "{}" ix buf sz offset pa ios] assms
  unfolding consistent_def by auto

theorem write_dedup_keeps_consistent_witness:
  "\<exists>rc ix' f' nb' ios'. write_dedup demo_sha empty_index demo_path demo_buf 4096 0 [] 0 [IoErr ENOSPC]
      = Some (rc, ix', f', nb', ios') \<and> consistent demo_sha f' nb' ix'"
  by (rule write_dedup_keeps_consistent[OF consistent_empty demo_pre demo_coll])

text \<open>
  C6: a \<open>write_dedup\<close> that returns a length has written every block of the request to the file,
  changed no other block of any file, and grown the logical size to the end of the request.
\<close>

theorem write_dedup_refines_spec:
  assumes "consistent sha f nb ix" "write_pre 0 ix buf sz offset nb" "collision_free sha f ix buf"
    and "write_dedup sha ix pa buf sz offset f nb ios = Some (rc, ix', f', nb', ios')" "rc \<ge> 0"
  shows "rc = int sz
    \<and> block_view f' ix' = spec_write pa (start_block_of offset) (blocks_of buf) (block_view f ix)
    \<and> file_to_sizes ix' = spec_grow pa
        ((start_block_of offset + of_nat (length (blocks_of buf))) * of_nat BLOCK_SIZE) (file_to_sizes ix)"
  using write_dedup_correct[of sha f nb "{#}" "{}" "{}" ix buf sz offset pa ios] assms
  unfolding consistent_def write_done_def by auto

theorem write_dedup_refines_spec_witness:
  "block_view demo_buf demo_ix (bkey demo_path 0) = Some demo_buf"
  using write_dedup_refines_spec[OF consistent_empty demo_pre demo_coll demo_write_ok]
  by (simp add: spec_write_def in_blocks_def demo_start blocks_of_def chunk_def demo_buf_def BLOCK_SIZE_def)

text \<open>
  C7: a \<open>write_dedup\<close> that reports an error has changed nothing a reader can see: the block
  view of every file and every logical size are what they were, and the index is consistent,
  with the slots of the request free again.
\<close>

theorem write_dedup_failure_atomic:
  assumes "consistent sha f nb ix" "write_pre 0 ix buf sz offset nb" "collision_free sha f ix buf"
    and "write_dedup sha ix pa buf sz offset f nb ios = Some (rc, ix', f', nb', ios')" "rc < 0"
  shows "block_view f' ix' = block_view f ix \<and> file_to_sizes ix' = file_to_sizes ix
    \<and> consistent sha f' nb' ix'"
  using write_dedup_correct[of sha f nb "{#}" "{}" "{}" ix buf sz offset pa ios] assms
  unfolding consistent_def write_undone_def by auto

theorem write_dedup_failure_atomic_witness:
  "block_view [] (empty_index\<lparr>free_block_list := [0], next_ptr := 2\<rparr>) = block_view [] empty_index
   \<and> consistent demo_sha [] 1 (empty_index\<lparr>free_block_list := [0], next_ptr := 2\<rparr>)"
  using write_dedup_failure_atomic[OF consistent_empty demo_pre demo_coll demo_write_full] by simp

text \<open>
  C21: when the kernel serves every \<open>pwrite\<close> in full, the request succeeds.
\<close>

theorem write_dedup_succeeds:
  assumes "consistent sha f nb ix" "write_pre 0 ix buf sz offset nb" "collision_free sha f ix buf"
    and "\<forall>io \<in> set ios. io = IoOk"
  shows "\<exists>ix' f' nb' ios'. write_dedup sha ix pa buf sz offset f nb ios = Some (int sz, ix', f', nb', ios')"
  using write_dedup_correct[of sha f nb "{#}" "{}" "{}" ix buf sz offset pa ios] assms
  unfolding consistent_def by auto

theorem write_dedup_succeeds_witness:
  "\<exists>ix' f' nb' ios'. write_dedup demo_sha empty_index demo_path demo_buf 4096 0 [] 0 []
      = Some (4096, ix', f', nb', ios')"
  using write_dedup_succeeds[OF consistent_empty demo_pre demo_coll, of "[]" demo_path] by simp

text \<open>
  Whatever the outcome, a write to one file changes no block of any other file.
\<close>

lemma write_dedup_frame:
  assumes "consistent sha f nb ix" "write_pre 0 ix buf sz offset nb" "collision_free sha f ix buf"
    and "write_dedup sha ix pa buf sz offset f nb ios = Some (rc, ix', f', nb', ios')"
    and "bi_path k \<noteq> pa"
  shows "block_view f' ix' k = block_view f ix k"
  using write_dedup_correct[of sha f nb "{#}" "{}" "{}" ix buf sz offset pa ios] assms
  unfolding consistent_def write_done_def write_undone_def by (auto simp: spec_write_other)

theorem write_dedup_frame_witness:
  "block_view demo_buf demo_ix (bkey [47, 98] 0) = None"
  using write_dedup_frame[OF consistent_empty demo_pre demo_coll demo_write_ok, of "bkey [47, 98] 0"]
  by (simp add: demo_path_def block_view_def empty_index_def)

section \<open>Deduplication on disk\<close>

lemma wf_all_hash_inj:
  assumes "wf_all sha f nb E P H ix"
  shows "inj_on (\<lambda>p. chunk f (unat (slot_of ix p))) (ran (hash_to_master ix))"
proof (rule inj_onI)
  fix p q assume "p \<in> ran (hash_to_master ix)" "q \<in> ran (hash_to_master ix)"
    and eq: "chunk f (unat (slot_of ix p)) = chunk f (unat (slot_of ix q))"
  then obtain h g where h: "hash_to_master ix h = Some p" "hash_to_master ix g = Some q"
    by (auto simp: ran_def)
  have "sha (chunk f (unat (slot_of ix p))) = h" "sha (chunk f (unat (slot_of ix q))) = g"
    using assms h unfolding wf_all_def wf_content_def by blast+
  with eq h show "p = q" by simp
qed

lemma ran_block_view: "ran (block_view f ix) = (\<lambda>p. chunk f (unat (slot_of ix p))) ` ran (file_to_master ix)"
  by (auto simp: block_view_def ran_def)

text \<open>
  In a consistent state the number of slots in use is the number of distinct blocks that all
  files together contain. (For the states the handlers reach, see \<open>First_Mount\<close>.)
\<close>

lemma live_slots_count:
  assumes "consistent sha f nb ix"
  shows "card (live_slots ix) = card (ran (block_view f ix))"
proof -
  have wf: "wf_all sha f nb {#} {} {} ix" using assms by (simp add: consistent_def)
  have "inj_on (slot_of ix) (ran (hash_to_master ix))"
    using wf unfolding wf_all_def wf_slots_def by blast
  then have "card (live_slots ix) = card (ran (hash_to_master ix))"
    by (simp add: live_slots_def card_image)
  also have "\<dots> = card (ran (block_view f ix))"
    unfolding ran_block_view consistent_published(1)[OF assms, symmetric]
    by (rule card_image[OF wf_all_hash_inj[OF wf], symmetric])
  finally show ?thesis .
qed

text \<open>Every slot below \<open>nextBlockIndex\<close> is either free or in use.\<close>

lemma slots_counted:
  assumes "consistent sha f nb ix"
  shows "length (free_block_list ix) + card (live_slots ix) = unat nb"
    and "distinct (free_block_list ix)" "set (free_block_list ix) \<inter> live_slots ix = {}"
    and "set (free_block_list ix) \<union> live_slots ix = {s. s < nb}"
proof -
  have ws: "wf_slots {} nb ix" using assms by (simp add: consistent_def wf_all_def)
  then have d: "distinct (free_block_list ix)" "set (free_block_list ix) \<inter> live_slots ix = {}"
    "set (free_block_list ix) \<union> live_slots ix = {s. s < nb}"
    by (simp_all add: wf_slots_def)
  have fin: "finite (live_slots ix)" by simp
  have "card (set (free_block_list ix)) + card (live_slots ix) = card {s. s < nb}"
    using card_Un_disjoint[OF _ fin d(2)] d(3) by simp
  moreover have "card {s :: u64. s < nb} = unat nb"
  proof -
    have "{s. s < nb} = {s. unat s < unat nb}" by (simp add: word_less_nat_alt)
    also have "\<dots> = (of_nat :: nat \<Rightarrow> u64) ` {..<unat nb}"
    proof (intro set_eqI iffI)
      fix s :: u64 assume "s \<in> {s. unat s < unat nb}"
      then show "s \<in> of_nat ` {..<unat nb}" by (intro image_eqI[of _ _ "unat s"]) simp_all
    next
      fix s :: u64 assume "s \<in> of_nat ` {..<unat nb}"
      then obtain i where "s = of_nat i" "i < unat nb" by blast
      then show "s \<in> {s. unat s < unat nb}"
        using unat_less64[of nb] by (simp add: unat_of_nat take_bit_eq_mod)
    qed
    finally have eq: "{s. s < nb} = (of_nat :: nat \<Rightarrow> u64) ` {..<unat nb}" .
    have "inj_on (of_nat :: nat \<Rightarrow> u64) {..<unat nb}"
      using add_of_nat_inj[of 0] unat_less64[of nb] by (intro inj_onI) (auto intro: less_trans)
    then show ?thesis unfolding eq by (simp add: card_image)
  qed
  ultimately show "length (free_block_list ix) + card (live_slots ix) = unat nb"
    using d(1,2) by (simp add: distinct_card)
  show "distinct (free_block_list ix)" "set (free_block_list ix) \<inter> live_slots ix = {}"
    "set (free_block_list ix) \<union> live_slots ix = {s. s < nb}" by (rule d)+
qed

text \<open>The section under the write lock leaves the free list alone.\<close>

lemma ofold_keeps:
  assumes "\<And>x s t. f x s = Some t \<Longrightarrow> g t = g s"
  shows "ofold f xs s = Some t \<Longrightarrow> g t = g s"
proof (induction xs arbitrary: s)
  case (Cons x xs)
  then show ?case using assms by (auto split: option.splits)
qed simp

lemma consolidate_free_list:
  assumes "consolidate pa start plan ix = Some (ix', to_release)"
  shows "free_block_list ix' = free_block_list ix"
proof -
  obtain ix1 plan1 tr1 ix2 where one: "ofold publish_step [0..<length plan] (ix, plan, []) = Some (ix1, plan1, tr1)"
    and two: "ofold (map_block_step pa plan1) [0..<length plan] (ix1, tr1) = Some (ix2, to_release)"
    and grow: "ix' = grow_size pa ((start + of_nat (length plan)) * of_nat BLOCK_SIZE) ix2"
    using assms by (auto simp: consolidate_def Let_def split: bind_splits)
  have "free_block_list (fst t) = free_block_list (fst s)" if "publish_step i s = Some t" for i s t
    using that by (cases s) (auto simp: publish_step_def free_info_def fetch_add_ref_def insert_hash_def
        split: if_splits option.splits bind_splits)
  from ofold_keeps[of publish_step "\<lambda>s. free_block_list (fst s)", OF this one]
  have "free_block_list ix1 = free_block_list ix" by simp
  moreover have "free_block_list (fst t) = free_block_list (fst s)" if "map_block_step pa plan1 i s = Some t" for i s t
    using that by (cases s) (auto simp: map_block_step_def insert_file_block_def split: option.splits bind_splits
        dest: release_ref_frame(2))
  from ofold_keeps[of "map_block_step pa plan1" "\<lambda>s. free_block_list (fst s)", OF this two]
  have "free_block_list ix2 = free_block_list ix1" by simp
  ultimately show ?thesis using grow by (auto simp: grow_size_def split: option.splits)
qed

text \<open>
  C11: A request whose blocks are all stored already costs nothing on disk: no \<open>pwrite\<close> is issued (no
  answer of the kernel is used up, so not even a broken disk makes it fail), the master file
  keeps its bytes, \<open>nextBlockIndex\<close> does not move and no slot leaves the free list. The request succeeds and the
  file has the blocks; the slots of blocks it overwrote and nobody else refers to are put in
  front of the free list, each once, and they are the only slots that change hands.
\<close>

theorem duplicate_write_costs_nothing:
  assumes "consistent sha f nb ix" "write_pre 0 ix buf sz offset nb" "collision_free sha f ix buf"
    and stored: "\<forall>i < sz div BLOCK_SIZE. chunk buf i \<in> stored f ix"
  shows "\<exists>ix' released. write_dedup sha ix pa buf sz offset f nb ios = Some (int sz, ix', f, nb, ios)
    \<and> block_view f ix' = spec_write pa (start_block_of offset) (blocks_of buf) (block_view f ix)
    \<and> free_block_list ix' = released @ free_block_list ix
    \<and> distinct released \<and> set released \<subseteq> live_slots ix \<and> live_slots ix' = live_slots ix - set released"
proof -
  let ?n = "sz div BLOCK_SIZE" and ?start = "start_block_of offset"
  have wf: "wf_all sha f nb {#} {} {} ix" using assms(1) by (simp add: consistent_def)
  have sz: "0 < sz" "BLOCK_SIZE dvd sz" "sz < 2 ^ 31" and room: "card (dom (file_to_master ix)) + size {#} + ?n < 2 ^ 32"
    using assms(2) by (simp_all add: write_pre_def)
  then have n: "?n \<noteq> 0" "sz mod BLOCK_SIZE = 0" "?n * BLOCK_SIZE = sz" by (auto simp: dvd_div_eq_0_iff)
  obtain ix1 pend plan mc where p1: "pass1 sha buf ?start ?n ix = Some (ix1, pend, plan, mc)"
    and inv: "pass1_inv sha buf ?start f nb {#} {} {} ix ?n (ix1, pend, plan, mc)"
    by (rule pass1_correct[OF wf room])
  have none: "\<not> miss (plan ! j)" if j: "j < length plan" for j
  proof
    assume m: "miss (plan ! j)"
    have "length plan = ?n" and sv: "hash_to_master ix1 = hash_to_master ix"
      and h: "pe_hash (plan ! j) = sha (chunk buf j)"
      using inv j by (simp_all add: pass1_inv_def same_view_def plan_describes_def)
    then obtain p where p: "p \<in> ran (hash_to_master ix)" "chunk buf j = chunk f (unat (slot_of ix p))"
      using stored j unfolding stored_def by auto
    then obtain g where "hash_to_master ix g = Some p" by (auto simp: ran_def)
    moreover from this have "sha (chunk buf j) = g"
      using wf p(2) unfolding wf_all_def wf_content_def by simp
    ultimately show False using pass1_miss_facts(1)[OF inv j m] sv h by simp
  qed
  have mc: "mc = 0"
    using inv none by (auto simp: pass1_inv_def filter_empty_conv in_set_conv_nth)
  obtain rc ix' f' nb' ios' where w: "write_dedup sha ix pa buf sz offset f nb ios = Some (rc, ix', f', nb', ios')"
    using write_dedup_correct[of sha f nb "{#}" "{}" "{}" ix buf sz offset pa ios] assms(1,2,3)
    unfolding consistent_def by auto
  have run: "write_dedup sha ix pa buf sz offset f nb ios =
      do { (ix, to_release) \<leftarrow> consolidate pa ?start plan ix1;
         Some (int_of_size (?n * BLOCK_SIZE), release_slots to_release ix, f, nb, ios) }"
    using sz(1) n(1,2) p1 mc by (simp add: write_dedup_def Let_def assign_slots_def)
  then obtain tr ix2 where co: "consolidate pa ?start plan ix1 = Some (ix2, tr)" and eq: "ix' = release_slots tr ix2"
      "rc = int sz" "f' = f" "nb' = nb" "ios' = ios"
    using w n(3) sz(3) by (cases "consolidate pa ?start plan ix1") (auto simp: int_of_size_small)
  have "free_block_list ix1 = free_block_list ix" using inv by (simp add: pass1_inv_def)
  then have fl: "free_block_list ix' = tr @ free_block_list ix"
    using consolidate_free_list[OF co] by (simp add: eq release_slots_def)
  have fin: "consistent sha f nb ix'"
      "block_view f ix' = spec_write pa ?start (blocks_of buf) (block_view f ix)"
    using write_dedup_correct[of sha f nb "{#}" "{}" "{}" ix buf sz offset pa ios] assms(1,2,3) w sz(1)
    by (auto simp: consistent_def write_done_def eq)
  note c' = slots_counted[OF fin(1), unfolded fl] and c = slots_counted[OF assms(1)]
  have "distinct tr" "set tr \<subseteq> live_slots ix" "live_slots ix' = live_slots ix - set tr"
    using c'(2,3,4) c(3,4) by auto
  with w eq fin(2) fl show ?thesis by blast
qed

lemma demo_again: "write_pre 0 demo_ix demo_buf 4096 4096 1"
  by (simp add: write_pre_def demo_buf_def demo_ix_def BLOCK_SIZE_def MAX_SLOTS_def)

lemma demo_length: "length demo_buf = 4096"
  by (simp add: demo_buf_def)

lemma demo_chunk: "chunk demo_buf 0 = demo_buf"
  by (simp add: chunk_def demo_buf_def BLOCK_SIZE_def)

lemma demo_stored: "stored demo_buf demo_ix = {demo_buf}"
  by (simp add: stored_def demo_ix_def demo_held_def slot_of_def demo_chunk)

lemma demo_coll_again: "collision_free demo_sha demo_buf demo_ix demo_buf"
  by (simp add: collision_free_def demo_stored demo_chunk demo_length BLOCK_SIZE_def lessThan_Suc)

theorem duplicate_write_costs_nothing_witness:
  "\<exists>ix' released. write_dedup demo_sha demo_ix demo_path demo_buf 4096 4096 demo_buf 1 [IoErr EIO]
     = Some (4096, ix', demo_buf, 1, [IoErr EIO]) \<and> free_block_list ix' = released"
  using duplicate_write_costs_nothing[OF demo_consistent demo_again demo_coll_again, of demo_path "[IoErr EIO]"]
  by (auto simp: demo_stored demo_chunk BLOCK_SIZE_def)

text \<open>
  The allocator hands out exactly as many slots as asked for, all distinct and none of them
  in use; freed slots come first, and the file grows only by the part the free list could not
  serve.
\<close>

lemma allocation_storage_first:
  assumes "wf_slots {} nb ix" "unat nb + n \<le> MAX_SLOTS"
    and "allocate_batch_storage_first ix n nb = (out, ix', nb')"
  shows "length out = n \<and> distinct out \<and> set out \<inter> live_slots ix' = {}
    \<and> take (length (free_block_list ix)) out = take n (free_block_list ix)
    \<and> unat nb' = unat nb + (n - length (free_block_list ix))"
proof -
  have "unat nb + (n - length (free_block_list ix)) \<le> MAX_SLOTS" using assms(2) by simp
  note app = append_slots(3)[OF this]
  have eq: "out = take n (free_block_list ix) @ map (\<lambda>i. nb + of_nat i) [0..<n - length (free_block_list ix)]"
    "nb' = nb + of_nat (n - length (free_block_list ix))"
    using assms(3) by (simp_all add: allocate_eq)
  have "take (length (free_block_list ix)) out = take n (free_block_list ix)"
    unfolding eq(1) by (cases "n \<le> length (free_block_list ix)") simp_all
  then show ?thesis
    using storage_first.alloc_slots[OF assms] storage_first.alloc_not_live[OF assms] app eq(2) by simp
qed

lemma wf_slots_two_free: "wf_slots {} 2 (empty_index\<lparr>free_block_list := [1, 0]\<rparr>)"
proof -
  have "{s :: u64. s < 2} = {1, 0}"
  proof (intro set_eqI)
    fix s :: u64
    have "s < 2 \<longleftrightarrow> unat s < 2" by (simp add: word_less_nat_alt)
    also have "\<dots> \<longleftrightarrow> unat s = 1 \<or> unat s = 0" by auto
    also have "\<dots> \<longleftrightarrow> s \<in> {1, 0}" by (metis insert_iff singletonD unat_0 unat_1 word_unat_eq_iff)
    finally show "s \<in> {s. s < 2} \<longleftrightarrow> s \<in> {1, 0}" by simp
  qed
  then show ?thesis by (simp add: wf_slots_def empty_index_def live_slots_def)
qed

theorem allocation_storage_first_witness:
  "fst (allocate_batch_storage_first (empty_index\<lparr>free_block_list := [1, 0]\<rparr>) 3 2) = [1, 0, 2]
   \<and> length (fst (allocate_batch_storage_first (empty_index\<lparr>free_block_list := [1, 0]\<rparr>) 3 2)) = 3"
  using allocation_storage_first[OF wf_slots_two_free, of 3]
  by (simp add: allocate_eq MAX_SLOTS_def empty_index_def)

section \<open>Reading\<close>

text \<open>
  C9: \<open>read_dedup\<close> never follows a dangling pointer, and a non-negative result is the number of
  bytes up to the first unmapped block: those bytes of the buffer are the mapped blocks in
  logical order, the rest of the buffer is untouched. It fails only if a \<open>pread\<close> or the
  allocation fails.
\<close>

theorem read_dedup_refines_spec:
  assumes "consistent sha f nb ix" "qsort_contract qs" "unat nb \<le> MAX_SLOTS"
    and "length buf = sz" "0 < sz" "BLOCK_SIZE dvd sz" "sz < 2 ^ 31"
    and "bs = spec_read pa (start_block_of offset) (sz div BLOCK_SIZE) (block_view f ix)"
  shows "\<exists>rc buf' ios'. read_dedup qs malloc_ok ix pa buf sz offset f ios = Some (rc, buf', ios')
    \<and> (rc \<ge> 0 \<longrightarrow> rc = int (length bs * BLOCK_SIZE) \<and> length buf' = sz
         \<and> take (length bs * BLOCK_SIZE) buf' = concat bs
         \<and> drop (length bs * BLOCK_SIZE) buf' = drop (length bs * BLOCK_SIZE) buf)
    \<and> (malloc_ok \<and> (\<forall>io \<in> set ios. io = IoOk) \<longrightarrow> rc \<ge> 0)"
proof -
  have "wf_all sha f nb {#} {} {} ix" using assms(1) by (simp add: consistent_def)
  then show ?thesis by (rule read_dedup_correct[OF _ assms(2-8)])
qed

lemma demo_view: "block_view demo_buf demo_ix = [bkey demo_path 0 \<mapsto> demo_buf]"
  by (auto simp: block_view_def demo_ix_def demo_held_def slot_of_def demo_chunk fun_eq_iff)

lemma demo_spec_read: "spec_read demo_path 0 2 (block_view demo_buf demo_ix) = [demo_buf]"
  by (simp add: demo_view numeral_2_eq_2)

theorem read_dedup_refines_spec_witness:
  "\<exists>buf' ios'. read_dedup (\<lambda>cmp. sort_key master_block_index) True demo_ix demo_path
      (replicate 8192 0) 8192 0 demo_buf [] = Some (4096, buf', ios') \<and> take 4096 buf' = demo_buf"
  using read_dedup_refines_spec[OF demo_consistent qsort_contract_sort_key, of "replicate 8192 0" 8192 "[demo_buf]"
      demo_path 0 True "[]"]
  by (auto simp: demo_spec_read demo_start BLOCK_SIZE_def MAX_SLOTS_def)

lemma concat_blocks_of: "BLOCK_SIZE dvd length buf \<Longrightarrow> concat (blocks_of buf) = buf"
  unfolding blocks_of_def by (subst concat_chunks) auto

text \<open>
  C8: reading back a range that was just written returns the bytes written, whatever was
  mapped there before and wherever deduplication put the blocks.
\<close>

theorem read_after_write:
  assumes "consistent sha f nb ix" "write_pre 0 ix buf sz offset nb" "collision_free sha f ix buf"
    and w: "write_dedup sha ix pa buf sz offset f nb ios = Some (rc, ix', f', nb', ios')" "rc \<ge> 0"
    and r: "qsort_contract qs" "length dst = sz" "unat nb' \<le> MAX_SLOTS" "\<forall>io \<in> set rios. io = IoOk"
  shows "\<exists>rios'. read_dedup qs True ix' pa dst sz offset f' rios = Some (int sz, buf, rios')"
proof -
  let ?bs = "blocks_of buf" and ?start = "start_block_of offset"
  have sz: "length buf = sz" "0 < sz" "BLOCK_SIZE dvd sz" "sz < 2 ^ 31"
    using assms(2) by (simp_all add: write_pre_def)
  have wf: "wf_all sha f' nb' {#} {} {} ix'" and v: "block_view f' ix' = spec_write pa ?start ?bs (block_view f ix)"
    using write_dedup_correct[of sha f nb "{#}" "{}" "{}" ix buf sz offset pa ios] assms(1-5)
    unfolding consistent_def write_done_def by auto
  have "(unat ?start + length ?bs) * BLOCK_SIZE < 2 ^ 64"
    using write_pre_start[OF assms(2)] sz(1) by simp
  then have "unat ?start + length ?bs \<le> 2 ^ 64" by (simp add: BLOCK_SIZE_def)
  from spec_read_write[OF this, of pa "block_view f ix"]
  have bs: "?bs = spec_read pa ?start (sz div BLOCK_SIZE) (block_view f' ix')"
    using v sz(1) by simp
  have len: "length ?bs * BLOCK_SIZE = sz" using sz(1,3) by simp
  obtain rc' buf' rios' where "read_dedup qs True ix' pa dst sz offset f' rios = Some (rc', buf', rios')"
    and "rc' \<ge> 0" "rc' = int sz" "length buf' = sz" "take sz buf' = concat ?bs"
    using read_dedup_correct[OF wf r(1,3,2) sz(2-4) bs, of True rios] r(4) len by auto
  moreover have "concat ?bs = buf" using concat_blocks_of[of buf] sz by simp
  ultimately show ?thesis by simp
qed

theorem read_after_write_witness:
  "\<exists>rios'. read_dedup (\<lambda>cmp. sort_key master_block_index) True demo_ix demo_path
      (replicate 4096 0) 4096 0 demo_buf [] = Some (4096, demo_buf, rios')"
  using read_after_write[OF consistent_empty demo_pre demo_coll demo_write_ok _ qsort_contract_sort_key,
      of "replicate 4096 0" "[]"]
  by (simp add: MAX_SLOTS_def)

section \<open>Removing\<close>

lemma remove_batch_consistent:
  assumes "consistent sha f nb ix"
  shows "\<exists>ix'. remove_blocks_dedup_batch ix pa s e = Some ix' \<and> consistent sha f nb ix'
    \<and> block_view f ix' = spec_trim pa s e (block_view f ix) \<and> file_to_sizes ix' = file_to_sizes ix"
proof -
  obtain ix' where ix': "remove_blocks_dedup_batch ix pa s e = Some ix'" "wf_all sha f nb {#} {} {} ix'"
    "file_to_sizes ix' = file_to_sizes ix" "block_view f ix' = spec_trim pa s e (block_view f ix)"
    using remove_batch_correct[of sha f nb ix pa s e] assms
    unfolding consistent_def spec_trim_def by auto
  have "dom (file_to_master ix') \<subseteq> dom (file_to_master ix)"
    unfolding dom_block_view[of f ix', symmetric] dom_block_view[of f ix, symmetric] ix'(4)
    by (auto simp: spec_trim_def split: if_splits)
  then have "wf_sizes ix'"
    using wf_sizes_antimono ix'(3) assms unfolding consistent_def by blast
  with ix' show ?thesis by (simp add: consistent_def)
qed

text \<open>
  C10: \<open>remove_blocks_dedup_batch\<close> removes exactly the blocks of the range from the file, leaves
  every other block of every file readable as before, and keeps the state consistent, so every
  slot whose last block went is free.
\<close>

theorem remove_batch_refines_spec:
  assumes "consistent sha f nb ix"
  shows "\<exists>ix'. remove_blocks_dedup_batch ix pa s e = Some ix' \<and> consistent sha f nb ix'
    \<and> block_view f ix' = spec_trim pa s e (block_view f ix) \<and> file_to_sizes ix' = file_to_sizes ix"
  using assms by (rule remove_batch_consistent)

theorem remove_batch_refines_spec_witness:
  "\<exists>ix'. remove_blocks_dedup_batch demo_ix demo_path 0 1 = Some ix' \<and> consistent demo_sha demo_buf 1 ix'
     \<and> block_view demo_buf ix' (bkey demo_path 0) = None"
  using remove_batch_refines_spec[OF demo_consistent, of demo_path 0 1] by (auto simp: spec_trim_def)

section \<open>Alignment\<close>

text \<open>
  Only the size of a request is checked for alignment. The offset is rounded down to a
  block boundary without an error: a write at any byte offset is the write at the start of the
  block it falls in.
\<close>

lemma unaligned_offset_rounded_down:
  assumes "0 \<le> offset" "offset < 2 ^ 63"
  shows "write_dedup sha ix pa buf sz offset f nb ios
    = write_dedup sha ix pa buf sz (int (nat offset div BLOCK_SIZE * BLOCK_SIZE)) f nb ios"
proof -
  let ?o = "int (nat offset div BLOCK_SIZE * BLOCK_SIZE)"
  have "nat offset div BLOCK_SIZE * BLOCK_SIZE \<le> nat offset" by (rule div_times_less_eq_dividend)
  then have "?o \<le> offset" using assms(1) by linarith
  moreover have "nat ?o div BLOCK_SIZE = nat offset div BLOCK_SIZE" by (simp only: nat_int) simp
  ultimately have "unat (start_block_of ?o) = unat (start_block_of offset)"
    using assms unat_start_block_of[of ?o] unat_start_block_of[of offset] by linarith
  then have "start_block_of ?o = start_block_of offset" by (metis word_unat_eq_iff)
  then show ?thesis by (simp only: write_dedup_def)
qed

theorem unaligned_offset_rounded_down_witness:
  "write_dedup demo_sha empty_index demo_path demo_buf 4096 100 [] 0 [] = Some (4096, demo_ix, demo_buf, 1, [])"
  using unaligned_offset_rounded_down[of 100 demo_sha empty_index demo_path demo_buf 4096 "[]" 0 "[]"]
    demo_write_ok by (simp add: BLOCK_SIZE_def)

end
