(* ===== verification/Codec.thy ===== *)
theory Codec
  imports Meta_Index
begin

text \<open>
  The encoders and decoders of \<open>src/metaindex.c\<close> (and the two of \<open>src/persistence.c\<close> for table
  indices). Objects are written as the machine stores them: integers little-endian, structs
  with their padding. The locale \<open>codec\<close> is the round-trip law the persistence layer relies on.
\<close>

section \<open>Integers as bytes\<close>

definition le_bytes :: "nat \<Rightarrow> 'a::len word \<Rightarrow> byte list" where
  "le_bytes n w = map (\<lambda>i. ucast (drop_bit (8 * i) w)) [0..<n]"

lemma length_le_bytes [simp]: "length (le_bytes n w) = n"
  by (simp add: le_bytes_def)

lemma le_bytes_Suc: "le_bytes (Suc n) w = ucast w # le_bytes n (drop_bit 8 w)"
  by (simp add: le_bytes_def map_upt_Suc drop_bit_drop_bit add.commute del: upt_Suc)

lemma le_word_le_bytes_mask: "le_word (le_bytes n w) = take_bit (8 * n) (w :: 'a::len word)"
proof (induction n arbitrary: w)
  case 0
  then show ?case by (simp add: le_bytes_def)
next
  case (Suc n)
  show ?case
    unfolding le_bytes_Suc le_word.simps Suc.IH
    by (rule bit_word_eqI)
      (auto simp: bit_or_iff bit_push_bit_iff bit_take_bit_iff bit_drop_bit_eq bit_ucast_iff not_less
        intro: le_less_trans)
qed

lemma le_word_le_bytes [simp]:
  "LENGTH('a) \<le> 8 * n \<Longrightarrow> le_word (le_bytes n w) = (w :: 'a::len word)"
  by (simp add: le_word_le_bytes_mask take_bit_word_eq_self)

section \<open>Encoders and decoders\<close>

text \<open>
  What a decoder returns: \<open>Null\<close>, an object, or nothing at all because it read outside its
  buffer.
\<close>

datatype 'a decoded = Undefined | Null | Decoded 'a

text \<open>\<open>sizeof(MasterInfo)\<close>: hash, slot, reference count, and four bytes of padding.\<close>

definition SIZEOF_MASTER_INFO :: nat where
  "SIZEOF_MASTER_INFO = 80"

definition encode_master_info :: "byte list \<Rightarrow> MasterInfo \<Rightarrow> byte list" where
  "encode_master_info padding m =
     mi_hash m @ le_bytes 8 (masterBlockIndex m) @ le_bytes 4 (refcount m) @ padding"

definition decode_master_info :: "byte list \<Rightarrow> MasterInfo decoded" where
  "decode_master_info data =
     (if length data \<noteq> SIZEOF_MASTER_INFO then Null
      else Decoded \<lparr>mi_hash = take HASH_SIZE data,
                    masterBlockIndex = le_word (take 8 (drop 64 data)),
                    refcount = le_word (take 4 (drop 72 data))\<rparr>)"

definition encode_hash :: "hash \<Rightarrow> byte list" where
  "encode_hash h = take HASH_SIZE h"

definition decode_hash :: "byte list \<Rightarrow> hash decoded" where
  "decode_hash data = (if length data \<noteq> HASH_SIZE then Null else Decoded (take HASH_SIZE data))"

text \<open>\<open>int path_len\<close> (with the NUL), the path, the block number.\<close>

definition encode_block_indice :: "BlockIndice \<Rightarrow> byte list" where
  "encode_block_indice b =
     (let path_len = length (bi_path b) + 1
      in le_bytes 4 (of_nat path_len :: 32 word) @ (bi_path b @ [0]) @ le_bytes 8 (bi_offset b))"

text \<open>
  The stored length is trusted: a negative one, one beyond the buffer, or a path without NUL
  makes the decoder (or the first use of the path) read outside the allocation.
\<close>

definition decode_block_indice :: "byte list \<Rightarrow> BlockIndice decoded" where
  "decode_block_indice data =
     (if length data < 4 then Undefined
      else let path_len = sint (le_word (take 4 data) :: 32 word)
           in if path_len < 0 \<or> length data < 4 + nat path_len + 8 then Undefined
              else let path = take (nat path_len) (drop 4 data)
                   in if 0 \<notin> set path then Undefined
                      else Decoded \<lparr>bi_path = takeWhile (\<lambda>c. c \<noteq> 0) path,
                                    bi_offset = le_word (take 8 (drop (4 + nat path_len) data))\<rparr>)"

definition encode_free_block :: "u64 \<Rightarrow> byte list" where
  "encode_free_block s = le_bytes 8 s"

definition decode_free_block :: "byte list \<Rightarrow> u64 decoded" where
  "decode_free_block data = (if length data \<noteq> 8 then Null else Decoded (le_word (take 8 data)))"

definition encode_size :: "u64 \<Rightarrow> byte list" where
  "encode_size s = le_bytes 8 s"

text \<open>Unlike the other decoders of integers, this one does not check the length.\<close>

definition decode_size :: "byte list \<Rightarrow> u64 decoded" where
  "decode_size data = (if length data < 8 then Undefined else Decoded (le_word (take 8 data)))"

definition encode_str :: "path \<Rightarrow> byte list" where
  "encode_str s = s @ [0]"

definition decode_str :: "byte list \<Rightarrow> path decoded" where
  "decode_str data = (if 0 \<notin> set data then Undefined else Decoded (takeWhile (\<lambda>c. c \<noteq> 0) data))"

definition encode_size_elem :: "u64 \<Rightarrow> byte list" where
  "encode_size_elem s = le_bytes 8 s"

definition decode_size_elem :: "byte list \<Rightarrow> u64 decoded" where
  "decode_size_elem data = (if length data \<noteq> 8 then Null else Decoded (le_word (take 8 data)))"

section \<open>The law of a codec\<close>

text \<open>\<open>ok\<close> are the objects the program writes; an element's length is passed on as an \<open>int\<close>.\<close>

locale codec =
  fixes ok :: "'a \<Rightarrow> bool" and enc :: "'a \<Rightarrow> byte list" and dec :: "byte list \<Rightarrow> 'a decoded"
  assumes dec_enc: "ok x \<Longrightarrow> dec (enc x) = Decoded x"
    and enc_int: "ok x \<Longrightarrow> length (enc x) < 2 ^ 31"
begin

lemma enc_inj: "ok x \<Longrightarrow> ok y \<Longrightarrow> enc x = enc y \<Longrightarrow> x = y"
  by (metis dec_enc decoded.inject)

end

text \<open>Paths as the kernel passes them: no NUL inside, and far shorter than an \<open>int\<close> can count.\<close>

definition ok_path :: "path \<Rightarrow> bool" where
  "ok_path pa \<longleftrightarrow> 0 \<notin> set pa \<and> length pa < 2 ^ 30"

definition ok_info :: "MasterInfo \<Rightarrow> bool" where
  "ok_info m \<longleftrightarrow> length (mi_hash m) = HASH_SIZE"

lemma takeWhile_str: "0 \<notin> set s \<Longrightarrow> takeWhile (\<lambda>c. c \<noteq> 0) (s @ 0 # r) = s"
  by (induction s) auto

lemma length_encode_hash: "length (encode_hash h) \<le> 64"
  by (simp add: encode_hash_def HASH_SIZE_def)

interpretation hash_codec: codec "\<lambda>h. length h = HASH_SIZE" encode_hash decode_hash
proof
  show "decode_hash (encode_hash h) = Decoded h" if "length h = HASH_SIZE" for h
    using that by (simp add: encode_hash_def decode_hash_def)
  show "length (encode_hash h) < 2 ^ 31" for h
    using length_encode_hash[of h] by (rule le_less_trans) simp
qed

interpretation free_block_codec: codec "\<lambda>_. True" encode_free_block decode_free_block
  by unfold_locales (simp_all add: encode_free_block_def decode_free_block_def)

interpretation size_codec: codec "\<lambda>_. True" encode_size decode_size
  by unfold_locales (simp_all add: encode_size_def decode_size_def)

interpretation size_elem_codec: codec "\<lambda>_. True" encode_size_elem decode_size_elem
  by unfold_locales (simp_all add: encode_size_elem_def decode_size_elem_def)

interpretation str_codec: codec ok_path encode_str decode_str
  by unfold_locales (simp_all add: encode_str_def decode_str_def ok_path_def takeWhile_str)

lemma decode_encode_master_info:
  assumes "ok_info m" "length padding = 4"
  shows "decode_master_info (encode_master_info padding m) = Decoded m"
  using assms
  by (simp add: decode_master_info_def encode_master_info_def ok_info_def HASH_SIZE_def SIZEOF_MASTER_INFO_def)

lemma decode_encode_block_indice:
  assumes "ok_path (bi_path b)"
  shows "decode_block_indice (encode_block_indice b) = Decoded b"
proof -
  let ?n = "length (bi_path b) + 1"
  have n: "?n < 2 ^ 31" using assms by (simp add: ok_path_def)
  then have "sint (of_nat ?n :: 32 word) = int ?n"
    using int_of_size_small[of ?n] by (simp only: int_of_size_def)
  moreover have "le_word (take 4 (encode_block_indice b)) = (of_nat ?n :: 32 word)"
    by (simp add: encode_block_indice_def Let_def del: of_nat_add)
  ultimately have len: "sint (le_word (take 4 (encode_block_indice b)) :: 32 word) = int ?n" by simp
  have parts: "take ?n (drop 4 (encode_block_indice b)) = bi_path b @ [0]"
    "take 8 (drop (4 + ?n) (encode_block_indice b)) = le_bytes 8 (bi_offset b)"
    "length (encode_block_indice b) = 4 + ?n + 8"
    by (simp_all add: encode_block_indice_def Let_def)
  show ?thesis
    unfolding decode_block_indice_def len nat_int Let_def parts
    using assms by (simp add: ok_path_def takeWhile_str[of _ "[]"])
qed

interpretation block_indice_codec: codec "\<lambda>b. ok_path (bi_path b)" encode_block_indice decode_block_indice
  by unfold_locales
    (simp_all add: decode_encode_block_indice ok_path_def, simp add: encode_block_indice_def Let_def)

interpretation master_info_codec: codec "\<lambda>m. ok_info m \<and> length padding = 4"
  "encode_master_info padding" decode_master_info for padding
  by unfold_locales
    (simp_all add: decode_encode_master_info, simp add: encode_master_info_def ok_info_def HASH_SIZE_def)

section \<open>Properties\<close>

text \<open>
  C29: every object the index persists is decoded to itself: blocks of a file (path and number,
  whatever the bytes of the path but NUL), \<open>MasterInfo\<close> objects whatever their padding, hashes,
  slots and sizes.
\<close>

theorem metadata_codecs_roundtrip:
  "(ok_path (bi_path b) \<longrightarrow> decode_block_indice (encode_block_indice b) = Decoded b)
   \<and> (length (mi_hash m) = HASH_SIZE \<longrightarrow> length padding = 4 \<longrightarrow>
        decode_master_info (encode_master_info padding m) = Decoded m)
   \<and> (length h = HASH_SIZE \<longrightarrow> decode_hash (encode_hash h) = Decoded h)
   \<and> (ok_path s \<longrightarrow> decode_str (encode_str s) = Decoded s)
   \<and> decode_free_block (encode_free_block fb) = Decoded fb
   \<and> decode_size (encode_size z) = Decoded z"
  using block_indice_codec.dec_enc[of b] master_info_codec.dec_enc[of m padding] hash_codec.dec_enc[of h]
    str_codec.dec_enc[of s] free_block_codec.dec_enc size_codec.dec_enc
  by (simp add: ok_info_def)

theorem metadata_codecs_roundtrip_witness:
  "decode_block_indice (encode_block_indice (bkey [47, 97] 5)) = Decoded (bkey [47, 97] 5)
   \<and> decode_master_info (encode_master_info [1, 2, 3, 4]
        \<lparr>mi_hash = replicate 64 9, masterBlockIndex = 300, refcount = 2\<rparr>)
      = Decoded \<lparr>mi_hash = replicate 64 9, masterBlockIndex = 300, refcount = 2\<rparr>"
  using metadata_codecs_roundtrip[of "bkey [47, 97] 5" "\<lparr>mi_hash = replicate 64 9, masterBlockIndex = 300, refcount = 2\<rparr>"
      "[1, 2, 3, 4]" "replicate 64 0" "[47]" 0 0]
  by (simp add: ok_path_def HASH_SIZE_def)

end
