(* ===== verification/Buffered_IO.thy ===== *)
theory Buffered_IO
  imports Posix_File
begin

text \<open>
  The buffered reader and writer of \<open>src/persistence.c\<close>. The buffer is modelled with its bytes
  and its bounds, so that a \<open>memcpy\<close> past its end is an outcome (\<open>None\<close>). With a healthy kernel
  the writer appends to a byte stream and the reader consumes one, whatever the buffer size;
  after a failed flush of a full buffer the writer overruns it.
\<close>

section \<open>The context\<close>

record BufferedIOCtx =
  buffer :: "byte list"
  buffer_size :: nat
  buffer_pos :: nat
  buffer_end :: nat
  file_offset :: nat

text \<open>\<open>content\<close> is what \<open>malloc\<close> left in the buffer.\<close>

definition buffered_io_init :: "byte list \<Rightarrow> nat \<Rightarrow> BufferedIOCtx" where
  "buffered_io_init content sz =
     \<lparr>buffer = content, buffer_size = sz, buffer_pos = 0, buffer_end = 0, file_offset = 0\<rparr>"

section \<open>Writing\<close>

definition flush_write_buffer ::
  "BufferedIOCtx \<Rightarrow> fbytes \<Rightarrow> io list \<Rightarrow> BufferedIOCtx \<times> fbytes \<times> io list" where
  "flush_write_buffer ctx f ios =
     (if buffer_pos ctx = 0 then (ctx, f, ios)
      else let (io, ios) = next_io ios;
               (written, err, f) = pwrite_sys io f (take (buffer_pos ctx) (buffer ctx)) (int (file_offset ctx))
        in if written = int (buffer_pos ctx)
           then (ctx\<lparr>file_offset := file_offset ctx + buffer_pos ctx, buffer_pos := 0\<rparr>, f, ios)
           else if written > 0
           then let remaining = buffer_pos ctx - nat written
                in (ctx\<lparr>file_offset := file_offset ctx + nat written,
                        buffer := take remaining (drop (nat written) (buffer ctx)) @ drop remaining (buffer ctx),
                        buffer_pos := remaining\<rparr>, f, ios)
           else (ctx, f, ios))"

text \<open>\<open>memcpy\<close> into the buffer at its current position.\<close>

definition buffer_put :: "BufferedIOCtx \<Rightarrow> byte list \<Rightarrow> BufferedIOCtx option" where
  "buffer_put ctx bs =
     (if buffer_pos ctx + length bs > buffer_size ctx then None
      else Some (ctx\<lparr>buffer := take (buffer_pos ctx) (buffer ctx) @ bs @ drop (buffer_pos ctx + length bs) (buffer ctx),
                     buffer_pos := buffer_pos ctx + length bs\<rparr>))"

text \<open>
  After the flush, the loop takes the whole buffer to be available, whether or not the flush
  emptied it.
\<close>

function buffered_write ::
  "BufferedIOCtx \<Rightarrow> fbytes \<Rightarrow> io list \<Rightarrow> byte list \<Rightarrow> (BufferedIOCtx \<times> fbytes \<times> io list) option" where
  "buffered_write ctx f ios src =
     (if src = [] \<or> buffer_size ctx = 0 then Some (ctx, f, ios)
      else let available = buffer_size ctx - buffer_pos ctx;
               (ctx', f, ios) = (if available = 0 then flush_write_buffer ctx f ios else (ctx, f, ios));
               available = (if available = 0 then buffer_size ctx else available);
               to_copy = (if length src < available then length src else available)
        in case buffer_put ctx' (take to_copy src) of
             None \<Rightarrow> None
           | Some ctx' \<Rightarrow> buffered_write ctx' f ios (drop to_copy src))"
  by pat_completeness auto
termination
  by (relation "measure (\<lambda>(ctx, f, ios, src). length src)") (auto split: if_splits)

declare buffered_write.simps [simp del]

section \<open>Reading\<close>

definition refill_read_buffer ::
  "BufferedIOCtx \<Rightarrow> fbytes \<Rightarrow> io list \<Rightarrow> bool \<times> BufferedIOCtx \<times> io list" where
  "refill_read_buffer ctx f ios =
     (let (io, ios) = next_io ios;
          (nread, bs) = pread_sys io f (buffer_size ctx) (int (file_offset ctx))
      in if nread \<le> 0 then (False, ctx, ios)
         else (True, ctx\<lparr>buffer := bs @ drop (length bs) (buffer ctx), buffer_end := nat nread,
                         buffer_pos := 0, file_offset := file_offset ctx + nat nread\<rparr>, ios))"

text \<open>Result: the bytes copied out and whether all were, the context, the unused answers.\<close>

function buffered_read ::
  "BufferedIOCtx \<Rightarrow> fbytes \<Rightarrow> io list \<Rightarrow> nat \<Rightarrow> byte list option \<times> BufferedIOCtx \<times> io list" where
  "buffered_read ctx f ios sz =
     (if sz = 0 then (Some [], ctx, ios)
      else let available = buffer_end ctx - buffer_pos ctx;
               (got, ctx, ios) = (if available = 0 then refill_read_buffer ctx f ios else (True, ctx, ios));
               available = buffer_end ctx - buffer_pos ctx
        in if \<not> got \<or> available = 0 then (None, ctx, ios)
           else let to_copy = (if sz < available then sz else available);
                    bs = take to_copy (drop (buffer_pos ctx) (buffer ctx));
                    (rest, ctx, ios) =
                      buffered_read (ctx\<lparr>buffer_pos := buffer_pos ctx + to_copy\<rparr>) f ios (sz - to_copy)
             in (map_option (\<lambda>r. bs @ r) rest, ctx, ios))"
  by pat_completeness auto
termination
  by (relation "measure (\<lambda>(ctx, f, ios, sz). sz)") (auto split: if_splits)

declare buffered_read.simps [simp del]

section \<open>The writer appends to a stream\<close>

text \<open>A context writing a fresh file: what is on disk and what is still in the buffer.\<close>

definition writer_inv :: "BufferedIOCtx \<Rightarrow> fbytes \<Rightarrow> bool" where
  "writer_inv ctx f \<longleftrightarrow>
     0 < buffer_size ctx \<and> length (buffer ctx) = buffer_size ctx
     \<and> buffer_pos ctx \<le> buffer_size ctx \<and> file_offset ctx = length f"

definition written_stream :: "BufferedIOCtx \<Rightarrow> fbytes \<Rightarrow> byte list" where
  "written_stream ctx f = f @ take (buffer_pos ctx) (buffer ctx)"

lemma file_write_append: "file_write f (length f) bs = f @ bs"
  by (simp add: file_write_def)

lemma flush_write_buffer_ok:
  assumes inv: "writer_inv ctx f" and ios: "\<forall>io \<in> set ios. io = IoOk"
    and fl: "flush_write_buffer ctx f ios = (ctx', f', ios')"
  shows "writer_inv ctx' f'" "buffer_pos ctx' = 0" "f' = written_stream ctx f" "\<forall>io \<in> set ios'. io = IoOk"
    "buffer_size ctx' = buffer_size ctx"
proof -
  obtain io ios1 where io: "next_io ios = (io, ios1)" by fastforce
  note ok = next_io_healthy[OF ios io]
  have "buffer_pos ctx = 0 \<longrightarrow> ctx' = ctx \<and> f' = f \<and> ios' = ios"
    using fl by (auto simp: flush_write_buffer_def)
  moreover have "buffer_pos ctx \<noteq> 0 \<longrightarrow>
      ctx' = ctx\<lparr>file_offset := file_offset ctx + buffer_pos ctx, buffer_pos := 0\<rparr>
      \<and> f' = written_stream ctx f \<and> ios' = ios1"
  proof
    assume "buffer_pos ctx \<noteq> 0"
    moreover have "length (take (buffer_pos ctx) (buffer ctx)) = buffer_pos ctx" "file_offset ctx = length f"
      using inv by (simp_all add: writer_inv_def)
    then have "pwrite_sys io f (take (buffer_pos ctx) (buffer ctx)) (int (file_offset ctx))
        = (int (buffer_pos ctx), EIO, written_stream ctx f)"
      using ok pwrite_ok by (simp only: file_write_append written_stream_def)
    ultimately show "ctx' = ctx\<lparr>file_offset := file_offset ctx + buffer_pos ctx, buffer_pos := 0\<rparr>
      \<and> f' = written_stream ctx f \<and> ios' = ios1"
      using fl io by (simp add: flush_write_buffer_def)
  qed
  ultimately show "writer_inv ctx' f'" "buffer_pos ctx' = 0" "f' = written_stream ctx f"
    "\<forall>io \<in> set ios'. io = IoOk" "buffer_size ctx' = buffer_size ctx"
    using inv ios ok by (cases "buffer_pos ctx = 0"; auto simp: writer_inv_def written_stream_def)+
qed

lemma buffer_put_ok:
  assumes inv: "writer_inv ctx f" and fits: "buffer_pos ctx + length bs \<le> buffer_size ctx"
  shows "\<exists>ctx'. buffer_put ctx bs = Some ctx' \<and> writer_inv ctx' f
    \<and> written_stream ctx' f = written_stream ctx f @ bs \<and> buffer_size ctx' = buffer_size ctx"
proof -
  have "length (take (buffer_pos ctx) (buffer ctx)) = buffer_pos ctx"
    using inv by (simp add: writer_inv_def)
  with assms show ?thesis by (auto simp: buffer_put_def writer_inv_def written_stream_def)
qed

lemma buffered_write_ok:
  assumes "writer_inv ctx f" "\<forall>io \<in> set ios. io = IoOk"
  shows "\<exists>ctx' f' ios'. buffered_write ctx f ios src = Some (ctx', f', ios')
    \<and> writer_inv ctx' f' \<and> written_stream ctx' f' = written_stream ctx f @ src
    \<and> (\<forall>io \<in> set ios'. io = IoOk)"
  using assms
proof (induction "length src" arbitrary: ctx f ios src rule: less_induct)
  case less
  show ?case
  proof (cases "src = []")
    case True
    then have "buffered_write ctx f ios src = Some (ctx, f, ios)"
      by (subst buffered_write.simps) simp
    with True less.prems show ?thesis by simp
  next
    case False
    have sz: "0 < buffer_size ctx" using less.prems(1) by (simp add: writer_inv_def)
    let ?av = "buffer_size ctx - buffer_pos ctx"
    obtain ctx1 f1 ios1 where fl: "(if ?av = 0 then flush_write_buffer ctx f ios else (ctx, f, ios)) = (ctx1, f1, ios1)"
      by (metis prod_cases3)
    define av where "av = (if ?av = 0 then buffer_size ctx else ?av)"
    define n where "n = (if length src < av then length src else av)"
    have c1: "writer_inv ctx1 f1 \<and> written_stream ctx1 f1 = written_stream ctx f
        \<and> (\<forall>io \<in> set ios1. io = IoOk) \<and> buffer_pos ctx1 + av = buffer_size ctx1"
    proof (cases "?av = 0")
      case True
      then have "flush_write_buffer ctx f ios = (ctx1, f1, ios1)" using fl by simp
      note fo = flush_write_buffer_ok[OF less.prems this]
      then show ?thesis using True by (simp add: av_def written_stream_def)
    next
      case False
      then show ?thesis using fl less.prems by (simp add: av_def writer_inv_def)
    qed
    have n: "0 < n" "n \<le> length src" "n \<le> av" using False sz by (auto simp: n_def av_def)
    have "buffer_pos ctx1 + length (take n src) \<le> buffer_size ctx1" using c1 n by simp
    then obtain ctx2 where put: "buffer_put ctx1 (take n src) = Some ctx2" "writer_inv ctx2 f1"
      "written_stream ctx2 f1 = written_stream ctx1 f1 @ take n src"
      using buffer_put_ok c1 by blast
    have "length (drop n src) < length src" using n by simp
    from less.hyps[OF this put(2)] obtain ctx' f' ios' where
      rest: "buffered_write ctx2 f1 ios1 (drop n src) = Some (ctx', f', ios')" "writer_inv ctx' f'"
      "written_stream ctx' f' = written_stream ctx2 f1 @ drop n src" "\<forall>io \<in> set ios'. io = IoOk"
      using c1 by blast
    have "buffered_write ctx f ios src = Some (ctx', f', ios')"
    proof -
      have "buffered_write ctx f ios src =
          (case (if ?av = 0 then flush_write_buffer ctx f ios else (ctx, f, ios)) of (ctx', f, ios) \<Rightarrow>
             (case buffer_put ctx' (take n src) of None \<Rightarrow> None
              | Some ctx' \<Rightarrow> buffered_write ctx' f ios (drop n src)))"
        using False sz unfolding n_def av_def by (subst buffered_write.simps) (simp only: Let_def simp_thms if_False neq0_conv less_not_refl2 split: prod.splits)
      then show ?thesis unfolding fl using put(1) rest(1) by simp
    qed
    with rest put(3) c1 show ?thesis by simp
  qed
qed

section \<open>The reader consumes a stream\<close>

text \<open>What is left to read: the unread part of the buffer, then the file.\<close>

definition reader_inv :: "BufferedIOCtx \<Rightarrow> bool" where
  "reader_inv ctx \<longleftrightarrow>
     0 < buffer_size ctx \<and> buffer_pos ctx \<le> buffer_end ctx \<and> buffer_end ctx \<le> length (buffer ctx)"

definition unread :: "BufferedIOCtx \<Rightarrow> fbytes \<Rightarrow> byte list" where
  "unread ctx f = drop (buffer_pos ctx) (take (buffer_end ctx) (buffer ctx)) @ drop (file_offset ctx) f"

text \<open>Short reads are harmless as long as they make progress.\<close>

definition benign :: "io \<Rightarrow> bool" where
  "benign io \<longleftrightarrow> (case io of IoOk \<Rightarrow> True | IoShort k \<Rightarrow> 0 < k | IoErr e \<Rightarrow> False)"

lemma next_io_benign:
  "\<forall>io \<in> set ios. benign io \<Longrightarrow> next_io ios = (io, ios') \<Longrightarrow> benign io \<and> (\<forall>io \<in> set ios'. benign io)"
  by (cases ios) (auto simp: benign_def)

lemma refill_ok:
  assumes inv: "reader_inv ctx" and e: "buffer_pos ctx = buffer_end ctx"
    and ios: "\<forall>io \<in> set ios. benign io"
    and rf: "refill_read_buffer ctx f ios = (got, ctx', ios')"
  shows "unread ctx' f = unread ctx f \<and> reader_inv ctx' \<and> (\<forall>io \<in> set ios'. benign io)
    \<and> (got \<longleftrightarrow> unread ctx f \<noteq> []) \<and> (got \<longrightarrow> buffer_pos ctx' < buffer_end ctx')"
proof -
  obtain io ios1 where io: "next_io ios = (io, ios1)" by fastforce
  note ok = next_io_benign[OF ios io]
  have un: "unread ctx f = drop (file_offset ctx) f" using e by (simp add: unread_def)
  have sz: "0 < buffer_size ctx" using inv by (simp add: reader_inv_def)
  obtain bs k where pr: "pread_sys io f (buffer_size ctx) (int (file_offset ctx)) = (int (length bs), bs)"
    and bs: "bs = take k (drop (file_offset ctx) f)" "0 < k"
  proof (cases io)
    case IoOk
    then show ?thesis using that[of _ "buffer_size ctx"] sz by (simp add: pread_sys_def)
  next
    case (IoShort j)
    then have "0 < j" using ok by (simp add: benign_def)
    then show ?thesis using IoShort that[of _ "min j (buffer_size ctx)"] sz
      by (simp add: pread_sys_def min_def)
  next
    case (IoErr e)
    then show ?thesis using ok by (simp add: benign_def)
  qed
  show ?thesis
  proof (cases "bs = []")
    case True
    then have "unread ctx f = []" using bs un by (metis neq0_conv take_eq_Nil)
    with True show ?thesis
      using rf io pr ok inv by (simp add: refill_read_buffer_def)
  next
    case False
    then have c: "got" "ios' = ios1" "ctx' = ctx\<lparr>buffer := bs @ drop (length bs) (buffer ctx), buffer_end := length bs,
        buffer_pos := 0, file_offset := file_offset ctx + length bs\<rparr>"
      using rf io pr by (simp_all add: refill_read_buffer_def)
    have split: "take k xs @ drop (length (take k xs)) xs = xs" for xs :: "byte list"
      by (cases "k \<le> length xs") simp_all
    have "bs @ drop (file_offset ctx + length bs) f = drop (file_offset ctx) f"
      using split[of "drop (file_offset ctx) f"] unfolding bs(1)[symmetric] by (simp add: add.commute)
    then have "unread ctx' f = unread ctx f" by (simp add: unread_def c(3) un[unfolded unread_def] e)
    moreover have "unread ctx f \<noteq> []" using False bs un by auto
    ultimately show ?thesis using c ok False sz by (auto simp: reader_inv_def)
  qed
qed

lemma reader_take:
  assumes inv: "reader_inv ctx" and n: "n \<le> buffer_end ctx - buffer_pos ctx"
  shows "take n (drop (buffer_pos ctx) (buffer ctx)) = take n (unread ctx f)"
    and "unread (ctx\<lparr>buffer_pos := buffer_pos ctx + n\<rparr>) f = drop n (unread ctx f)"
    and "reader_inv (ctx\<lparr>buffer_pos := buffer_pos ctx + n\<rparr>)"
proof -
  let ?rest = "drop (buffer_pos ctx) (take (buffer_end ctx) (buffer ctx))"
  have len: "length ?rest = buffer_end ctx - buffer_pos ctx" using inv by (simp add: reader_inv_def)
  have "take n (drop (buffer_pos ctx) (buffer ctx)) = take n ?rest"
    using n by (simp add: drop_take min_absorb1)
  then show "take n (drop (buffer_pos ctx) (buffer ctx)) = take n (unread ctx f)"
    unfolding unread_def take_append using len n by simp
  show "unread (ctx\<lparr>buffer_pos := buffer_pos ctx + n\<rparr>) f = drop n (unread ctx f)"
    unfolding unread_def drop_append using len n by (simp add: add.commute)
  show "reader_inv (ctx\<lparr>buffer_pos := buffer_pos ctx + n\<rparr>)"
    using inv n unfolding reader_inv_def by simp linarith
qed

lemma buffered_read_ok:
  assumes "reader_inv ctx" "\<forall>io \<in> set ios. benign io"
    and "buffered_read ctx f ios sz = (r, ctx', ios')"
  shows "if sz \<le> length (unread ctx f)
    then r = Some (take sz (unread ctx f)) \<and> unread ctx' f = drop sz (unread ctx f)
         \<and> reader_inv ctx' \<and> (\<forall>io \<in> set ios'. benign io)
    else r = None"
  using assms
proof (induction sz arbitrary: ctx ios r ctx' ios' rule: less_induct)
  case (less sz)
  show ?case
  proof (cases "sz = 0")
    case True
    then have "buffered_read ctx f ios sz = (Some [], ctx, ios)" by (subst buffered_read.simps) simp
    with True less.prems show ?thesis by simp
  next
    case False
    obtain got ctx1 ios1 where rf:
      "(if buffer_end ctx - buffer_pos ctx = 0 then refill_read_buffer ctx f ios else (True, ctx, ios)) = (got, ctx1, ios1)"
      by (metis prod_cases3)
    have c1: "unread ctx1 f = unread ctx f \<and> reader_inv ctx1 \<and> (\<forall>io \<in> set ios1. benign io)
        \<and> (got \<longrightarrow> buffer_pos ctx1 < buffer_end ctx1) \<and> (\<not> got \<longrightarrow> unread ctx f = [])"
    proof (cases "buffer_end ctx - buffer_pos ctx = 0")
      case True
      then have e: "buffer_pos ctx = buffer_end ctx" using less.prems(1) by (simp add: reader_inv_def)
      have "refill_read_buffer ctx f ios = (got, ctx1, ios1)" using rf True by simp
      from refill_ok[OF less.prems(1) e less.prems(2) this] show ?thesis by blast
    next
      case False
      then show ?thesis using rf less.prems(1,2) by auto
    qed
    define av where "av = buffer_end ctx1 - buffer_pos ctx1"
    define n where "n = (if sz < av then sz else av)"
    have step: "buffered_read ctx f ios sz =
        (case (if buffer_end ctx - buffer_pos ctx = 0 then refill_read_buffer ctx f ios else (True, ctx, ios)) of
           (got, ctx, ios) \<Rightarrow>
             if \<not> got \<or> buffer_end ctx - buffer_pos ctx = 0 then (None, ctx, ios)
             else let to_copy = (if sz < buffer_end ctx - buffer_pos ctx then sz else buffer_end ctx - buffer_pos ctx);
                    bs = take to_copy (drop (buffer_pos ctx) (buffer ctx));
                    (rest, ctx, ios) =
                      buffered_read (ctx\<lparr>buffer_pos := buffer_pos ctx + to_copy\<rparr>) f ios (sz - to_copy)
             in (map_option (\<lambda>r. bs @ r) rest, ctx, ios))"
      using False by (subst buffered_read.simps) (simp only: Let_def simp_thms if_False)
    show ?thesis
    proof (cases got)
      case no: False
      then have "r = None" using step less.prems(3) unfolding rf by simp
      with no c1 False show ?thesis by simp
    next
      case got: True
      then have av: "0 < av" using c1 by (simp add: av_def)
      then have n: "0 < n" "n \<le> sz" "n \<le> av" using False by (auto simp: n_def)
      let ?ctx = "ctx1\<lparr>buffer_pos := buffer_pos ctx1 + n\<rparr>"
      obtain rest ctx2 ios2 where rd: "buffered_read ?ctx f ios1 (sz - n) = (rest, ctx2, ios2)"
        by (metis prod_cases3)
      have inv1: "reader_inv ctx1" using c1 by blast
      note rt = reader_take(1)[where f = f, OF inv1 n(3)[unfolded av_def]] reader_take(2,3)[OF inv1 n(3)[unfolded av_def]]
      have res: "r = map_option (\<lambda>r. take n (unread ctx f) @ r) rest" "ctx' = ctx2" "ios' = ios2"
      proof -
        have "buffered_read ctx f ios sz = (if \<not> got \<or> av = 0 then (None, ctx1, ios1)
            else (case buffered_read ?ctx f ios1 (sz - n) of (rest, ctx, ios) \<Rightarrow>
              (map_option (\<lambda>r. take n (drop (buffer_pos ctx1) (buffer ctx1)) @ r) rest, ctx, ios)))"
          unfolding step rf n_def av_def by (simp only: Let_def prod.case)
        then have "(r, ctx', ios') = (map_option (\<lambda>r. take n (unread ctx f) @ r) rest, ctx2, ios2)"
          using less.prems(3) got av rd rt(1) c1 by simp
        then show "r = map_option (\<lambda>r. take n (unread ctx f) @ r) rest" "ctx' = ctx2" "ios' = ios2"
          by simp_all
      qed
      have "sz - n < sz" using n by simp
      from less.IH[OF this rt(3) _ rd] c1 rt(2)[of f]
      have IH: "if sz - n \<le> length (drop n (unread ctx f))
        then rest = Some (take (sz - n) (drop n (unread ctx f))) \<and> unread ctx2 f = drop (sz - n) (drop n (unread ctx f))
         \<and> reader_inv ctx2 \<and> (\<forall>io \<in> set ios2. benign io)
        else rest = None" by simp
      show ?thesis
      proof (cases "sz \<le> length (unread ctx f)")
        case True
        then have "take n (unread ctx f) @ take (sz - n) (drop n (unread ctx f)) = take sz (unread ctx f)"
          using n(2) by (metis le_add_diff_inverse take_add)
        with True IH res n(2) show ?thesis by simp
      next
        case False
        have "n \<le> length (unread ctx1 f)"
          using n(3) inv1 by (simp add: av_def unread_def reader_inv_def)
        then have "n \<le> length (unread ctx f)" using c1 by simp
        with False IH res n(2) show ?thesis by simp
      qed
    qed
  qed
qed

section \<open>Properties\<close>

text \<open>
  Whatever the size of the buffer, a fresh file ends up with exactly the bytes passed to
  \<open>buffered_write\<close>, in order, once the buffer is flushed; the writer never copies outside its
  buffer. This holds as long as the kernel serves every \<open>pwrite\<close> in full.
\<close>

lemma buffered_writes_reach_file:
  assumes "writer_inv ctx f" "\<forall>io \<in> set ios. io = IoOk"
  shows "\<exists>ctx' f' ios'. buffered_write ctx f ios src = Some (ctx', f', ios')
    \<and> fst (snd (flush_write_buffer ctx' f' ios')) = written_stream ctx f @ src"
proof -
  obtain ctx' f' ios' where w: "buffered_write ctx f ios src = Some (ctx', f', ios')" "writer_inv ctx' f'"
    "written_stream ctx' f' = written_stream ctx f @ src" "\<forall>io \<in> set ios'. io = IoOk"
    using buffered_write_ok[OF assms] by blast
  obtain ctx2 f2 ios2 where fl: "flush_write_buffer ctx' f' ios' = (ctx2, f2, ios2)" by (metis prod_cases3)
  show ?thesis using w flush_write_buffer_ok(3)[OF w(2,4) fl] fl by simp
qed

theorem buffered_writes_reach_file_witness:
  "\<exists>ctx' f' ios'. buffered_write (buffered_io_init [0, 0, 0] 3) [] [] [1, 2, 3, 4, 5, 6, 7] = Some (ctx', f', ios')
    \<and> fst (snd (flush_write_buffer ctx' f' ios')) = [1, 2, 3, 4, 5, 6, 7]"
  using buffered_writes_reach_file[of "buffered_io_init [0, 0, 0] 3" "[]" "[]" "[1, 2, 3, 4, 5, 6, 7]"]
  by (simp add: writer_inv_def buffered_io_init_def written_stream_def)

text \<open>
  \<open>buffered_read\<close> delivers the next bytes of the file exactly when that many are left, also
  when the kernel returns short reads, and otherwise fails.
\<close>

lemma buffered_read_delivers:
  assumes "reader_inv ctx" "\<forall>io \<in> set ios. benign io"
  shows "fst (buffered_read ctx f ios sz)
    = (if sz \<le> length (unread ctx f) then Some (take sz (unread ctx f)) else None)"
proof -
  obtain r ctx' ios' where rd: "buffered_read ctx f ios sz = (r, ctx', ios')" by (metis prod_cases3)
  show ?thesis using buffered_read_ok[OF assms rd] rd by (simp split: if_splits)
qed

theorem buffered_read_delivers_witness:
  "fst (buffered_read (buffered_io_init [0, 0] 2) [1, 2, 3, 4, 5] [IoShort 1] 4) = Some [1, 2, 3, 4]"
  using buffered_read_delivers[of "buffered_io_init [0, 0] 2" "[IoShort 1]" "[1, 2, 3, 4, 5]" 4]
  by (simp add: reader_inv_def buffered_io_init_def unread_def benign_def)

text \<open>
  C30: when the flush of a full buffer fails, the writer takes the whole buffer for free and
  copies past its end.
\<close>

theorem failed_flush_overruns_buffer:
  assumes "buffer_pos ctx = buffer_size ctx" "0 < buffer_size ctx" "src \<noteq> []"
  shows "buffered_write ctx f (IoErr e # ios) src = None"
proof -
  have fl: "flush_write_buffer ctx f (IoErr e # ios) = (ctx, f, ios)"
    using assms(1,2) by (simp add: flush_write_buffer_def pwrite_sys_def)
  let ?n = "if length src < buffer_size ctx then length src else buffer_size ctx"
  have "0 < length (take ?n src)" using assms(2,3) by simp
  then have "buffer_put ctx (take ?n src) = None" using assms(1) by (simp add: buffer_put_def)
  then show ?thesis
    using assms fl by (subst buffered_write.simps) simp
qed

theorem failed_flush_overruns_buffer_witness:
  "buffered_write \<lparr>buffer = [1, 2], buffer_size = 2, buffer_pos = 2, buffer_end = 0, file_offset = 0\<rparr>
     [] [IoErr ENOSPC] [3] = None"
  by (rule failed_flush_overruns_buffer) simp_all

end
