(* ===== verification/Persistence.thy ===== *)
theory Persistence
  imports Codec Buffered_IO
begin

text \<open>
  \<open>src/persistence.c\<close> above the buffered streams: elements with a length prefix, hash tables,
  lists, and the pair of tables that share their values through an array of indices. A hash
  table is given as the list of its entries in the (unspecified) order in which GLib visits
  them. Saving and loading are inverse for every such order.
\<close>

section \<open>Writers and readers of streams\<close>

type_synonym wstate = "BufferedIOCtx \<times> fbytes \<times> io list"

definition healthy :: "io list \<Rightarrow> bool" where
  "healthy ios \<longleftrightarrow> (\<forall>io \<in> set ios. io = IoOk)"

definition put_bytes :: "byte list \<Rightarrow> wstate \<Rightarrow> wstate option" where
  "put_bytes bs = (\<lambda>(ctx, f, ios). buffered_write ctx f ios bs)"

text \<open>A writer that, with a healthy kernel, appends \<open>bs\<close>.\<close>

definition appends :: "(wstate \<Rightarrow> wstate option) \<Rightarrow> byte list \<Rightarrow> bool" where
  "appends w bs \<longleftrightarrow> (\<forall>ctx f ios. writer_inv ctx f \<longrightarrow> healthy ios \<longrightarrow>
     (\<exists>ctx' f' ios'. w (ctx, f, ios) = Some (ctx', f', ios') \<and> writer_inv ctx' f'
        \<and> written_stream ctx' f' = written_stream ctx f @ bs \<and> healthy ios'))"

lemma appendsD:
  "appends w bs \<Longrightarrow> writer_inv ctx f \<Longrightarrow> healthy ios \<Longrightarrow>
     \<exists>ctx' f' ios'. w (ctx, f, ios) = Some (ctx', f', ios') \<and> writer_inv ctx' f'
        \<and> written_stream ctx' f' = written_stream ctx f @ bs \<and> healthy ios'"
  unfolding appends_def by blast

lemma appends_put_bytes: "appends (put_bytes bs) bs"
  unfolding appends_def put_bytes_def healthy_def using buffered_write_ok by fastforce

lemma appends_Some: "appends Some []"
  by (simp add: appends_def)

lemma appends_seq:
  assumes "appends w bs" "appends v cs"
  shows "appends (\<lambda>s. w s \<bind> v) (bs @ cs)"
  unfolding appends_def
proof (intro allI impI)
  fix ctx f ios assume "writer_inv ctx f" "healthy ios"
  then obtain ctx1 f1 ios1 where 1: "w (ctx, f, ios) = Some (ctx1, f1, ios1)" "writer_inv ctx1 f1"
    "written_stream ctx1 f1 = written_stream ctx f @ bs" "healthy ios1"
    using assms(1) unfolding appends_def by blast
  then obtain ctx2 f2 ios2 where "v (ctx1, f1, ios1) = Some (ctx2, f2, ios2)" "writer_inv ctx2 f2"
    "written_stream ctx2 f2 = written_stream ctx1 f1 @ cs" "healthy ios2"
    using assms(2) unfolding appends_def by blast
  with 1 show "\<exists>ctx' f' ios'. w (ctx, f, ios) \<bind> v = Some (ctx', f', ios') \<and> writer_inv ctx' f'
      \<and> written_stream ctx' f' = written_stream ctx f @ bs @ cs \<and> healthy ios'" by simp
qed

lemma appends_ofold:
  assumes "\<And>x. x \<in> set xs \<Longrightarrow> appends (g x) (enc x)"
  shows "appends (ofold g xs) (concat (map enc xs))"
  using assms
proof (induction xs)
  case Nil
  then show ?case by (simp add: appends_def)
next
  case (Cons x xs)
  have "ofold g (x # xs) = (\<lambda>s. g x s \<bind> ofold g xs)"
    by (auto simp: fun_eq_iff bind_eq_Some_conv split: option.splits)
  with Cons appends_seq[of "g x" "enc x" "ofold g xs"] show ?case by simp
qed

text \<open>A reader that takes \<open>bs\<close> off the stream and returns \<open>r\<close>.\<close>

type_synonym 'a reader = "BufferedIOCtx \<Rightarrow> fbytes \<Rightarrow> io list \<Rightarrow> 'a \<times> BufferedIOCtx \<times> io list"

definition consumes :: "'a reader \<Rightarrow> byte list \<Rightarrow> 'a \<Rightarrow> bool" where
  "consumes m bs r \<longleftrightarrow> (\<forall>ctx f ios rest. reader_inv ctx \<longrightarrow> (\<forall>io \<in> set ios. benign io) \<longrightarrow>
     unread ctx f = bs @ rest \<longrightarrow>
     (\<exists>ctx' ios'. m ctx f ios = (r, ctx', ios') \<and> reader_inv ctx' \<and> unread ctx' f = rest
        \<and> (\<forall>io \<in> set ios'. benign io)))"

lemma consumesD:
  "consumes m bs r \<Longrightarrow> reader_inv ctx \<Longrightarrow> \<forall>io \<in> set ios. benign io \<Longrightarrow> unread ctx f = bs @ rest \<Longrightarrow>
     \<exists>ctx' ios'. m ctx f ios = (r, ctx', ios') \<and> reader_inv ctx' \<and> unread ctx' f = rest
        \<and> (\<forall>io \<in> set ios'. benign io)"
  unfolding consumes_def by blast

lemma consumes_read: "length bs = n \<Longrightarrow> consumes (\<lambda>ctx f ios. buffered_read ctx f ios n) bs (Some bs)"
  unfolding consumes_def
proof (intro allI impI)
  fix ctx f ios rest
  assume n: "length bs = n" and i: "reader_inv ctx" "\<forall>io \<in> set ios. benign io" and u: "unread ctx f = bs @ rest"
  obtain r ctx' ios' where rd: "buffered_read ctx f ios n = (r, ctx', ios')" by (metis prod_cases3)
  show "\<exists>ctx' ios'. buffered_read ctx f ios n = (Some bs, ctx', ios') \<and> reader_inv ctx' \<and> unread ctx' f = rest
      \<and> (\<forall>io \<in> set ios'. benign io)"
    using buffered_read_ok[OF i rd] rd u n by simp
qed

section \<open>Elements\<close>

definition write_elem_buffered :: "byte list \<Rightarrow> wstate \<Rightarrow> wstate option" where
  "write_elem_buffered b st = do {
     st \<leftarrow> put_bytes (le_bytes 8 (of_nat (length b) :: u64)) st;
     put_bytes b st
   }"

text \<open>
  \<open>Null\<close> when the stream ends early or the decoder rejects the bytes. The allocation of the
  element's buffer is taken to succeed.
\<close>

definition read_elem_buffered :: "(byte list \<Rightarrow> 'a decoded) \<Rightarrow> 'a decoded reader" where
  "read_elem_buffered decode ctx f ios =
     (let (size, ctx, ios) = buffered_read ctx f ios 8
      in case size of None \<Rightarrow> (Null, ctx, ios)
         | Some sb \<Rightarrow>
             (let (buf, ctx, ios) = buffered_read ctx f ios (unat (le_word sb :: u64))
              in case buf of None \<Rightarrow> (Null, ctx, ios) | Some b \<Rightarrow> (decode b, ctx, ios)))"

definition elem_bytes :: "byte list \<Rightarrow> byte list" where
  "elem_bytes b = le_bytes 8 (of_nat (length b) :: u64) @ b"

lemma appends_elem: "appends (write_elem_buffered b) (elem_bytes b)"
  using appends_seq[OF appends_put_bytes appends_put_bytes]
  by (simp add: write_elem_buffered_def[abs_def] elem_bytes_def)

lemma consumes_elem:
  assumes "length b < 2 ^ 64"
  shows "consumes (read_elem_buffered decode) (elem_bytes b) (decode b)"
  unfolding consumes_def
proof (intro allI impI)
  fix ctx f ios rest
  let ?sb = "le_bytes 8 (of_nat (length b) :: u64)"
  assume i: "reader_inv ctx" "\<forall>io \<in> set ios. benign io" and u: "unread ctx f = elem_bytes b @ rest"
  have len: "unat (le_word ?sb :: u64) = length b" using assms by (simp add: unat_of_nat take_bit_eq_mod)
  have "unread ctx f = ?sb @ (b @ rest)" using u by (simp add: elem_bytes_def)
  from consumesD[OF consumes_read[OF length_le_bytes] i this]
  obtain ctx1 ios1 where 1: "buffered_read ctx f ios 8 = (Some ?sb, ctx1, ios1)" "reader_inv ctx1"
    "unread ctx1 f = b @ rest" "\<forall>io \<in> set ios1. benign io"
    by blast
  obtain ctx2 ios2 where "buffered_read ctx1 f ios1 (length b) = (Some b, ctx2, ios2)" "reader_inv ctx2"
    "unread ctx2 f = rest" "\<forall>io \<in> set ios2. benign io"
    using consumesD[OF consumes_read[OF refl] 1(2,4,3)] by blast
  moreover have "unat (of_nat (length b) :: u64) = length b" using len by simp
  ultimately show "\<exists>ctx' ios'. read_elem_buffered decode ctx f ios = (decode b, ctx', ios') \<and> reader_inv ctx'
      \<and> unread ctx' f = rest \<and> (\<forall>io \<in> set ios'. benign io)"
    using 1(1) by (simp add: read_elem_buffered_def)
qed

section \<open>Files\<close>

definition BUFFER_SIZE :: nat where
  "BUFFER_SIZE = 10485760"

text \<open>
  What every save does around its writes: open and truncate (\<open>open_ok\<close>), allocate a context
  (\<open>mem\<close> is what \<open>malloc\<close> left in the buffer), flush, close. A file that cannot be opened keeps
  its bytes.
\<close>

definition save_file ::
  "bool \<Rightarrow> byte list \<Rightarrow> fbytes \<Rightarrow> (wstate \<Rightarrow> wstate option) \<Rightarrow> io list \<Rightarrow> (fbytes \<times> io list) option" where
  "save_file open_ok mem old w ios =
     (if \<not> open_ok then Some (old, ios)
      else do {
        (ctx, f, ios) \<leftarrow> w (buffered_io_init mem BUFFER_SIZE, [], ios);
        let (ctx, f, ios) = flush_write_buffer ctx f ios;
        Some (f, ios)
      })"

lemma save_file_ok:
  assumes w: "appends w bs" and mem: "length mem = BUFFER_SIZE" and ios: "healthy ios"
  shows "\<exists>ios'. save_file True mem old w ios = Some (bs, ios') \<and> healthy ios'"
proof -
  let ?ctx = "buffered_io_init mem BUFFER_SIZE"
  have "writer_inv ?ctx []" "written_stream ?ctx [] = []"
    using mem by (simp_all add: writer_inv_def buffered_io_init_def written_stream_def BUFFER_SIZE_def)
  then obtain ctx1 f1 ios1 where 1: "w (?ctx, [], ios) = Some (ctx1, f1, ios1)" "writer_inv ctx1 f1"
    "written_stream ctx1 f1 = bs" "healthy ios1"
    using appendsD[OF w _ ios] by (metis append_Nil)
  obtain ctx2 f2 ios2 where fl: "flush_write_buffer ctx1 f1 ios1 = (ctx2, f2, ios2)" by (metis prod_cases3)
  have "f2 = bs" "healthy ios2"
    using flush_write_buffer_ok[OF 1(2) _ fl] 1(3,4) by (simp_all add: healthy_def)
  with 1 fl show ?thesis by (simp add: save_file_def)
qed

text \<open>The count a file starts with: an \<open>int\<close>.\<close>

definition count_bytes :: "nat \<Rightarrow> byte list" where
  "count_bytes n = le_bytes 4 (of_nat n :: 32 word)"

definition read_count :: "int option reader" where
  "read_count ctx f ios =
     (let (b, ctx, ios) = buffered_read ctx f ios 4
      in (map_option (\<lambda>b. sint (le_word b :: 32 word)) b, ctx, ios))"

lemma consumes_count:
  assumes "n < 2 ^ 31"
  shows "consumes read_count (count_bytes n) (Some (int n))"
  unfolding consumes_def
proof (intro allI impI)
  fix ctx f ios rest
  assume i: "reader_inv ctx" "\<forall>io \<in> set ios. benign io" and u: "unread ctx f = count_bytes n @ rest"
  have "length (count_bytes n) = 4" by (simp add: count_bytes_def)
  from consumesD[OF consumes_read[OF this] i u]
  obtain ctx' ios' where "buffered_read ctx f ios 4 = (Some (count_bytes n), ctx', ios')" "reader_inv ctx'"
    "unread ctx' f = rest" "\<forall>io \<in> set ios'. benign io" by blast
  moreover have "sint (le_word (count_bytes n) :: 32 word) = int n"
    using int_of_size_small[OF assms] by (simp add: count_bytes_def int_of_size_def)
  ultimately show "\<exists>ctx' ios'. read_count ctx f ios = (Some (int n), ctx', ios') \<and> reader_inv ctx'
      \<and> unread ctx' f = rest \<and> (\<forall>io \<in> set ios'. benign io)"
    by (simp add: read_count_def)
qed

section \<open>Hash tables\<close>

text \<open>The entries are visited in the order of \<open>ht\<close>.\<close>

definition save_entry ::
  "('k \<Rightarrow> byte list) \<Rightarrow> ('v \<Rightarrow> byte list) \<Rightarrow> 'k \<times> 'v \<Rightarrow> wstate \<Rightarrow> wstate option" where
  "save_entry encode_key encode_val = (\<lambda>(key, val) st. do {
     st \<leftarrow> write_elem_buffered (encode_key key) st;
     write_elem_buffered (encode_val val) st
   })"

definition ghash_save ::
  "bool \<Rightarrow> byte list \<Rightarrow> fbytes \<Rightarrow> ('k \<times> 'v) list \<Rightarrow> ('k \<Rightarrow> byte list) \<Rightarrow> ('v \<Rightarrow> byte list) \<Rightarrow> io list
   \<Rightarrow> (fbytes \<times> io list) option" where
  "ghash_save open_ok mem old ht encode_key encode_val ios =
     save_file open_ok mem old (\<lambda>st. do {
       st \<leftarrow> put_bytes (count_bytes (length ht)) st;
       ofold (save_entry encode_key encode_val) ht st
     }) ios"

text \<open>
  The loading loop: both elements are read before either is checked. \<open>None\<close>: a decoder read
  outside its buffer.
\<close>

primrec load_entries ::
  "nat \<Rightarrow> (byte list \<Rightarrow> 'k decoded) \<Rightarrow> (byte list \<Rightarrow> 'v decoded) \<Rightarrow> BufferedIOCtx \<Rightarrow> fbytes \<Rightarrow> io list
   \<Rightarrow> ('k \<rightharpoonup> 'v) \<Rightarrow> (('k \<rightharpoonup> 'v) \<times> io list) option" where
  "load_entries 0 decode_key decode_val ctx f ios ht = Some (ht, ios)"
| "load_entries (Suc n) decode_key decode_val ctx f ios ht =
     (let (key, ctx, ios) = read_elem_buffered decode_key ctx f ios;
          (val, ctx, ios) = read_elem_buffered decode_val ctx f ios
      in case (key, val) of
           (Undefined, _) \<Rightarrow> None
         | (_, Undefined) \<Rightarrow> None
         | (Decoded k, Decoded v) \<Rightarrow> load_entries n decode_key decode_val ctx f ios (ht(k \<mapsto> v))
         | _ \<Rightarrow> Some (ht, ios))"

definition ghash_load ::
  "bool \<Rightarrow> byte list \<Rightarrow> fbytes \<Rightarrow> (byte list \<Rightarrow> 'k decoded) \<Rightarrow> (byte list \<Rightarrow> 'v decoded) \<Rightarrow> io list
   \<Rightarrow> (('k \<rightharpoonup> 'v) \<times> io list) option" where
  "ghash_load open_ok mem f decode_key decode_val ios =
     (if \<not> open_ok then Some (Map.empty, ios)
      else let (n, ctx, ios) = read_count (buffered_io_init mem BUFFER_SIZE) f ios
           in case n of None \<Rightarrow> Some (Map.empty, ios)
              | Some n \<Rightarrow> load_entries (nat n) decode_key decode_val ctx f ios Map.empty)"

text \<open>The bytes of a saved table.\<close>

definition table_bytes :: "('k \<Rightarrow> byte list) \<Rightarrow> ('v \<Rightarrow> byte list) \<Rightarrow> ('k \<times> 'v) list \<Rightarrow> byte list" where
  "table_bytes ek ev kvs = count_bytes (length kvs)
     @ concat (map (\<lambda>(k, v). elem_bytes (ek k) @ elem_bytes (ev v)) kvs)"

lemma appends_save_entry: "appends (save_entry ek ev kv) (case kv of (k, v) \<Rightarrow> elem_bytes (ek k) @ elem_bytes (ev v))"
  using appends_seq[OF appends_elem appends_elem] by (simp add: save_entry_def split: prod.splits)

lemma ghash_save_bytes:
  assumes "length mem = BUFFER_SIZE" "healthy ios"
  shows "\<exists>ios'. ghash_save True mem old kvs ek ev ios = Some (table_bytes ek ev kvs, ios') \<and> healthy ios'"
proof -
  have "appends (\<lambda>st. put_bytes (count_bytes (length kvs)) st \<bind> ofold (save_entry ek ev) kvs) (table_bytes ek ev kvs)"
    unfolding table_bytes_def by (rule appends_seq[OF appends_put_bytes appends_ofold[OF appends_save_entry]])
  from save_file_ok[OF this assms, of old] show ?thesis by (simp add: ghash_save_def)
qed

text \<open>A context on a freshly opened file sees the whole file.\<close>

lemma fresh_reader:
  assumes "length mem = BUFFER_SIZE"
  shows "reader_inv (buffered_io_init mem BUFFER_SIZE)" "unread (buffered_io_init mem BUFFER_SIZE) f = f"
  by (simp_all add: reader_inv_def buffered_io_init_def unread_def BUFFER_SIZE_def)

section \<open>Round trip of a table\<close>

locale table_codec = k: codec okk enck deck + v: codec okv encv decv
  for okk :: "'k \<Rightarrow> bool" and enck deck and okv :: "'v \<Rightarrow> bool" and encv decv
begin

lemma load_entries_bytes:
  assumes "\<forall>(k, v) \<in> set kvs. okk k \<and> okv v"
    and "reader_inv ctx" "\<forall>io \<in> set ios. benign io"
    and "unread ctx f = concat (map (\<lambda>(k, v). elem_bytes (enck k) @ elem_bytes (encv v)) kvs) @ rest"
  shows "\<exists>ios'. load_entries (length kvs) deck decv ctx f ios ht = Some (ht ++ map_of (rev kvs), ios')
    \<and> (\<forall>io \<in> set ios'. benign io)"
  using assms
proof (induction kvs arbitrary: ctx ios ht)
  case Nil
  then show ?case by simp
next
  case (Cons kv kvs)
  obtain k v where kv: "kv = (k, v)" by fastforce
  have ok: "okk k" "okv v" using Cons.prems(1) kv by simp_all
  have small: "length (enck k) < 2 ^ 64" "length (encv v) < 2 ^ 64"
    using k.enc_int[OF ok(1)] v.enc_int[OF ok(2)] by simp_all
  let ?tl = "concat (map (\<lambda>(k, v). elem_bytes (enck k) @ elem_bytes (encv v)) kvs) @ rest"
  have u: "unread ctx f = elem_bytes (enck k) @ (elem_bytes (encv v) @ ?tl)" using Cons.prems(4) kv by simp
  from consumesD[OF consumes_elem[OF small(1)] Cons.prems(2,3) this]
  obtain ctx1 ios1 where 1: "read_elem_buffered deck ctx f ios = (deck (enck k), ctx1, ios1)"
    "reader_inv ctx1" "unread ctx1 f = elem_bytes (encv v) @ ?tl" "\<forall>io \<in> set ios1. benign io" by blast
  from consumesD[OF consumes_elem[OF small(2)] 1(2,4,3)]
  obtain ctx2 ios2 where 2: "read_elem_buffered decv ctx1 f ios1 = (decv (encv v), ctx2, ios2)"
    "reader_inv ctx2" "unread ctx2 f = ?tl" "\<forall>io \<in> set ios2. benign io" by blast
  have "\<exists>ios'. load_entries (length kvs) deck decv ctx2 f ios2 (ht(k \<mapsto> v)) = Some (ht(k \<mapsto> v) ++ map_of (rev kvs), ios')
      \<and> (\<forall>io \<in> set ios'. benign io)"
    by (rule Cons.IH) (use Cons.prems(1) 2 in auto)
  moreover have upd: "ht ++ ([k \<mapsto> v] ++ map_of (rev kvs)) = ht(k \<mapsto> v) ++ map_of (rev kvs)"
    unfolding map_add_assoc by simp
  ultimately show ?case
    using 1(1) 2(1) k.dec_enc[OF ok(1)] v.dec_enc[OF ok(2)] kv upd by simp
qed

lemma ghash_load_bytes:
  assumes ok: "\<forall>(k, v) \<in> set kvs. okk k \<and> okv v" and d: "distinct (map fst kvs)" and n: "length kvs < 2 ^ 31"
    and mem: "length mem = BUFFER_SIZE" and ios: "\<forall>io \<in> set ios. benign io"
  shows "\<exists>ios'. ghash_load True mem (table_bytes enck encv kvs) deck decv ios = Some (map_of kvs, ios')
    \<and> (\<forall>io \<in> set ios'. benign io)"
proof -
  let ?ctx = "buffered_io_init mem BUFFER_SIZE" and ?f = "table_bytes enck encv kvs"
  let ?tl = "concat (map (\<lambda>(k, v). elem_bytes (enck k) @ elem_bytes (encv v)) kvs)"
  have "unread ?ctx ?f = count_bytes (length kvs) @ ?tl"
    unfolding fresh_reader(2)[OF mem] table_bytes_def ..
  from consumesD[OF consumes_count[OF n] fresh_reader(1)[OF mem] ios this]
  obtain ctx1 ios1 where 1: "read_count ?ctx ?f ios = (Some (int (length kvs)), ctx1, ios1)" "reader_inv ctx1"
    "unread ctx1 ?f = ?tl" "\<forall>io \<in> set ios1. benign io" by blast
  have "unread ctx1 ?f = ?tl @ []" using 1(3) by simp
  from load_entries_bytes[OF ok 1(2,4) this, of Map.empty]
  obtain ios' where l: "load_entries (length kvs) deck decv ctx1 ?f ios1 Map.empty = Some (map_of (rev kvs), ios')"
    "\<forall>io \<in> set ios'. benign io" by auto
  have "map_of (rev kvs) = map_of kvs" using d by (intro map_of_eqI) (auto simp: map_of_eq_Some_iff rev_map[symmetric])
  with 1(1) l show ?thesis by (simp add: ghash_load_def)
qed

end

interpretation sizes_table: table_codec ok_path encode_str decode_str "\<lambda>_. True" encode_size decode_size ..

interpretation hash_idx_table: table_codec "\<lambda>h. length h = HASH_SIZE" encode_hash decode_hash
  "\<lambda>_. True" encode_size_elem decode_size_elem ..

interpretation block_idx_table: table_codec "\<lambda>b. ok_path (bi_path b)" encode_block_indice decode_block_indice
  "\<lambda>_. True" encode_size_elem decode_size_elem ..

end
