(* ===== verification/Persistence_Pair.thy ===== *)
theory Persistence_Pair
  imports Persistence
begin

text \<open>
  The rest of \<open>src/persistence.c\<close>: lists and arrays of elements, and the two tables that share
  their values. The values are numbered in the order in which the two tables are visited, the
  numbers go into the table files and the values into a third one.
\<close>

section \<open>Lists and arrays\<close>

definition gslist_save ::
  "bool \<Rightarrow> byte list \<Rightarrow> fbytes \<Rightarrow> 'a list \<Rightarrow> ('a \<Rightarrow> byte list) \<Rightarrow> io list \<Rightarrow> (fbytes \<times> io list) option" where
  "gslist_save open_ok mem old list encode_elem ios =
     save_file open_ok mem old (\<lambda>st. do {
       st \<leftarrow> put_bytes (count_bytes (length list)) st;
       ofold (\<lambda>x. write_elem_buffered (encode_elem x)) list st
     }) ios"

definition save_values_array ::
  "bool \<Rightarrow> byte list \<Rightarrow> fbytes \<Rightarrow> 'a list \<Rightarrow> ('a \<Rightarrow> byte list) \<Rightarrow> io list \<Rightarrow> (fbytes \<times> io list) option" where
  "save_values_array open_ok mem old values encode_value ios =
     save_file open_ok mem old (\<lambda>st. do {
       st \<leftarrow> put_bytes (count_bytes (length values)) st;
       ofold (\<lambda>x. write_elem_buffered (encode_value x)) values st
     }) ios"

text \<open>Reading stops at the first element that is missing or rejected; the elements are appended.\<close>

primrec load_elems ::
  "nat \<Rightarrow> (byte list \<Rightarrow> 'a decoded) \<Rightarrow> BufferedIOCtx \<Rightarrow> fbytes \<Rightarrow> io list \<Rightarrow> 'a list \<Rightarrow> ('a list \<times> io list) option" where
  "load_elems 0 decode ctx f ios acc = Some (acc, ios)"
| "load_elems (Suc n) decode ctx f ios acc =
     (let (elem, ctx, ios) = read_elem_buffered decode ctx f ios
      in case elem of
           Undefined \<Rightarrow> None
         | Null \<Rightarrow> Some (acc, ios)
         | Decoded x \<Rightarrow> load_elems n decode ctx f ios (acc @ [x]))"

definition gslist_load ::
  "bool \<Rightarrow> byte list \<Rightarrow> fbytes \<Rightarrow> (byte list \<Rightarrow> 'a decoded) \<Rightarrow> io list \<Rightarrow> ('a list \<times> io list) option" where
  "gslist_load open_ok mem f decode_elem ios =
     (if \<not> open_ok then Some ([], ios)
      else let (n, ctx, ios) = read_count (buffered_io_init mem BUFFER_SIZE) f ios
           in case n of None \<Rightarrow> Some ([], ios)
              | Some n \<Rightarrow> load_elems (nat n) decode_elem ctx f ios [])"

definition load_values_array ::
  "bool \<Rightarrow> byte list \<Rightarrow> fbytes \<Rightarrow> (byte list \<Rightarrow> 'a decoded) \<Rightarrow> io list \<Rightarrow> ('a list \<times> io list) option" where
  "load_values_array open_ok mem f decode_value ios =
     (if \<not> open_ok then Some ([], ios)
      else let (n, ctx, ios) = read_count (buffered_io_init mem BUFFER_SIZE) f ios
           in case n of None \<Rightarrow> Some ([], ios)
              | Some n \<Rightarrow> load_elems (nat n) decode_value ctx f ios [])"

definition list_bytes :: "('a \<Rightarrow> byte list) \<Rightarrow> 'a list \<Rightarrow> byte list" where
  "list_bytes enc xs = count_bytes (length xs) @ concat (map (\<lambda>x. elem_bytes (enc x)) xs)"

lemma list_save_bytes:
  assumes "length mem = BUFFER_SIZE" "healthy ios"
  shows "\<exists>ios'. gslist_save True mem old xs enc ios = Some (list_bytes enc xs, ios') \<and> healthy ios'"
    and "\<exists>ios'. save_values_array True mem old xs enc ios = Some (list_bytes enc xs, ios') \<and> healthy ios'"
proof -
  have "appends (\<lambda>st. put_bytes (count_bytes (length xs)) st \<bind> ofold (\<lambda>x. write_elem_buffered (enc x)) xs)
      (list_bytes enc xs)"
    unfolding list_bytes_def by (rule appends_seq[OF appends_put_bytes appends_ofold[OF appends_elem]])
  from save_file_ok[OF this assms, of old]
  show "\<exists>ios'. gslist_save True mem old xs enc ios = Some (list_bytes enc xs, ios') \<and> healthy ios'"
    "\<exists>ios'. save_values_array True mem old xs enc ios = Some (list_bytes enc xs, ios') \<and> healthy ios'"
    by (simp_all add: gslist_save_def save_values_array_def)
qed

lemma load_elems_bytes:
  assumes "\<forall>x \<in> set xs. dec (enc x) = Decoded (g x) \<and> length (enc x) < 2 ^ 31"
    and "reader_inv ctx" "\<forall>io \<in> set ios. benign io"
    and "unread ctx f = concat (map (\<lambda>x. elem_bytes (enc x)) xs) @ rest"
  shows "\<exists>ios'. load_elems (length xs) dec ctx f ios acc = Some (acc @ map g xs, ios') \<and> (\<forall>io \<in> set ios'. benign io)"
  using assms
proof (induction xs arbitrary: ctx ios acc)
  case Nil
  then show ?case by simp
next
  case (Cons x xs)
  have small: "length (enc x) < 2 ^ 64" using Cons.prems(1) by simp
  have u: "unread ctx f = elem_bytes (enc x) @ (concat (map (\<lambda>x. elem_bytes (enc x)) xs) @ rest)"
    using Cons.prems(4) by simp
  from consumesD[OF consumes_elem[OF small] Cons.prems(2,3) this]
  obtain ctx1 ios1 where 1: "read_elem_buffered dec ctx f ios = (dec (enc x), ctx1, ios1)"
    "reader_inv ctx1" "unread ctx1 f = concat (map (\<lambda>x. elem_bytes (enc x)) xs) @ rest"
    "\<forall>io \<in> set ios1. benign io" by blast
  have "\<exists>ios'. load_elems (length xs) dec ctx1 f ios1 (acc @ [g x]) = Some ((acc @ [g x]) @ map g xs, ios')
      \<and> (\<forall>io \<in> set ios'. benign io)"
    by (rule Cons.IH) (use Cons.prems(1) 1 in auto)
  with 1(1) Cons.prems(1) show ?case by simp
qed

lemma list_load_bytes:
  assumes ok: "\<forall>x \<in> set xs. dec (enc x) = Decoded (g x) \<and> length (enc x) < 2 ^ 31" and n: "length xs < 2 ^ 31"
    and mem: "length mem = BUFFER_SIZE" and ios: "\<forall>io \<in> set ios. benign io"
  shows "\<exists>ios'. gslist_load True mem (list_bytes enc xs) dec ios = Some (map g xs, ios') \<and> (\<forall>io \<in> set ios'. benign io)"
    and "\<exists>ios'. load_values_array True mem (list_bytes enc xs) dec ios = Some (map g xs, ios') \<and> (\<forall>io \<in> set ios'. benign io)"
proof -
  let ?ctx = "buffered_io_init mem BUFFER_SIZE" and ?f = "list_bytes enc xs"
  let ?tl = "concat (map (\<lambda>x. elem_bytes (enc x)) xs)"
  have "unread ?ctx ?f = count_bytes (length xs) @ ?tl"
    unfolding fresh_reader(2)[OF mem] list_bytes_def ..
  from consumesD[OF consumes_count[OF n] fresh_reader(1)[OF mem] ios this]
  obtain ctx1 ios1 where 1: "read_count ?ctx ?f ios = (Some (int (length xs)), ctx1, ios1)" "reader_inv ctx1"
    "unread ctx1 ?f = ?tl" "\<forall>io \<in> set ios1. benign io" by blast
  have "unread ctx1 ?f = ?tl @ []" using 1(3) by simp
  from load_elems_bytes[OF ok 1(2,4) this, of "[]"] 1(1)
  show "\<exists>ios'. gslist_load True mem (list_bytes enc xs) dec ios = Some (map g xs, ios') \<and> (\<forall>io \<in> set ios'. benign io)"
    "\<exists>ios'. load_values_array True mem (list_bytes enc xs) dec ios = Some (map g xs, ios') \<and> (\<forall>io \<in> set ios'. benign io)"
    by (auto simp: gslist_load_def load_values_array_def)
qed

context codec
begin

lemma list_roundtrip:
  assumes "\<forall>x \<in> set xs. ok x" "length xs < 2 ^ 31" "length mem = BUFFER_SIZE" "\<forall>io \<in> set ios. benign io"
  shows "\<exists>ios'. gslist_load True mem (list_bytes enc xs) dec ios = Some (xs, ios') \<and> (\<forall>io \<in> set ios'. benign io)"
  using list_load_bytes(1)[where g = id, OF _ assms(2-4), of dec enc] assms(1) dec_enc enc_int by simp

end

section \<open>Numbering the values\<close>

text \<open>
  The state: \<open>value_to_index\<close> (which holds index + 1, so that 0 is free to mean "absent") and
  the array \<open>values\<close>. Result: the index, and the state.
\<close>

definition get_or_create_value_index ::
  "(ptr \<rightharpoonup> nat) \<times> ptr list \<Rightarrow> ptr \<Rightarrow> nat \<times> (ptr \<rightharpoonup> nat) \<times> ptr list" where
  "get_or_create_value_index = (\<lambda>(value_to_index, values) value.
     (case value_to_index value of
        Some existing \<Rightarrow> (existing - 1, value_to_index, values)
      | None \<Rightarrow> (let idx = length values
                in (idx, value_to_index(value \<mapsto> idx + 1), values @ [value]))))"

definition collect_value_index ::
  "'k \<times> ptr \<Rightarrow> (ptr \<rightharpoonup> nat) \<times> ptr list \<Rightarrow> (ptr \<rightharpoonup> nat) \<times> ptr list" where
  "collect_value_index = (\<lambda>(key, value) st. snd (get_or_create_value_index st value))"

definition save_indexed_entry ::
  "(ptr \<rightharpoonup> nat) \<Rightarrow> ('k \<Rightarrow> byte list) \<Rightarrow> 'k \<times> ptr \<Rightarrow> wstate \<Rightarrow> wstate option" where
  "save_indexed_entry value_to_index encode_key = (\<lambda>(key, value) st.
     (case value_to_index value of
        None \<Rightarrow> Some st
      | Some stored \<Rightarrow>
          do {
            let idx = stored - 1;
            st \<leftarrow> write_elem_buffered (encode_key key) st;
            write_elem_buffered (encode_size_elem (of_nat idx)) st
          }))"

text \<open>
  \<open>ghash_save_indexed_pair\<close>. \<open>fd1\<close>, \<open>fd2\<close>, \<open>fdv\<close> say which files can be opened; the first table
  file is truncated before the second is opened. Result: the files of table 1, table 2 and the
  values.
\<close>

definition ghash_save_indexed_pair ::
  "bool \<times> bool \<times> bool \<Rightarrow> byte list \<Rightarrow> fbytes \<times> fbytes \<times> fbytes \<Rightarrow> ('k1 \<times> ptr) list \<Rightarrow> ('k2 \<times> ptr) list
   \<Rightarrow> ('k1 \<Rightarrow> byte list) \<Rightarrow> ('k2 \<Rightarrow> byte list) \<Rightarrow> (ptr \<Rightarrow> byte list) \<Rightarrow> io list
   \<Rightarrow> ((fbytes \<times> fbytes \<times> fbytes) \<times> io list) option" where
  "ghash_save_indexed_pair opens mem old table1 table2 encode_key1 encode_key2 encode_value ios =
     (let (fd1, fd2, fdv) = opens; (old1, old2, oldv) = old;
          st = fold collect_value_index table1 (Map.empty, []);
          (value_to_index, values) = fold collect_value_index table2 st
      in if \<not> fd1 then Some ((old1, old2, oldv), ios)
         else if \<not> fd2 then Some (([], old2, oldv), ios)
         else do {
           (fv, ios) \<leftarrow> save_values_array fdv mem oldv values encode_value ios;
           (f1, ios) \<leftarrow> save_file True mem old1 (\<lambda>st. do {
               st \<leftarrow> put_bytes (count_bytes (length table1)) st;
               ofold (save_indexed_entry value_to_index encode_key1) table1 st }) ios;
           (f2, ios) \<leftarrow> save_file True mem old2 (\<lambda>st. do {
               st \<leftarrow> put_bytes (count_bytes (length table2)) st;
               ofold (save_indexed_entry value_to_index encode_key2) table2 st }) ios;
           Some ((f1, f2, fv), ios)
         })"

text \<open>
  \<open>ghash_load_indexed_pair\<close>: the tables map keys to positions in \<open>values\<close>, whose objects both
  tables share; entries with an index out of range are dropped.
\<close>

definition resolve_indices :: "nat \<Rightarrow> ('k \<rightharpoonup> u64) \<Rightarrow> 'k \<rightharpoonup> nat" where
  "resolve_indices values_len table_idx = (\<lambda>key.
     (case table_idx key of
        None \<Rightarrow> None
      | Some idx \<Rightarrow> if unat idx \<ge> values_len then None else Some (unat idx)))"

definition ghash_load_indexed_pair ::
  "bool \<Rightarrow> byte list \<Rightarrow> fbytes \<times> fbytes \<times> fbytes \<Rightarrow> (byte list \<Rightarrow> 'k1 decoded) \<Rightarrow> (byte list \<Rightarrow> 'k2 decoded)
   \<Rightarrow> (byte list \<Rightarrow> 'v decoded) \<Rightarrow> io list
   \<Rightarrow> (('k1 \<rightharpoonup> nat) \<times> ('k2 \<rightharpoonup> nat) \<times> 'v list \<times> io list) option" where
  "ghash_load_indexed_pair open_ok mem files decode_key1 decode_key2 decode_value ios =
     (let (f1, f2, fv) = files
      in do {
        (values, ios) \<leftarrow> load_values_array open_ok mem fv decode_value ios;
        (table1_idx, ios) \<leftarrow> ghash_load open_ok mem f1 decode_key1 decode_size_elem ios;
        (table2_idx, ios) \<leftarrow> ghash_load open_ok mem f2 decode_key2 decode_size_elem ios;
        Some (resolve_indices (length values) table1_idx, resolve_indices (length values) table2_idx, values, ios)
      })"

section \<open>The numbering is a bijection\<close>

definition numbering :: "(ptr \<rightharpoonup> nat) \<times> ptr list \<Rightarrow> bool" where
  "numbering = (\<lambda>(m, vs). distinct vs \<and> (\<forall>p i. m p = Some i \<longleftrightarrow> 0 < i \<and> i \<le> length vs \<and> vs ! (i - 1) = p))"

lemma numbering_empty: "numbering (Map.empty, [])"
  by (simp add: numbering_def)

lemma numbering_iff:
  "numbering (m, vs) \<Longrightarrow> m p = Some i \<longleftrightarrow> 0 < i \<and> i \<le> length vs \<and> vs ! (i - 1) = p"
  unfolding numbering_def prod.case by blast

lemma numbering_dom: "numbering (m, vs) \<Longrightarrow> dom m = set vs"
proof (intro set_eqI iffI)
  fix p assume n: "numbering (m, vs)"
  show "p \<in> set vs" if "p \<in> dom m"
  proof -
    from \<open>p \<in> dom m\<close> obtain i where "m p = Some i" by (auto simp: dom_def)
    then have "i - 1 < length vs" "vs ! (i - 1) = p" using numbering_iff[OF n, of p i] by auto
    then show ?thesis by (metis nth_mem)
  qed
  show "p \<in> dom m" if "p \<in> set vs"
  proof -
    from \<open>p \<in> set vs\<close> obtain j where "j < length vs" "vs ! j = p" unfolding in_set_conv_nth by blast
    then have "m p = Some (Suc j)" using numbering_iff[OF n, of p "Suc j"] by simp
    then show ?thesis by (rule domI)
  qed
qed

lemma collect_numbering:
  assumes "numbering st"
  shows "numbering (collect_value_index kv st) \<and> set (snd (collect_value_index kv st)) = insert (snd kv) (set (snd st))"
proof -
  obtain m vs k p where st: "st = (m, vs)" and kv: "kv = (k, p)" by (metis surj_pair)
  note n = assms[unfolded st]
  show ?thesis
  proof (cases "m p")
    case (Some i)
    then have "p \<in> set vs" using numbering_dom[OF n] by blast
    with n Some show ?thesis
      by (auto simp: st kv collect_value_index_def get_or_create_value_index_def)
  next
    case None
    then have p: "p \<notin> set vs" using numbering_dom[OF n] by blast
    have "numbering (m(p \<mapsto> length vs + 1), vs @ [p])"
      unfolding numbering_def prod.case
    proof (intro conjI allI)
      show "distinct (vs @ [p])" using n p by (simp add: numbering_def)
      fix q i
      have old: "m q = Some i \<longleftrightarrow> 0 < i \<and> i \<le> length vs \<and> vs ! (i - 1) = q"
        by (rule numbering_iff[OF n])
      show "(m(p \<mapsto> length vs + 1)) q = Some i \<longleftrightarrow>
          0 < i \<and> i \<le> length (vs @ [p]) \<and> (vs @ [p]) ! (i - 1) = q"
      proof (cases "i = length vs + 1")
        case True
        then show ?thesis using old p by auto
      next
        case False
        have "vs ! (i - 1) \<noteq> p" if "0 < i" "i \<le> length vs"
          using p that by (metis Suc_diff_1 Suc_le_lessD nth_mem)
        with False old show ?thesis by (auto simp: nth_append)
      qed
    qed
    with None show ?thesis
      by (auto simp: st kv collect_value_index_def get_or_create_value_index_def Let_def)
  qed
qed

lemma collect_all:
  assumes "numbering st"
  shows "numbering (fold collect_value_index kvs st)
    \<and> set (snd (fold collect_value_index kvs st)) = set (snd st) \<union> snd ` set kvs"
  using assms
proof (induction kvs arbitrary: st)
  case Nil
  then show ?case by simp
next
  case (Cons kv kvs)
  note c = collect_numbering[OF Cons.prems, of kv]
  show ?case using Cons.IH[of "collect_value_index kv st"] c by auto
qed

section \<open>Round trip of the pair\<close>

text \<open>The number the loader gives to the object \<open>p\<close>.\<close>

definition number_of :: "(ptr \<rightharpoonup> nat) \<Rightarrow> ptr \<Rightarrow> nat" where
  "number_of m p = the (m p) - 1"

lemma number_of_numbering:
  assumes "numbering (m, vs)" "p \<in> set vs"
  shows "number_of m p < length vs" "vs ! number_of m p = p" "m p = Some (Suc (number_of m p))"
proof -
  obtain i where i: "m p = Some i" using numbering_dom[OF assms(1)] assms(2) by blast
  have "0 < i \<and> i \<le> length vs \<and> vs ! (i - 1) = p"
    using i numbering_iff[OF assms(1), of p i] by simp
  moreover have "number_of m p = i - 1" using i by (simp add: number_of_def)
  ultimately show "number_of m p < length vs" "vs ! number_of m p = p" "m p = Some (Suc (number_of m p))"
    using i by auto
qed

abbreviation indexed_entries :: "(ptr \<rightharpoonup> nat) \<Rightarrow> ('k \<times> ptr) list \<Rightarrow> ('k \<times> u64) list" where
  "indexed_entries m kvs \<equiv> map (\<lambda>(k, p). (k, of_nat (number_of m p))) kvs"

lemma indexed_save_bytes:
  assumes nb: "numbering (m, vs)" and all: "snd ` set kvs \<subseteq> set vs"
    and mem: "length mem = BUFFER_SIZE" and ios: "healthy ios"
  shows "\<exists>ios'. save_file True mem old (\<lambda>st. do {
      st \<leftarrow> put_bytes (count_bytes (length kvs)) st;
      ofold (save_indexed_entry m ek) kvs st }) ios
    = Some (table_bytes ek encode_size_elem (indexed_entries m kvs), ios') \<and> healthy ios'"
proof -
  have entry: "appends (save_indexed_entry m ek kv)
      (case kv of (k, p) \<Rightarrow> elem_bytes (ek k) @ elem_bytes (encode_size_elem (of_nat (number_of m p))))"
    if kv: "kv \<in> set kvs" for kv
  proof -
    obtain k p where kp: "kv = (k, p)" by fastforce
    then have "p \<in> set vs" using all kv by force
    then have "m p = Some (Suc (number_of m p))" using number_of_numbering[OF nb] by blast
    then have "save_indexed_entry m ek kv =
        (\<lambda>st. write_elem_buffered (ek k) st \<bind> write_elem_buffered (encode_size_elem (of_nat (number_of m p))))"
      by (simp add: save_indexed_entry_def kp fun_eq_iff)
    then show ?thesis using appends_seq[OF appends_elem appends_elem] kp by simp
  qed
  have "concat (map (\<lambda>kv. case kv of (k, p) \<Rightarrow> elem_bytes (ek k) @ elem_bytes (encode_size_elem (of_nat (number_of m p)))) kvs)
      = concat (map (\<lambda>(k, v). elem_bytes (ek k) @ elem_bytes (encode_size_elem v)) (indexed_entries m kvs))"
    by (simp add: comp_def case_prod_beta)
  moreover note appends_seq[OF appends_put_bytes[of "count_bytes (length kvs)"] appends_ofold[OF entry, of kvs "\<lambda>x. x"]]
  ultimately have "appends (\<lambda>st. put_bytes (count_bytes (length kvs)) st \<bind> ofold (save_indexed_entry m ek) kvs)
      (table_bytes ek encode_size_elem (indexed_entries m kvs))"
    unfolding table_bytes_def by (simp only: length_map)
  from save_file_ok[OF this mem ios, of old] show ?thesis .
qed

lemma resolve_indexed_entries:
  assumes nb: "numbering (m, vs)" and all: "snd ` set kvs \<subseteq> set vs" and len: "length vs < 2 ^ 31"
  shows "resolve_indices (length vs) (map_of (indexed_entries m kvs)) = (\<lambda>k. map_option (number_of m) (map_of kvs k))"
proof
  fix k
  have "map_of (indexed_entries m kvs) k = map_option (\<lambda>p. of_nat (number_of m p)) (map_of kvs k)"
    using map_of_map[of "\<lambda>p. of_nat (number_of m p) :: u64" kvs] by (simp add: fun_eq_iff)
  moreover have "unat (of_nat (number_of m p) :: u64) = number_of m p \<and> number_of m p < length vs"
    if "map_of kvs k = Some p" for p
  proof -
    have "p \<in> set vs" using map_of_SomeD[OF that] all by force
    from number_of_numbering(1)[OF nb this] len show ?thesis by (simp add: unat_of_nat take_bit_eq_mod)
  qed
  ultimately show "resolve_indices (length vs) (map_of (indexed_entries m kvs)) k = map_option (number_of m) (map_of kvs k)"
    by (cases "map_of kvs k") (simp_all add: resolve_indices_def)
qed

locale pair_codec =
  t1: table_codec okk1 enck1 deck1 "\<lambda>_. True" encode_size_elem decode_size_elem +
  t2: table_codec okk2 enck2 deck2 "\<lambda>_. True" encode_size_elem decode_size_elem
  for okk1 :: "'k1 \<Rightarrow> bool" and enck1 deck1 and okk2 :: "'k2 \<Rightarrow> bool" and enck2 deck2
begin

text \<open>
  After a save and a load, the two tables agree with the old ones up to the numbering of the
  objects, and the object numbered \<open>i\<close> is the decoded value of the object it stands for.
\<close>

lemma pair_roundtrip:
  assumes kvs: "distinct (map fst kvs1)" "distinct (map fst kvs2)"
    and ok: "\<forall>k \<in> fst ` set kvs1. okk1 k" "\<forall>k \<in> fst ` set kvs2. okk2 k"
    and val: "\<forall>p \<in> snd ` set kvs1 \<union> snd ` set kvs2. decv (encp p) = Decoded (g p) \<and> length (encp p) < 2 ^ 31"
    and n: "length kvs1 + length kvs2 < 2 ^ 31"
    and mem: "length mem = BUFFER_SIZE" "length mem' = BUFFER_SIZE"
    and ios: "healthy ios" "\<forall>io \<in> set ios'. benign io"
  shows "\<exists>files r m vs r'.
      ghash_save_indexed_pair (True, True, True) mem old kvs1 kvs2 enck1 enck2 encp ios = Some (files, r) \<and> healthy r
      \<and> ghash_load_indexed_pair True mem' files deck1 deck2 decv ios'
        = Some (\<lambda>k. map_option (number_of m) (map_of kvs1 k), \<lambda>k. map_option (number_of m) (map_of kvs2 k), map g vs, r')
      \<and> (\<forall>io \<in> set r'. benign io)
      \<and> numbering (m, vs) \<and> set vs = snd ` set kvs1 \<union> snd ` set kvs2"
proof -
  obtain m vs where num: "fold collect_value_index kvs2 (fold collect_value_index kvs1 (Map.empty, [])) = (m, vs)"
    by fastforce
  note c1 = collect_all[OF numbering_empty, of kvs1]
  have nb: "numbering (m, vs)" and vs: "set vs = snd ` set kvs1 \<union> snd ` set kvs2"
    using collect_all[of "fold collect_value_index kvs1 (Map.empty, [])" kvs2] c1 num by simp_all
  have "length vs = card (set vs)" using nb by (simp add: numbering_def distinct_card)
  also have "\<dots> \<le> length kvs1 + length kvs2"
    unfolding vs by (rule le_trans[OF card_Un_le add_mono]) (metis card_length length_map set_map)+
  finally have len: "length vs < 2 ^ 31" using n by simp
  obtain old1 old2 oldv where old: "old = (old1, old2, oldv)" by (metis prod_cases3)
  let ?f1 = "table_bytes enck1 encode_size_elem (indexed_entries m kvs1)"
  let ?f2 = "table_bytes enck2 encode_size_elem (indexed_entries m kvs2)"
  let ?fv = "list_bytes encp vs"
  obtain r1 where s1: "save_values_array True mem oldv vs encp ios = Some (?fv, r1)" "healthy r1"
    using list_save_bytes(2)[OF mem(1) ios(1)] by blast
  have sub: "snd ` set kvs1 \<subseteq> set vs" "snd ` set kvs2 \<subseteq> set vs" using vs by auto
  note s2 = indexed_save_bytes[OF nb sub(1) mem(1) s1(2), of old1 enck1]
  then obtain r2 where s2: "save_file True mem old1 (\<lambda>st. do {
      st \<leftarrow> put_bytes (count_bytes (length kvs1)) st;
      ofold (save_indexed_entry m enck1) kvs1 st }) r1 = Some (?f1, r2)" "healthy r2" by blast
  obtain r3 where s3: "save_file True mem old2 (\<lambda>st. do {
      st \<leftarrow> put_bytes (count_bytes (length kvs2)) st;
      ofold (save_indexed_entry m enck2) kvs2 st }) r2 = Some (?f2, r3)" "healthy r3"
    using indexed_save_bytes[OF nb sub(2) mem(1) s2(2), of old2 enck2] by blast
  have save: "ghash_save_indexed_pair (True, True, True) mem old kvs1 kvs2 enck1 enck2 encp ios
      = Some ((?f1, ?f2, ?fv), r3)"
    using num s1(1) s2(1) s3(1) by (simp add: ghash_save_indexed_pair_def old)
  have "\<forall>p \<in> set vs. decv (encp p) = Decoded (g p) \<and> length (encp p) < 2 ^ 31" using val vs by simp
  from list_load_bytes(2)[OF this len mem(2) ios(2)]
  obtain l1 where l1: "load_values_array True mem' ?fv decv ios' = Some (map g vs, l1)" "\<forall>io \<in> set l1. benign io" by blast
  have e1: "\<forall>(k, v) \<in> set (indexed_entries m kvs1). okk1 k \<and> True" "distinct (map fst (indexed_entries m kvs1))"
    "length (indexed_entries m kvs1) < 2 ^ 31"
    and e2: "\<forall>(k, v) \<in> set (indexed_entries m kvs2). okk2 k \<and> True" "distinct (map fst (indexed_entries m kvs2))"
    "length (indexed_entries m kvs2) < 2 ^ 31"
    using ok kvs n by (auto simp: comp_def case_prod_beta)
  obtain l2 where l2: "ghash_load True mem' ?f1 deck1 decode_size_elem l1 = Some (map_of (indexed_entries m kvs1), l2)"
    "\<forall>io \<in> set l2. benign io" using t1.ghash_load_bytes[OF e1 mem(2) l1(2)] by blast
  obtain l3 where l3: "ghash_load True mem' ?f2 deck2 decode_size_elem l2 = Some (map_of (indexed_entries m kvs2), l3)"
    "\<forall>io \<in> set l3. benign io" using t2.ghash_load_bytes[OF e2 mem(2) l2(2)] by blast
  have "ghash_load_indexed_pair True mem' (?f1, ?f2, ?fv) deck1 deck2 decv ios'
      = Some (\<lambda>k. map_option (number_of m) (map_of kvs1 k), \<lambda>k. map_option (number_of m) (map_of kvs2 k), map g vs, l3)"
    using l1(1) l2(1) l3(1) resolve_indexed_entries[OF nb sub(1) len] resolve_indexed_entries[OF nb sub(2) len]
    by (simp add: ghash_load_indexed_pair_def)
  with save s3(2) l3(2) nb vs show ?thesis by blast
qed

end

interpretation index_pair: pair_codec "\<lambda>h. length h = HASH_SIZE" encode_hash decode_hash
  "\<lambda>b. ok_path (bi_path b)" encode_block_indice decode_block_indice ..

end
