(* ===== verification/Index_Lifecycle.thy ===== *)
theory Index_Lifecycle
  imports Persistence_Pair Example_Run
begin

text \<open>
  \<open>index_init\<close> and \<open>index_destroy\<close> of \<open>src/metaindex.c\<close>: the index is written to five files at
  unmount and rebuilt from them at mount. The objects get new addresses; everything a reader or
  a writer can observe is as before, and the invariants hold again.
\<close>

section \<open>The two functions\<close>

record MetaFiles =
  table_hash_to_master :: fbytes
  table_file_to_master :: fbytes
  table_master_infos :: fbytes
  table_file_to_sizes :: fbytes
  table_free_block_list :: fbytes

text \<open>
  \<open>hs\<close>, \<open>fs\<close> and \<open>zs\<close> are the three tables in the order in which GLib visits them; \<open>padding\<close> gives the
  four bytes of padding of each object; \<open>opens\<close> says which files can be opened.
\<close>

definition index_destroy ::
  "bool \<times> bool \<times> bool \<times> bool \<times> bool \<Rightarrow> byte list \<Rightarrow> (ptr \<Rightarrow> byte list) \<Rightarrow> (hash \<times> ptr) list
   \<Rightarrow> (BlockIndice \<times> ptr) list \<Rightarrow> (path \<times> u64) list \<Rightarrow> Index \<Rightarrow> MetaFiles \<Rightarrow> io list
   \<Rightarrow> (MetaFiles \<times> io list) option" where
  "index_destroy opens mem padding hs fs zs ix files ios =
     (let (o1, o2, o3, o4, o5) = opens
      in if \<exists>p \<in> set (map snd hs @ map snd fs). heap ix p = None then None
         else do {
           ((f1, f2, f3), ios) \<leftarrow> ghash_save_indexed_pair (o1, o2, o3) mem
              (table_hash_to_master files, table_file_to_master files, table_master_infos files) hs fs
              encode_hash encode_block_indice (\<lambda>p. encode_master_info (padding p) (the (heap ix p))) ios;
           (f4, ios) \<leftarrow> ghash_save o4 mem (table_file_to_sizes files) zs encode_str encode_size ios;
           (f5, ios) \<leftarrow> gslist_save o5 mem (table_free_block_list files) (free_block_list ix) encode_free_block ios;
           Some (\<lparr>table_hash_to_master = f1, table_file_to_master = f2, table_master_infos = f3,
                  table_file_to_sizes = f4, table_free_block_list = f5\<rparr>, ios)
         })"

text \<open>The objects of the array \<open>values\<close> are the first allocations of the new heap, at 1, 2, ...\<close>

definition index_init :: "bool \<Rightarrow> byte list \<Rightarrow> MetaFiles \<Rightarrow> io list \<Rightarrow> (Index \<times> io list) option" where
  "index_init open_ok mem files ios = do {
     (t1, t2, values, ios) \<leftarrow> ghash_load_indexed_pair open_ok mem
        (table_hash_to_master files, table_file_to_master files, table_master_infos files)
        decode_hash decode_block_indice decode_master_info ios;
     (sizes, ios) \<leftarrow> ghash_load open_ok mem (table_file_to_sizes files) decode_str decode_size ios;
     (free_list, ios) \<leftarrow> gslist_load open_ok mem (table_free_block_list files) decode_free_block ios;
     Some (\<lparr>hash_to_master = \<lambda>k. map_option Suc (t1 k), file_to_master = \<lambda>k. map_option Suc (t2 k),
            free_block_list = free_list, file_to_sizes = sizes,
            heap = \<lambda>p. if 0 < p \<and> p \<le> length values then Some (values ! (p - 1)) else None,
            next_ptr = Suc (length values)\<rparr>, ios)
   }"

section \<open>Moving the objects\<close>

text \<open>\<open>ix'\<close> is \<open>ix\<close> with every object moved from \<open>p\<close> to \<open>a p\<close>.\<close>

definition moved :: "(ptr \<Rightarrow> ptr) \<Rightarrow> Index \<Rightarrow> Index \<Rightarrow> bool" where
  "moved a ix ix' \<longleftrightarrow>
     inj_on a (dom (heap ix)) \<and> dom (heap ix') = a ` dom (heap ix)
     \<and> (\<forall>p \<in> dom (heap ix). heap ix' (a p) = heap ix p)
     \<and> hash_to_master ix' = (\<lambda>k. map_option a (hash_to_master ix k))
     \<and> file_to_master ix' = (\<lambda>k. map_option a (file_to_master ix k))
     \<and> free_block_list ix' = free_block_list ix \<and> file_to_sizes ix' = file_to_sizes ix
     \<and> (\<forall>p \<in> dom (heap ix'). p < next_ptr ix')"

lemma moved_slot: "moved a ix ix' \<Longrightarrow> p \<in> dom (heap ix) \<Longrightarrow> slot_of ix' (a p) = slot_of ix p"
  by (simp add: moved_def slot_of_def)

lemma ran_map_option: "ran (\<lambda>k. map_option a (m k)) = a ` ran m"
  by (auto simp: ran_def)

lemma moved_block_view:
  assumes "moved a ix ix'" "wf_index E P ix"
  shows "block_view f ix' = block_view f ix"
proof
  fix k show "block_view f ix' k = block_view f ix k"
  proof (cases "file_to_master ix k")
    case None
    then show ?thesis using assms(1) by (simp add: block_view_def moved_def)
  next
    case (Some p)
    then have "p \<in> dom (heap ix)" using wf_index_heap(2)[OF assms(2) Some] by blast
    with Some assms(1) moved_slot[OF assms(1) this] show ?thesis by (simp add: block_view_def moved_def)
  qed
qed

lemma moved_wf_index:
  assumes mv: "moved a ix ix'" and wf: "wf_index {#} {} ix"
  shows "wf_index {#} {} ix'"
proof (rule wf_indexI)
  note m = mv[unfolded moved_def]
  have hr: "ran (hash_to_master ix) = dom (heap ix)" using wf_indexD(3)[OF wf] by simp
  have rh: "ran (hash_to_master ix') = a ` ran (hash_to_master ix)"
    and rf: "ran (file_to_master ix') = a ` ran (file_to_master ix)"
    using m by (simp_all add: ran_map_option)
  have "dom (file_to_master ix') = dom (file_to_master ix)" using m by (auto simp: dom_def)
  then show "finite (dom (file_to_master ix'))" using wf_indexD(1)[OF wf] by simp
  show "p < next_ptr ix'" if "heap ix' p = Some i" for p i using m that by blast
  show "ran (hash_to_master ix') \<union> {} = dom (heap ix')" using m hr rh by simp
  show "ran (hash_to_master ix') \<inter> {} = {}" "set_mset {#} \<subseteq> dom (heap ix')" by simp_all
  show "ran (file_to_master ix') \<subseteq> ran (hash_to_master ix')"
    unfolding rh rf using wf_indexD(5)[OF wf] by (rule image_mono)
  show "mi_hash (the (heap ix' q)) = h" if hq: "hash_to_master ix' h = Some q" for h q
  proof -
    obtain p where p: "hash_to_master ix h = Some p" "q = a p" using hq m by auto
    then have "p \<in> dom (heap ix)" using hr by (metis ranI)
    then have "heap ix' q = heap ix p" using m p(2) by simp
    then show ?thesis using wf_indexD(6)[OF wf p(1)] by simp
  qed
  show "unat (refcount i) = card (refs (file_to_master ix') q) + count {#} q
      \<and> 0 < card (refs (file_to_master ix') q) + count {#} q" if q: "heap ix' q = Some i" for q i
  proof -
    obtain p where p: "p \<in> dom (heap ix)" "q = a p" using q m by (metis domI imageE)
    then have hp: "heap ix p = Some i" using q m by simp
    have "refs (file_to_master ix') q = refs (file_to_master ix) p"
    proof (intro set_eqI)
      fix k show "k \<in> refs (file_to_master ix') q \<longleftrightarrow> k \<in> refs (file_to_master ix) p"
      proof (cases "file_to_master ix k")
        case None
        then show ?thesis using m by simp
      next
        case (Some r)
        have rd: "r \<in> dom (heap ix)" using wf_index_heap(2)[OF wf Some] by blast
        have "a r = a p \<longleftrightarrow> r = p" using inj_on_eq_iff[OF _ rd p(1), of a] m by blast
        then show ?thesis using Some m p(2) by simp
      qed
    qed
    then show ?thesis using wf_indexD(8,9)[OF wf hp] by simp
  qed
qed

lemma moved_consistent:
  assumes mv: "moved a ix ix'" and c: "consistent sha f nb ix"
  shows "consistent sha f nb ix'"
proof -
  note m = mv[unfolded moved_def]
  have wi: "wf_index {#} {} ix" and ws: "wf_slots {} nb ix" and wc: "wf_content sha f ix" and wz: "wf_sizes ix"
    using c by (simp_all add: consistent_def wf_all_def)
  have hr: "ran (hash_to_master ix) = dom (heap ix)" using wf_indexD(3)[OF wi] by simp
  have rh: "ran (hash_to_master ix') = a ` ran (hash_to_master ix)" using m by (simp add: ran_map_option)
  have sl: "slot_of ix' (a p) = slot_of ix p" if "p \<in> ran (hash_to_master ix)" for p
    using moved_slot[OF mv] that hr by simp
  have "live_slots ix' = live_slots ix"
    unfolding live_slots_def rh image_image using sl by (rule image_cong[OF refl])
  moreover have "inj_on (slot_of ix') (ran (hash_to_master ix'))"
  proof -
    have "inj_on (slot_of ix' \<circ> a) (ran (hash_to_master ix))"
      using ws sl unfolding wf_slots_def by (simp add: inj_on_def)
    then show ?thesis unfolding rh by (rule inj_on_imageI)
  qed
  ultimately have "wf_slots {} nb ix'" using ws m unfolding wf_slots_def by simp
  moreover have "wf_content sha f ix'"
    unfolding wf_content_def
  proof (intro allI impI)
    fix h q assume "hash_to_master ix' h = Some q"
    then obtain p where p: "hash_to_master ix h = Some p" "q = a p" using m by auto
    then show "Suc (unat (slot_of ix' q)) * BLOCK_SIZE \<le> length f \<and> sha (chunk f (unat (slot_of ix' q))) = h"
      using wc sl[of p] ranI[of "hash_to_master ix" h p] unfolding wf_content_def by simp
  qed
  moreover have "wf_sizes ix'"
    by (rule wf_sizes_antimono[OF wz]) (use m in \<open>auto simp: dom_def\<close>)
  ultimately show ?thesis
    using moved_wf_index[OF mv wi] by (simp add: consistent_def wf_all_def)
qed

section \<open>Unmount and mount\<close>

definition enumerates :: "('k \<times> 'v) list \<Rightarrow> ('k \<rightharpoonup> 'v) \<Rightarrow> bool" where
  "enumerates kvs m \<longleftrightarrow> distinct (map fst kvs) \<and> map_of kvs = m"

lemma enumerates_ran: "enumerates kvs m \<Longrightarrow> snd ` set kvs = ran m"
  by (force simp: enumerates_def ran_distinct)

lemma enumerates_keys: "enumerates kvs m \<Longrightarrow> fst ` set kvs = dom m"
  unfolding enumerates_def using dom_map_of_conv_image_fst by metis

text \<open>
  What can be persisted: digests of the right length, paths without NUL, counts that fit the
  \<open>int\<close> in front of each file.
\<close>

definition persistable :: "(hash \<times> ptr) list \<Rightarrow> (BlockIndice \<times> ptr) list \<Rightarrow> (path \<times> u64) list \<Rightarrow> Index \<Rightarrow> bool" where
  "persistable hs fs zs ix \<longleftrightarrow>
     enumerates hs (hash_to_master ix) \<and> enumerates fs (file_to_master ix) \<and> enumerates zs (file_to_sizes ix)
     \<and> (\<forall>h \<in> dom (hash_to_master ix). length h = HASH_SIZE)
     \<and> (\<forall>k \<in> dom (file_to_master ix). ok_path (bi_path k)) \<and> (\<forall>pa \<in> dom (file_to_sizes ix). ok_path pa)
     \<and> length hs + length fs < 2 ^ 31 \<and> length zs < 2 ^ 31 \<and> length (free_block_list ix) < 2 ^ 31"

lemma destroy_init_moved:
  assumes c: "consistent sha f nb ix" and ps: "persistable hs fs zs ix"
    and pad: "\<forall>p. length (padding p) = 4"
    and mem: "length mem = BUFFER_SIZE" "length mem' = BUFFER_SIZE"
    and ios: "\<forall>io \<in> set ios. io = IoOk" "\<forall>io \<in> set ios'. benign io"
  shows "\<exists>files' r ix' r' a.
    index_destroy (True, True, True, True, True) mem padding hs fs zs ix files ios = Some (files', r)
    \<and> index_init True mem' files' ios' = Some (ix', r') \<and> moved a ix ix'"
proof -
  have wi: "wf_index {#} {} ix" using c by (simp add: consistent_def wf_all_def)
  note p = ps[unfolded persistable_def]
  have eh: "enumerates hs (hash_to_master ix)" and ef: "enumerates fs (file_to_master ix)"
    and ez: "enumerates zs (file_to_sizes ix)" using p by blast+
  have heap: "ran (hash_to_master ix) = dom (heap ix)" using wf_indexD(3)[OF wi] by simp
  have ptrs: "snd ` set hs \<union> snd ` set fs = dom (heap ix)"
    using enumerates_ran[OF eh] enumerates_ran[OF ef] heap wf_indexD(5)[OF wi] by blast
  let ?encp = "\<lambda>p. encode_master_info (padding p) (the (heap ix p))"
  have val: "\<forall>p \<in> snd ` set hs \<union> snd ` set fs.
      decode_master_info (?encp p) = Decoded (the (heap ix p)) \<and> length (?encp p) < 2 ^ 31"
  proof
    fix q assume "q \<in> snd ` set hs \<union> snd ` set fs"
    then have q: "q \<in> ran (hash_to_master ix)" using ptrs heap by simp
    then obtain h where h: "hash_to_master ix h = Some q" by (auto simp: ran_def)
    then have "mi_hash (the (heap ix q)) = h" by (rule wf_indexD(6)[OF wi])
    moreover have "length h = HASH_SIZE" using h p by blast
    ultimately have "ok_info (the (heap ix q))" by (simp add: ok_info_def)
    then show "decode_master_info (?encp q) = Decoded (the (heap ix q)) \<and> length (?encp q) < 2 ^ 31"
      using master_info_codec.dec_enc[of "the (heap ix q)" "padding q"]
        master_info_codec.enc_int[of "the (heap ix q)" "padding q"] pad by simp
  qed
  have d: "distinct (map fst hs)" "distinct (map fst fs)" "distinct (map fst zs)"
    and mo: "map_of hs = hash_to_master ix" "map_of fs = file_to_master ix" "map_of zs = file_to_sizes ix"
    using eh ef ez by (simp_all add: enumerates_def)
  have ok: "\<forall>k \<in> fst ` set hs. length k = HASH_SIZE" "\<forall>k \<in> fst ` set fs. ok_path (bi_path k)"
    using p enumerates_keys[OF eh] enumerates_keys[OF ef] by simp_all
  have n: "length hs + length fs < 2 ^ 31" using p by blast
  have hio: "healthy ios" using ios(1) by (simp add: healthy_def)
  obtain fl r1 m vs l1 where pair:
    "ghash_save_indexed_pair (True, True, True) mem (table_hash_to_master files, table_file_to_master files,
       table_master_infos files) hs fs encode_hash encode_block_indice ?encp ios = Some (fl, r1)" "healthy r1"
    "ghash_load_indexed_pair True mem' fl decode_hash decode_block_indice decode_master_info ios'
      = Some (\<lambda>k. map_option (number_of m) (map_of hs k), \<lambda>k. map_option (number_of m) (map_of fs k),
          map (\<lambda>p. the (heap ix p)) vs, l1)" "\<forall>io \<in> set l1. benign io"
    "numbering (m, vs)" "set vs = dom (heap ix)"
    using index_pair.pair_roundtrip[OF d(1,2) ok val n mem hio ios(2)] unfolding ptrs by blast
  obtain f1 f2 f3 where fl: "fl = (f1, f2, f3)" by (metis prod_cases3)
  obtain r2 where s2: "ghash_save True mem (table_file_to_sizes files) zs encode_str encode_size r1
      = Some (table_bytes encode_str encode_size zs, r2)" "healthy r2"
    using ghash_save_bytes[OF mem(1) pair(2)] by blast
  obtain r3 where s3: "gslist_save True mem (table_free_block_list files) (free_block_list ix) encode_free_block r2
      = Some (list_bytes encode_free_block (free_block_list ix), r3)"
    using list_save_bytes(1)[OF mem(1) s2(2)] by blast
  have zok: "\<forall>(k, v) \<in> set zs. ok_path k \<and> True"
  proof -
    have "\<forall>k \<in> fst ` set zs. ok_path k" using p unfolding enumerates_keys[OF ez] by blast
    then show ?thesis by auto
  qed
  obtain l2 where z: "ghash_load True mem' (table_bytes encode_str encode_size zs) decode_str decode_size l1
      = Some (file_to_sizes ix, l2)" "\<forall>io \<in> set l2. benign io"
    using sizes_table.ghash_load_bytes[OF zok d(3) _ mem(2) pair(4)] p mo(3) by auto
  obtain l3 where g: "gslist_load True mem' (list_bytes encode_free_block (free_block_list ix)) decode_free_block l2
      = Some (free_block_list ix, l3)"
    using free_block_codec.list_roundtrip[OF _ _ mem(2) z(2), of "free_block_list ix"] p by auto
  let ?files = "\<lparr>table_hash_to_master = f1, table_file_to_master = f2, table_master_infos = f3,
      table_file_to_sizes = table_bytes encode_str encode_size zs,
      table_free_block_list = list_bytes encode_free_block (free_block_list ix)\<rparr>"
  let ?a = "\<lambda>p. Suc (number_of m p)" and ?vals = "map (\<lambda>p. the (heap ix p)) vs"
  let ?ix = "\<lparr>hash_to_master = \<lambda>k. map_option Suc (map_option (number_of m) (map_of hs k)),
      file_to_master = \<lambda>k. map_option Suc (map_option (number_of m) (map_of fs k)),
      free_block_list = free_block_list ix, file_to_sizes = file_to_sizes ix,
      heap = \<lambda>p. if 0 < p \<and> p \<le> length ?vals then Some (?vals ! (p - 1)) else None,
      next_ptr = Suc (length ?vals)\<rparr>"
  have "\<not> (\<exists>p \<in> set (map snd hs @ map snd fs). heap ix p = None)"
    using ptrs by (auto simp: image_Un[symmetric])
  then have "index_destroy (True, True, True, True, True) mem padding hs fs zs ix files ios = Some (?files, r3)"
    using pair(1) s2(1) s3 fl unfolding index_destroy_def by (simp del: set_append set_map)
  moreover have "index_init True mem' ?files ios' = Some (?ix, l3)"
    using pair(3) z(1) g fl unfolding index_init_def by simp
  moreover have "moved ?a ix ?ix"
  proof -
    note num = number_of_numbering[OF pair(5), unfolded pair(6)]
    have inj: "inj_on ?a (dom (heap ix))"
    proof (rule inj_onI)
      fix p q assume pq: "p \<in> dom (heap ix)" "q \<in> dom (heap ix)" "?a p = ?a q"
      have "p = vs ! number_of m p" using num(2)[OF pq(1)] by (rule sym)
      also have "\<dots> = vs ! number_of m q" using pq(3) by simp
      also have "\<dots> = q" by (rule num(2)[OF pq(2)])
      finally show "p = q" .
    qed
    have hv: "heap ?ix (?a p) = heap ix p" if "p \<in> dom (heap ix)" for p
      using num(1,2)[OF that] that by auto
    have dom: "dom (heap ?ix) = ?a ` dom (heap ix)"
    proof (intro set_eqI iffI)
      fix q assume "q \<in> dom (heap ?ix)"
      then have q: "0 < q" "q \<le> length vs" by (auto split: if_splits)
      then have v: "vs ! (q - 1) \<in> dom (heap ix)" using pair(6) by (metis Suc_diff_1 Suc_le_lessD nth_mem)
      have "m (vs ! (q - 1)) = Some q" using numbering_iff[OF pair(5), of "vs ! (q - 1)" q] q by simp
      then have "?a (vs ! (q - 1)) = q" using num(3)[OF v] by simp
      with v show "q \<in> ?a ` dom (heap ix)" by (metis image_eqI)
    next
      fix q assume "q \<in> ?a ` dom (heap ix)"
      with hv show "q \<in> dom (heap ?ix)" by fastforce
    qed
    show ?thesis
      unfolding moved_def
    proof (intro conjI ballI)
      show "inj_on ?a (dom (heap ix))" by (rule inj)
      show "dom (heap ?ix) = ?a ` dom (heap ix)" by (rule dom)
      show "heap ?ix (?a p) = heap ix p" if "p \<in> dom (heap ix)" for p by (rule hv[OF that])
      show "p < next_ptr ?ix" if "p \<in> dom (heap ?ix)" for p using that by (auto split: if_splits)
    qed (simp_all add: mo option.map_comp comp_def)
  qed
  ultimately show ?thesis by blast
qed

text \<open>
  Unmounting and mounting again loses nothing: whatever the order in which the tables are
  visited, the padding of the structs and the short reads of the kernel, the new index is
  consistent with the same master file and shows the same blocks, sizes and free slots.
\<close>

lemma remount_preserves_index:
  assumes "consistent sha f nb ix" "persistable hs fs zs ix" "\<forall>p. length (padding p) = 4"
    and "length mem = BUFFER_SIZE" "length mem' = BUFFER_SIZE"
    and "\<forall>io \<in> set ios. io = IoOk" "\<forall>io \<in> set ios'. benign io"
  shows "\<exists>files' r ix' r'.
    index_destroy (True, True, True, True, True) mem padding hs fs zs ix files ios = Some (files', r)
    \<and> index_init True mem' files' ios' = Some (ix', r')
    \<and> consistent sha f nb ix' \<and> block_view f ix' = block_view f ix
    \<and> file_to_sizes ix' = file_to_sizes ix \<and> free_block_list ix' = free_block_list ix"
proof -
  obtain files' r ix' r' a where r: "index_destroy (True, True, True, True, True) mem padding hs fs zs ix files ios = Some (files', r)"
    "index_init True mem' files' ios' = Some (ix', r')" and mv: "moved a ix ix'"
    using destroy_init_moved[OF assms] by blast
  have wi: "wf_index {#} {} ix" using assms(1) by (simp add: consistent_def wf_all_def)
  show ?thesis
    using r moved_consistent[OF mv assms(1)] moved_block_view[OF mv wi] mv by (auto simp: moved_def)
qed

theorem remount_preserves_index_witness:
  "\<exists>files' r ix' r'.
    index_destroy (True, True, True, True, True) (replicate BUFFER_SIZE 0) (\<lambda>p. [1, 2, 3, 4]) [(demo_hash, 1)]
      [(bkey demo_path 0, 1)] [(demo_path, 4096)] demo_ix \<lparr>table_hash_to_master = [], table_file_to_master = [],
        table_master_infos = [], table_file_to_sizes = [], table_free_block_list = []\<rparr> [] = Some (files', r)
    \<and> index_init True (replicate BUFFER_SIZE 0) files' [IoShort 3] = Some (ix', r')
    \<and> block_view demo_buf ix' = block_view demo_buf demo_ix"
proof -
  have "persistable [(demo_hash, 1)] [(bkey demo_path 0, 1)] [(demo_path, 4096)] demo_ix"
    by (simp add: persistable_def enumerates_def demo_ix_def demo_held_def empty_index_def demo_path_def ok_path_def)
      (simp add: demo_hash_def HASH_SIZE_def)
  from remount_preserves_index[OF demo_consistent this, of "\<lambda>p. [1, 2, 3, 4]" "replicate BUFFER_SIZE 0"
      "replicate BUFFER_SIZE 0" "[]" "[IoShort 3]"]
  show ?thesis by (simp add: benign_def) metis
qed

end
