(* ===== verification/Fuse_System.thy ===== *)
theory Fuse_System
  imports Dedup_Properties Index_Lifecycle
begin

text \<open>
  What \<open>src/passthrough.c\<close> works on: the per-mount \<open>Context\<close>, the open file of a request, and the
  calls into the lower file system. The lower file system is not part of the program. It is a
  record \<open>os\<close> of functions on an arbitrary state \<open>'w\<close>, one per call, each with the value returned,
  \<open>errno\<close>, what it writes to memory, and the new state. No law is assumed of them here.
\<close>

section \<open>Data\<close>

text \<open>The fields of \<open>struct stat\<close> and \<open>struct dirent\<close> that the code reads or sets.\<close>

record stat =
  st_ino :: u64
  st_mode :: u32
  st_size :: int

record dirent =
  d_name :: path
  d_ino :: u64
  d_type :: byte

text \<open>\<open>struct fuse_file_info\<close>; a request without an open file has none (\<open>NULL\<close>).\<close>

record file_info =
  fi_flags :: nat
  fi_fh :: u64

text \<open>
  \<open>Context\<close>, without the mutex and the log file. The bytes of the file behind \<open>masterFd\<close> are in
  the state below.
\<close>

record Context =
  ctx_index :: Index
  masterFd :: int
  nextBlockIndex :: u64
  n_create :: u64
  n_open :: u64
  n_close :: u64
  n_write :: u64
  n_read :: u64
  n_getattr :: u64
  n_unlink :: u64

text \<open>
  The state a handler runs in: the context, the bytes of \<open>/masterFILE\<close>, the kernel's answers to
  the next \<open>pread\<close> and \<open>pwrite\<close> calls on it, the lower file system, and what earlier calls left
  in \<open>errno\<close> (any value: the handlers read it only after a call that failed, except for an open
  file whose handle is -1).
\<close>

record 'w state =
  ctx :: Context
  master :: fbytes
  answers :: "io list"
  world :: 'w
  errno_left :: errno

section \<open>The lower file system\<close>

type_synonym 'w call = "'w \<Rightarrow> (int \<times> errno) \<times> 'w"

record 'w os =
  os_lstat :: "path \<Rightarrow> 'w \<Rightarrow> (int \<times> errno \<times> stat) \<times> 'w"
  os_access :: "path \<Rightarrow> nat \<Rightarrow> 'w call"
  os_readlink :: "path \<Rightarrow> u64 \<Rightarrow> 'w \<Rightarrow> (int \<times> errno \<times> byte list) \<times> 'w"
  os_opendir :: "path \<Rightarrow> 'w \<Rightarrow> (dirent list option \<times> errno) \<times> 'w"
  os_openat :: "path \<Rightarrow> nat \<Rightarrow> u32 \<Rightarrow> 'w call"
  os_mkdirat :: "path \<Rightarrow> u32 \<Rightarrow> 'w call"
  os_symlinkat :: "path \<Rightarrow> path \<Rightarrow> 'w call"
  os_mkfifoat :: "path \<Rightarrow> u32 \<Rightarrow> 'w call"
  os_mknodat :: "path \<Rightarrow> u32 \<Rightarrow> u64 \<Rightarrow> 'w call"
  os_unlink :: "path \<Rightarrow> 'w call"
  os_mkdir :: "path \<Rightarrow> u32 \<Rightarrow> 'w call"
  os_rmdir :: "path \<Rightarrow> 'w call"
  os_symlink :: "path \<Rightarrow> path \<Rightarrow> 'w call"
  os_rename :: "path \<Rightarrow> path \<Rightarrow> 'w call"
  os_link :: "path \<Rightarrow> path \<Rightarrow> 'w call"
  os_chmod :: "path \<Rightarrow> u32 \<Rightarrow> 'w call"
  os_lchown :: "path \<Rightarrow> u32 \<Rightarrow> u32 \<Rightarrow> 'w call"
  os_truncate :: "path \<Rightarrow> int \<Rightarrow> 'w call"
  os_ftruncate :: "int \<Rightarrow> int \<Rightarrow> 'w call"
  os_utimensat :: "path \<Rightarrow> int \<times> int \<Rightarrow> nat \<Rightarrow> 'w call"
  os_open :: "path \<Rightarrow> nat \<Rightarrow> u32 \<Rightarrow> 'w call"
  os_close :: "int \<Rightarrow> 'w call"
  os_statvfs :: "path \<Rightarrow> 'w \<Rightarrow> (int \<times> errno \<times> nat list) \<times> 'w"
  os_fsync :: "int \<Rightarrow> 'w call"
  os_fdatasync :: "int \<Rightarrow> 'w call"
  os_posix_fallocate :: "int \<Rightarrow> int \<Rightarrow> int \<Rightarrow> 'w \<Rightarrow> int \<times> 'w"
  os_lsetxattr :: "path \<Rightarrow> path \<Rightarrow> byte list \<Rightarrow> nat \<Rightarrow> 'w call"
  os_lgetxattr :: "path \<Rightarrow> path \<Rightarrow> nat \<Rightarrow> 'w \<Rightarrow> (int \<times> errno \<times> byte list) \<times> 'w"
  os_llistxattr :: "path \<Rightarrow> nat \<Rightarrow> 'w \<Rightarrow> (int \<times> errno \<times> byte list) \<times> 'w"
  os_lremovexattr :: "path \<Rightarrow> path \<Rightarrow> 'w call"
  os_copy_file_range :: "int \<Rightarrow> int \<Rightarrow> int \<Rightarrow> int \<Rightarrow> nat \<Rightarrow> nat \<Rightarrow> 'w call"
  os_lseek :: "int \<Rightarrow> int \<Rightarrow> nat \<Rightarrow> 'w call"

section \<open>Constants and conversions\<close>

text \<open>Values of Linux on x86-64.\<close>

definition O_RDONLY :: nat where "O_RDONLY = 0"
definition O_WRONLY :: nat where "O_WRONLY = 1"
definition O_CREAT_EXCL_WRONLY :: nat where "O_CREAT_EXCL_WRONLY = 193"
definition O_RDWR_CREAT :: nat where "O_RDWR_CREAT = 66"
definition AT_SYMLINK_NOFOLLOW :: nat where "AT_SYMLINK_NOFOLLOW = 256"

definition S_ISREG :: "u32 \<Rightarrow> bool" where "S_ISREG m \<longleftrightarrow> and m 0xF000 = 0x8000"
definition S_ISDIR :: "u32 \<Rightarrow> bool" where "S_ISDIR m \<longleftrightarrow> and m 0xF000 = 0x4000"
definition S_ISLNK :: "u32 \<Rightarrow> bool" where "S_ISLNK m \<longleftrightarrow> and m 0xF000 = 0xA000"
definition S_ISFIFO :: "u32 \<Rightarrow> bool" where "S_ISFIFO m \<longleftrightarrow> and m 0xF000 = 0x1000"

text \<open>\<open>fd = fi->fh\<close> and \<open>fi->fh = res\<close>: 64 bits unsigned against \<open>int\<close>.\<close>

definition fd_of_fh :: "u64 \<Rightarrow> int" where
  "fd_of_fh h = sint (ucast h :: u32)"

definition fh_of_fd :: "int \<Rightarrow> u64" where
  "fh_of_fd fd = word_of_int fd"

text \<open>\<open>if (res == -1) return -errno; return 0;\<close>\<close>

definition ret :: "int \<times> errno \<Rightarrow> int" where
  "ret r = (if fst r = -1 then - errno_val (snd r) else 0)"

text \<open>A call on the lower file system, from a handler's state.\<close>

definition lower :: "('w \<Rightarrow> 'a \<times> 'w) \<Rightarrow> 'w state \<Rightarrow> 'a \<times> 'w state" where
  "lower call st = (let (r, w) = call (world st) in (r, st\<lparr>world := w\<rparr>))"

text \<open>A handler that only passes one call through.\<close>

definition passed :: "'w call \<Rightarrow> 'w state \<Rightarrow> int \<times> 'w state" where
  "passed call st = (let (r, st) = lower call st in (ret r, st))"

lemma fd_roundtrip: "- (2 ^ 31) \<le> fd \<Longrightarrow> fd < 2 ^ 31 \<Longrightarrow> fd_of_fh (fh_of_fd fd) = fd"
proof -
  assume b: "- (2 ^ 31) \<le> fd" "fd < 2 ^ 31"
  have "fd_of_fh (fh_of_fd fd) = signed_take_bit 31 (take_bit 32 (take_bit 64 fd))"
    unfolding fd_of_fh_def fh_of_fd_def by transfer (simp add: signed_take_bit_take_bit)
  also have "\<dots> = signed_take_bit 31 fd"
    by (simp add: signed_take_bit_take_bit)
  also have "\<dots> = fd" using b by (simp add: signed_take_bit_int_eq_self_iff)
  finally show ?thesis .
qed

lemma lower_frame:
  assumes "lower call st = (r, st')"
  shows "ctx st' = ctx st" "master st' = master st" "answers st' = answers st"
  using assms by (auto simp: lower_def split: prod.splits)

lemma passed_frame:
  assumes "passed call st = (r, st')"
  shows "ctx st' = ctx st" "master st' = master st" "answers st' = answers st"
  using assms lower_frame by (auto simp: passed_def split: prod.splits)

end
