(* ===== verification/Passthrough.thy ===== *)
theory Passthrough
  imports Fuse_System
begin

text \<open>
  The request handlers of \<open>src/passthrough.c\<close>, one definition each, in the order of the file, and
  the table \<open>xmp_oper\<close> that FUSE dispatches through. The log lines of the debug build are left out,
  its counters are kept. Locks do not appear: a handler runs alone here.
\<close>

section \<open>Mount and unmount\<close>

definition MASTER_PATH :: path where
  "MASTER_PATH = [47, 109, 97, 115, 116, 101, 114, 70, 73, 76, 69]"

text \<open>
  \<open>create\<close> is the one counter that \<open>xmp_init\<close> does not reset: it keeps what \<open>malloc\<close> returned. The
  result of \<open>lstat\<close> is used without a look at its return value.
\<close>

definition xmp_init ::
  "'w os \<Rightarrow> bool \<Rightarrow> byte list \<Rightarrow> MetaFiles \<Rightarrow> u64 \<Rightarrow> io list \<Rightarrow> 'w \<Rightarrow> (Context \<times> io list \<times> 'w) option" where
  "xmp_init E open_ok mem files garbage ios w = do {
     (ix, ios) \<leftarrow> index_init open_ok mem files ios;
     let ((fd, _), w) = os_open E MASTER_PATH O_RDWR_CREAT 438 w;
         ((_, _, stbuf), w) = os_lstat E MASTER_PATH w;
         next_block = word_of_int (st_size stbuf sdiv int BLOCK_SIZE)
     in Some (\<lparr>ctx_index = ix, masterFd = fd, nextBlockIndex = next_block, n_create = garbage,
               n_open = 0, n_close = 0, n_write = 0, n_read = 0, n_getattr = 0, n_unlink = 0\<rparr>, ios, w)
   }"

definition xmp_destroy ::
  "'w os \<Rightarrow> bool \<times> bool \<times> bool \<times> bool \<times> bool \<Rightarrow> byte list \<Rightarrow> (ptr \<Rightarrow> byte list) \<Rightarrow> (hash \<times> ptr) list
   \<Rightarrow> (BlockIndice \<times> ptr) list \<Rightarrow> (path \<times> u64) list \<Rightarrow> MetaFiles \<Rightarrow> 'w state
   \<Rightarrow> (MetaFiles \<times> io list \<times> 'w) option" where
  "xmp_destroy E opens mem padding hs fs zs files st = do {
     (files, ios) \<leftarrow> index_destroy opens mem padding hs fs zs (ctx_index (ctx st)) files (answers st);
     let (_, w) = os_close E (masterFd (ctx st)) (world st) in Some (files, ios, w)
   }"

section \<open>Attributes and directories\<close>

text \<open>The size recorded in the index overrides that of the lower file, also when \<open>lstat\<close> failed.\<close>

definition xmp_getattr :: "'w os \<Rightarrow> path \<Rightarrow> 'w state \<Rightarrow> (int \<times> stat) \<times> 'w state" where
  "xmp_getattr E pa st =
     (let st = st\<lparr>ctx := (ctx st)\<lparr>n_getattr := n_getattr (ctx st) + 1\<rparr>\<rparr>;
          ((res, e, stbuf), st) = lower (os_lstat E pa) st;
          stbuf = (case file_to_sizes (ctx_index (ctx st)) pa of
                     Some logical_size \<Rightarrow> stbuf\<lparr>st_size := sint logical_size\<rparr>
                   | None \<Rightarrow> stbuf)
      in ((ret (res, e), stbuf), st))"

definition xmp_access :: "'w os \<Rightarrow> path \<Rightarrow> nat \<Rightarrow> 'w state \<Rightarrow> int \<times> 'w state" where
  "xmp_access E pa amode = passed (os_access E pa amode)"

text \<open>\<open>buf\<close> is the caller's buffer of \<open>sz\<close> bytes; \<open>size - 1\<close> is computed in 64 bits.\<close>

definition xmp_readlink :: "'w os \<Rightarrow> path \<Rightarrow> byte list \<Rightarrow> nat \<Rightarrow> 'w state \<Rightarrow> (int \<times> byte list) \<times> 'w state" where
  "xmp_readlink E pa buf sz st =
     (let ((res, e, target), st) = lower (os_readlink E pa (of_nat sz - 1)) st;
          buf = target @ drop (length target) buf
      in if res = -1 then ((- errno_val e, buf), st)
         else ((0, buf[nat res := 0]), st))"

text \<open>\<open>filler\<close> is FUSE's; it returns non-zero when its buffer \<open>'b\<close> is full.\<close>

primrec fill_entries ::
  "(path \<Rightarrow> stat \<Rightarrow> bool \<Rightarrow> 'b \<Rightarrow> bool \<times> 'b) \<Rightarrow> bool \<Rightarrow> dirent list \<Rightarrow> 'b \<Rightarrow> 'b" where
  "fill_entries filler with_plus [] b = b"
| "fill_entries filler with_plus (de # ds) b =
     (let st = \<lparr>st_ino = d_ino de, st_mode = push_bit 12 (ucast (d_type de)), st_size = 0\<rparr>;
          (full, b) = filler (d_name de) st with_plus b
      in if full then b else fill_entries filler with_plus ds b)"

definition xmp_readdir ::
  "'w os \<Rightarrow> bool \<Rightarrow> path \<Rightarrow> (path \<Rightarrow> stat \<Rightarrow> bool \<Rightarrow> 'b \<Rightarrow> bool \<times> 'b) \<Rightarrow> 'b \<Rightarrow> 'w state \<Rightarrow> (int \<times> 'b) \<times> 'w state" where
  "xmp_readdir E fill_dir_plus pa filler b st =
     (let ((dp, e), st) = lower (os_opendir E pa) st
      in case dp of
           None \<Rightarrow> ((- errno_val e, b), st)
         | Some entries \<Rightarrow> ((0, fill_entries filler fill_dir_plus entries b), st))"

section \<open>Names\<close>

text \<open>\<open>mknod_wrapper\<close> of \<open>passthrough_helpers.h\<close>, without the branch for FreeBSD.\<close>

definition mknod_wrapper ::
  "'w os \<Rightarrow> path \<Rightarrow> path option \<Rightarrow> u32 \<Rightarrow> u64 \<Rightarrow> 'w state \<Rightarrow> (int \<times> errno) \<times> 'w state" where
  "mknod_wrapper E pa lnk mode rdev st =
     (if S_ISREG mode
      then let ((res, e), st) = lower (os_openat E pa O_CREAT_EXCL_WRONLY mode) st
           in if res \<ge> 0 then lower (os_close E res) st else ((res, e), st)
      else if S_ISDIR mode then lower (os_mkdirat E pa mode) st
      else case (S_ISLNK mode, lnk) of
        (True, Some l) \<Rightarrow> lower (os_symlinkat E l pa) st
      | _ \<Rightarrow> if S_ISFIFO mode then lower (os_mkfifoat E pa mode) st
             else lower (os_mknodat E pa mode rdev) st)"

definition xmp_mknod :: "'w os \<Rightarrow> path \<Rightarrow> u32 \<Rightarrow> u64 \<Rightarrow> 'w state \<Rightarrow> int \<times> 'w state" where
  "xmp_mknod E pa mode rdev st = (let (r, st) = mknod_wrapper E pa None mode rdev st in (ret r, st))"

text \<open>The number of blocks that the logical size of a file spans, in 64 bits.\<close>

definition blocks_spanned :: "u64 \<Rightarrow> u64" where
  "blocks_spanned s = (s + of_nat BLOCK_SIZE - 1) div of_nat BLOCK_SIZE"

definition with_index :: "Index \<Rightarrow> 'w state \<Rightarrow> 'w state" where
  "with_index ix st = st\<lparr>ctx := (ctx st)\<lparr>ctx_index := ix\<rparr>\<rparr>"

text \<open>The references go first, the recorded size next, the lower file last.\<close>

definition unlink_index :: "path \<Rightarrow> 'w state \<Rightarrow> 'w state option" where
  "unlink_index pa st =
     (let ix = ctx_index (ctx st)
      in case file_to_sizes ix pa of
           None \<Rightarrow> Some st
         | Some logical_size \<Rightarrow> do {
             ix \<leftarrow> remove_blocks_dedup_batch ix pa 0 (blocks_spanned logical_size);
             Some (with_index (ix\<lparr>file_to_sizes := (file_to_sizes ix)(pa := None)\<rparr>) st)
           })"

definition xmp_unlink :: "'w os \<Rightarrow> path \<Rightarrow> 'w state \<Rightarrow> (int \<times> 'w state) option" where
  "xmp_unlink E pa st = do {
     st \<leftarrow> unlink_index pa (st\<lparr>ctx := (ctx st)\<lparr>n_unlink := n_unlink (ctx st) + 1\<rparr>\<rparr>);
     Some (passed (os_unlink E pa) st)
   }"

definition xmp_mkdir :: "'w os \<Rightarrow> path \<Rightarrow> u32 \<Rightarrow> 'w state \<Rightarrow> int \<times> 'w state" where
  "xmp_mkdir E pa mode = passed (os_mkdir E pa mode)"

definition xmp_rmdir :: "'w os \<Rightarrow> path \<Rightarrow> 'w state \<Rightarrow> int \<times> 'w state" where
  "xmp_rmdir E pa = passed (os_rmdir E pa)"

definition xmp_symlink :: "'w os \<Rightarrow> path \<Rightarrow> path \<Rightarrow> 'w state \<Rightarrow> int \<times> 'w state" where
  "xmp_symlink E fro to = passed (os_symlink E fro to)"

definition xmp_rename :: "'w os \<Rightarrow> path \<Rightarrow> path \<Rightarrow> nat \<Rightarrow> 'w state \<Rightarrow> int \<times> 'w state" where
  "xmp_rename E fro to flags st =
     (if flags \<noteq> 0 then (- errno_val EINVAL, st) else passed (os_rename E fro to) st)"

definition xmp_link :: "'w os \<Rightarrow> path \<Rightarrow> path \<Rightarrow> 'w state \<Rightarrow> int \<times> 'w state" where
  "xmp_link E fro to = passed (os_link E fro to)"

definition xmp_chmod :: "'w os \<Rightarrow> path \<Rightarrow> u32 \<Rightarrow> 'w state \<Rightarrow> int \<times> 'w state" where
  "xmp_chmod E pa mode = passed (os_chmod E pa mode)"

definition xmp_chown :: "'w os \<Rightarrow> path \<Rightarrow> u32 \<Rightarrow> u32 \<Rightarrow> 'w state \<Rightarrow> int \<times> 'w state" where
  "xmp_chown E pa uid gid = passed (os_lchown E pa uid gid)"

section \<open>Truncation\<close>

text \<open>
  The recorded size only ever shrinks here. The size is looked up again after the removal,
  because the lock was released in between.
\<close>

definition shrink_size :: "path \<Rightarrow> u64 \<Rightarrow> Index \<Rightarrow> Index" where
  "shrink_size pa s ix =
     (case file_to_sizes ix pa of
        Some ls \<Rightarrow> if s < ls then ix\<lparr>file_to_sizes := (file_to_sizes ix)(pa \<mapsto> s)\<rparr> else ix
      | None \<Rightarrow> ix)"

definition truncate_index :: "path \<Rightarrow> int \<Rightarrow> 'w state \<Rightarrow> 'w state option" where
  "truncate_index pa sz st =
     (let ix = ctx_index (ctx st)
      in case file_to_sizes ix pa of
           None \<Rightarrow> Some st
         | Some logical_size \<Rightarrow>
             if word_of_int sz < logical_size
             then do {
               let new_block_count = word_of_int ((sz + int BLOCK_SIZE - 1) sdiv int BLOCK_SIZE);
               ix \<leftarrow> remove_blocks_dedup_batch ix pa new_block_count (blocks_spanned logical_size);
               Some (with_index (shrink_size pa (word_of_int sz) ix) st)
             } else Some st)"

definition lower_truncate :: "'w os \<Rightarrow> path \<Rightarrow> int \<Rightarrow> file_info option \<Rightarrow> 'w call" where
  "lower_truncate E pa sz fi =
     (case fi of Some f \<Rightarrow> os_ftruncate E (fd_of_fh (fi_fh f)) sz | None \<Rightarrow> os_truncate E pa sz)"

definition xmp_truncate :: "'w os \<Rightarrow> path \<Rightarrow> int \<Rightarrow> file_info option \<Rightarrow> 'w state \<Rightarrow> (int \<times> 'w state) option" where
  "xmp_truncate E pa sz fi st =
     (if sz < 0 \<or> sz smod int BLOCK_SIZE \<noteq> 0 then Some (- errno_val EOPNOTSUPP, st)
      else do {
        st \<leftarrow> truncate_index pa sz st;
        Some (passed (lower_truncate E pa sz fi) st)
      })"

definition xmp_utimens :: "'w os \<Rightarrow> path \<Rightarrow> int \<times> int \<Rightarrow> 'w state \<Rightarrow> int \<times> 'w state" where
  "xmp_utimens E pa ts = passed (os_utimensat E pa ts AT_SYMLINK_NOFOLLOW)"

section \<open>Opening, reading, writing\<close>

definition xmp_create ::
  "'w os \<Rightarrow> path \<Rightarrow> u32 \<Rightarrow> file_info \<Rightarrow> 'w state \<Rightarrow> (int \<times> file_info) \<times> 'w state" where
  "xmp_create E pa mode fi st =
     (let st = st\<lparr>ctx := (ctx st)\<lparr>n_create := n_create (ctx st) + 1\<rparr>\<rparr>;
          ((res, e), st) = lower (os_open E pa (fi_flags fi) mode) st
      in if res = -1 then ((- errno_val e, fi), st) else ((0, fi\<lparr>fi_fh := fh_of_fd res\<rparr>), st))"

definition xmp_open :: "'w os \<Rightarrow> path \<Rightarrow> file_info \<Rightarrow> 'w state \<Rightarrow> (int \<times> file_info) \<times> 'w state" where
  "xmp_open E pa fi st =
     (let ((res, e), st) = lower (os_open E pa (fi_flags fi) 0) st;
          st = st\<lparr>ctx := (ctx st)\<lparr>n_open := n_open (ctx st) + 1\<rparr>\<rparr>
      in if res = -1 then ((- errno_val e, fi), st) else ((0, fi\<lparr>fi_fh := fh_of_fd res\<rparr>), st))"

text \<open>The descriptor of a request: that of its open file, or one opened for the request.\<close>

definition request_fd ::
  "'w os \<Rightarrow> path \<Rightarrow> nat \<Rightarrow> file_info option \<Rightarrow> 'w state \<Rightarrow> (int \<times> errno) \<times> 'w state" where
  "request_fd E pa flags fi st =
     (case fi of None \<Rightarrow> lower (os_open E pa flags 0) st
      | Some f \<Rightarrow> ((fd_of_fh (fi_fh f), errno_left st), st))"

definition close_own :: "'w os \<Rightarrow> file_info option \<Rightarrow> int \<Rightarrow> 'w state \<Rightarrow> 'w state" where
  "close_own E fi fd st = (case fi of None \<Rightarrow> snd (lower (os_close E fd) st) | Some _ \<Rightarrow> st)"

text \<open>The descriptor of the lower file is only checked: the data come from the master file.\<close>

definition xmp_read ::
  "'w os \<Rightarrow> ((BlockPair \<Rightarrow> BlockPair \<Rightarrow> int) \<Rightarrow> BlockPair list \<Rightarrow> BlockPair list) \<Rightarrow> bool \<Rightarrow> path
   \<Rightarrow> byte list \<Rightarrow> nat \<Rightarrow> int \<Rightarrow> file_info option \<Rightarrow> 'w state \<Rightarrow> ((int \<times> byte list) \<times> 'w state) option" where
  "xmp_read E qs malloc_ok pa buf sz offset fi st =
     (let st = st\<lparr>ctx := (ctx st)\<lparr>n_read := n_read (ctx st) + 1\<rparr>\<rparr>;
          ((fd, e), st) = request_fd E pa O_RDONLY fi st
      in if fd = -1 then Some ((- errno_val e, buf), st)
         else do {
           (total_read, buf, ios) \<leftarrow>
             read_dedup qs malloc_ok (ctx_index (ctx st)) pa buf sz offset (master st) (answers st);
           Some ((total_read, buf), close_own E fi fd (st\<lparr>answers := ios\<rparr>))
         })"

definition xmp_write ::
  "'w os \<Rightarrow> (byte list \<Rightarrow> hash) \<Rightarrow> path \<Rightarrow> byte list \<Rightarrow> nat \<Rightarrow> int \<Rightarrow> file_info option \<Rightarrow> 'w state
   \<Rightarrow> (int \<times> 'w state) option" where
  "xmp_write E sha pa buf sz offset fi st =
     (let st = st\<lparr>ctx := (ctx st)\<lparr>n_write := n_write (ctx st) + 1\<rparr>\<rparr>;
          ((fd, e), st) = request_fd E pa O_WRONLY fi st
      in if fd = -1 then Some (- errno_val e, st)
         else do {
           (res, ix, f, next_block, ios) \<leftarrow>
             write_dedup sha (ctx_index (ctx st)) pa buf sz offset (master st)
               (nextBlockIndex (ctx st)) (answers st);
           let st = st\<lparr>ctx := (ctx st)\<lparr>ctx_index := ix, nextBlockIndex := next_block\<rparr>, master := f, answers := ios\<rparr>;
           Some (res, close_own E fi fd st)
         })"

definition xmp_statfs :: "'w os \<Rightarrow> path \<Rightarrow> 'w state \<Rightarrow> (int \<times> nat list) \<times> 'w state" where
  "xmp_statfs E pa st =
     (let ((res, e, stbuf), st) = lower (os_statvfs E pa) st in ((ret (res, e), stbuf), st))"

text \<open>\<open>release\<close> and \<open>fsync\<close> hand the C library's 0 or -1 to FUSE as it is.\<close>

definition xmp_release :: "'w os \<Rightarrow> file_info \<Rightarrow> 'w state \<Rightarrow> int \<times> 'w state" where
  "xmp_release E fi st =
     (let st = st\<lparr>ctx := (ctx st)\<lparr>n_close := n_close (ctx st) + 1\<rparr>\<rparr>;
          ((res, _), st) = lower (os_close E (fd_of_fh (fi_fh fi))) st
      in (res, st))"

definition xmp_fsync :: "'w os \<Rightarrow> int \<Rightarrow> file_info \<Rightarrow> 'w state \<Rightarrow> int \<times> 'w state" where
  "xmp_fsync E isdatasync fi st =
     (let fd = fd_of_fh (fi_fh fi);
          ((res, _), st) = lower (if isdatasync = 0 then os_fsync E fd else os_fdatasync E fd) st
      in (res, st))"

definition xmp_fallocate ::
  "'w os \<Rightarrow> path \<Rightarrow> int \<Rightarrow> int \<Rightarrow> int \<Rightarrow> file_info option \<Rightarrow> 'w state \<Rightarrow> int \<times> 'w state" where
  "xmp_fallocate E pa mode offset len fi st =
     (if mode \<noteq> 0 then (- errno_val EOPNOTSUPP, st)
      else let ((fd, e), st) = request_fd E pa O_WRONLY fi st
           in if fd = -1 then (- errno_val e, st)
              else let (r, st) = lower (os_posix_fallocate E fd offset len) st
                   in (- r, close_own E fi fd st))"

section \<open>Extended attributes\<close>

definition xmp_setxattr :: "'w os \<Rightarrow> path \<Rightarrow> path \<Rightarrow> byte list \<Rightarrow> nat \<Rightarrow> 'w state \<Rightarrow> int \<times> 'w state" where
  "xmp_setxattr E pa nm val flags = passed (os_lsetxattr E pa nm val flags)"

definition xmp_getxattr :: "'w os \<Rightarrow> path \<Rightarrow> path \<Rightarrow> nat \<Rightarrow> 'w state \<Rightarrow> (int \<times> byte list) \<times> 'w state" where
  "xmp_getxattr E pa nm sz st =
     (let ((res, e, val), st) = lower (os_lgetxattr E pa nm sz) st
      in ((if res = -1 then - errno_val e else res, val), st))"

definition xmp_listxattr :: "'w os \<Rightarrow> path \<Rightarrow> nat \<Rightarrow> 'w state \<Rightarrow> (int \<times> byte list) \<times> 'w state" where
  "xmp_listxattr E pa sz st =
     (let ((res, e, names), st) = lower (os_llistxattr E pa sz) st
      in ((if res = -1 then - errno_val e else res, names), st))"

definition xmp_removexattr :: "'w os \<Rightarrow> path \<Rightarrow> path \<Rightarrow> 'w state \<Rightarrow> int \<times> 'w state" where
  "xmp_removexattr E pa nm = passed (os_lremovexattr E pa nm)"

section \<open>Handlers that are not registered\<close>

definition xmp_copy_file_range ::
  "'w os \<Rightarrow> path \<Rightarrow> file_info option \<Rightarrow> int \<Rightarrow> path \<Rightarrow> file_info option \<Rightarrow> int \<Rightarrow> nat \<Rightarrow> nat
   \<Rightarrow> 'w state \<Rightarrow> int \<times> 'w state" where
  "xmp_copy_file_range E path_in fi_in offset_in path_out fi_out offset_out len flags st =
     (let ((fd_in, e), st) = request_fd E path_in O_RDONLY fi_in st
      in if fd_in = -1 then (- errno_val e, st)
         else let ((fd_out, e), st) = request_fd E path_out O_WRONLY fi_out st
         in if fd_out = -1
            then (let ((res, e'), st) = lower (os_close E fd_in) st
                  in (- errno_val (if res = -1 then e' else e), st))
            else let ((res, e), st) = lower (os_copy_file_range E fd_in offset_in fd_out offset_out len flags) st;
                     res = (if res = -1 then - errno_val e else res)
                 in (res, close_own E fi_in fd_in (close_own E fi_out fd_out st)))"

definition xmp_lseek ::
  "'w os \<Rightarrow> path \<Rightarrow> int \<Rightarrow> nat \<Rightarrow> file_info option \<Rightarrow> 'w state \<Rightarrow> int \<times> 'w state" where
  "xmp_lseek E pa off whence fi st =
     (let ((fd, e), st) = request_fd E pa O_RDONLY fi st
      in if fd = -1 then (- errno_val e, st)
         else let ((res, e), st) = lower (os_lseek E fd off whence) st;
                  res = (if res = -1 then - errno_val e else res)
              in (res, close_own E fi fd st))"

section \<open>The command line\<close>

definition MAX_ARGS :: nat where
  "MAX_ARGS = 10"

definition PLUS_OPTION :: path where
  "PLUS_OPTION = [45, 45, 112, 108, 117, 115]"

text \<open>The loop of \<open>main\<close>: \<open>fill_dir_plus\<close> and the arguments handed to FUSE.\<close>

fun parse_args :: "path list \<Rightarrow> bool \<Rightarrow> path list \<Rightarrow> bool \<times> path list" where
  "parse_args [] with_plus new_argv = (with_plus, new_argv)"
| "parse_args (arg # argv) with_plus new_argv =
     (if \<not> length new_argv < MAX_ARGS then (with_plus, new_argv)
      else if arg = PLUS_OPTION then parse_args argv True new_argv
      else parse_args argv with_plus (new_argv @ [arg]))"

lemma parse_args_eq:
  "length new_argv \<le> MAX_ARGS \<Longrightarrow>
   parse_args argv with_plus new_argv =
     (with_plus \<or> (\<exists>i<length argv. argv ! i = PLUS_OPTION
         \<and> length new_argv + length (filter (\<lambda>a. a \<noteq> PLUS_OPTION) (take i argv)) < MAX_ARGS),
      take MAX_ARGS (new_argv @ filter (\<lambda>a. a \<noteq> PLUS_OPTION) argv))"
proof (induction argv arbitrary: with_plus new_argv)
  case Nil
  then show ?case by simp
next
  case (Cons arg argv)
  let ?f = "filter (\<lambda>a. a \<noteq> PLUS_OPTION)"
  have ex: "(\<exists>i<length (arg # argv). (arg # argv) ! i = PLUS_OPTION \<and> n + length (?f (take i (arg # argv))) < MAX_ARGS)
      \<longleftrightarrow> arg = PLUS_OPTION \<and> n < MAX_ARGS
        \<or> (\<exists>i<length argv. argv ! i = PLUS_OPTION
            \<and> n + (if arg = PLUS_OPTION then 0 else 1) + length (?f (take i argv)) < MAX_ARGS)" for n
    by (subst Ex_less_Suc2[where n = "length argv", folded length_Cons[of arg argv]]) (auto split: if_splits)
  show ?case
  proof (cases "length new_argv < MAX_ARGS")
    case True
    then show ?thesis using Cons.IH[of new_argv True] Cons.IH[of "new_argv @ [arg]" with_plus] unfolding ex
      by (cases "arg = PLUS_OPTION") simp_all
  next
    case False
    with Cons.prems have "length new_argv = MAX_ARGS" by simp
    then show ?thesis by simp
  qed
qed

end
