(* ===== verification/Passthrough_Correct.thy ===== *)
theory Passthrough_Correct
  imports Passthrough
begin

text \<open>
  The handlers that change the index against the abstract store: blocks per file and position,
  and a size per file. The arithmetic on block counts is exact because the recorded sizes are
  multiples of the block size.
\<close>

section \<open>The abstraction of a mounted file system\<close>

definition mount_inv :: "(byte list \<Rightarrow> hash) \<Rightarrow> 'w state \<Rightarrow> bool" where
  "mount_inv sha st \<longleftrightarrow> consistent sha (master st) (nextBlockIndex (ctx st)) (ctx_index (ctx st))"

definition view :: "'w state \<Rightarrow> store" where
  "view st = block_view (master st) (ctx_index (ctx st))"

definition sizes :: "'w state \<Rightarrow> path \<rightharpoonup> u64" where
  "sizes st = file_to_sizes (ctx_index (ctx st))"

definition abs_state :: "'w state \<Rightarrow> store \<times> (path \<rightharpoonup> u64)" where
  "abs_state st = (view st, sizes st)"

text \<open>What a file holds from block \<open>n\<close> on is dropped.\<close>

definition spec_cut :: "path \<Rightarrow> u64 \<Rightarrow> store \<Rightarrow> store" where
  "spec_cut pa n v = (\<lambda>k. if bi_path k = pa \<and> n \<le> bi_offset k then None else v k)"

definition spec_truncate :: "path \<Rightarrow> int \<Rightarrow> store \<times> (path \<rightharpoonup> u64) \<Rightarrow> store \<times> (path \<rightharpoonup> u64)" where
  "spec_truncate pa sz = (\<lambda>(v, z).
     case z pa of None \<Rightarrow> (v, z)
     | Some ls \<Rightarrow> if sz < int (unat ls)
         then (spec_cut pa (of_nat (nat sz div BLOCK_SIZE)) v, z(pa \<mapsto> word_of_int sz)) else (v, z))"

definition spec_unlink :: "path \<Rightarrow> store \<times> (path \<rightharpoonup> u64) \<Rightarrow> store \<times> (path \<rightharpoonup> u64)" where
  "spec_unlink pa = (\<lambda>(v, z). case z pa of None \<Rightarrow> (v, z) | Some _ \<Rightarrow> (spec_cut pa 0 v, z(pa := None)))"

text \<open>The parts of the state that the index, the counters and the lower file system do not share.\<close>

lemma state_frames:
  "mount_inv sha (st\<lparr>world := w\<rparr>) = mount_inv sha st" "abs_state (st\<lparr>world := w\<rparr>) = abs_state st"
  "mount_inv sha (st\<lparr>answers := ios\<rparr>) = mount_inv sha st" "abs_state (st\<lparr>answers := ios\<rparr>) = abs_state st"
  by (simp_all add: mount_inv_def abs_state_def view_def sizes_def)

lemma same_ctx:
  assumes "ctx_index (ctx st') = ctx_index (ctx st)" "nextBlockIndex (ctx st') = nextBlockIndex (ctx st)"
    "master st' = master st"
  shows "mount_inv sha st' = mount_inv sha st" "abs_state st' = abs_state st"
  using assms by (simp_all add: mount_inv_def abs_state_def view_def sizes_def)

section \<open>Block counts\<close>

lemma unat_mult_block:
  fixes s :: u64
  assumes "BLOCK_SIZE dvd unat s"
  shows "unat s + BLOCK_SIZE \<le> 2 ^ 64"
proof -
  obtain q where q: "unat s = BLOCK_SIZE * q" using assms by (rule dvdE)
  have "BLOCK_SIZE * q < BLOCK_SIZE * 2 ^ 52" using unat_less64[of s] q by (simp add: BLOCK_SIZE_def)
  then have "q + 1 \<le> 2 ^ 52" by simp
  then have "BLOCK_SIZE * (q + 1) \<le> BLOCK_SIZE * 2 ^ 52" by (rule mult_le_mono2)
  then show ?thesis using q by (simp add: BLOCK_SIZE_def)
qed

lemma blocks_spanned_unat:
  assumes "BLOCK_SIZE dvd unat s"
  shows "unat (blocks_spanned s) = unat s div BLOCK_SIZE"
proof -
  have "s + of_nat BLOCK_SIZE - 1 = s + of_nat (BLOCK_SIZE - 1)" by (simp add: BLOCK_SIZE_def)
  moreover have "unat s + (BLOCK_SIZE - 1) < 2 ^ 64"
    using unat_mult_block[OF assms] by (simp add: BLOCK_SIZE_def)
  ultimately have u: "unat (s + of_nat BLOCK_SIZE - 1) = unat s + (BLOCK_SIZE - 1)"
    using unat_add_of_nat by metis
  have "unat (of_nat BLOCK_SIZE :: u64) = BLOCK_SIZE" by (simp add: BLOCK_SIZE_def)
  then have "unat (blocks_spanned s) = (unat s + (BLOCK_SIZE - 1)) div BLOCK_SIZE"
    unfolding blocks_spanned_def unat_div_distrib u by simp
  also have "\<dots> = unat s div BLOCK_SIZE"
    using assms by (auto simp: BLOCK_SIZE_def elim!: dvdE)
  finally show ?thesis .
qed

text \<open>Trimming a file up to its recorded size drops all there is.\<close>

lemma trim_is_cut:
  assumes "wf_sizes ix" "file_to_sizes ix pa = Some ls"
  shows "spec_trim pa s (blocks_spanned ls) (block_view f ix) = spec_cut pa s (block_view f ix)"
proof
  fix k
  have dvd: "BLOCK_SIZE dvd unat ls" using assms unfolding wf_sizes_def by blast
  have "bi_offset k < blocks_spanned ls" if m: "bi_path k = pa" "block_view f ix k \<noteq> None"
  proof -
    have "file_to_master ix k \<noteq> None" using m(2) by (simp add: block_view_None_iff)
    then have "Suc (unat (bi_offset k)) * BLOCK_SIZE \<le> unat ls"
      using assms m(1) unfolding wf_sizes_def by (metis option.inject)
    then have "Suc (unat (bi_offset k)) \<le> unat ls div BLOCK_SIZE"
      by (simp only: less_eq_div_iff_mult_less_eq[OF BLOCK_SIZE_pos(1)])
    then show ?thesis by (simp add: word_less_nat_alt blocks_spanned_unat[OF dvd])
  qed
  then show "spec_trim pa s (blocks_spanned ls) (block_view f ix) k = spec_cut pa s (block_view f ix) k"
    unfolding spec_trim_def spec_cut_def by (cases "block_view f ix k = None") auto
qed

text \<open>The size that \<open>truncate\<close> compares and stores, and the first block it drops.\<close>

lemma truncate_bounds:
  assumes "0 \<le> sz" "sz smod int BLOCK_SIZE = 0" "sz < 2 ^ 63"
  shows "unat (word_of_int sz :: u64) = nat sz" "BLOCK_SIZE dvd nat sz"
    "word_of_int ((sz + int BLOCK_SIZE - 1) sdiv int BLOCK_SIZE) = (of_nat (nat sz div BLOCK_SIZE) :: u64)"
proof -
  have "nat sz < 2 ^ 64" using assms(1,3) by (simp add: nat_less_iff)
  then show "unat (word_of_int sz :: u64) = nat sz"
    using assms(1) by (simp add: unsigned_of_int take_bit_eq_mod flip: nat_mod_distrib)
  have "sz mod int BLOCK_SIZE = 0"
    using assms(1,2) by (simp add: signed_modulo_int_def signed_divide_int_def BLOCK_SIZE_def sgn_if split: if_splits)
  then have m: "int BLOCK_SIZE dvd sz" by (rule mod_0_imp_dvd)
  then show d: "BLOCK_SIZE dvd nat sz" using assms(1) by (metis int_dvd_int_iff nat_0_le)
  have "(sz + int BLOCK_SIZE - 1) sdiv int BLOCK_SIZE = (sz + int BLOCK_SIZE - 1) div int BLOCK_SIZE"
    using assms(1) by (simp add: signed_divide_int_def BLOCK_SIZE_def sgn_if)
  also have "\<dots> = sz div int BLOCK_SIZE"
    using m by (auto simp: BLOCK_SIZE_def elim!: dvdE)
  also have "\<dots> = int (nat sz div BLOCK_SIZE)"
    using assms(1) by (simp add: zdiv_int)
  finally show "word_of_int ((sz + int BLOCK_SIZE - 1) sdiv int BLOCK_SIZE) = (of_nat (nat sz div BLOCK_SIZE) :: u64)"
    by simp
qed

section \<open>Changing the recorded size\<close>

lemma consistent_sizes:
  assumes c: "consistent sha f nb ix"
    and dom: "\<And>k. file_to_master ix k \<noteq> None \<Longrightarrow>
      \<exists>s. z (bi_path k) = Some s \<and> Suc (unat (bi_offset k)) * BLOCK_SIZE \<le> unat s"
    and dvd: "\<And>pa s. z pa = Some s \<Longrightarrow> BLOCK_SIZE dvd unat s"
  shows "consistent sha f nb (ix\<lparr>file_to_sizes := z\<rparr>)"
proof -
  have "wf_sizes (ix\<lparr>file_to_sizes := z\<rparr>)" using dom dvd by (simp add: wf_sizes_def)
  moreover have "wf_all sha f nb {#} {} {} (ix\<lparr>file_to_sizes := z\<rparr>)"
    using c by (simp add: consistent_def wf_all_def)
  ultimately show ?thesis by (simp add: consistent_def)
qed

text \<open>Removing the tail of a file and setting its size, the core of \<open>truncate\<close> and \<open>unlink\<close>.\<close>

lemma cut_consistent:
  assumes c: "consistent sha f nb ix" and ls: "file_to_sizes ix pa = Some ls"
    and z: "z = None \<and> n = 0 \<or> (\<exists>s. z = Some s \<and> unat s = unat n * BLOCK_SIZE \<and> unat s \<le> unat ls)"
  shows "\<exists>ix'. remove_blocks_dedup_batch ix pa n (blocks_spanned ls) = Some ix'
    \<and> file_to_sizes ix' = file_to_sizes ix
    \<and> consistent sha f nb (ix'\<lparr>file_to_sizes := (file_to_sizes ix)(pa := z)\<rparr>)
    \<and> block_view f ix' = spec_cut pa n (block_view f ix)"
proof -
  obtain ix' where ix': "remove_blocks_dedup_batch ix pa n (blocks_spanned ls) = Some ix'"
    "consistent sha f nb ix'" "file_to_sizes ix' = file_to_sizes ix"
    and v0: "block_view f ix' = spec_trim pa n (blocks_spanned ls) (block_view f ix)"
    using remove_batch_consistent[OF c] by blast
  have ws: "wf_sizes ix" "wf_sizes ix'" using c ix'(2) by (simp_all add: consistent_def)
  have v: "block_view f ix' = spec_cut pa n (block_view f ix)"
    unfolding v0 by (rule trim_is_cut[OF ws(1) ls])
  have "consistent sha f nb (ix'\<lparr>file_to_sizes := (file_to_sizes ix)(pa := z)\<rparr>)"
  proof (rule consistent_sizes[OF ix'(2)])
    fix k assume m: "file_to_master ix' k \<noteq> None"
    then have "spec_cut pa n (block_view f ix) k \<noteq> None"
      using v block_view_None_iff[of f ix' k] by simp
    then have low: "bi_path k = pa \<longrightarrow> bi_offset k < n" unfolding spec_cut_def by (auto split: if_splits)
    show "\<exists>s. ((file_to_sizes ix)(pa := z)) (bi_path k) = Some s \<and> Suc (unat (bi_offset k)) * BLOCK_SIZE \<le> unat s"
    proof (cases "bi_path k = pa")
      case True
      with low have lt: "unat (bi_offset k) < unat n" by (simp add: word_less_nat_alt)
      then have "n \<noteq> 0" by auto
      with z obtain s where s: "z = Some s" "unat s = unat n * BLOCK_SIZE" by blast
      have "Suc (unat (bi_offset k)) * BLOCK_SIZE \<le> unat n * BLOCK_SIZE" using lt by (rule Suc_mult_le_BLOCK)
      with s True show ?thesis by simp
    next
      case False
      then show ?thesis using ws(2) m ix'(3) unfolding wf_sizes_def by (metis fun_upd_other)
    qed
  next
    fix qa s assume "((file_to_sizes ix)(pa := z)) qa = Some s"
    then show "BLOCK_SIZE dvd unat s"
      using z ws(1) unfolding wf_sizes_def by (auto split: if_splits)
  qed
  with ix' v show ?thesis by blast
qed

section \<open>Handlers that pass a call through\<close>

lemma request_fd_frame:
  assumes "request_fd E pa flags fi st = (r, st')"
  shows "ctx st' = ctx st" "master st' = master st" "answers st' = answers st"
  using assms lower_frame by (auto simp: request_fd_def split: option.splits)

lemma close_own_frame:
  "ctx (close_own E fi fd st) = ctx st" "master (close_own E fi fd st) = master st"
  "answers (close_own E fi fd st) = answers st"
  by (auto simp: close_own_def lower_def split: option.splits prod.splits)

lemma passed_abs:
  assumes "passed call st = (r, st')"
  shows "mount_inv sha st' = mount_inv sha st" "abs_state st' = abs_state st"
  using same_ctx passed_frame[OF assms] by metis+

section \<open>Unlinking and truncating\<close>

lemma abs_with_index:
  "abs_state (with_index ix st) = (block_view (master st) ix, file_to_sizes ix)"
  "mount_inv sha (with_index ix st) = consistent sha (master st) (nextBlockIndex (ctx st)) ix"
  by (simp_all add: abs_state_def view_def sizes_def mount_inv_def with_index_def)

lemma unlink_index_correct:
  assumes inv: "mount_inv sha st"
  shows "\<exists>st'. unlink_index pa st = Some st' \<and> world st' = world st
    \<and> mount_inv sha st' \<and> abs_state st' = spec_unlink pa (abs_state st)"
proof (cases "file_to_sizes (ctx_index (ctx st)) pa")
  case None
  with inv show ?thesis by (simp add: unlink_index_def spec_unlink_def abs_state_def sizes_def)
next
  case (Some ls)
  let ?ix = "ctx_index (ctx st)" and ?z = "(file_to_sizes (ctx_index (ctx st)))(pa := None)"
  have c: "consistent sha (master st) (nextBlockIndex (ctx st)) ?ix" using inv by (simp add: mount_inv_def)
  obtain ix' where ix': "remove_blocks_dedup_batch ?ix pa 0 (blocks_spanned ls) = Some ix'"
    "file_to_sizes ix' = file_to_sizes ?ix"
    "consistent sha (master st) (nextBlockIndex (ctx st)) (ix'\<lparr>file_to_sizes := ?z\<rparr>)"
    "block_view (master st) ix' = spec_cut pa 0 (block_view (master st) ?ix)"
    using cut_consistent[OF c Some, of None 0] by auto
  have "unlink_index pa st = Some (with_index (ix'\<lparr>file_to_sizes := ?z\<rparr>) st)"
    using Some ix'(1,2) by (simp add: unlink_index_def)
  moreover have "abs_state (with_index (ix'\<lparr>file_to_sizes := ?z\<rparr>) st) = spec_unlink pa (abs_state st)"
    using ix'(4) Some by (simp add: with_index_def spec_unlink_def abs_state_def view_def sizes_def)
  moreover have "world (with_index (ix'\<lparr>file_to_sizes := ?z\<rparr>) st) = world st" by (simp add: with_index_def)
  ultimately show ?thesis using ix'(3) by (simp add: abs_with_index)
qed

lemma truncate_index_correct:
  assumes inv: "mount_inv sha st" and sz: "0 \<le> sz" "sz smod int BLOCK_SIZE = 0" "sz < 2 ^ 63"
  shows "\<exists>st'. truncate_index pa sz st = Some st' \<and> world st' = world st
    \<and> mount_inv sha st' \<and> abs_state st' = spec_truncate pa sz (abs_state st)"
proof -
  let ?ix = "ctx_index (ctx st)" and ?n = "of_nat (nat sz div BLOCK_SIZE) :: u64"
    and ?s = "word_of_int sz :: u64"
  note b = truncate_bounds[OF sz]
  have c: "consistent sha (master st) (nextBlockIndex (ctx st)) ?ix" using inv by (simp add: mount_inv_def)
  have lt: "?s < ls \<longleftrightarrow> sz < int (unat ls)" for ls :: u64
    using b(1) sz(1) by (simp add: word_less_nat_alt nat_less_iff)
  show ?thesis
  proof (cases "\<exists>ls. file_to_sizes ?ix pa = Some ls \<and> ?s < ls")
    case False
    then have "spec_truncate pa sz (abs_state st) = abs_state st"
      by (auto simp: spec_truncate_def abs_state_def sizes_def lt split: option.splits)
    with False inv show ?thesis by (auto simp: truncate_index_def Let_def split: option.splits)
  next
    case True
    then obtain ls where ls: "file_to_sizes ?ix pa = Some ls" "?s < ls" by blast
    have "nat sz div BLOCK_SIZE < 2 ^ 64"
      using unat_less64[of ?s] b(1) div_le_dividend[of "nat sz" BLOCK_SIZE] by linarith
    then have "unat ?n = nat sz div BLOCK_SIZE" by (simp add: unat_of_nat take_bit_eq_mod)
    then have un: "unat ?s = unat ?n * BLOCK_SIZE" using b(1,2) by simp
    moreover have "unat ?s \<le> unat ls" using ls(2) by (simp add: word_less_nat_alt)
    ultimately obtain ix' where ix': "remove_blocks_dedup_batch ?ix pa ?n (blocks_spanned ls) = Some ix'"
      "file_to_sizes ix' = file_to_sizes ?ix"
      "consistent sha (master st) (nextBlockIndex (ctx st)) (ix'\<lparr>file_to_sizes := (file_to_sizes ?ix)(pa \<mapsto> ?s)\<rparr>)"
      "block_view (master st) ix' = spec_cut pa ?n (block_view (master st) ?ix)"
      using cut_consistent[OF c ls(1), of "Some ?s" ?n] by auto
    have sh: "shrink_size pa ?s ix' = ix'\<lparr>file_to_sizes := (file_to_sizes ?ix)(pa \<mapsto> ?s)\<rparr>"
      using ls ix'(2) by (simp add: shrink_size_def)
    let ?st' = "with_index (shrink_size pa ?s ix') st"
    have "truncate_index pa sz st = Some ?st'"
      using ls ix'(1) by (simp add: truncate_index_def b(3) Let_def)
    moreover have "mount_inv sha ?st'" using ix'(3) by (simp add: abs_with_index sh)
    moreover have "abs_state ?st' = spec_truncate pa sz (abs_state st)"
      using ix'(4) ls by (simp add: with_index_def sh spec_truncate_def abs_state_def view_def sizes_def lt)
    moreover have "world ?st' = world st" by (simp add: with_index_def)
    ultimately show ?thesis by blast
  qed
qed

lemma passed_result: "fst (passed call st) = ret (fst (call (world st)))"
  by (simp add: passed_def lower_def split: prod.splits)

lemma passed_after:
  assumes "mount_inv sha st" "abs_state st = a" "world st = w"
  shows "\<exists>rc st'. passed call st = (rc, st') \<and> rc = ret (fst (call w)) \<and> mount_inv sha st' \<and> abs_state st' = a"
proof -
  obtain rc st' where p: "passed call st = (rc, st')" by fastforce
  show ?thesis using passed_abs[OF p] passed_result[of call st] p assms by simp
qed

lemma xmp_unlink_correct:
  assumes inv: "mount_inv sha st"
  shows "\<exists>rc st'. xmp_unlink E pa st = Some (rc, st') \<and> rc = ret (fst (os_unlink E pa (world st)))
    \<and> mount_inv sha st' \<and> abs_state st' = spec_unlink pa (abs_state st)"
proof -
  let ?st = "st\<lparr>ctx := (ctx st)\<lparr>n_unlink := n_unlink (ctx st) + 1\<rparr>\<rparr>"
  have same: "mount_inv sha ?st = mount_inv sha st" "abs_state ?st = abs_state st"
    by (rule same_ctx; simp)+
  obtain st1 where st1: "unlink_index pa ?st = Some st1" "world st1 = world st" "mount_inv sha st1"
    "abs_state st1 = spec_unlink pa (abs_state st)"
    using unlink_index_correct[of sha ?st pa] inv same by auto
  then show ?thesis using passed_after[OF st1(3,4,2), of "os_unlink E pa"] by (auto simp: xmp_unlink_def)
qed

lemma xmp_truncate_rejects:
  assumes "sz < 0 \<or> sz smod int BLOCK_SIZE \<noteq> 0"
  shows "xmp_truncate E pa sz fi st = Some (- 95, st)"
  using assms by (simp add: xmp_truncate_def)

lemma xmp_truncate_correct:
  assumes inv: "mount_inv sha st" and sz: "0 \<le> sz" "sz smod int BLOCK_SIZE = 0" "sz < 2 ^ 63"
  shows "\<exists>rc st'. xmp_truncate E pa sz fi st = Some (rc, st')
    \<and> rc = ret (fst (lower_truncate E pa sz fi (world st)))
    \<and> mount_inv sha st' \<and> abs_state st' = spec_truncate pa sz (abs_state st)"
proof -
  obtain st1 where st1: "truncate_index pa sz st = Some st1" "world st1 = world st" "mount_inv sha st1"
    "abs_state st1 = spec_truncate pa sz (abs_state st)"
    using truncate_index_correct[OF assms] by blast
  then show ?thesis
    using passed_after[OF st1(3,4,2), of "lower_truncate E pa sz fi"] sz by (auto simp: xmp_truncate_def)
qed

section \<open>Writing and reading\<close>

text \<open>What a write request must satisfy, if it is not rejected for its size.\<close>

definition write_admissible :: "(byte list \<Rightarrow> hash) \<Rightarrow> byte list \<Rightarrow> nat \<Rightarrow> int \<Rightarrow> 'w state \<Rightarrow> bool" where
  "write_admissible sha buf sz offset st \<longleftrightarrow>
     0 < sz \<and> BLOCK_SIZE dvd sz \<longrightarrow>
       write_pre 0 (ctx_index (ctx st)) buf sz offset (nextBlockIndex (ctx st))
       \<and> collision_free sha (master st) (ctx_index (ctx st)) buf"

definition spec_put :: "path \<Rightarrow> int \<Rightarrow> byte list \<Rightarrow> store \<times> (path \<rightharpoonup> u64) \<Rightarrow> store \<times> (path \<rightharpoonup> u64)" where
  "spec_put pa offset buf = (\<lambda>(v, z).
     (spec_write pa (start_block_of offset) (blocks_of buf) v,
      spec_grow pa ((start_block_of offset + of_nat (length (blocks_of buf))) * of_nat BLOCK_SIZE) z))"

lemma xmp_write_correct:
  assumes inv: "mount_inv sha st" and adm: "write_admissible sha buf sz offset st"
  shows "\<exists>rc st'. xmp_write E sha pa buf sz offset fi st = Some (rc, st') \<and> mount_inv sha st'
    \<and> (0 < rc \<and> rc = int sz \<and> abs_state st' = spec_put pa offset buf (abs_state st)
       \<or> rc \<le> 0 \<and> abs_state st' = abs_state st)"
proof -
  let ?st = "st\<lparr>ctx := (ctx st)\<lparr>n_write := n_write (ctx st) + 1\<rparr>\<rparr>" and ?ix = "ctx_index (ctx st)"
    and ?nb = "nextBlockIndex (ctx st)"
  obtain fd e st1 where fd: "request_fd E pa O_WRONLY fi ?st = ((fd, e), st1)" by (metis prod_cases3 surj_pair)
  note f1 = request_fd_frame[OF fd]
  have same: "ctx_index (ctx st1) = ?ix" "nextBlockIndex (ctx st1) = ?nb" "master st1 = master st"
    using f1 by simp_all
  have c: "consistent sha (master st) ?nb ?ix" using inv by (simp add: mount_inv_def)
  show ?thesis
  proof (cases "fd = -1")
    case True
    then have "xmp_write E sha pa buf sz offset fi st = Some (- errno_val e, st1)"
      using fd by (simp add: xmp_write_def Let_def)
    moreover have "- errno_val e \<le> 0" using errno_val_pos[of e] by linarith
    ultimately show ?thesis using same_ctx[OF same] inv by simp
  next
    case fd_ok: False
    obtain rc ix' f' nb' ios' where
      w: "write_dedup sha ?ix pa buf sz offset (master st) ?nb (answers st1) = Some (rc, ix', f', nb', ios')"
      and c': "consistent sha f' nb' ix'"
      and r: "0 < rc \<and> rc = int sz \<and> write_done (master st) ?ix f' ix' pa offset buf
        \<or> rc \<le> 0 \<and> write_undone (master st) ?ix f' ix'"
    proof (cases "0 < sz \<and> BLOCK_SIZE dvd sz")
      case True
      then have "write_pre 0 ?ix buf sz offset ?nb" "collision_free sha (master st) ?ix buf"
        using adm by (simp_all add: write_admissible_def)
      with c True show ?thesis
        using write_dedup_correct[of sha "master st" ?nb "{#}" "{}" "{}" ?ix buf sz offset pa "answers st1"]
        by (auto simp: consistent_def intro!: that)
    next
      case False
      then have "write_dedup sha ?ix pa buf sz offset (master st) ?nb (answers st1)
          = Some (if sz = 0 then 0 else - 95, ?ix, master st, ?nb, answers st1)"
        by (auto simp: write_dedup_def Let_def mod_eq_0_iff_dvd)
      then show ?thesis by (rule that) (use c in \<open>simp_all add: write_undone_def\<close>)
    qed
    let ?st' = "close_own E fi fd (st1\<lparr>ctx := (ctx st1)\<lparr>ctx_index := ix', nextBlockIndex := nb'\<rparr>,
        master := f', answers := ios'\<rparr>)"
    have "xmp_write E sha pa buf sz offset fi st = Some (rc, ?st')"
      using fd fd_ok w same by (simp add: xmp_write_def Let_def)
    moreover have "mount_inv sha ?st'" using c' by (simp add: mount_inv_def close_own_frame)
    moreover have "abs_state ?st' = (block_view f' ix', file_to_sizes ix')"
      by (simp add: abs_state_def view_def sizes_def close_own_frame)
    ultimately show ?thesis
      using r by (auto simp: write_done_def write_undone_def spec_put_def abs_state_def view_def sizes_def)
  qed
qed

lemma xmp_read_correct:
  assumes inv: "mount_inv sha st" and qs: "qsort_contract qs"
    and sz: "length buf = sz" "sz < 2 ^ 31" and nb: "unat (nextBlockIndex (ctx st)) \<le> MAX_SLOTS"
    and bs: "bs = spec_read pa (start_block_of offset) (sz div BLOCK_SIZE) (view st)"
  shows "\<exists>rc buf' st'. xmp_read E qs malloc_ok pa buf sz offset fi st = Some ((rc, buf'), st')
    \<and> mount_inv sha st' \<and> abs_state st' = abs_state st
    \<and> (rc \<ge> 0 \<longrightarrow> 0 < sz \<and> BLOCK_SIZE dvd sz \<and> rc = int (length bs * BLOCK_SIZE)
         \<and> take (length bs * BLOCK_SIZE) buf' = concat bs)"
proof -
  let ?st = "st\<lparr>ctx := (ctx st)\<lparr>n_read := n_read (ctx st) + 1\<rparr>\<rparr>" and ?ix = "ctx_index (ctx st)"
  obtain fd e st1 where fd: "request_fd E pa O_RDONLY fi ?st = ((fd, e), st1)" by (metis prod_cases3 surj_pair)
  note f1 = request_fd_frame[OF fd]
  have same: "ctx_index (ctx st1) = ?ix" "nextBlockIndex (ctx st1) = nextBlockIndex (ctx st)"
    "master st1 = master st"
    using f1 by simp_all
  have wf: "wf_all sha (master st) (nextBlockIndex (ctx st)) {#} {} {} ?ix"
    using inv by (simp add: mount_inv_def consistent_def)
  show ?thesis
  proof (cases "fd = -1")
    case True
    then have "xmp_read E qs malloc_ok pa buf sz offset fi st = Some ((- errno_val e, buf), st1)"
      using fd by (simp add: xmp_read_def Let_def)
    moreover have "\<not> 0 \<le> - errno_val e" using errno_val_pos[of e] by linarith
    ultimately show ?thesis using same_ctx[OF same] inv by blast
  next
    case fd_ok: False
    obtain rc buf' ios' where
      r: "read_dedup qs malloc_ok ?ix pa buf sz offset (master st) (answers st1) = Some (rc, buf', ios')"
      and p: "rc \<ge> 0 \<longrightarrow> 0 < sz \<and> BLOCK_SIZE dvd sz \<and> rc = int (length bs * BLOCK_SIZE)
         \<and> take (length bs * BLOCK_SIZE) buf' = concat bs"
    proof (cases "0 < sz \<and> BLOCK_SIZE dvd sz")
      case True
      then show ?thesis
        using read_dedup_correct[OF wf qs nb sz(1) _ _ sz(2) bs[unfolded view_def], of malloc_ok "answers st1"]
        by (auto intro!: that)
    next
      case False
      then have "read_dedup qs malloc_ok ?ix pa buf sz offset (master st) (answers st1) = Some (- 95, buf, answers st1)"
        by (auto simp: read_dedup_def Let_def mod_eq_0_iff_dvd)
      then show ?thesis by (rule that) simp
    qed
    let ?st' = "close_own E fi fd (st1\<lparr>answers := ios'\<rparr>)"
    have "xmp_read E qs malloc_ok pa buf sz offset fi st = Some ((rc, buf'), ?st')"
      using fd fd_ok r same by (simp add: xmp_read_def Let_def)
    moreover have "mount_inv sha ?st' = mount_inv sha st" "abs_state ?st' = abs_state st"
      by (rule same_ctx; simp add: close_own_frame same)+
    ultimately show ?thesis using p inv by blast
  qed
qed

end
