(* ===== verification/Mount.thy ===== *)
theory Mount
  imports Passthrough_Correct
begin

text \<open>
  The table \<open>xmp_oper\<close> of \<open>src/passthrough.c\<close> as a dispatcher over requests, sessions as a step
  relation in which the lower file system may change between requests, and the abstract file
  system that a session implements.
\<close>

section \<open>Requests\<close>

datatype request =
    Getattr path
  | Access path nat
  | Readlink path "byte list" nat
  | Readdir path
  | Mknod path u32 u64
  | Mkdir path u32
  | Symlink path path
  | Unlink path
  | Rmdir path
  | Rename path path nat
  | Link path path
  | Chmod path u32
  | Chown path u32 u32
  | Truncate path int "file_info option"
  | Utimens path "int \<times> int"
  | Open path file_info
  | Create path u32 file_info
  | Read bool path "byte list" nat int "file_info option"
  | Write path "byte list" nat int "file_info option"
  | Statfs path
  | Release file_info
  | Fsync int file_info
  | Fallocate path int int int "file_info option"
  | Setxattr path path "byte list" nat
  | Getxattr path path nat
  | Listxattr path nat
  | Removexattr path path

text \<open>The value a handler returns, and what it fills in for the caller.\<close>

datatype answer =
    Nothing
  | Attributes stat
  | Bytes "byte list"
  | Entries "(path \<times> stat) list"
  | Handle file_info
  | Numbers "nat list"

type_synonym reply = "int \<times> answer"

text \<open>
  What a mount runs with. The first argument of \<open>Read\<close> says whether \<open>malloc\<close> succeeds.
  \<open>optional_handlers\<close> says whether the code is compiled with \<open>HAVE_UTIMENSAT\<close>,
  \<open>HAVE_POSIX_FALLOCATE\<close> and \<open>HAVE_SETXATTR\<close>, which the Makefile does not define. For a handler
  that is not in the table FUSE answers \<open>ENOSYS\<close> itself.
\<close>

record 'w env =
  lower_fs :: "'w os"
  sha512 :: "byte list \<Rightarrow> hash"
  quicksort :: "(BlockPair \<Rightarrow> BlockPair \<Rightarrow> int) \<Rightarrow> BlockPair list \<Rightarrow> BlockPair list"
  fill_dir_plus :: bool
  optional_handlers :: bool
  filler :: "path \<Rightarrow> stat \<Rightarrow> bool \<Rightarrow> (path \<times> stat) list \<Rightarrow> bool \<times> (path \<times> stat) list"

definition plain :: "int \<times> 'w state \<Rightarrow> (reply \<times> 'w state) option" where
  "plain r = Some ((fst r, Nothing), snd r)"

definition filled :: "('a \<Rightarrow> answer) \<Rightarrow> (int \<times> 'a) \<times> 'w state \<Rightarrow> (reply \<times> 'w state) option" where
  "filled out r = Some ((fst (fst r), out (snd (fst r))), snd r)"

definition optional :: "'w env \<Rightarrow> (reply \<times> 'w state) option \<Rightarrow> 'w state \<Rightarrow> (reply \<times> 'w state) option" where
  "optional V r st = (if optional_handlers V then r else Some ((- 38, Nothing), st))"

fun xmp_oper :: "'w env \<Rightarrow> request \<Rightarrow> 'w state \<Rightarrow> (reply \<times> 'w state) option" where
  "xmp_oper V (Getattr pa) st = filled Attributes (xmp_getattr (lower_fs V) pa st)"
| "xmp_oper V (Access pa amode) st = plain (xmp_access (lower_fs V) pa amode st)"
| "xmp_oper V (Readlink pa buf sz) st = filled Bytes (xmp_readlink (lower_fs V) pa buf sz st)"
| "xmp_oper V (Readdir pa) st =
     filled Entries (xmp_readdir (lower_fs V) (fill_dir_plus V) pa (filler V) [] st)"
| "xmp_oper V (Mknod pa mode rdev) st = plain (xmp_mknod (lower_fs V) pa mode rdev st)"
| "xmp_oper V (Mkdir pa mode) st = plain (xmp_mkdir (lower_fs V) pa mode st)"
| "xmp_oper V (Symlink fro to) st = plain (xmp_symlink (lower_fs V) fro to st)"
| "xmp_oper V (Unlink pa) st = do { r \<leftarrow> xmp_unlink (lower_fs V) pa st; plain r }"
| "xmp_oper V (Rmdir pa) st = plain (xmp_rmdir (lower_fs V) pa st)"
| "xmp_oper V (Rename fro to flags) st = plain (xmp_rename (lower_fs V) fro to flags st)"
| "xmp_oper V (Link fro to) st = plain (xmp_link (lower_fs V) fro to st)"
| "xmp_oper V (Chmod pa mode) st = plain (xmp_chmod (lower_fs V) pa mode st)"
| "xmp_oper V (Chown pa uid gid) st = plain (xmp_chown (lower_fs V) pa uid gid st)"
| "xmp_oper V (Truncate pa sz fi) st = do { r \<leftarrow> xmp_truncate (lower_fs V) pa sz fi st; plain r }"
| "xmp_oper V (Utimens pa ts) st = optional V (plain (xmp_utimens (lower_fs V) pa ts st)) st"
| "xmp_oper V (Open pa fi) st = filled Handle (xmp_open (lower_fs V) pa fi st)"
| "xmp_oper V (Create pa mode fi) st = filled Handle (xmp_create (lower_fs V) pa mode fi st)"
| "xmp_oper V (Read malloc_ok pa buf sz offset fi) st =
     do { r \<leftarrow> xmp_read (lower_fs V) (quicksort V) malloc_ok pa buf sz offset fi st; filled Bytes r }"
| "xmp_oper V (Write pa buf sz offset fi) st =
     do { r \<leftarrow> xmp_write (lower_fs V) (sha512 V) pa buf sz offset fi st; plain r }"
| "xmp_oper V (Statfs pa) st = filled Numbers (xmp_statfs (lower_fs V) pa st)"
| "xmp_oper V (Release fi) st = plain (xmp_release (lower_fs V) fi st)"
| "xmp_oper V (Fsync isdatasync fi) st = plain (xmp_fsync (lower_fs V) isdatasync fi st)"
| "xmp_oper V (Fallocate pa mode offset len fi) st =
     optional V (plain (xmp_fallocate (lower_fs V) pa mode offset len fi st)) st"
| "xmp_oper V (Setxattr pa nm val flags) st = optional V (plain (xmp_setxattr (lower_fs V) pa nm val flags st)) st"
| "xmp_oper V (Getxattr pa nm sz) st = optional V (filled Bytes (xmp_getxattr (lower_fs V) pa nm sz st)) st"
| "xmp_oper V (Listxattr pa sz) st = optional V (filled Bytes (xmp_listxattr (lower_fs V) pa sz st)) st"
| "xmp_oper V (Removexattr pa nm) st = optional V (plain (xmp_removexattr (lower_fs V) pa nm st)) st"

section \<open>The abstract file system\<close>

fun spec_request :: "request \<Rightarrow> reply \<Rightarrow> store \<times> (path \<rightharpoonup> u64) \<Rightarrow> store \<times> (path \<rightharpoonup> u64)" where
  "spec_request (Write pa buf sz offset fi) rep a = (if 0 < fst rep then spec_put pa offset buf a else a)"
| "spec_request (Truncate pa sz fi) rep a =
     (if sz < 0 \<or> sz smod int BLOCK_SIZE \<noteq> 0 then a else spec_truncate pa sz a)"
| "spec_request (Unlink pa) rep a = spec_unlink pa a"
| "spec_request req rep a = a"

text \<open>
  What the kernel guarantees of a request (the buffer has the announced length, offsets are
  \<open>off_t\<close> values), that the master file and the counts do not overflow, and that SHA-512 does
  not collide.
\<close>

fun admissible :: "'w env \<Rightarrow> request \<Rightarrow> 'w state \<Rightarrow> bool" where
  "admissible V (Write pa buf sz offset fi) st = write_admissible (sha512 V) buf sz offset st"
| "admissible V (Read malloc_ok pa buf sz offset fi) st =
     (length buf = sz \<and> sz < 2 ^ 31 \<and> unat (nextBlockIndex (ctx st)) \<le> MAX_SLOTS)"
| "admissible V (Truncate pa sz fi) st = (sz < 2 ^ 63)"
| "admissible V req st = True"

section \<open>Handlers that leave the index alone\<close>

definition index_kept :: "'w state \<Rightarrow> 'w state \<Rightarrow> bool" where
  "index_kept st st' \<longleftrightarrow> ctx_index (ctx st') = ctx_index (ctx st)
     \<and> nextBlockIndex (ctx st') = nextBlockIndex (ctx st) \<and> master st' = master st"

lemma index_kept_abs:
  "index_kept st st' \<Longrightarrow> mount_inv sha st' = mount_inv sha st \<and> abs_state st' = abs_state st"
  using same_ctx[of st' st] by (simp add: index_kept_def)

lemma index_kept_refl [simp]: "index_kept st st"
  by (simp add: index_kept_def)

lemma index_kept_trans: "index_kept st st1 \<Longrightarrow> index_kept st1 st2 \<Longrightarrow> index_kept st st2"
  by (simp add: index_kept_def)

lemma index_kept_counters [simp]:
  "index_kept st (st'\<lparr>ctx := (ctx st')\<lparr>n_getattr := n\<rparr>\<rparr>) = index_kept st st'"
  "index_kept st (st'\<lparr>ctx := (ctx st')\<lparr>n_create := n\<rparr>\<rparr>) = index_kept st st'"
  "index_kept st (st'\<lparr>ctx := (ctx st')\<lparr>n_open := n\<rparr>\<rparr>) = index_kept st st'"
  "index_kept st (st'\<lparr>ctx := (ctx st')\<lparr>n_close := n\<rparr>\<rparr>) = index_kept st st'"
  by (simp_all add: index_kept_def)

lemma index_kept_lower: "index_kept st (snd (lower call st')) = index_kept st st'"
  by (simp add: index_kept_def lower_def split: prod.splits)

lemma index_kept_passed: "index_kept st (snd (passed call st')) = index_kept st st'"
  by (simp add: passed_def Let_def case_prod_beta index_kept_lower)

lemma index_kept_fd: "index_kept st (snd (request_fd E pa flags fi st')) = index_kept st st'"
  by (simp add: request_fd_def index_kept_lower split: option.splits)

lemma index_kept_close: "index_kept st (close_own E fi fd st') = index_kept st st'"
  by (simp add: close_own_def index_kept_lower split: option.splits)

lemmas index_kept_rules = index_kept_lower index_kept_passed index_kept_fd index_kept_close

lemmas passing_defs = xmp_access_def xmp_mkdir_def xmp_rmdir_def xmp_symlink_def xmp_rename_def
  xmp_link_def xmp_chmod_def xmp_chown_def xmp_utimens_def xmp_setxattr_def xmp_removexattr_def

lemmas reporting_defs = xmp_getattr_def xmp_readlink_def xmp_readdir_def xmp_mknod_def
  mknod_wrapper_def xmp_open_def xmp_create_def xmp_statfs_def xmp_release_def xmp_fsync_def
  xmp_fallocate_def xmp_getxattr_def xmp_listxattr_def

definition changes_index :: "request \<Rightarrow> bool" where
  "changes_index req \<longleftrightarrow> (case req of Write _ _ _ _ _ \<Rightarrow> True | Truncate _ _ _ \<Rightarrow> True | Unlink _ \<Rightarrow> True
     | Read _ _ _ _ _ _ \<Rightarrow> True | _ \<Rightarrow> False)"

lemma other_requests:
  assumes "\<not> changes_index req"
  shows "\<exists>rep st'. xmp_oper V req st = Some (rep, st') \<and> index_kept st st'"
  using assms
  by (cases req) (auto simp: changes_index_def plain_def filled_def optional_def passing_defs reporting_defs Let_def
      case_prod_beta index_kept_rules index_kept_passed split: option.splits bool.splits)

section \<open>One request\<close>

lemma spec_request_other: "\<not> changes_index req \<Longrightarrow> spec_request req rep a = a"
  by (cases req) (simp_all add: changes_index_def)

text \<open>
  No request follows a dangling pointer; each keeps the invariant and acts on blocks and sizes as
  the abstract file system does.
\<close>

lemma request_correct:
  assumes inv: "mount_inv (sha512 V) st" and adm: "admissible V req st" and qs: "qsort_contract (quicksort V)"
  shows "\<exists>rep st'. xmp_oper V req st = Some (rep, st') \<and> mount_inv (sha512 V) st'
    \<and> abs_state st' = spec_request req rep (abs_state st)"
proof (cases "changes_index req")
  case False
  obtain rep st' where "xmp_oper V req st = Some (rep, st')" "index_kept st st'"
    using other_requests[OF False] by blast
  then show ?thesis using index_kept_abs inv spec_request_other[OF False] by metis
next
  case True
  then show ?thesis
  proof (cases req)
    case (Write pa buf sz offset fi)
    with adm have "write_admissible (sha512 V) buf sz offset st" by simp
    from xmp_write_correct[OF inv this, of "lower_fs V" pa fi] obtain rc st' where
      w: "xmp_write (lower_fs V) (sha512 V) pa buf sz offset fi st = Some (rc, st')" "mount_inv (sha512 V) st'"
      and a: "0 < rc \<and> abs_state st' = spec_put pa offset buf (abs_state st)
        \<or> rc \<le> 0 \<and> abs_state st' = abs_state st" by blast
    have "xmp_oper V req st = Some ((rc, Nothing), st')" using w Write by (simp add: plain_def)
    moreover have "abs_state st' = spec_request req (rc, Nothing) (abs_state st)" using a Write by auto
    ultimately show ?thesis using w by blast
  next
    case (Truncate pa sz fi)
    show ?thesis
    proof (cases "sz < 0 \<or> sz smod int BLOCK_SIZE \<noteq> 0")
      case rejected: True
      show ?thesis using inv Truncate rejected by (simp add: xmp_truncate_rejects[OF rejected] plain_def)
    next
      case False
      then have "0 \<le> sz" "sz smod int BLOCK_SIZE = 0" "sz < 2 ^ 63" using Truncate adm by simp_all
      from xmp_truncate_correct[OF inv this, of "lower_fs V" pa fi] Truncate False show ?thesis
        by (auto simp: plain_def)
    qed
  next
    case (Unlink pa)
    with xmp_unlink_correct[OF inv, of "lower_fs V" pa] show ?thesis by (auto simp: plain_def)
  next
    case (Read malloc_ok pa buf sz offset fi)
    with adm have "length buf = sz" "sz < 2 ^ 31" "unat (nextBlockIndex (ctx st)) \<le> MAX_SLOTS" by simp_all
    from xmp_read_correct[OF inv qs this refl, of "lower_fs V" malloc_ok pa offset fi] Read show ?thesis
      by (auto simp: filled_def)
  qed (simp_all add: changes_index_def)
qed

section \<open>Sessions\<close>

text \<open>
  A session is a sequence of requests. Between them the lower file system may change in any way,
  and the kernel's next answers are whatever they are.
\<close>

inductive mount_step :: "'w env \<Rightarrow> 'w state \<Rightarrow> (request \<times> reply) option \<Rightarrow> 'w state \<Rightarrow> bool" for V where
  handle: "admissible V req st \<Longrightarrow> xmp_oper V req st = Some (rep, st') \<Longrightarrow> mount_step V st (Some (req, rep)) st'"
| outside: "mount_step V st None (st\<lparr>world := w, answers := ios, errno_left := e\<rparr>)"

inductive_cases handledE: "mount_step V st (Some ev) st'"
inductive_cases outsideE: "mount_step V st None st'"

inductive session :: "'w env \<Rightarrow> 'w state \<Rightarrow> (request \<times> reply) list \<Rightarrow> 'w state \<Rightarrow> bool" for V st0 where
  start: "session V st0 [] st0"
| handled: "session V st0 tr st \<Longrightarrow> mount_step V st (Some ev) st' \<Longrightarrow> session V st0 (tr @ [ev]) st'"
| disturbed: "session V st0 tr st \<Longrightarrow> mount_step V st None st' \<Longrightarrow> session V st0 tr st'"

definition spec_trace :: "(request \<times> reply) list \<Rightarrow> store \<times> (path \<rightharpoonup> u64) \<Rightarrow> store \<times> (path \<rightharpoonup> u64)" where
  "spec_trace tr a = fold (\<lambda>(req, rep) a. spec_request req rep a) tr a"

lemma mount_step_correct:
  assumes "mount_step V st (Some (req, rep)) st'" "mount_inv (sha512 V) st" "qsort_contract (quicksort V)"
  shows "mount_inv (sha512 V) st'" "abs_state st' = spec_request req rep (abs_state st)"
proof -
  have "admissible V req st" "xmp_oper V req st = Some (rep, st')"
    using assms(1) by (auto elim: handledE)
  with request_correct[OF assms(2) _ assms(3)]
  show "mount_inv (sha512 V) st'" "abs_state st' = spec_request req rep (abs_state st)" by fastforce+
qed

lemma session_correct:
  assumes "session V st0 tr st" "mount_inv (sha512 V) st0" "qsort_contract (quicksort V)"
  shows "mount_inv (sha512 V) st \<and> abs_state st = spec_trace tr (abs_state st0)"
  using assms(1)
proof induction
  case start
  then show ?case using assms(2) by (simp add: spec_trace_def)
next
  case (handled tr st ev st')
  obtain req rep where ev: "ev = (req, rep)" by (metis surj_pair)
  with mount_step_correct[of V st req rep st'] handled assms(3) show ?case
    by (simp add: spec_trace_def)
next
  case (disturbed tr st st')
  from disturbed.hyps(2) have "index_kept st st'" by (rule outsideE) (simp add: index_kept_def)
  with index_kept_abs disturbed.IH show ?case by metis
qed

end
