(* ===== verification/Example_Mount.thy ===== *)
theory Example_Mount
  imports Mount
begin

text \<open>
  A concrete mount on which the properties of the handlers are applied: a lower file system whose
  calls succeed and change nothing, and the states before and after one block is written.
\<close>

definition demo_stat :: stat where
  "demo_stat = \<lparr>st_ino = 1, st_mode = 0x8000, st_size = 0\<rparr>"

definition done_ok :: "unit call" where
  "done_ok w = ((0, EIO), w)"

definition demo_os :: "unit os" where
  "demo_os = \<lparr>
     os_lstat = \<lambda>pa w. ((0, EIO, demo_stat), w),
     os_access = \<lambda>pa m. done_ok,
     os_readlink = \<lambda>pa n w. ((0, EIO, []), w),
     os_opendir = \<lambda>pa w. ((Some [], EIO), w),
     os_openat = \<lambda>pa fl m w. ((3, EIO), w),
     os_mkdirat = \<lambda>pa m. done_ok,
     os_symlinkat = \<lambda>l pa. done_ok,
     os_mkfifoat = \<lambda>pa m. done_ok,
     os_mknodat = \<lambda>pa m d. done_ok,
     os_unlink = \<lambda>pa. done_ok,
     os_mkdir = \<lambda>pa m. done_ok,
     os_rmdir = \<lambda>pa. done_ok,
     os_symlink = \<lambda>a b. done_ok,
     os_rename = \<lambda>a b. done_ok,
     os_link = \<lambda>a b. done_ok,
     os_chmod = \<lambda>pa m. done_ok,
     os_lchown = \<lambda>pa u g. done_ok,
     os_truncate = \<lambda>pa s. done_ok,
     os_ftruncate = \<lambda>fd s. done_ok,
     os_utimensat = \<lambda>pa ts fl. done_ok,
     os_open = \<lambda>pa fl m w. ((3, EIO), w),
     os_close = \<lambda>fd. done_ok,
     os_statvfs = \<lambda>pa w. ((0, EIO, []), w),
     os_fsync = \<lambda>fd. done_ok,
     os_fdatasync = \<lambda>fd. done_ok,
     os_posix_fallocate = \<lambda>fd a b w. (0, w),
     os_lsetxattr = \<lambda>pa nm v fl. done_ok,
     os_lgetxattr = \<lambda>pa nm n w. ((0, EIO, []), w),
     os_llistxattr = \<lambda>pa n w. ((0, EIO, []), w),
     os_lremovexattr = \<lambda>pa nm. done_ok,
     os_copy_file_range = \<lambda>a b c d n fl. done_ok,
     os_lseek = \<lambda>fd a wh. done_ok\<rparr>"

definition demo_env :: "unit env" where
  "demo_env = \<lparr>lower_fs = demo_os, sha512 = demo_sha, quicksort = (\<lambda>cmp. sort_key master_block_index),
     fill_dir_plus = False, optional_handlers = False, filler = (\<lambda>nm st with_plus es. (False, es @ [(nm, st)]))\<rparr>"

definition demo_ctx :: "Index \<Rightarrow> u64 \<Rightarrow> Context" where
  "demo_ctx ix nb = \<lparr>ctx_index = ix, masterFd = 3, nextBlockIndex = nb, n_create = 0, n_open = 0,
     n_close = 0, n_write = 0, n_read = 0, n_getattr = 0, n_unlink = 0\<rparr>"

definition demo_state :: "Index \<Rightarrow> u64 \<Rightarrow> fbytes \<Rightarrow> unit state" where
  "demo_state ix nb f = \<lparr>ctx = demo_ctx ix nb, master = f, answers = [], world = (), errno_left = EPERM\<rparr>"

abbreviation demo_empty :: "unit state" where
  "demo_empty \<equiv> demo_state empty_index 0 []"

abbreviation demo_full :: "unit state" where
  "demo_full \<equiv> demo_state demo_ix 1 demo_buf"

lemmas demo_state_defs = demo_state_def demo_ctx_def

lemma demo_full_inv: "mount_inv demo_sha demo_full"
  using demo_consistent by (simp add: mount_inv_def demo_state_defs)

lemma demo_empty_inv: "mount_inv demo_sha demo_empty"
  using consistent_empty by (simp add: mount_inv_def demo_state_defs)

lemma demo_full_view: "view demo_full = [bkey demo_path 0 \<mapsto> demo_buf]"
  by (simp add: view_def demo_state_defs demo_view)

lemma demo_full_sizes: "sizes demo_full = [demo_path \<mapsto> 4096]"
  by (simp add: sizes_def demo_state_defs demo_ix_def demo_held_def empty_index_def)

lemma demo_full_abs: "abs_state demo_full = ([bkey demo_path 0 \<mapsto> demo_buf], [demo_path \<mapsto> 4096])"
  by (simp add: abs_state_def demo_full_view demo_full_sizes)

lemma demo_qsort: "qsort_contract (quicksort demo_env)"
  by (simp add: demo_env_def qsort_contract_sort_key)

text \<open>The write of the demo block, through the handler.\<close>

definition demo_fi :: file_info where
  "demo_fi = \<lparr>fi_flags = 2, fi_fh = 3\<rparr>"

definition demo_written :: "unit state" where
  "demo_written = demo_full\<lparr>ctx := (demo_ctx demo_ix 1)\<lparr>n_write := 1\<rparr>\<rparr>"

lemma demo_fd: "fd_of_fh (fi_fh demo_fi) = 3"
  by (simp add: demo_fi_def fd_of_fh_def)

lemma demo_xmp_write:
  "xmp_write demo_os demo_sha demo_path demo_buf 4096 0 (Some demo_fi) demo_empty = Some (4096, demo_written)"
  using demo_write_ok
  by (simp add: xmp_write_def request_fd_def demo_fd close_own_def demo_state_defs demo_written_def)

lemma demo_write_step:
  "mount_step demo_env demo_empty (Some (Write demo_path demo_buf 4096 0 (Some demo_fi), 4096, Nothing)) demo_written"
proof (rule handle)
  show "admissible demo_env (Write demo_path demo_buf 4096 0 (Some demo_fi)) demo_empty"
    using demo_pre demo_coll[of "[]"] by (simp add: write_admissible_def demo_state_defs demo_env_def)
  show "xmp_oper demo_env (Write demo_path demo_buf 4096 0 (Some demo_fi)) demo_empty = Some ((4096, Nothing), demo_written)"
    using demo_xmp_write by (simp add: demo_env_def plain_def)
qed

lemma demo_session:
  "session demo_env demo_empty [(Write demo_path demo_buf 4096 0 (Some demo_fi), 4096, Nothing)] demo_written"
  using handled[OF start demo_write_step] by simp

end
