(* ===== verification/Mount_Properties.thy ===== *)
theory Mount_Properties
  imports Example_Mount
begin

text \<open>
  The properties of the mounted file system: sessions against the abstract one, the handlers that
  read and remove, and the places where the handlers and the lower file system part.
\<close>

section \<open>Sessions\<close>

text \<open>
  C1: through any session of admissible requests, whatever the lower file system and the kernel
  answer and whatever changes below between requests, the index stays consistent, and the blocks
  and sizes of all files are those the abstract file system computes from the requests and the
  values returned.
\<close>

theorem session_refines_spec:
  assumes "session V st0 tr st" "mount_inv (sha512 V) st0" "qsort_contract (quicksort V)"
  shows "mount_inv (sha512 V) st \<and> abs_state st = spec_trace tr (abs_state st0)"
  using assms by (rule session_correct)

theorem session_refines_spec_witness:
  "abs_state demo_written = spec_put demo_path 0 demo_buf (Map.empty, Map.empty)"
proof -
  have "sha512 demo_env = demo_sha" by (simp add: demo_env_def)
  moreover have "abs_state demo_empty = (Map.empty, Map.empty)"
    by (simp add: abs_state_def view_def sizes_def demo_state_defs block_view_def empty_index_def fun_eq_iff)
  ultimately show ?thesis
    using session_refines_spec[OF demo_session] demo_empty_inv demo_qsort by (simp add: spec_trace_def)
qed

text \<open>
  C2: no request is stuck. In a consistent state every handler runs to its end without following
  a dangling pointer, and leaves a consistent state.
\<close>

theorem requests_never_stuck:
  assumes "mount_inv (sha512 V) st" "admissible V req st" "qsort_contract (quicksort V)"
  shows "\<exists>rep st'. xmp_oper V req st = Some (rep, st') \<and> mount_inv (sha512 V) st'"
  using request_correct[OF assms] by blast

theorem requests_never_stuck_witness:
  "\<exists>rep st'. xmp_oper demo_env (Unlink demo_path) demo_full = Some (rep, st') \<and> mount_inv demo_sha st'"
  using requests_never_stuck[of demo_env demo_full "Unlink demo_path"] demo_full_inv demo_qsort
  by (simp add: demo_env_def)

section \<open>Reading and attributes\<close>

text \<open>
  C14: What a read returns, in every case. Without a descriptor (the caller's is -1, or there is none and \<open>open\<close> on the lower file
  fails) it is the error of that; a request that is empty or not a multiple of the block size is refused with
  \<open>EOPNOTSUPP\<close>; any other request returns the number of bytes up to the first block without data, delivers exactly them and leaves the
  rest of the buffer alone, and it can fail only if \<open>malloc\<close> or a \<open>pread\<close> of the master file goes wrong.
\<close>

theorem xmp_read_delivers:
  assumes "mount_inv sha st" "qsort_contract qs" "length buf = sz" "sz < 2 ^ 31"
    and "unat (nextBlockIndex (ctx st)) \<le> MAX_SLOTS"
    and "bs = spec_read pa (start_block_of offset) (sz div BLOCK_SIZE) (view st)"
    and fd: "(case fi of None \<Rightarrow> fst (os_open E pa O_RDONLY 0 (world st)) | Some f \<Rightarrow> (fd_of_fh (fi_fh f), errno_left st)) = (fd, e)"
  shows "\<exists>rc buf' st'. xmp_read E qs malloc_ok pa buf sz offset fi st = Some ((rc, buf'), st')
    \<and> abs_state st' = abs_state st
    \<and> (if fd = -1 then rc = - errno_val e \<and> buf' = buf
       else if sz = 0 \<or> \<not> BLOCK_SIZE dvd sz then rc = - errno_val EOPNOTSUPP \<and> buf' = buf
       else if malloc_ok \<and> (\<forall>io \<in> set (answers st). io = IoOk) \<or> 0 \<le> rc
       then rc = int (length bs * BLOCK_SIZE) \<and> take (length bs * BLOCK_SIZE) buf' = concat bs
         \<and> drop (length bs * BLOCK_SIZE) buf' = drop (length bs * BLOCK_SIZE) buf
       else rc < 0)"
proof -
  let ?st = "st\<lparr>ctx := (ctx st)\<lparr>n_read := n_read (ctx st) + 1\<rparr>\<rparr>" and ?ix = "ctx_index (ctx st)"
  obtain st1 where req: "request_fd E pa O_RDONLY fi ?st = ((fd, e), st1)"
    using fd by (cases fi; cases "os_open E pa O_RDONLY 0 (world st)") (auto simp: request_fd_def lower_def)
  note f1 = request_fd_frame[OF req]
  have same: "ctx_index (ctx st1) = ?ix" "nextBlockIndex (ctx st1) = nextBlockIndex (ctx st)" "master st1 = master st"
    "answers st1 = answers st" using f1 by simp_all
  have wf: "wf_all sha (master st) (nextBlockIndex (ctx st)) {#} {} {} ?ix"
    using assms(1) by (simp add: mount_inv_def consistent_def)
  have closed: "abs_state (close_own E fi fd (st1\<lparr>answers := ios'\<rparr>)) = abs_state st" for ios'
    by (rule same_ctx) (simp_all add: close_own_frame same)
  consider "fd = -1" | "fd \<noteq> -1" "sz = 0 \<or> \<not> BLOCK_SIZE dvd sz" | "fd \<noteq> -1" "0 < sz" "BLOCK_SIZE dvd sz" by auto
  then show ?thesis
  proof cases
    case 1
    then show ?thesis using req same_ctx(2)[OF same(1-3)] by (simp add: xmp_read_def Let_def)
  next
    case 2
    then have "read_dedup qs malloc_ok ?ix pa buf sz offset (master st) (answers st1) = Some (- errno_val EOPNOTSUPP, buf, answers st1)"
      by (auto simp: read_dedup_def Let_def mod_eq_0_iff_dvd)
    then show ?thesis using req 2 same closed by (simp add: xmp_read_def Let_def)
  next
    case 3
    obtain rc buf' ios' where r: "read_dedup qs malloc_ok ?ix pa buf sz offset (master st) (answers st) = Some (rc, buf', ios')"
      and d: "rc \<ge> 0 \<longrightarrow> rc = int (length bs * BLOCK_SIZE) \<and> take (length bs * BLOCK_SIZE) buf' = concat bs
         \<and> drop (length bs * BLOCK_SIZE) buf' = drop (length bs * BLOCK_SIZE) buf"
      and ok: "malloc_ok \<and> (\<forall>io \<in> set (answers st). io = IoOk) \<longrightarrow> rc \<ge> 0"
      using read_dedup_correct[OF wf assms(2,5,3) 3(2,3) assms(4) assms(6)[unfolded view_def], of malloc_ok "answers st"]
      by blast
    have "xmp_read E qs malloc_ok pa buf sz offset fi st = Some ((rc, buf'), close_own E fi fd (st1\<lparr>answers := ios'\<rparr>))"
      using req 3(1) r same by (simp add: xmp_read_def Let_def)
    then show ?thesis using 3 d ok closed by (auto simp: not_le)
  qed
qed

theorem xmp_read_delivers_witness:
  "\<exists>buf' st'. xmp_read demo_os (\<lambda>cmp. sort_key master_block_index) True demo_path (replicate 4096 0) 4096 0
      None demo_full = Some ((4096, buf'), st') \<and> take 4096 buf' = demo_buf"
proof -
  have facts: "nextBlockIndex (ctx demo_full) = 1" "answers demo_full = []" by (simp_all add: demo_state_defs)
  have "fst (os_open demo_os demo_path O_RDONLY 0 (world demo_full)) = (3, EIO)" by (simp add: demo_os_def)
  moreover have "[demo_buf] = spec_read demo_path (start_block_of 0) (4096 div BLOCK_SIZE) (view demo_full)"
    by (simp add: demo_full_view demo_start BLOCK_SIZE_def)
  ultimately show ?thesis
    using demo_start xmp_read_delivers[OF demo_full_inv qsort_contract_sort_key, where buf = "replicate 4096 0" and sz = 4096
        and bs = "[demo_buf]" and pa = demo_path and offset = 0 and fi = None and E = demo_os and fd = 3 and e = EIO
        and malloc_ok = True] facts by (simp add: demo_full_view BLOCK_SIZE_def MAX_SLOTS_def) blast
qed

text \<open>
  \<open>getattr\<close> reports the size recorded in the index for a file written through the mount, and
  the lower file's own for any other; the result is that of \<open>lstat\<close>, and nothing else changes.
\<close>

lemma getattr_reports_size:
  "let ((rc, stbuf), st') = xmp_getattr E pa st; ((res, e, lower_stat), w) = os_lstat E pa (world st)
   in rc = ret (res, e) \<and> stbuf = lower_stat\<lparr>st_size :=
        (case sizes st pa of Some s \<Rightarrow> sint s | None \<Rightarrow> st_size lower_stat)\<rparr>
      \<and> abs_state st' = abs_state st \<and> world st' = w"
  by (auto simp: xmp_getattr_def lower_def sizes_def abs_state_def view_def split: prod.splits option.splits)

text \<open>
  A file with a hole in front reads as empty. A read whose first block has no data returns 0,
  the end of file, although \<open>getattr\<close> reports a size beyond it.
\<close>

lemma hole_reads_as_end_of_file:
  assumes "mount_inv sha st" "qsort_contract qs" "length buf = sz" "sz < 2 ^ 31"
    and "unat (nextBlockIndex (ctx st)) \<le> MAX_SLOTS" "0 < sz" "BLOCK_SIZE dvd sz"
    and hole: "view st (bkey pa (start_block_of offset)) = None"
    and fd: "fd_of_fh (fi_fh fi) \<noteq> -1"
  shows "\<exists>st'. xmp_read E qs malloc_ok pa buf sz offset (Some fi) st = Some ((0, buf), st')"
proof -
  have n: "sz div BLOCK_SIZE = Suc (sz div BLOCK_SIZE - 1)" "sz mod BLOCK_SIZE = 0"
    using assms(6,7) by (auto simp: dvd_div_eq_0_iff)
  have "lookup_pairs (ctx_index (ctx st)) pa (start_block_of offset) 0 (sz div BLOCK_SIZE) = Some []"
    using hole block_view_None_iff[of "master st" "ctx_index (ctx st)" "bkey pa (start_block_of offset)"]
    by (subst n(1)) (simp add: lookup_by_file_block_def view_def)
  then have "read_dedup qs malloc_ok (ctx_index (ctx st)) pa buf sz offset (master st) (answers st)
      = Some (0, buf, answers st)"
    using n by (simp add: read_dedup_def Let_def)
  then show ?thesis using fd by (simp add: xmp_read_def request_fd_def Let_def)
qed

lemma demo_hole: "view demo_full (bkey demo_path (start_block_of 4096)) = None"
  by (simp add: demo_full_view start_block_of_def BLOCK_SIZE_def)

theorem hole_reads_as_end_of_file_witness:
  "\<exists>st'. xmp_read demo_os (\<lambda>cmp. sort_key master_block_index) True demo_path (replicate 4096 0) 4096 4096
      (Some demo_fi) demo_full = Some ((0, replicate 4096 0), st')"
  by (rule hole_reads_as_end_of_file[OF demo_full_inv qsort_contract_sort_key _ _ _ _ _ demo_hole])
    (simp_all add: demo_fd BLOCK_SIZE_def MAX_SLOTS_def demo_state_defs)

section \<open>Unlinking and truncating\<close>

lemma no_size_no_blocks:
  assumes "mount_inv sha st" "sizes st pa = None"
  shows "view st (bkey pa b) = None"
proof -
  have "wf_sizes (ctx_index (ctx st))" using assms(1) by (simp add: mount_inv_def consistent_def)
  then have "file_to_master (ctx_index (ctx st)) (bkey pa b) = None"
    using assms(2) unfolding wf_sizes_def sizes_def by (metis BlockIndice.select_convs(1) option.distinct(1))
  then show ?thesis by (simp add: view_def block_view_None_iff)
qed

lemma unlinked_view:
  assumes "mount_inv sha st" "abs_state st' = spec_unlink pa (abs_state st)"
  shows "view st' = (\<lambda>k. if bi_path k = pa then None else view st k)" "sizes st' = (sizes st)(pa := None)"
proof -
  have none: "sizes st pa = None \<Longrightarrow> bi_path k = pa \<Longrightarrow> view st k = None" for k
    using no_size_no_blocks[OF assms(1), of pa "bi_offset k"] by (cases k) simp
  have v: "(view st', sizes st') = spec_unlink pa (view st, sizes st)"
    using assms(2) by (simp add: abs_state_def)
  show "sizes st' = (sizes st)(pa := None)"
    using v by (auto simp: spec_unlink_def fun_eq_iff split: option.splits)
  show "view st' = (\<lambda>k. if bi_path k = pa then None else view st k)"
    using v none by (auto simp: spec_unlink_def spec_cut_def fun_eq_iff split: option.splits)
qed

text \<open>
  \<open>unlink\<close> takes all blocks and the size of the file out of the index and keeps every other
  file; the slots that only this file used are free, as the state is consistent.
\<close>

lemma unlink_forgets_file:
  assumes "mount_inv sha st"
  shows "\<exists>rc st'. xmp_unlink E pa st = Some (rc, st') \<and> mount_inv sha st'
    \<and> view st' = (\<lambda>k. if bi_path k = pa then None else view st k) \<and> sizes st' = (sizes st)(pa := None)"
  using xmp_unlink_correct[OF assms, of E pa] unlinked_view[OF assms] by blast

theorem unlink_forgets_file_witness:
  "\<exists>rc st'. xmp_unlink demo_os demo_path demo_full = Some (rc, st') \<and> view st' = Map.empty"
  using unlink_forgets_file[OF demo_full_inv, of demo_os demo_path]
  by (auto simp: demo_full_view fun_eq_iff)

text \<open>
  C20: the references are dropped before \<open>unlink\<close> is attempted on the lower file. When that fails,
  the caller sees the error, the name is still there, and its contents are gone.
\<close>

theorem failed_unlink_loses_contents:
  assumes "mount_inv sha st" "os_unlink E pa (world st) = ((-1, e), w)"
  shows "\<exists>st'. xmp_unlink E pa st = Some (- errno_val e, st')
    \<and> (\<forall>b. view st' (bkey pa b) = None) \<and> sizes st' pa = None"
proof -
  obtain rc st' where st': "xmp_unlink E pa st = Some (rc, st')" "rc = ret (fst (os_unlink E pa (world st)))"
    "abs_state st' = spec_unlink pa (abs_state st)"
    using xmp_unlink_correct[OF assms(1), of E pa] by blast
  moreover have "rc = - errno_val e" using st'(2) assms(2) by (simp add: ret_def)
  ultimately show ?thesis using unlinked_view[OF assms(1) st'(3)] by simp
qed

theorem failed_unlink_loses_contents_witness:
  "\<exists>st'. xmp_unlink (demo_os\<lparr>os_unlink := \<lambda>pa w. ((-1, EACCES), w)\<rparr>) demo_path demo_full = Some (- 13, st')
    \<and> view st' (bkey demo_path 0) = None \<and> view demo_full (bkey demo_path 0) = Some demo_buf"
  using failed_unlink_loses_contents[OF demo_full_inv,
      of "demo_os\<lparr>os_unlink := \<lambda>pa w. ((-1, EACCES), w)\<rparr>" demo_path EACCES "()"]
  by (auto simp: demo_full_view)

text \<open>
  \<open>truncate\<close> accepts exactly the sizes that are multiples of the block size. It drops the
  blocks from the new end on and records the new size when the file shrinks; the result is that
  of the call on the lower file.
\<close>

lemma truncate_shrinks:
  assumes "mount_inv sha st" "0 \<le> sz" "sz smod int BLOCK_SIZE = 0" "sz < 2 ^ 63"
  shows "\<exists>rc st'. xmp_truncate E pa sz fi st = Some (rc, st') \<and> mount_inv sha st'
    \<and> rc = ret (fst (lower_truncate E pa sz fi (world st)))
    \<and> abs_state st' = spec_truncate pa sz (abs_state st)"
  using xmp_truncate_correct[OF assms] by blast

theorem truncate_shrinks_witness:
  "\<exists>rc st'. xmp_truncate demo_os demo_path 0 None demo_full = Some (rc, st')
    \<and> abs_state st' = (Map.empty, [demo_path \<mapsto> 0])"
  using truncate_shrinks[OF demo_full_inv, of 0 demo_os demo_path None]
  by (auto simp: demo_full_abs spec_truncate_def spec_cut_def fun_eq_iff signed_modulo_int_def)

text \<open>
  Growing a file with \<open>truncate\<close> does nothing to the size \<open>getattr\<close> reports: the recorded
  size of a file written through the mount stays, though the call on the lower file succeeds.
\<close>

lemma growing_truncate_ignored:
  assumes "mount_inv sha st" "0 \<le> sz" "sz smod int BLOCK_SIZE = 0" "sz < 2 ^ 63"
    and "sizes st pa = Some s" "int (unat s) \<le> sz"
  shows "\<exists>rc st'. xmp_truncate E pa sz fi st = Some (rc, st') \<and> abs_state st' = abs_state st"
proof -
  have "spec_truncate pa sz (abs_state st) = abs_state st"
    using assms(5,6) by (simp add: spec_truncate_def abs_state_def)
  then show ?thesis using xmp_truncate_correct[OF assms(1-4), of E pa fi] by auto
qed

theorem growing_truncate_ignored_witness:
  "\<exists>rc st'. xmp_truncate demo_os demo_path 8192 None demo_full = Some (rc, st') \<and> sizes st' demo_path = Some 4096"
  using growing_truncate_ignored[OF demo_full_inv, of 8192 demo_path 4096 demo_os None]
  by (auto simp: demo_full_sizes abs_state_def signed_modulo_int_def signed_divide_int_def BLOCK_SIZE_def)

section \<open>Renaming and results\<close>

text \<open>
  \<open>rename\<close> and \<open>link\<close> move or add a name below, and the index keeps the data under the old
  one. After a rename that succeeds, the new name has no block, and its old data stay allocated.
\<close>

lemma rename_leaves_data_behind:
  assumes "mount_inv sha st" "sizes st to = None" "os_rename E fro to (world st) = ((0, e), w)"
  shows "\<exists>st'. xmp_rename E fro to 0 st = (0, st') \<and> view st' (bkey to b) = None \<and> sizes st' to = None
    \<and> view st' (bkey fro b) = view st (bkey fro b)"
proof -
  obtain r st' where p: "passed (os_rename E fro to) st = (r, st')" by fastforce
  have "r = 0" using p passed_result[of "os_rename E fro to" st] assms(3) by (simp add: ret_def)
  moreover have "view st' = view st" "sizes st' = sizes st"
    using passed_abs(2)[OF p] by (simp_all add: abs_state_def)
  ultimately show ?thesis using p no_size_no_blocks[OF assms(1,2)] assms(2) by (simp add: xmp_rename_def)
qed

theorem rename_leaves_data_behind_witness:
  "\<exists>st'. xmp_rename demo_os demo_path [47, 98] 0 demo_full = (0, st') \<and> view st' (bkey [47, 98] 0) = None
    \<and> view st' (bkey demo_path 0) = Some demo_buf"
  using rename_leaves_data_behind[OF demo_full_inv, of "[47, 98]" demo_os demo_path EIO "()" 0]
  by (auto simp: demo_full_sizes demo_full_view demo_os_def done_ok_def demo_path_def)

text \<open>
  \<open>fsync\<close> and \<open>release\<close> return the -1 of a failed call, which FUSE reports as \<open>EPERM\<close>
  whatever the error was.
\<close>

lemma sync_error_reported_as_EPERM:
  assumes "os_fsync E (fd_of_fh (fi_fh fi)) (world st) = ((-1, e), w)"
    and "os_close E (fd_of_fh (fi_fh fi)) (world st) = ((-1, e), w')"
  shows "fst (xmp_fsync E 0 fi st) = - errno_val EPERM \<and> fst (xmp_release E fi st) = - errno_val EPERM"
  using assms by (simp add: xmp_fsync_def xmp_release_def lower_def)

theorem sync_error_reported_as_EPERM_witness:
  "fst (xmp_fsync (demo_os\<lparr>os_fsync := \<lambda>fd w. ((-1, EIO), w), os_close := \<lambda>fd w. ((-1, EIO), w)\<rparr>)
      0 demo_fi demo_full) = - 1"
  using sync_error_reported_as_EPERM[of "demo_os\<lparr>os_fsync := \<lambda>fd w. ((-1, EIO), w), os_close := \<lambda>fd w. ((-1, EIO), w)\<rparr>"
      demo_fi demo_full EIO "()" "()"]
  by simp

text \<open>
  \<open>main\<close> hands FUSE the first ten arguments other than \<open>--plus\<close>, in order, and drops the
  rest without a word; \<open>--plus\<close> counts only if it comes before the tenth of them.
\<close>

lemma parse_args_ten:
  "parse_args argv False [] =
     (\<exists>i<length argv. argv ! i = PLUS_OPTION \<and> length (filter (\<lambda>a. a \<noteq> PLUS_OPTION) (take i argv)) < 10,
      take 10 (filter (\<lambda>a. a \<noteq> PLUS_OPTION) argv))"
  by (simp add: parse_args_eq MAX_ARGS_def)

end
