(* ===== verification/Master_Extent.thy ===== *)
theory Master_Extent
  imports Write_Correct
begin

text \<open>
  How far the master file reaches. \<open>xmp_init\<close> derives \<open>nextBlockIndex\<close> from the size of the file,
  so the file must end exactly where the slots end. A request that succeeds keeps it so.
\<close>

section \<open>The flush stays below the slots\<close>

lemma pwrite_extent:
  assumes "pwrite_sys io f bs (int off) = (w, e, f')" "length f \<le> L" "off + length bs \<le> L"
  shows "length f' \<le> L"
  using assms by (cases io) (auto simp: pwrite_sys_def length_file_write min_def split: if_splits)

lemma run_extent:
  assumes ready: "plan_ready plan buf" and s: "s < length plan" "kind (plan ! s) = PLAN_MISS"
    and e: "e = run_end plan (Suc s)"
    and pw: "pwrite_sys io f (take ((e - s) * BLOCK_SIZE) (drop (payload (plan ! s)) buf))
               (blk_off (master_blk (plan ! s))) = (w, err, f')"
    and below: "\<forall>j < length plan. kind (plan ! j) = PLAN_MISS \<longrightarrow> Suc (unat (master_blk (plan ! j))) * BLOCK_SIZE \<le> L"
    and f: "length f \<le> L"
  shows "length f' \<le> L"
proof -
  note run = run_write(2,3,4)[OF ready s e pw]
  have Suc_s: "Suc s \<le> length plan" using s(1) by simp
  have lt: "\<forall>j. s \<le> j \<and> j < e \<longrightarrow> unat (master_blk (plan ! j)) < MAX_SLOTS"
    using ready run unfolding plan_ready_def by auto
  let ?m = "unat (master_blk (plan ! s))" and ?bs = "take ((e - s) * BLOCK_SIZE) (drop (payload (plan ! s)) buf)"
  have "unat (master_blk (plan ! (s + (e - Suc s)))) = ?m + (e - Suc s)"
    by (rule run_slots) (use run_end_spec(2)[OF Suc_s, folded e] lt run(1) in \<open>auto simp: Suc_le_eq\<close>)
  moreover have "s + (e - Suc s) < length plan" "kind (plan ! (s + (e - Suc s))) = PLAN_MISS"
    using run by auto
  ultimately have "Suc (?m + (e - Suc s)) * BLOCK_SIZE \<le> L" using below by metis
  moreover have "Suc (?m + (e - Suc s)) = ?m + (e - s)" using run(1) by simp
  moreover have "length ?bs \<le> (e - s) * BLOCK_SIZE" by simp
  ultimately have "?m * BLOCK_SIZE + length ?bs \<le> L" by (simp only: add_mult_distrib)
  moreover have "pwrite_sys io f ?bs (int (?m * BLOCK_SIZE)) = (w, err, f')"
    using pw blk_off_eq[of "master_blk (plan ! s)"] lt run(1) by simp
  ultimately show ?thesis using pwrite_extent f by blast
qed

lemma flush_loop_extent:
  assumes "plan_ready plan buf" "i \<le> length plan"
    and "\<forall>j < length plan. kind (plan ! j) = PLAN_MISS \<longrightarrow> Suc (unat (master_blk (plan ! j))) * BLOCK_SIZE \<le> L"
    and "length f \<le> L" "flush_loop plan buf i f ios = (rc, f', ios')"
  shows "length f' \<le> L"
  using assms
proof (induction plan buf i f ios rule: flush_loop.induct)
  case (1 plan buf i f ios)
  let ?s = "skip_hits plan i"
  note sk = skip_hits_spec[OF "1.prems"(2)]
  show ?case
  proof (cases "i < length plan \<and> ?s < length plan")
    case False
    then have "f' = f"
      using "1.prems"(5) sk(1) by (auto simp: flush_loop.simps[of plan buf i f ios] split: if_splits)
    then show ?thesis using "1.prems"(4) by simp
  next
    case True
    then have s: "?s < length plan" "kind (plan ! ?s) = PLAN_MISS" using sk(3) by auto
    define e where "e = run_end plan (Suc ?s)"
    obtain io ios1 where io: "next_io ios = (io, ios1)" by fastforce
    obtain w err f1 where pw: "pwrite_sys io f (take ((e - ?s) * BLOCK_SIZE) (drop (payload (plan ! ?s)) buf))
        (blk_off (master_blk (plan ! ?s))) = (w, err, f1)"
      by (metis prod_cases3)
    have f1: "length f1 \<le> L" by (rule run_extent[OF "1.prems"(1) s e_def pw "1.prems"(3,4)])
    have loop: "flush_loop plan buf i f ios =
        (if w \<noteq> int ((e - ?s) * BLOCK_SIZE)
         then ((if w < 0 then - errno_val err else - errno_val EIO), f1, ios1)
         else flush_loop plan buf e f1 ios1)"
      using True io pw by (simp add: flush_loop.simps[of plan buf i f ios] e_def Let_def)
    show ?thesis
    proof (cases "w = int ((e - ?s) * BLOCK_SIZE)")
      case False
      then show ?thesis using loop "1.prems"(5) f1 by simp
    next
      case w: True
      then have rest: "flush_loop plan buf e f1 ios1 = (rc, f', ios')" using loop "1.prems"(5) by simp
      show ?thesis
        using "1.IH"[OF _ refl _ refl refl refl refl io[symmetric] refl pw[symmetric, unfolded e_def] refl refl]
          True w rest "1.prems"(1,3) run_write(3)[OF "1.prems"(1) s e_def pw] f1
        by (simp add: e_def)
    qed
  qed
qed

section \<open>New slots\<close>

text \<open>Past the old end there are only slots of the request itself.\<close>

lemma assign_loop_free_list:
  assumes "ofold (assign_step out) xs st = Some st'"
  shows "free_block_list (fst st') = free_block_list (fst st)"
  using assms
proof (induction xs arbitrary: st)
  case Nil
  then show ?case by simp
next
  case (Cons i xs)
  obtain ix plan m where st: "st = (ix, plan, m)" by (metis prod_cases3)
  then obtain st1 where "assign_step out i st = Some st1" and rest: "ofold (assign_step out) xs st1 = Some st'"
    using Cons.prems by (auto split: option.splits)
  moreover from this have "free_block_list (fst st1) = free_block_list (fst st)"
    by (auto simp: st assign_step_def set_master_block_def Let_def split: if_splits option.splits)
  ultimately show ?case using Cons.IH[OF rest] by simp
qed

lemma assign_slots_free_list:
  assumes "assign_slots ix nb plan mc = Some (ix', nb', plan')"
  shows "set (free_block_list ix') \<subseteq> set (free_block_list ix)"
    and "nb' = nb + of_nat (if mc > 0 then mc - length (free_block_list ix) else 0)"
proof (atomize (full), cases "mc > 0")
  case False
  then show "set (free_block_list ix') \<subseteq> set (free_block_list ix)
      \<and> nb' = nb + of_nat (if mc > 0 then mc - length (free_block_list ix) else 0)"
    using assms by (simp add: assign_slots_def)
next
  case True
  let ?ix = "ix\<lparr>free_block_list := drop mc (free_block_list ix)\<rparr>"
  obtain out m where "ofold (assign_step out) [0..<length plan] (?ix, plan, 0) = Some (ix', plan', m)"
    and nb': "nb' = nb + of_nat (mc - length (free_block_list ix))"
    using assms True by (auto simp: assign_slots_def allocate_eq Let_def split: bind_splits)
  from assign_loop_free_list[OF this(1)] show "set (free_block_list ix') \<subseteq> set (free_block_list ix)
      \<and> nb' = nb + of_nat (if mc > 0 then mc - length (free_block_list ix) else 0)"
    using True nb' by (auto dest: in_set_dropD)
qed

section \<open>The extent after a request\<close>

definition exact_extent :: "fbytes \<Rightarrow> u64 \<Rightarrow> bool" where
  "exact_extent f nb \<longleftrightarrow> length f = unat nb * BLOCK_SIZE"

text \<open>After the slots are assigned: every slot past the old end belongs to a MISS entry.\<close>

lemma assigned_extent:
  assumes ready: "write_ready sha buf start f nb' {#} {} {} ix pend ix2 plan"
    and ws: "wf_slots {} nb ix" and wi: "wf_index {#} {} ix"
    and free: "set (free_block_list ix2) \<subseteq> set (free_block_list ix)" and mono: "unat nb \<le> unat nb'"
  shows "j < length plan \<Longrightarrow> miss (plan ! j) \<Longrightarrow> Suc (unat (master_blk (plan ! j))) * BLOCK_SIZE \<le> unat nb' * BLOCK_SIZE"
    and "s < nb' \<Longrightarrow> nb \<le> s \<Longrightarrow> s \<in> miss_slots plan"
proof -
  have sv: "same_view ix ix2" and w2: "wf_slots (miss_slots plan) nb' ix2"
    using ready by (simp_all add: write_ready_def wf_all_def)
  have cover: "set (free_block_list ix2) \<union> live_slots ix2 \<union> miss_slots plan = {s. s < nb'}"
    using w2 by (simp add: wf_slots_def)
  show "Suc (unat (master_blk (plan ! j))) * BLOCK_SIZE \<le> unat nb' * BLOCK_SIZE"
    if j: "j < length plan" "miss (plan ! j)"
  proof -
    have "master_blk (plan ! j) \<in> miss_slots plan" using j unfolding miss_slots_def miss_def by auto
    then have "master_blk (plan ! j) < nb'" using cover by blast
    then show ?thesis by (intro Suc_mult_le_BLOCK) (simp add: word_less_nat_alt)
  qed
  have "live_slots ix2 = live_slots ix"
  proof -
    have "slot_of ix2 p = slot_of ix p" if "p \<in> ran (hash_to_master ix)" for p
      using sv wf_indexD(3)[OF wi] that unfolding same_view_def by blast
    moreover have "ran (hash_to_master ix2) = ran (hash_to_master ix)" using sv by (simp add: same_view_def)
    ultimately show ?thesis unfolding live_slots_def by (simp cong: image_cong)
  qed
  then have "set (free_block_list ix2) \<union> live_slots ix2 \<subseteq> {s. s < nb}"
    using ws free unfolding wf_slots_def by blast
  then show "s \<in> miss_slots plan" if "s < nb'" "nb \<le> s" for s
    using cover that by (metis (no_types, lifting) UnE leD mem_Collect_eq subsetD)
qed

text \<open>A request that succeeds and started from an exact extent ends with one.\<close>

lemma write_dedup_extent:
  assumes wf: "wf_all sha f nb {#} {} {} ix" and pre: "write_pre 0 ix buf sz offset nb"
    and ext: "exact_extent f nb"
    and run: "write_dedup sha ix pa buf sz offset f nb ios = Some (rc, ix', f', nb', ios')" and rc: "rc \<ge> 0"
  shows "exact_extent f' nb'"
proof -
  let ?n = "sz div BLOCK_SIZE" and ?start = "start_block_of offset"
  have sz: "length buf = sz" "0 < sz" "BLOCK_SIZE dvd sz"
    and room: "unat nb + ?n \<le> MAX_SLOTS" "card (dom (file_to_master ix)) + size {#} + ?n < 2 ^ 32"
    using pre by (simp_all add: write_pre_def)
  then have n: "?n \<noteq> 0" "sz mod BLOCK_SIZE = 0" "?n * BLOCK_SIZE = sz" by (auto simp: dvd_div_eq_0_iff)
  have wi: "wf_index {#} {} ix" and ws: "wf_slots {} nb ix" using wf by (simp_all add: wf_all_def)
  obtain ix1 pend plan1 mc where p1: "pass1 sha buf ?start ?n ix = Some (ix1, pend, plan1, mc)"
    and inv1: "pass1_inv sha buf ?start f nb {#} {} {} ix ?n (ix1, pend, plan1, mc)"
    by (rule pass1_correct[OF wf room(2)])
  obtain ix2 nb2 plan where p2: "assign_slots ix1 nb plan1 mc = Some (ix2, nb2, plan)"
    and ready: "write_ready sha buf ?start f nb2 {#} {} {} ix (ran pend) ix2 plan"
    and len: "length plan = ?n" and mc: "mc = length (filter miss plan)"
    by (rule assign_slots_correct[OF inv1 room(1)])
  have lenb: "length buf = length plan * BLOCK_SIZE" using sz(1) n(3) len by simp
  obtain rcf f2 ios2 where fl: "(if mc > 0 then flush_plan f ios plan buf else (0, f, ios)) = (rcf, f2, ios2)"
    by (metis prod_cases3)
  have res: "write_dedup sha ix pa buf sz offset f nb ios =
      (if rcf < 0 then do { ix \<leftarrow> rollback_allocations ix2 plan; Some (rcf, ix, f2, nb2, ios2) }
       else do { (ix, to_release) \<leftarrow> consolidate pa ?start plan ix2;
         Some (int_of_size (?n * BLOCK_SIZE), release_slots to_release ix, f2, nb2, ios2) })"
    using sz(2) n(1,2) p1 p2 fl by (simp add: write_dedup_def Let_def split del: if_split)
  have f2: "f' = f2" "nb' = nb2" "\<not> rcf < 0"
    using run res rc by (auto split: if_splits bind_splits)
  have free1: "free_block_list ix1 = free_block_list ix" using inv1 by (simp add: pass1_inv_def)
  note al = assign_slots_free_list[OF p2, unfolded free1]
  have k: "(if mc > 0 then mc - length (free_block_list ix) else 0) \<le> ?n"
    using mc len length_filter_le[of miss plan] by auto
  then have u: "unat nb2 = unat nb + (if mc > 0 then mc - length (free_block_list ix) else 0)"
    unfolding al(2) using room(1) by (intro unat_add_of_nat) (simp add: MAX_SLOTS_def)
  then have mono: "unat nb \<le> unat nb2" by simp
  note ae = assigned_extent[OF ready ws wi al(1) mono]
  have f: "length f = unat nb * BLOCK_SIZE" using ext by (simp add: exact_extent_def)
  show ?thesis
  proof (cases "mc > 0")
    case False
    then show ?thesis using fl f u f2 by (simp add: exact_extent_def)
  next
    case True
    then have fl': "flush_plan f ios plan buf = (rcf, f2, ios2)" using fl by simp
    have pr: "plan_ready plan buf" by (rule write_ready_plan_ready[OF ready lenb])
    have "length f2 \<le> unat nb2 * BLOCK_SIZE"
      by (rule flush_loop_extent[OF pr _ _ _ fl'[unfolded flush_plan_def]])
        (use ae(1) f mono in \<open>auto simp: miss_def\<close>)
    moreover have "unat nb2 * BLOCK_SIZE \<le> length f2"
    proof (cases "nb2 = nb")
      case True
      then show ?thesis
        using flush_loop_correct[OF pr _ fl'[unfolded flush_plan_def]] f by simp
    next
      case False
      with mono have lt: "unat nb < unat nb2" by (metis le_neq_implies_less word_unat_eq_iff)
      let ?s = "nb2 - 1"
      have "nb2 \<noteq> 0" using lt by auto
      then have s: "Suc (unat ?s) = unat nb2"
        using lt by (simp add: unat_minus_one)
      then have "?s < nb2" "nb \<le> ?s" using lt by (simp_all add: word_less_nat_alt word_le_nat_alt)
      then have "?s \<in> miss_slots plan" by (rule ae(2))
      then obtain j where j: "j < length plan" "miss (plan ! j)" "master_blk (plan ! j) = ?s"
        unfolding miss_slots_def miss_def by (auto simp: in_set_conv_nth)
      have "rcf = 0" using flush_correct(1)[OF ready lenb fl'] f2(3) by simp
      from flush_correct(5)[OF ready lenb fl' this j(1,2)] show ?thesis using j(3) s by simp
    qed
    ultimately show ?thesis using f2 by (simp add: exact_extent_def)
  qed
qed

end
