(* ===== verification/Remount.thy ===== *)
theory Remount
  imports Example_Mount Master_Extent
begin

text \<open>
  Unmounting and mounting again. \<open>nextBlockIndex\<close> is not stored: \<open>xmp_init\<close> takes the size of the
  master file for it. This is right after requests that succeeded, and wrong after a failed request
  that had reserved slots past the end of the file.
\<close>

section \<open>The mounted state after the two handlers\<close>

text \<open>\<open>lstat\<close> on the master file gives its length, in bytes.\<close>

definition reports_length :: "'w os \<Rightarrow> fbytes \<Rightarrow> bool" where
  "reports_length E f \<longleftrightarrow> (\<forall>w. st_size (snd (snd (fst (os_lstat E MASTER_PATH w)))) = int (length f))"

lemma init_after_destroy:
  assumes inv: "mount_inv sha st" and ps: "persistable hs fs zs (ctx_index (ctx st))"
    and pad: "\<forall>p. length (padding p) = 4" and mem: "length mem = BUFFER_SIZE" "length mem' = BUFFER_SIZE"
    and ios: "\<forall>io \<in> set (answers st). io = IoOk" "\<forall>io \<in> set ios'. benign io"
    and len: "reports_length E (master st)" "length (master st) < 2 ^ 63"
  shows "\<exists>files' r w' c r' w'' a.
    xmp_destroy E (True, True, True, True, True) mem padding hs fs zs files st = Some (files', r, w')
    \<and> xmp_init E True mem' files' garbage ios' w' = Some (c, r', w'')
    \<and> moved a (ctx_index (ctx st)) (ctx_index c)
    \<and> unat (nextBlockIndex c) = length (master st) div BLOCK_SIZE"
proof -
  let ?ix = "ctx_index (ctx st)"
  have c: "consistent sha (master st) (nextBlockIndex (ctx st)) ?ix" using inv by (simp add: mount_inv_def)
  obtain files' r ix' r' a where d: "index_destroy (True, True, True, True, True) mem padding hs fs zs ?ix files (answers st)
      = Some (files', r)" and i: "index_init True mem' files' ios' = Some (ix', r')" and mv: "moved a ?ix ix'"
    using destroy_init_moved[OF c ps pad mem ios] by blast
  obtain res1 w' where cl: "os_close E (masterFd (ctx st)) (world st) = (res1, w')" by fastforce
  obtain fd e w2 where op: "os_open E MASTER_PATH O_RDWR_CREAT 438 w' = ((fd, e), w2)" by (metis surj_pair)
  obtain res e2 stbuf w3 where ls: "os_lstat E MASTER_PATH w2 = ((res, e2, stbuf), w3)" by (metis surj_pair)
  have "st_size stbuf = int (length (master st))" using len(1) ls by (metis fst_conv reports_length_def snd_conv)
  then have "unat (word_of_int (st_size stbuf sdiv int BLOCK_SIZE) :: u64) = length (master st) div BLOCK_SIZE"
    using unat_start_block_of[of "int (length (master st))"] len(2) by (simp add: start_block_of_def)
  moreover have "xmp_destroy E (True, True, True, True, True) mem padding hs fs zs files st = Some (files', r, w')"
    using d cl by (simp add: xmp_destroy_def Let_def)
  moreover have "\<exists>c. xmp_init E True mem' files' garbage ios' w' = Some (c, r', w3) \<and> ctx_index c = ix'
      \<and> nextBlockIndex c = word_of_int (st_size stbuf sdiv int BLOCK_SIZE)"
    using i op ls by (simp add: xmp_init_def Let_def)
  ultimately show ?thesis using mv by metis
qed

text \<open>The state in which the handlers run after \<open>xmp_init\<close>.\<close>

definition mounted :: "Context \<Rightarrow> fbytes \<Rightarrow> io list \<Rightarrow> 'w \<Rightarrow> 'w state" where
  "mounted c f ios w = \<lparr>ctx = c, master = f, answers = ios, world = w, errno_left = EPERM\<rparr>"

section \<open>Properties\<close>

text \<open>
  C15: if the master file ends where the slots end, unmounting and mounting again gives a
  consistent file system with the same blocks, sizes and \<open>nextBlockIndex\<close>.
\<close>

theorem remount_keeps_file_system:
  assumes "mount_inv sha st" "persistable hs fs zs (ctx_index (ctx st))"
    and "\<forall>p. length (padding p) = 4" "length mem = BUFFER_SIZE" "length mem' = BUFFER_SIZE"
    and "\<forall>io \<in> set (answers st). io = IoOk" "\<forall>io \<in> set ios'. benign io"
    and "reports_length E (master st)" "length (master st) < 2 ^ 63"
    and ext: "exact_extent (master st) (nextBlockIndex (ctx st))"
  shows "\<exists>files' r w' c r' w''.
    xmp_destroy E (True, True, True, True, True) mem padding hs fs zs files st = Some (files', r, w')
    \<and> xmp_init E True mem' files' garbage ios' w' = Some (c, r', w'')
    \<and> mount_inv sha (mounted c (master st) r' w'')
    \<and> abs_state (mounted c (master st) r' w'') = abs_state st
    \<and> nextBlockIndex c = nextBlockIndex (ctx st)"
proof -
  let ?ix = "ctx_index (ctx st)" and ?nb = "nextBlockIndex (ctx st)"
  have c: "consistent sha (master st) ?nb ?ix" using assms(1) by (simp add: mount_inv_def)
  then have wi: "wf_index {#} {} ?ix" by (simp add: consistent_def wf_all_def)
  obtain files' r w' c r' w'' a where
    h: "xmp_destroy E (True, True, True, True, True) mem padding hs fs zs files st = Some (files', r, w')"
       "xmp_init E True mem' files' garbage ios' w' = Some (c, r', w'')"
    and mv: "moved a ?ix (ctx_index c)"
    and nb: "unat (nextBlockIndex c) = length (master st) div BLOCK_SIZE"
    using init_after_destroy[OF assms(1-9)] by blast
  have "unat (nextBlockIndex c) = unat ?nb" using nb ext by (simp add: exact_extent_def)
  then have same: "nextBlockIndex c = ?nb" by (metis word_unat_eq_iff)
  have "mount_inv sha (mounted c (master st) r' w'')"
    using moved_consistent[OF mv c] by (simp add: mount_inv_def mounted_def same)
  moreover have "abs_state (mounted c (master st) r' w'') = abs_state st"
    using moved_block_view[OF mv wi] mv by (simp add: abs_state_def view_def sizes_def mounted_def moved_def)
  ultimately show ?thesis using h same by blast
qed

text \<open>Padding, allocations and table orders of a concrete remount.\<close>

lemma demo_persistable: "persistable [(demo_hash, 1)] [(bkey demo_path 0, 1)] [(demo_path, 4096)] demo_ix"
  by (simp add: persistable_def enumerates_def demo_ix_def demo_held_def empty_index_def demo_path_def ok_path_def)
    (simp add: demo_hash_def HASH_SIZE_def)

abbreviation no_files :: MetaFiles where
  "no_files \<equiv> \<lparr>table_hash_to_master = [], table_file_to_master = [], table_master_infos = [],
     table_file_to_sizes = [], table_free_block_list = []\<rparr>"

definition demo_os_with_master :: "fbytes \<Rightarrow> unit os" where
  "demo_os_with_master f = demo_os\<lparr>os_lstat := \<lambda>pa w. ((0, EIO, demo_stat\<lparr>st_size := int (length f)\<rparr>), w)\<rparr>"

lemma demo_reports: "reports_length (demo_os_with_master f) f"
  by (simp add: reports_length_def demo_os_with_master_def)

theorem remount_keeps_file_system_witness:
  "\<exists>files' r w' c r' w''.
    xmp_destroy (demo_os_with_master demo_buf) (True, True, True, True, True) (replicate BUFFER_SIZE 0) (\<lambda>p. [0, 0, 0, 0])
      [(demo_hash, 1)] [(bkey demo_path 0, 1)] [(demo_path, 4096)] no_files demo_full = Some (files', r, w')
    \<and> xmp_init (demo_os_with_master demo_buf) True (replicate BUFFER_SIZE 0) files' 0 [] w' = Some (c, r', w'')
    \<and> view (mounted c demo_buf r' w'') (bkey demo_path 0) = Some demo_buf"
proof -
  have st: "ctx_index (ctx demo_full) = demo_ix" "master demo_full = demo_buf" "answers demo_full = []"
    "nextBlockIndex (ctx demo_full) = 1" by (simp_all add: demo_state_defs)
  have "\<exists>files' r w' c r' w''.
    xmp_destroy (demo_os_with_master demo_buf) (True, True, True, True, True) (replicate BUFFER_SIZE 0) (\<lambda>p. [0, 0, 0, 0])
      [(demo_hash, 1)] [(bkey demo_path 0, 1)] [(demo_path, 4096)] no_files demo_full = Some (files', r, w')
    \<and> xmp_init (demo_os_with_master demo_buf) True (replicate BUFFER_SIZE 0) files' 0 [] w' = Some (c, r', w'')
    \<and> mount_inv demo_sha (mounted c (master demo_full) r' w'')
    \<and> abs_state (mounted c (master demo_full) r' w'') = abs_state demo_full
    \<and> nextBlockIndex c = nextBlockIndex (ctx demo_full)"
    by (rule remount_keeps_file_system[OF demo_full_inv])
      (simp_all add: st demo_persistable[simplified] demo_reports demo_length exact_extent_def BLOCK_SIZE_def)
  then show ?thesis
    unfolding st(2) using demo_full_view by (metis abs_state_def fst_conv fun_upd_same)
qed

text \<open>
  C19: if the free list holds a slot at or past the end of the master file, which a failed append
  leaves behind, a mount starts \<open>nextBlockIndex\<close> below that slot. The allocator then hands the
  slot out twice within one request that is large enough: once from the free list, once as new.
\<close>

theorem remount_allocates_twice:
  assumes "mount_inv sha st" "persistable hs fs zs (ctx_index (ctx st))"
    and "\<forall>p. length (padding p) = 4" "length mem = BUFFER_SIZE" "length mem' = BUFFER_SIZE"
    and "\<forall>io \<in> set (answers st). io = IoOk" "\<forall>io \<in> set ios'. benign io"
    and "reports_length E (master st)" "length (master st) < 2 ^ 63"
    and s: "s \<in> set (free_block_list (ctx_index (ctx st)))" "length (master st) div BLOCK_SIZE \<le> unat s"
  shows "\<exists>files' r w' c r' w'' n.
    xmp_destroy E (True, True, True, True, True) mem padding hs fs zs files st = Some (files', r, w')
    \<and> xmp_init E True mem' files' garbage ios' w' = Some (c, r', w'')
    \<and> \<not> distinct (fst (allocate_batch_storage_first (ctx_index c) n (nextBlockIndex c)))"
proof -
  obtain files' r w' c r' w'' a where
    h: "xmp_destroy E (True, True, True, True, True) mem padding hs fs zs files st = Some (files', r, w')"
       "xmp_init E True mem' files' garbage ios' w' = Some (c, r', w'')"
    and mv: "moved a (ctx_index (ctx st)) (ctx_index c)"
    and nb: "unat (nextBlockIndex c) = length (master st) div BLOCK_SIZE"
    using init_after_destroy[OF assms(1-9)] by blast
  let ?fl = "free_block_list (ctx_index c)" and ?nb = "nextBlockIndex c"
  define d where "d = unat s - unat ?nb"
  have fl: "s \<in> set ?fl" using mv s(1) by (simp add: moved_def)
  have "unat ?nb + d = unat s" using s(2) nb by (simp add: d_def)
  then have "unat (?nb + of_nat d) = unat s" using unat_add_of_nat[of ?nb d] unat_less64[of s] by simp
  then have "s = ?nb + of_nat d" by (metis word_unat_eq_iff)
  then have "s \<in> set (map (\<lambda>i. ?nb + of_nat i) [0..<Suc d])" by auto
  then have "\<not> distinct (fst (allocate_batch_storage_first (ctx_index c) (length ?fl + Suc d) ?nb))"
    using fl by (auto simp: allocate_eq)
  with h show ?thesis by blast
qed

text \<open>The state after the demo write on a full disk: slot 0 reserved, freed, and past the end.\<close>

abbreviation demo_failed :: "unit state" where
  "demo_failed \<equiv> demo_state (empty_index\<lparr>free_block_list := [0], next_ptr := 2\<rparr>) 1 []"

lemma demo_failed_inv: "mount_inv demo_sha demo_failed"
  using write_dedup_correct[of demo_sha "[]" 0 "{#}" "{}" "{}" empty_index demo_buf 4096 0 demo_path "[IoErr ENOSPC]"]
    consistent_empty[of demo_sha "[]"] demo_pre demo_coll[of "[]"] demo_write_full
  by (simp add: mount_inv_def demo_state_defs consistent_def)

theorem remount_allocates_twice_witness:
  "\<exists>files' r w' c r' w'' n.
    xmp_destroy (demo_os_with_master []) (True, True, True, True, True) (replicate BUFFER_SIZE 0) (\<lambda>p. [0, 0, 0, 0])
      [] [] [] no_files demo_failed = Some (files', r, w')
    \<and> xmp_init (demo_os_with_master []) True (replicate BUFFER_SIZE 0) files' 0 [] w' = Some (c, r', w'')
    \<and> \<not> distinct (fst (allocate_batch_storage_first (ctx_index c) n (nextBlockIndex c)))"
  by (rule remount_allocates_twice[OF demo_failed_inv, where s = 0])
    (simp_all add: persistable_def enumerates_def demo_state_defs empty_index_def demo_reports)

end
