(* ===== verification/First_Mount.thy ===== *)
theory First_Mount
  imports Mount_Properties Remount
begin

text \<open>
  What holds in every state a mount can reach: from \<open>xmp_init\<close> in a directory without tables or
  master file, through any session of requests. The states are reached by the handlers, so
  nothing is assumed of the index.
\<close>

section \<open>The first mount\<close>

text \<open>Reading the count of an empty file fails, whatever the kernel answers.\<close>

lemma read_count_empty: "fst (read_count (buffered_io_init mem n) [] ios) = None"
proof -
  have none: "fst (pread_sys io [] k off) \<le> 0" for io k off
    by (cases io) (simp_all add: pread_sys_def)
  obtain got ctx' ios' where refill: "refill_read_buffer (buffered_io_init mem n) [] ios = (got, ctx', ios')"
    by (metis prod_cases3)
  have "\<not> got"
    using none[of "fst (next_io ios)" n 0] refill
    by (auto simp: refill_read_buffer_def buffered_io_init_def Let_def split: prod.splits if_splits)
  then have "fst (buffered_read (buffered_io_init mem n) [] ios 4) = None"
    using refill by (subst buffered_read.simps) (simp add: buffered_io_init_def)
  then show ?thesis by (simp add: read_count_def case_prod_beta)
qed

lemma load_empty_files:
  "\<exists>ios'. ghash_load open_ok mem [] dk dv ios = Some (Map.empty, ios')"
  "\<exists>ios'. gslist_load open_ok mem [] de ios = Some ([], ios')"
  "\<exists>ios'. load_values_array open_ok mem [] de ios = Some ([], ios')"
  using read_count_empty[of mem BUFFER_SIZE ios]
  by (auto simp: ghash_load_def gslist_load_def load_values_array_def case_prod_beta)

lemma init_empty_files: "\<exists>ios'. index_init open_ok mem no_files ios = Some (empty_index, ios')"
proof -
  obtain i1 i2 i3 i4 i5 where
    "load_values_array open_ok mem [] decode_master_info ios = Some ([], i1)"
    "ghash_load open_ok mem [] decode_hash decode_size_elem i1 = Some (Map.empty, i2)"
    "ghash_load open_ok mem [] decode_block_indice decode_size_elem i2 = Some (Map.empty, i3)"
    "ghash_load open_ok mem [] decode_str decode_size i3 = Some (Map.empty, i4)"
    "gslist_load open_ok mem [] decode_free_block i4 = Some ([], i5)"
    using load_empty_files by metis
  then show ?thesis
    by (simp add: index_init_def ghash_load_indexed_pair_def empty_index_def resolve_indices_def fun_eq_iff) auto
qed

lemma first_mount:
  assumes "xmp_init E open_ok mem no_files garbage ios w = Some (c, r, w')" "reports_length E []"
  shows "ctx_index c = empty_index" "nextBlockIndex c = 0"
    and "mount_inv sha (mounted c [] r w')" "abs_state (mounted c [] r w') = (Map.empty, Map.empty)"
proof -
  obtain ios' where ix: "index_init open_ok mem no_files ios = Some (empty_index, ios')"
    using init_empty_files by blast
  obtain fd e w2 where op: "os_open E MASTER_PATH O_RDWR_CREAT 438 w = ((fd, e), w2)" by (metis surj_pair)
  obtain res e2 stbuf w3 where ls: "os_lstat E MASTER_PATH w2 = ((res, e2, stbuf), w3)" by (metis surj_pair)
  have "st_size (snd (snd (fst (os_lstat E MASTER_PATH w2)))) = 0" using assms(2) by (simp add: reports_length_def)
  then have "st_size stbuf = 0" using ls by simp
  then show c: "ctx_index c = empty_index" "nextBlockIndex c = 0"
    using assms(1) ix op ls by (auto simp: xmp_init_def signed_divide_int_def)
  show "mount_inv sha (mounted c [] r w')" using consistent_empty by (simp add: mount_inv_def mounted_def c)
  show "abs_state (mounted c [] r w') = (Map.empty, Map.empty)"
    by (simp add: abs_state_def view_def sizes_def mounted_def c block_view_def empty_index_def fun_eq_iff)
qed

text \<open>Every reachable state: consistent, with the blocks the requests and replies say.\<close>

lemma reached:
  assumes "xmp_init (lower_fs V) open_ok mem no_files garbage ios w = Some (c, r, w')" "reports_length (lower_fs V) []"
    and "session V (mounted c [] r w') tr st" "qsort_contract (quicksort V)"
  shows "consistent (sha512 V) (master st) (nextBlockIndex (ctx st)) (ctx_index (ctx st))"
    and "block_view (master st) (ctx_index (ctx st)) = fst (spec_trace tr (Map.empty, Map.empty))"
  using session_correct[OF assms(3) first_mount(3)[OF assms(1,2)] assms(4)] first_mount(4)[OF assms(1,2)]
  by (simp_all add: mount_inv_def abs_state_def view_def) (metis fst_conv)

section \<open>Deduplication\<close>

text \<open>
  C12: No block is stored twice and none outlives its last reference. Mount an empty directory and serve any requests,
  with any results of the lower file system and of the \<open>pwrite\<close> calls (so also failed and rolled-back writes): the slots in use, and the
  \<open>MasterInfo\<close> objects allocated, are as many as the distinct blocks of all files that the requests and their
  replies define, and the blocks in those slots are exactly these.
\<close>

theorem one_slot_per_distinct_block:
  assumes "xmp_init (lower_fs V) open_ok mem no_files garbage ios w = Some (c, r, w')" "reports_length (lower_fs V) []"
    and "session V (mounted c [] r w') tr st" "qsort_contract (quicksort V)"
  shows "let ix = ctx_index (ctx st); contents = ran (fst (spec_trace tr (Map.empty, Map.empty)))
    in card (live_slots ix) = card contents \<and> card (dom (heap ix)) = card contents
      \<and> (\<lambda>s. chunk (master st) (unat s)) ` live_slots ix = contents"
proof -
  let ?ix = "ctx_index (ctx st)"
  note reached = reached[OF assms]
  have w: "wf_index {#} {} ?ix" using reached(1) by (simp add: consistent_def wf_all_def)
  have inj: "inj_on (slot_of ?ix) (ran (hash_to_master ?ix))"
    using reached(1) by (simp add: consistent_def wf_all_def wf_slots_def)
  have "dom (heap ?ix) = ran (hash_to_master ?ix)" using wf_indexD(3)[OF w] by simp
  then have "card (dom (heap ?ix)) = card (live_slots ?ix)" by (simp add: live_slots_def card_image[OF inj])
  moreover have "(\<lambda>s. chunk (master st) (unat s)) ` live_slots ?ix = ran (block_view (master st) ?ix)"
    unfolding live_slots_def ran_block_view consistent_published(1)[OF reached(1), symmetric] by (simp add: image_image)
  ultimately show ?thesis
    using live_slots_count[OF reached(1)] by (simp add: reached(2))
qed

text \<open>A concrete first mount, and one block written through it.\<close>

lemma demo_reports_empty: "reports_length (lower_fs demo_env) []"
  by (simp add: reports_length_def demo_env_def demo_os_def demo_stat_def)

lemma demo_first_session:
  obtains r where
    "xmp_init (lower_fs demo_env) True (replicate BUFFER_SIZE 0) no_files 0 [] () = Some (demo_ctx empty_index 0, r, ())"
    "session demo_env (mounted (demo_ctx empty_index 0) [] r ())
       [(Write demo_path demo_buf 4096 0 (Some demo_fi), 4096, Nothing)] demo_written"
proof -
  obtain r where i: "index_init True (replicate BUFFER_SIZE 0) no_files [] = Some (empty_index, r)"
    using init_empty_files by blast
  have "xmp_init (lower_fs demo_env) True (replicate BUFFER_SIZE 0) no_files 0 [] () = Some (demo_ctx empty_index 0, r, ())"
    using i by (simp add: xmp_init_def demo_env_def demo_os_def demo_stat_def demo_ctx_def signed_divide_int_def)
  moreover have "mount_step demo_env (mounted (demo_ctx empty_index 0) [] r ()) None demo_empty"
    using outside[where V = demo_env and st = "mounted (demo_ctx empty_index 0) [] r ()" and w = "()" and ios = "[]" and e = EPERM]
    by (simp add: mounted_def demo_state_def)
  then have "session demo_env (mounted (demo_ctx empty_index 0) [] r ())
      ([] @ [(Write demo_path demo_buf 4096 0 (Some demo_fi), 4096, Nothing)]) demo_written"
    by (intro handled[OF disturbed[OF start] demo_write_step])
  ultimately show ?thesis using that by simp
qed

lemma demo_contents:
  "fst (spec_trace [(Write demo_path demo_buf 4096 0 (Some demo_fi), 4096, Nothing)] (Map.empty, Map.empty))
    = [bkey demo_path 0 \<mapsto> demo_buf]"
proof -
  have "abs_state demo_empty = (Map.empty, Map.empty)"
    by (simp add: abs_state_def view_def sizes_def demo_state_defs block_view_def empty_index_def fun_eq_iff)
  moreover have "mount_inv (sha512 demo_env) demo_empty" using demo_empty_inv by (simp add: demo_env_def)
  ultimately have "spec_trace [(Write demo_path demo_buf 4096 0 (Some demo_fi), 4096, Nothing)] (Map.empty, Map.empty)
      = abs_state demo_written"
    using session_correct[OF demo_session _ demo_qsort] by simp
  also have "\<dots> = abs_state demo_full"
    by (rule same_ctx) (simp_all add: demo_written_def demo_state_defs)
  finally show ?thesis by (simp add: demo_full_abs)
qed

theorem one_slot_per_distinct_block_witness:
  "card (live_slots demo_ix) = 1 \<and> card (dom (heap demo_ix)) = 1"
proof -
  obtain r where i: "xmp_init (lower_fs demo_env) True (replicate BUFFER_SIZE 0) no_files 0 [] () = Some (demo_ctx empty_index 0, r, ())"
    and s: "session demo_env (mounted (demo_ctx empty_index 0) [] r ())
       [(Write demo_path demo_buf 4096 0 (Some demo_fi), 4096, Nothing)] demo_written"
    by (rule demo_first_session)
  have "ctx_index (ctx demo_written) = demo_ix" by (simp add: demo_written_def demo_ctx_def)
  then show ?thesis
    using one_slot_per_distinct_block[OF i demo_reports_empty s demo_qsort] by (simp add: demo_contents Let_def)
qed

text \<open>
  C13: Slots are neither lost nor handed out twice. In every state reached from a first mount, whatever failed on the way, the free list
  repeats no slot and holds none in use, both together are the slots below \<open>nextBlockIndex\<close>, and so its length is
  \<open>nextBlockIndex\<close> less the number of distinct blocks that the requests and their replies define.
\<close>

theorem slots_conserved:
  assumes "xmp_init (lower_fs V) open_ok mem no_files garbage ios w = Some (c, r, w')" "reports_length (lower_fs V) []"
    and "session V (mounted c [] r w') tr st" "qsort_contract (quicksort V)"
  shows "let ix = ctx_index (ctx st); nb = nextBlockIndex (ctx st)
    in distinct (free_block_list ix) \<and> set (free_block_list ix) \<inter> live_slots ix = {}
      \<and> set (free_block_list ix) \<union> live_slots ix = {s. s < nb}
      \<and> length (free_block_list ix) + card (ran (fst (spec_trace tr (Map.empty, Map.empty)))) = unat nb"
  using slots_counted[OF reached(1)[OF assms]] live_slots_count[OF reached(1)[OF assms]]
  by (simp add: reached(2)[OF assms] Let_def)

theorem slots_conserved_witness:
  "free_block_list demo_ix = []"
proof -
  obtain r where i: "xmp_init (lower_fs demo_env) True (replicate BUFFER_SIZE 0) no_files 0 [] () = Some (demo_ctx empty_index 0, r, ())"
    and s: "session demo_env (mounted (demo_ctx empty_index 0) [] r ())
       [(Write demo_path demo_buf 4096 0 (Some demo_fi), 4096, Nothing)] demo_written"
    by (rule demo_first_session)
  have "ctx_index (ctx demo_written) = demo_ix" "nextBlockIndex (ctx demo_written) = 1"
    by (simp_all add: demo_written_def demo_ctx_def)
  then show ?thesis
    using slots_conserved[OF i demo_reports_empty s demo_qsort] by (simp add: demo_contents Let_def)
qed

section \<open>The end of the master file\<close>

definition extent_kept :: "'w state \<Rightarrow> 'w state \<Rightarrow> bool" where
  "extent_kept st st' \<longleftrightarrow> master st' = master st \<and> nextBlockIndex (ctx st') = nextBlockIndex (ctx st)"

lemma extent_kept_passed: "passed call st1 = (r, st') \<Longrightarrow> extent_kept st st1 \<Longrightarrow> extent_kept st st'"
  using passed_frame[of call st1 r st'] by (simp add: extent_kept_def)

text \<open>No handler but \<open>write\<close> touches the master file or \<open>nextBlockIndex\<close>.\<close>

lemma extent_kept_request:
  assumes run: "xmp_oper V req st = Some (rep, st')" and "\<forall>pa buf sz offset fi. req \<noteq> Write pa buf sz offset fi"
  shows "extent_kept st st'"
proof (cases "changes_index req")
  case False
  then show ?thesis using other_requests[OF False, of V st] run by (auto simp: index_kept_def extent_kept_def)
next
  case True
  have un: "extent_kept st st1" if "unlink_index pa (st\<lparr>ctx := (ctx st)\<lparr>n_unlink := n\<rparr>\<rparr>) = Some st1" for pa n st1
    using that by (auto simp: unlink_index_def with_index_def extent_kept_def Let_def split: option.splits bind_splits)
  have tr: "extent_kept st st1" if "truncate_index pa sz st = Some st1" for pa sz st1
    using that by (auto simp: truncate_index_def with_index_def extent_kept_def Let_def split: option.splits bind_splits if_splits)
  show ?thesis
  proof (cases req)
    case (Unlink pa)
    then obtain r where "xmp_unlink (lower_fs V) pa st = Some (r, st')"
      using run by (auto simp: plain_def split: bind_splits)
    then show ?thesis using un extent_kept_passed by (fastforce simp: xmp_unlink_def split: bind_splits)
  next
    case (Truncate pa sz fi)
    then obtain r where "xmp_truncate (lower_fs V) pa sz fi st = Some (r, st')"
      using run by (auto simp: plain_def split: bind_splits)
    then consider "st' = st"
      | st1 where "truncate_index pa sz st = Some st1" "passed (lower_truncate (lower_fs V) pa sz fi) st1 = (r, st')"
      by (auto simp: xmp_truncate_def split: bind_splits if_splits)
    then show ?thesis
    proof cases
      case 1
      then show ?thesis by (simp add: extent_kept_def)
    next
      case 2
      show ?thesis by (rule extent_kept_passed[OF 2(2) tr[OF 2(1)]])
    qed
  next
    case (Read malloc_ok pa buf sz offset fi)
    then obtain r where r: "xmp_read (lower_fs V) (quicksort V) malloc_ok pa buf sz offset fi st = Some (r, st')"
      using run by (auto simp: filled_def split: bind_splits)
    obtain fd e st1 where fd: "request_fd (lower_fs V) pa O_RDONLY fi (st\<lparr>ctx := (ctx st)\<lparr>n_read := n_read (ctx st) + 1\<rparr>\<rparr>)
        = ((fd, e), st1)" by (metis prod_cases3 surj_pair)
    note f = request_fd_frame[OF fd]
    have same: "extent_kept st st1" using f by (simp add: extent_kept_def)
    show ?thesis
    proof (cases "fd = -1")
      case True
      then show ?thesis using r fd same by (simp add: xmp_read_def)
    next
      case False
      then obtain d where "st' = close_own (lower_fs V) fi fd (st1\<lparr>answers := d\<rparr>)"
        using r fd by (auto simp: xmp_read_def split: bind_splits)
      then show ?thesis using same by (simp add: extent_kept_def close_own_frame)
    qed
  next
    case (Write pa buf sz offset fi)
    then show ?thesis using assms(2) by blast
  qed (use True in \<open>simp_all add: changes_index_def\<close>)
qed

lemma write_keeps_extent:
  assumes inv: "mount_inv sha st" and adm: "write_admissible sha buf sz offset st"
    and ext: "exact_extent (master st) (nextBlockIndex (ctx st))"
    and run: "xmp_write E sha pa buf sz offset fi st = Some (rc, st')" and rc: "0 \<le> rc"
  shows "exact_extent (master st') (nextBlockIndex (ctx st'))"
proof -
  let ?ix = "ctx_index (ctx st)" and ?nb = "nextBlockIndex (ctx st)"
  obtain fd e st1 where fd: "request_fd E pa O_WRONLY fi (st\<lparr>ctx := (ctx st)\<lparr>n_write := n_write (ctx st) + 1\<rparr>\<rparr>)
      = ((fd, e), st1)" by (metis prod_cases3 surj_pair)
  note f1 = request_fd_frame[OF fd]
  have "\<not> 0 \<le> - errno_val e" using errno_val_pos[of e] by linarith
  then have "fd \<noteq> -1" using run fd rc by (auto simp: xmp_write_def)
  then obtain ix' f' nb' ios' where
    w: "write_dedup sha ?ix pa buf sz offset (master st) ?nb (answers st1) = Some (rc, ix', f', nb', ios')"
    and st': "master st' = f'" "nextBlockIndex (ctx st') = nb'"
    using run fd f1 by (auto simp: xmp_write_def close_own_frame split: bind_splits)
  have c: "wf_all sha (master st) ?nb {#} {} {} ?ix" using inv by (simp add: mount_inv_def consistent_def)
  show ?thesis
  proof (cases "0 < sz \<and> BLOCK_SIZE dvd sz")
    case True
    then have "write_pre 0 ?ix buf sz offset ?nb" using adm by (simp add: write_admissible_def)
    from write_dedup_extent[OF c this ext w rc] show ?thesis by (simp add: st')
  next
    case False
    then have "f' = master st" "nb' = ?nb"
      using w by (auto simp: write_dedup_def Let_def mod_eq_0_iff_dvd split: if_splits)
    then show ?thesis using ext st' by simp
  qed
qed

definition writes_succeed :: "(request \<times> reply) list \<Rightarrow> bool" where
  "writes_succeed tr \<longleftrightarrow> (\<forall>(req, rep) \<in> set tr. case req of Write _ _ _ _ _ \<Rightarrow> 0 \<le> fst rep | _ \<Rightarrow> True)"

lemma session_extent:
  assumes "session V st0 tr st" "mount_inv (sha512 V) st0" "qsort_contract (quicksort V)"
    and "exact_extent (master st0) (nextBlockIndex (ctx st0))" "writes_succeed tr"
  shows "exact_extent (master st) (nextBlockIndex (ctx st))"
  using assms(1,5)
proof induction
  case start
  then show ?case using assms(4) by simp
next
  case (handled tr st ev st')
  obtain req rep where ev: "ev = (req, rep)" by (metis surj_pair)
  have ext: "exact_extent (master st) (nextBlockIndex (ctx st))"
    using handled.IH handled.prems by (simp add: writes_succeed_def)
  have adm: "admissible V req st" and run: "xmp_oper V req st = Some (rep, st')"
    using handled.hyps(2) by (auto simp: ev elim: handledE)
  have inv: "mount_inv (sha512 V) st" using session_correct[OF handled.hyps(1) assms(2,3)] by simp
  show ?case
  proof (cases "\<exists>pa buf sz offset fi. req = Write pa buf sz offset fi")
    case True
    then obtain pa buf sz offset fi where req: "req = Write pa buf sz offset fi" by blast
    have "xmp_write (lower_fs V) (sha512 V) pa buf sz offset fi st = Some (fst rep, st')"
      using run by (auto simp: req plain_def split: bind_splits)
    moreover have "0 \<le> fst rep" using handled.prems by (simp add: writes_succeed_def ev req)
    moreover have "write_admissible (sha512 V) buf sz offset st" using adm by (simp add: req)
    ultimately show ?thesis using write_keeps_extent[OF inv _ ext] by blast
  next
    case False
    then show ?thesis using extent_kept_request[OF run] ext by (simp add: extent_kept_def)
  qed
next
  case (disturbed tr st st')
  then show ?case by (auto elim!: outsideE)
qed

text \<open>
  C16: As long as no write has reported an error since the first mount, the master file ends exactly where the slots end, and so an
  unmount and a mount keep \<open>nextBlockIndex\<close>: whatever else the session did, every slot, in use or free, lies inside the
  file. (After one failed append this can be false, and stay false.)
\<close>

theorem successful_writes_keep_extent:
  assumes "xmp_init (lower_fs V) open_ok mem no_files garbage ios w = Some (c, r, w')" "reports_length (lower_fs V) []"
    and "session V (mounted c [] r w') tr st" "qsort_contract (quicksort V)"
    and "\<forall>(req, rep) \<in> set tr. case req of Write _ _ _ _ _ \<Rightarrow> 0 \<le> fst rep | _ \<Rightarrow> True"
  shows "length (master st) = unat (nextBlockIndex (ctx st)) * BLOCK_SIZE
    \<and> (\<forall>s \<in> live_slots (ctx_index (ctx st)) \<union> set (free_block_list (ctx_index (ctx st))).
         Suc (unat s) * BLOCK_SIZE \<le> length (master st))"
proof -
  have "exact_extent (master (mounted c [] r w')) (nextBlockIndex (ctx (mounted c [] r w')))"
    using first_mount(2)[OF assms(1,2)] by (simp add: mounted_def exact_extent_def)
  from session_extent[OF assms(3) first_mount(3)[OF assms(1,2)] assms(4) this] assms(5)
  have ext: "length (master st) = unat (nextBlockIndex (ctx st)) * BLOCK_SIZE"
    by (simp add: writes_succeed_def exact_extent_def)
  have "s < nextBlockIndex (ctx st)"
    if "s \<in> live_slots (ctx_index (ctx st)) \<union> set (free_block_list (ctx_index (ctx st)))" for s
    using slots_counted(4)[OF reached(1)[OF assms(1-4)]] that by blast
  then have "Suc (unat s) * BLOCK_SIZE \<le> length (master st)"
    if "s \<in> live_slots (ctx_index (ctx st)) \<union> set (free_block_list (ctx_index (ctx st)))" for s
    unfolding ext using that by (intro Suc_mult_le_BLOCK) (simp add: word_less_nat_alt)
  with ext show ?thesis by blast
qed

theorem successful_writes_keep_extent_witness:
  "length (master demo_written) = 4096"
proof -
  obtain r where i: "xmp_init (lower_fs demo_env) True (replicate BUFFER_SIZE 0) no_files 0 [] () = Some (demo_ctx empty_index 0, r, ())"
    and s: "session demo_env (mounted (demo_ctx empty_index 0) [] r ())
       [(Write demo_path demo_buf 4096 0 (Some demo_fi), 4096, Nothing)] demo_written"
    by (rule demo_first_session)
  have "length (master demo_written) = unat (nextBlockIndex (ctx demo_written)) * BLOCK_SIZE"
    using successful_writes_keep_extent[OF i demo_reports_empty s demo_qsort] by simp
  then show ?thesis by (simp add: demo_written_def demo_ctx_def BLOCK_SIZE_def)
qed

end
