(* ===== verification/Threads.thy ===== *)
theory Threads
  imports Dedup_Write Dedup_Read Dedup_Remove
begin

text \<open>
  Several threads inside \<open>src/dedup.c\<close> at once. A call is cut where it takes or drops
  \<open>metadata_rwlock\<close> or \<open>freelist_mutex\<close>: what runs under one lock is one step, the decision pass
  (under the read lock) and the flush (under no lock) are one step each, and between the steps of
  one thread any steps of others may come. The steps are the definitions of the sequential
  model; a call that runs alone is that model (\<open>write_alone\<close>).
\<close>

section \<open>Calls and where they stand\<close>

datatype request =
    Write path "byte list" int
  | Remove path u64 u64
  | Read path "byte list" nat int

text \<open>
  \<open>Decided\<close>, \<open>Drained\<close> (which holds the slots taken from the free list), \<open>Assigned\<close> and \<open>Flushed\<close>
  follow the passes of \<open>write_dedup\<close>; \<open>Failed\<close>, \<open>Undoing\<close> and
  \<open>Dropping\<close> are the stages of the rollback; \<open>Releasing\<close> holds \<open>slots_to_release\<close> and the value to be
  returned; \<open>Located\<close> is a read after its lookups (the allocation of its buffer succeeds). A finished call has a returned value and, for a
  read, the caller's buffer.
\<close>

datatype phase =
    Ready
  | Decided "PlanEntry list" nat
  | Drained "PlanEntry list" nat "u64 list"
  | Assigned "PlanEntry list" nat
  | Flushed "PlanEntry list"
  | Failed "PlanEntry list" int
  | Undoing "PlanEntry list" "u64 list" int
  | Dropping "PlanEntry list" int
  | Releasing "u64 list" int
  | Located "BlockPair list"
  | Finished int "byte list"

text \<open>What the threads share: the index, the master file, and \<open>nextBlockIndex\<close>.\<close>

record Shared =
  sh_index :: Index
  sh_master :: fbytes
  sh_next :: u64

section \<open>The steps\<close>

text \<open>
  The second half of the allocation: what the free list did not give is reserved at the end of the master
  file by one atomic addition, under no lock.
\<close>

definition reserve_slots :: "u64 list \<Rightarrow> nat \<Rightarrow> u64 \<Rightarrow> u64 list \<times> u64" where
  "reserve_slots out miss_count next_block_index =
     (let remaining = miss_count - length out
      in if remaining > 0
         then let base = next_block_index
              in (out @ map (\<lambda>i. base + of_nat i) [0..<remaining], base + of_nat remaining)
         else (out, next_block_index))"

lemma allocate_in_two_steps:
  "allocate_batch_storage_first ix n nb =
     (let (out, fl) = drain_free_list n (free_block_list ix); (out, nb) = reserve_slots out n nb
      in (out, ix\<lparr>free_block_list := fl\<rparr>, nb))"
  by (simp add: allocate_batch_storage_first_def reserve_slots_def Let_def split: prod.splits)

fun write_step ::
  "(byte list \<Rightarrow> hash) \<Rightarrow> path \<Rightarrow> byte list \<Rightarrow> int \<Rightarrow> io list \<Rightarrow> phase \<Rightarrow> Shared \<Rightarrow> (phase \<times> Shared) option" where
  "write_step sha pa buf offset ios Ready sh =
     (let sz = length buf; num_blocks = sz div BLOCK_SIZE
      in if sz = 0 then Some (Finished 0 [], sh)
         else if num_blocks = 0 \<or> sz mod BLOCK_SIZE \<noteq> 0 then Some (Finished (- errno_val EOPNOTSUPP) [], sh)
         else do {
           (ix, _, plan, miss_count) \<leftarrow> pass1 sha buf (start_block_of offset) num_blocks (sh_index sh);
           Some (Decided plan miss_count, sh\<lparr>sh_index := ix\<rparr>)
         })"
| "write_step sha pa buf offset ios (Decided plan miss_count) sh =
     (if miss_count > 0
      then let (out, fl) = drain_free_list miss_count (free_block_list (sh_index sh))
           in Some (Drained plan miss_count out, sh\<lparr>sh_index := (sh_index sh)\<lparr>free_block_list := fl\<rparr>\<rparr>)
      else Some (Assigned plan miss_count, sh))"
| "write_step sha pa buf offset ios (Drained plan miss_count out) sh = do {
     let (master_blks, next_block) = reserve_slots out miss_count (sh_next sh);
     (ix, plan, _) \<leftarrow> ofold (assign_step master_blks) [0..<length plan] (sh_index sh, plan, 0);
     Some (Assigned plan miss_count, sh\<lparr>sh_index := ix, sh_next := next_block\<rparr>)
   }"
| "write_step sha pa buf offset ios (Assigned plan miss_count) sh =
     (let (rc, master, _) = (if miss_count > 0 then flush_plan (sh_master sh) ios plan buf else (0, sh_master sh, ios))
      in Some (if rc < 0 then Failed plan rc else Flushed plan, sh\<lparr>sh_master := master\<rparr>))"
| "write_step sha pa buf offset ios (Flushed plan) sh = do {
     (ix, to_release) \<leftarrow> consolidate pa (start_block_of offset) plan (sh_index sh);
     Some (Releasing to_release (int_of_size (length buf div BLOCK_SIZE * BLOCK_SIZE)), sh\<lparr>sh_index := ix\<rparr>)
   }"
| "write_step sha pa buf offset ios (Failed plan rc) sh = do {
     (ix, to_release) \<leftarrow> ofold (rollback_hit_step plan) [0..<length plan] (sh_index sh, []);
     Some (Undoing plan to_release rc, sh\<lparr>sh_index := ix\<rparr>)
   }"
| "write_step sha pa buf offset ios (Undoing plan to_release rc) sh =
     Some (Dropping plan rc, sh\<lparr>sh_index := release_slots to_release (sh_index sh)\<rparr>)"
| "write_step sha pa buf offset ios (Dropping plan rc) sh = do {
     ix \<leftarrow> ofold (rollback_miss_step plan) [0..<length plan] (sh_index sh);
     Some (Finished rc [], sh\<lparr>sh_index := ix\<rparr>)
   }"
| "write_step sha pa buf offset ios (Releasing to_release r) sh =
     Some (Finished r [], sh\<lparr>sh_index := release_slots to_release (sh_index sh)\<rparr>)"
| "write_step sha pa buf offset ios ph sh = Some (ph, sh)"

fun remove_step :: "path \<Rightarrow> u64 \<Rightarrow> u64 \<Rightarrow> phase \<Rightarrow> Shared \<Rightarrow> (phase \<times> Shared) option" where
  "remove_step pa start_block end_block Ready sh =
     (if start_block \<ge> end_block then Some (Finished 0 [], sh)
      else do {
        (ix, to_release) \<leftarrow> ofold (remove_batch_step pa) (block_range start_block end_block) (sh_index sh, []);
        Some (Releasing to_release 0, sh\<lparr>sh_index := ix\<rparr>)
      })"
| "remove_step pa start_block end_block (Releasing to_release r) sh =
     Some (Finished r [], sh\<lparr>sh_index := release_slots to_release (sh_index sh)\<rparr>)"
| "remove_step pa start_block end_block ph sh = Some (ph, sh)"

fun read_step ::
  "((BlockPair \<Rightarrow> BlockPair \<Rightarrow> int) \<Rightarrow> BlockPair list \<Rightarrow> BlockPair list) \<Rightarrow> path \<Rightarrow> byte list \<Rightarrow> nat \<Rightarrow> int
   \<Rightarrow> io list \<Rightarrow> phase \<Rightarrow> Shared \<Rightarrow> (phase \<times> Shared) option" where
  "read_step qs pa buf sz offset ios Ready sh =
     (let num_blocks = sz div BLOCK_SIZE
      in if num_blocks = 0 \<or> sz mod BLOCK_SIZE \<noteq> 0 then Some (Finished (- errno_val EOPNOTSUPP) buf, sh)
         else do {
           pairs \<leftarrow> lookup_pairs (sh_index sh) pa (start_block_of offset) 0 num_blocks;
           Some (Located pairs, sh)
         })"
| "read_step qs pa buf sz offset ios (Located pairs) sh =
     (if pairs = [] then Some (Finished 0 buf, sh)
      else let (rc, buf, _) = read_groups (sort_pairs qs pairs) (sh_master sh) 0 1 buf ios
           in Some (Finished (if rc < 0 then rc else int_of_size (length pairs * BLOCK_SIZE)) buf, sh))"
| "read_step qs pa buf sz offset ios ph sh = Some (ph, sh)"

fun thread_step ::
  "(byte list \<Rightarrow> hash) \<Rightarrow> ((BlockPair \<Rightarrow> BlockPair \<Rightarrow> int) \<Rightarrow> BlockPair list \<Rightarrow> BlockPair list)
   \<Rightarrow> request \<Rightarrow> io list \<Rightarrow> phase \<Rightarrow> Shared \<Rightarrow> (phase \<times> Shared) option" where
  "thread_step sha qs (Write pa buf offset) ios ph sh = write_step sha pa buf offset ios ph sh"
| "thread_step sha qs (Remove pa s e) ios ph sh = remove_step pa s e ph sh"
| "thread_step sha qs (Read pa buf sz offset) ios ph sh = read_step qs pa buf sz offset ios ph sh"

section \<open>Schedules\<close>

type_synonym config = "Shared \<times> (request \<times> phase) list"

text \<open>
  A schedule is a list of thread numbers, each with the answers of the kernel to the calls of
  that step. \<open>None\<close> is an access through a dangling pointer.
\<close>

definition sched_step ::
  "(byte list \<Rightarrow> hash) \<Rightarrow> ((BlockPair \<Rightarrow> BlockPair \<Rightarrow> int) \<Rightarrow> BlockPair list \<Rightarrow> BlockPair list)
   \<Rightarrow> nat \<times> io list \<Rightarrow> config \<Rightarrow> config option" where
  "sched_step sha qs = (\<lambda>(i, ios) (sh, ths).
     if i < length ths then do {
       (ph, sh) \<leftarrow> thread_step sha qs (fst (ths ! i)) ios (snd (ths ! i)) sh;
       Some (sh, ths[i := (fst (ths ! i), ph)])
     } else Some (sh, ths))"

definition run_schedule ::
  "(byte list \<Rightarrow> hash) \<Rightarrow> ((BlockPair \<Rightarrow> BlockPair \<Rightarrow> int) \<Rightarrow> BlockPair list \<Rightarrow> BlockPair list)
   \<Rightarrow> (nat \<times> io list) list \<Rightarrow> config \<Rightarrow> config option" where
  "run_schedule sha qs sched c = ofold (sched_step sha qs) sched c"

definition start_threads :: "Shared \<Rightarrow> request list \<Rightarrow> config" where
  "start_threads sh rqs = (sh, map (\<lambda>rq. (rq, Ready)) rqs)"

text \<open>One call alone: seven steps suffice for every kind of call.\<close>

definition run_alone ::
  "(byte list \<Rightarrow> hash) \<Rightarrow> ((BlockPair \<Rightarrow> BlockPair \<Rightarrow> int) \<Rightarrow> BlockPair list \<Rightarrow> BlockPair list)
   \<Rightarrow> request \<Rightarrow> io list \<Rightarrow> Shared \<Rightarrow> (phase \<times> Shared) option" where
  "run_alone sha qs rq ios sh = ofold (\<lambda>_ (ph, sh). thread_step sha qs rq ios ph sh) [0..<7] (Ready, sh)"

lemma run_alone_unfold:
  "run_alone sha qs rq ios sh =
     do { (ph, sh) \<leftarrow> thread_step sha qs rq ios Ready sh;
          (ph, sh) \<leftarrow> thread_step sha qs rq ios ph sh;
          (ph, sh) \<leftarrow> thread_step sha qs rq ios ph sh;
          (ph, sh) \<leftarrow> thread_step sha qs rq ios ph sh;
          (ph, sh) \<leftarrow> thread_step sha qs rq ios ph sh;
          (ph, sh) \<leftarrow> thread_step sha qs rq ios ph sh;
          thread_step sha qs rq ios ph sh }"
proof -
  have seven: "[0..<7] = [0, 1, 2, 3, 4, 5, 6 :: nat]" by (simp add: upt_rec)
  have bind: "(case x of None \<Rightarrow> None | Some t \<Rightarrow> f t) = Option.bind x f" for x and f :: "phase \<times> Shared \<Rightarrow> 'x option"
    by (cases x) simp_all
  show ?thesis unfolding run_alone_def seven ofold.simps bind by (simp add: bind_rzero case_prod_unfold)
qed

section \<open>A call alone is the sequential model\<close>

definition shared :: "Index \<Rightarrow> fbytes \<Rightarrow> u64 \<Rightarrow> Shared" where
  "shared ix f nb = \<lparr>sh_index = ix, sh_master = f, sh_next = nb\<rparr>"

lemma shared_simps [simp]:
  "sh_index (shared ix f nb) = ix" "sh_master (shared ix f nb) = f" "sh_next (shared ix f nb) = nb"
  "(shared ix f nb)\<lparr>sh_index := ix'\<rparr> = shared ix' f nb" "(shared ix f nb)\<lparr>sh_master := f'\<rparr> = shared ix f' nb"
  "(shared ix f nb)\<lparr>sh_next := nb'\<rparr> = shared ix f nb'"
  by (simp_all add: shared_def)

text \<open>The last three steps of a write: rollback, or consolidation and release.\<close>

lemma failed_alone:
  "do { (ph, sh) \<leftarrow> write_step sha pa buf offset ios (Failed plan rc) (shared ix f nb);
        (ph, sh) \<leftarrow> write_step sha pa buf offset ios ph sh;
        write_step sha pa buf offset ios ph sh }
   = map_option (\<lambda>ix. (Finished rc [], shared ix f nb)) (rollback_allocations ix plan)"
  by (cases "ofold (rollback_hit_step plan) [0..<length plan] (ix, [])")
    (auto simp: rollback_allocations_def release_slots_def Let_def split: bind_splits)

lemma flushed_alone:
  "do { (ph, sh) \<leftarrow> write_step sha pa buf offset ios (Flushed plan) (shared ix f nb);
        (ph, sh) \<leftarrow> write_step sha pa buf offset ios ph sh;
        write_step sha pa buf offset ios ph sh }
   = map_option (\<lambda>(ix, tr). (Finished (int_of_size (length buf div BLOCK_SIZE * BLOCK_SIZE)) [],
       shared (release_slots tr ix) f nb)) (consolidate pa (start_block_of offset) plan ix)"
  by (cases "consolidate pa (start_block_of offset) plan ix") (auto simp: Let_def)

lemma drained_alone:
  assumes "mc > 0" "drain_free_list mc (free_block_list ix) = (out, fr)"
  shows "write_step sha pa buf offset ios (Drained plan mc out) (shared (ix\<lparr>free_block_list := fr\<rparr>) f nb)
    = map_option (\<lambda>(ix, nb, plan). (Assigned plan mc, shared ix f nb)) (assign_slots ix nb plan mc)"
  using assms by (auto simp: assign_slots_def allocate_in_two_steps Let_def split: bind_splits prod.splits)

lemma write_alone:
  "run_alone sha qs (Write pa buf offset) ios (shared ix f nb)
   = map_option (\<lambda>(rc, ix, f, nb, _). (Finished rc [], shared ix f nb))
       (write_dedup sha ix pa buf (length buf) offset f nb ios)"
proof -
  let ?n = "length buf div BLOCK_SIZE" and ?start = "start_block_of offset"
  note run = run_alone_unfold[of sha qs "Write pa buf offset" ios, unfolded thread_step.simps]
  consider (bad) "length buf = 0 \<or> ?n = 0 \<or> length buf mod BLOCK_SIZE \<noteq> 0"
    | (none) "length buf \<noteq> 0" "?n \<noteq> 0" "length buf mod BLOCK_SIZE = 0" "pass1 sha buf ?start ?n ix = None"
    | (some) ix1 pend plan1 mc where "length buf \<noteq> 0" "?n \<noteq> 0" "length buf mod BLOCK_SIZE = 0"
        "pass1 sha buf ?start ?n ix = Some (ix1, pend, plan1, mc)"
    by (metis not_Some_eq prod_cases4)
  then show ?thesis
  proof cases
    case bad
    then show ?thesis unfolding run write_dedup_def by (auto simp: Let_def)
  next
    case none
    then show ?thesis unfolding run write_dedup_def by (simp add: Let_def)
  next
    case some
    show ?thesis
    proof (cases "assign_slots ix1 nb plan1 mc")
      case None
      then have mc: "mc > 0" by (simp add: assign_slots_def split: if_splits)
      obtain out fr where dr: "drain_free_list mc (free_block_list ix1) = (out, fr)" by fastforce
      from None some mc dr show ?thesis unfolding run write_dedup_def
        by (simp add: Let_def drained_alone[OF mc dr] del: write_step.simps(3,5,6,7,8,9))
    next
      case (Some a)
      obtain ix2 nb2 plan where a: "a = (ix2, nb2, plan)" by (metis prod_cases3)
      obtain rc f' ios' where fl: "(if mc > 0 then flush_plan f ios plan buf else (0, f, ios)) = (rc, f', ios')"
        by (metis prod_cases3)
      let ?ph = "if rc < 0 then Failed plan rc else Flushed plan"
      define ends where "ends = do { (ph, sh) \<leftarrow> write_step sha pa buf offset ios ?ph (shared ix2 f' nb2);
                 (ph, sh) \<leftarrow> write_step sha pa buf offset ios ph sh;
                 write_step sha pa buf offset ios ph sh }"
      have "write_dedup sha ix pa buf (length buf) offset f nb ios
          = (if rc < 0 then do { ix \<leftarrow> rollback_allocations ix2 plan; Some (rc, ix, f', nb2, ios') }
             else do { (ix, tr) \<leftarrow> consolidate pa ?start plan ix2;
                       Some (int_of_size (?n * BLOCK_SIZE), release_slots tr ix, f', nb2, ios') })"
        using some Some a fl by (simp add: write_dedup_def Let_def split del: if_split)
      then have ends: "ends = map_option (\<lambda>(rc, ix, f, nb, _). (Finished rc [], shared ix f nb))
          (write_dedup sha ix pa buf (length buf) offset f nb ios)"
        using failed_alone[of sha pa buf offset ios plan rc ix2 f' nb2] flushed_alone[of sha pa buf offset ios plan ix2 f' nb2]
        unfolding ends_def
        by (cases "rc < 0"; cases "rollback_allocations ix2 plan"; cases "consolidate pa ?start plan ix2") auto
      then have idle: "do { (ph, sh) \<leftarrow> ends; write_step sha pa buf offset ios ph sh } = ends"
        by (cases "write_dedup sha ix pa buf (length buf) offset f nb ios") auto
      show ?thesis
      proof (cases "mc > 0")
        case True
        obtain out fr where dr: "drain_free_list mc (free_block_list ix1) = (out, fr)" by fastforce
        have "write_step sha pa buf offset ios (Drained plan1 mc out) (shared (ix1\<lparr>free_block_list := fr\<rparr>) f nb)
            = Some (Assigned plan mc, shared ix2 f nb2)"
          unfolding drained_alone[OF True dr] using Some a by simp
        then have "run_alone sha qs (Write pa buf offset) ios (shared ix f nb) = ends"
          unfolding run ends_def using some True dr fl
          by (simp add: Let_def del: write_step.simps(3,5,6,7,8,9) split del: if_split cong: if_cong)
        with ends show ?thesis by simp
      next
        case False
        then have "plan1 = plan" "ix1 = ix2" "nb = nb2" using Some a by (simp_all add: assign_slots_def)
        then have "run_alone sha qs (Write pa buf offset) ios (shared ix f nb)
            = do { (ph, sh) \<leftarrow> ends; write_step sha pa buf offset ios ph sh }"
          unfolding run ends_def using some False fl
          by (simp add: Let_def case_prod_unfold del: write_step.simps(3,5,6,7,8,9) split del: if_split cong: if_cong)
        with idle ends show ?thesis by simp
      qed
    qed
  qed
qed

lemma remove_alone:
  "run_alone sha qs (Remove pa s e) ios (shared ix f nb)
   = map_option (\<lambda>ix. (Finished 0 [], shared ix f nb)) (remove_blocks_dedup_batch ix pa s e)"
  unfolding run_alone_unfold thread_step.simps
  by (cases "ofold (remove_batch_step pa) (block_range s e) (ix, [])")
    (auto simp: remove_blocks_dedup_batch_def release_slots_def Let_def)

lemma read_alone:
  "run_alone sha qs (Read pa buf sz offset) ios (shared ix f nb)
   = map_option (\<lambda>(rc, buf, _). (Finished rc buf, shared ix f nb)) (read_dedup qs True ix pa buf sz offset f ios)"
  unfolding run_alone_unfold thread_step.simps
  by (cases "lookup_pairs ix pa (start_block_of offset) 0 (sz div BLOCK_SIZE)")
    (auto simp: read_dedup_def Let_def split: prod.splits if_splits)

end
