(* ===== verification/Thread_Frame.thy ===== *)
theory Thread_Frame
  imports Threads Write_Correct
begin

text \<open>
  What a step of one thread leaves alone. Every operation on the index keeps the hash and the slot
  of an object as long as the object lives, and never uses an address again (\<open>stable\<close>); only the
  assignment of slots changes the pending objects of its own thread. With the invariant this gives
  what other threads rely on: the objects they hold references to stay, stay published, and keep
  hash and slot (\<open>kept\<close>).
\<close>

section \<open>Stability\<close>

definition stable :: "ptr set \<Rightarrow> Index \<Rightarrow> Index \<Rightarrow> bool" where
  "stable S ix ix' \<longleftrightarrow> next_ptr ix \<le> next_ptr ix'
     \<and> (\<forall>p mi'. p < next_ptr ix \<longrightarrow> p \<notin> S \<longrightarrow> heap ix' p = Some mi' \<longrightarrow>
          (\<exists>mi. heap ix p = Some mi \<and> mi_hash mi' = mi_hash mi \<and> masterBlockIndex mi' = masterBlockIndex mi))"

lemma stable_refl [simp, intro]: "stable S ix ix"
  by (simp add: stable_def)

lemma stable_trans [trans]:
  assumes "stable S a b" "stable S b c"
  shows "stable S a c"
  unfolding stable_def
proof (intro conjI allI impI)
  show "next_ptr a \<le> next_ptr c" using assms unfolding stable_def by linarith
  fix p mi'' assume p: "p < next_ptr a" "p \<notin> S" "heap c p = Some mi''"
  then have "p < next_ptr b" using assms(1) unfolding stable_def by linarith
  then obtain mi' where "heap b p = Some mi'" "mi_hash mi'' = mi_hash mi'" "masterBlockIndex mi'' = masterBlockIndex mi'"
    using assms(2) p(2,3) unfolding stable_def by blast
  moreover from this(1) obtain mi where "heap a p = Some mi" "mi_hash mi' = mi_hash mi"
      "masterBlockIndex mi' = masterBlockIndex mi"
    using assms(1) p(1,2) unfolding stable_def by blast
  ultimately show "\<exists>mi. heap a p = Some mi \<and> mi_hash mi'' = mi_hash mi \<and> masterBlockIndex mi'' = masterBlockIndex mi"
    by simp
qed

lemma stable_same_heap: "heap ix' = heap ix \<Longrightarrow> next_ptr ix' = next_ptr ix \<Longrightarrow> stable S ix ix'"
  by (simp add: stable_def)

lemma stable_frees [simp]:
  "stable S ix (ix\<lparr>free_block_list := fl\<rparr>)" "stable S ix (ix\<lparr>file_to_sizes := z\<rparr>)"
  "stable S ix (insert_hash ix h p)" "stable S ix (remove_hash ix h)"
  "stable S ix (insert_file_block ix pa b p)" "stable S ix (remove_file_block ix pa b)"
  "stable S ix (release_slots ss ix)" "stable S ix (grow_size pa e ix)"
  by (rule stable_same_heap; simp add: index_op_defs release_slots_def grow_size_def split: option.splits)+

lemma stable_new_info: "new_info i ix = (p, ix') \<Longrightarrow> stable S ix ix'"
  by (auto simp: new_info_def stable_def)

lemma stable_free_info: "free_info p ix = Some ix' \<Longrightarrow> stable S ix ix'"
  by (auto simp: free_info_def stable_def split: option.splits if_splits)

lemma stable_fetch_add: "fetch_add_ref p ix = Some ix' \<Longrightarrow> stable S ix ix'"
  by (auto simp: fetch_add_ref_def stable_def split: option.splits if_splits)

lemma stable_release: "release_ref p ix = Some (ss, ix') \<Longrightarrow> stable S ix ix'"
  by (auto simp: release_ref_alt stable_def split: option.splits if_splits)

lemma stable_free_list_of: "stable S (ix\<lparr>free_block_list := fl\<rparr>) ix' = stable S ix ix'"
  by (simp add: stable_def)

lemma ofold_stable:
  assumes "\<And>x s s'. f x s = Some s' \<Longrightarrow> stable S (g s) (g s')"
    and "ofold f xs s = Some s'"
  shows "stable S (g s) (g s')"
  using assms(2)
proof (induction xs arbitrary: s)
  case (Cons x xs)
  then obtain t where "f x s = Some t" "ofold f xs t = Some s'" by (auto split: option.splits)
  with Cons.IH assms(1) show ?case by (blast intro: stable_trans)
qed simp

section \<open>The loops are stable\<close>

lemma pass1_step_stable:
  assumes "pass1_step sha buf start i st = Some st'"
  shows "stable S (fst st) (fst st')"
proof -
  obtain ix pend plan mc where st: "st = (ix, pend, plan, mc)" by (cases st)
  show ?thesis using assms unfolding st pass1_step_def
    by (auto simp: Let_def split: option.splits bind_splits prod.splits dest: stable_new_info stable_fetch_add)
qed

lemma pass1_stable:
  assumes "pass1 sha buf start n ix = Some st"
  shows "stable S ix (fst st)"
  using ofold_stable[where g = fst, OF pass1_step_stable assms[unfolded pass1_def]] by simp

lemma rollback_hit_stable:
  assumes "ofold (rollback_hit_step plan) is (ix, tr) = Some (ix', tr')"
  shows "stable S ix ix'"
proof -
  have "stable S (fst (ix, tr)) (fst (ix', tr'))"
    by (rule ofold_stable[OF _ assms])
      (auto simp: rollback_hit_step_def split: if_splits bind_splits dest: stable_release)
  then show ?thesis by simp
qed

lemma rollback_miss_stable:
  assumes "ofold (rollback_miss_step plan) is ix = Some ix'"
  shows "stable S ix ix'"
proof -
  have "stable S (id ix) (id ix')"
  proof (rule ofold_stable[OF _ assms])
    fix i a b assume "rollback_miss_step plan i a = Some b"
    then show "stable S (id a) (id b)"
      using stable_free_info[of _ "a\<lparr>free_block_list := _\<rparr>" b S]
      by (auto simp: rollback_miss_step_def stable_free_list_of split: if_splits)
  qed
  then show ?thesis by simp
qed

lemma publish_step_stable:
  assumes "publish_step i st = Some st'"
  shows "stable S (fst st) (fst st')"
proof -
  obtain ix plan tr where st: "st = (ix, plan, tr)" by (cases st)
  show ?thesis using assms unfolding st publish_step_def
    by (auto split: option.splits bind_splits if_splits dest!: stable_free_info[where S = S] stable_fetch_add[where S = S]
        intro: stable_trans)
qed

lemma map_block_step_stable:
  assumes "map_block_step pa plan i st = Some st'"
  shows "stable S (fst st) (fst st')"
proof -
  obtain ix tr where st: "st = (ix, tr)" by (cases st)
  show ?thesis using assms unfolding st map_block_step_def
    by (auto split: option.splits bind_splits dest!: stable_release[where S = S] intro: stable_trans[OF _ stable_frees(5)])
qed

lemma consolidate_stable:
  assumes "consolidate pa start plan ix = Some (ix', tr)"
  shows "stable S ix ix'"
proof -
  obtain ix1 plan1 tr1 ix2 where p: "ofold publish_step [0..<length plan] (ix, plan, []) = Some (ix1, plan1, tr1)"
    and m: "ofold (map_block_step pa plan1) [0..<length plan] (ix1, tr1) = Some (ix2, tr)"
    and g: "ix' = grow_size pa ((start + of_nat (length plan)) * of_nat BLOCK_SIZE) ix2"
    using assms by (auto simp: consolidate_def Let_def split: bind_splits)
  have "stable S ix ix1" using ofold_stable[where g = fst, OF publish_step_stable p] by simp
  also have "stable S ix1 ix2" using ofold_stable[where g = fst, OF map_block_step_stable m] by simp
  also have "stable S ix2 ix'" by (simp add: g)
  finally show ?thesis .
qed

lemma remove_loop_stable:
  assumes "ofold (remove_batch_step pa) is (ix, tr) = Some (ix', tr')"
  shows "stable S ix ix'"
proof -
  have "stable S (fst (ix, tr)) (fst (ix', tr'))"
  proof (rule ofold_stable[OF _ assms])
    fix i st st' assume step: "remove_batch_step pa i st = Some st'"
    obtain a tr where st: "st = (a, tr)" by (cases st)
    show "stable S (fst st) (fst st')" using step unfolding st remove_batch_step_def
      by (auto simp: Let_def split: option.splits bind_splits dest!: stable_release[where S = S]
          intro: stable_trans[OF stable_frees(6)])
  qed
  then show ?thesis by simp
qed

section \<open>Releasing publishes nothing\<close>

definition shrinks :: "Index \<Rightarrow> Index \<Rightarrow> bool" where
  "shrinks ix ix' \<longleftrightarrow> hash_to_master ix' \<subseteq>\<^sub>m hash_to_master ix"

lemma shrinks_same: "hash_to_master ix' = hash_to_master ix \<Longrightarrow> shrinks ix ix'"
  by (simp add: shrinks_def)

lemma shrinks_trans: "shrinks a b \<Longrightarrow> shrinks b c \<Longrightarrow> shrinks a c"
  unfolding shrinks_def by (rule map_le_trans)

lemma shrinks_release: "release_ref p ix = Some (ss, ix') \<Longrightarrow> shrinks ix ix'"
  by (auto simp: release_ref_alt shrinks_def split: option.splits if_splits)

lemma shrinks_frames [simp]:
  "shrinks ix ix" "shrinks ix (insert_file_block ix pa b p)" "shrinks (remove_file_block ix pa b) ix' = shrinks ix ix'"
  "shrinks ix' (insert_file_block ix pa b p) = shrinks ix' ix"
  by (simp_all add: shrinks_def insert_file_block_def remove_file_block_def)

lemma shrinks_free_info: "free_info p (ix\<lparr>free_block_list := fl\<rparr>) = Some ix' \<Longrightarrow> shrinks ix ix'"
  by (auto simp: free_info_def shrinks_def split: option.splits if_splits)

lemma ofold_shrinks:
  assumes "\<And>x s s'. f x s = Some s' \<Longrightarrow> shrinks (g s) (g s')"
    and "ofold f xs s = Some s'"
  shows "shrinks (g s) (g s')"
  using assms(2)
proof (induction xs arbitrary: s)
  case (Cons x xs)
  then obtain t where "f x s = Some t" "ofold f xs t = Some s'" by (auto split: option.splits)
  with Cons.IH assms(1) show ?case by (blast intro: shrinks_trans)
qed simp

lemma steps_shrink:
  "rollback_hit_step plan i st = Some st' \<Longrightarrow> shrinks (fst st) (fst st')"
  "rollback_miss_step plan i ix = Some ix' \<Longrightarrow> shrinks ix ix'"
  "map_block_step pa plan i st = Some st' \<Longrightarrow> shrinks (fst st) (fst st')"
  "remove_batch_step pa b st = Some st' \<Longrightarrow> shrinks (fst st) (fst st')"
  by (cases st; auto simp: rollback_hit_step_def rollback_miss_step_def map_block_step_def remove_batch_step_def Let_def
      split: option.splits bind_splits if_splits dest!: shrinks_release shrinks_free_info)+

lemma loops_shrink:
  "ofold (rollback_hit_step plan) is st = Some st' \<Longrightarrow> shrinks (fst st) (fst st')"
  "ofold (rollback_miss_step plan) is ix = Some ix' \<Longrightarrow> shrinks (id ix) (id ix')"
  "ofold (map_block_step pa plan) is st = Some st' \<Longrightarrow> shrinks (fst st) (fst st')"
  "ofold (remove_batch_step pa) bs st = Some st' \<Longrightarrow> shrinks (fst st) (fst st')"
  by (erule ofold_shrinks[rotated], simp add: steps_shrink)+

lemma stored_shrinks:
  assumes wf: "wf_index E P ix" and wf': "wf_index E' P' ix'"
    and st: "stable S ix ix'" and sh: "shrinks ix ix'" and S: "S \<inter> ran (hash_to_master ix) = {}"
  shows "stored f ix' \<subseteq> stored f ix"
proof
  fix b assume "b \<in> stored f ix'"
  then obtain p where p: "p \<in> ran (hash_to_master ix')" "b = chunk f (unat (slot_of ix' p))"
    by (auto simp: stored_def)
  obtain h where "hash_to_master ix' h = Some p" using p(1) by (auto simp: ran_def)
  then have "hash_to_master ix h = Some p" using sh by (simp add: shrinks_def map_le_def dom_def)
  then have pr: "p \<in> ran (hash_to_master ix)" by (rule ranI)
  then have "p < next_ptr ix" "p \<notin> S" using wf_indexD(2,3)[OF wf] S by blast+
  moreover obtain mi' where mi': "heap ix' p = Some mi'" using wf_indexD(3)[OF wf'] p(1) by blast
  ultimately obtain mi where "heap ix p = Some mi" "masterBlockIndex mi' = masterBlockIndex mi"
    using st unfolding stable_def by blast
  with mi' have "slot_of ix' p = slot_of ix p" by (simp add: slot_of_def)
  with pr p(2) show "b \<in> stored f ix" by (simp add: stored_def)
qed

section \<open>What other threads keep\<close>

definition kept :: "ptr multiset \<Rightarrow> Index \<Rightarrow> Index \<Rightarrow> bool" where
  "kept E ix ix' \<longleftrightarrow> (\<forall>p \<in># E. \<forall>mi. heap ix p = Some mi \<longrightarrow>
     (\<exists>mi'. heap ix' p = Some mi' \<and> mi_hash mi' = mi_hash mi \<and> masterBlockIndex mi' = masterBlockIndex mi)
     \<and> (p \<in> ran (hash_to_master ix) \<longrightarrow> p \<in> ran (hash_to_master ix')))"

lemma kept_same: "heap ix' = heap ix \<Longrightarrow> hash_to_master ix' = hash_to_master ix \<Longrightarrow> kept E ix ix'"
  by (simp add: kept_def)

lemma kept_slot: "kept E ix ix' \<Longrightarrow> p \<in># E \<Longrightarrow> heap ix p = Some mi \<Longrightarrow> slot_of ix' p = slot_of ix p"
  unfolding kept_def slot_of_def by fastforce

lemma kept_mono: "kept E ix ix' \<Longrightarrow> E' \<subseteq># E \<Longrightarrow> kept E' ix ix'"
  unfolding kept_def by (meson mset_subset_eqD)

text \<open>
  The invariant before and after a step, with the references \<open>E\<close> of others among those counted, and
  no published object turned into a pending one.
\<close>

lemma kept_stable:
  assumes wf: "wf_index E1 P1 ix" and wf': "wf_index E2 P2 ix'" and st: "stable S ix ix'"
    and E: "set_mset E \<subseteq> set_mset E2" "set_mset E \<inter> S = {}"
    and P: "P2 \<inter> ran (hash_to_master ix) = {}"
  shows "kept E ix ix'"
  unfolding kept_def
proof (intro ballI allI impI)
  fix p mi assume p: "p \<in># E" "heap ix p = Some mi"
  have "p \<in># E2" using E(1) p(1) by blast
  then obtain mi' where mi': "heap ix' p = Some mi'" using wf_index_heap(4)[OF wf'] by blast
  have "p < next_ptr ix" using wf_indexD(2)[OF wf, of p] p(2) by blast
  moreover have "p \<notin> S" using E(2) p(1) by blast
  ultimately have same: "mi_hash mi' = mi_hash mi \<and> masterBlockIndex mi' = masterBlockIndex mi"
    using st mi' p(2) unfolding stable_def by fastforce
  have "p \<in> ran (hash_to_master ix')" if "p \<in> ran (hash_to_master ix)"
  proof -
    have "p \<in> dom (heap ix')" using mi' by blast
    then have "p \<in> ran (hash_to_master ix') \<union> P2" using wf_indexD(3)[OF wf'] by blast
    with P that show ?thesis by blast
  qed
  with mi' same show "(\<exists>mi'. heap ix' p = Some mi' \<and> mi_hash mi' = mi_hash mi
      \<and> masterBlockIndex mi' = masterBlockIndex mi)
     \<and> (p \<in> ran (hash_to_master ix) \<longrightarrow> p \<in> ran (hash_to_master ix'))" by blast
qed

end
