(* ===== verification/Thread_Invariant.thy ===== *)
theory Thread_Invariant
  imports Thread_Frame
begin

text \<open>
  What a thread holds at each stage (references, pending objects, slots), what it knows about its
  plan, and what one step of it must preserve. The knowledge of a thread survives every step of
  another one that keeps the objects it refers to and the slots it holds.
\<close>

section \<open>Holdings\<close>

fun thread_refs :: "phase \<Rightarrow> ptr multiset" where
  "thread_refs (Decided plan mc) = infos plan"
| "thread_refs (Drained plan mc out) = infos plan"
| "thread_refs (Assigned plan mc) = infos plan"
| "thread_refs (Flushed plan) = infos plan"
| "thread_refs (Failed plan rc) = infos plan"
| "thread_refs (Undoing plan tr rc) = miss_infos plan"
| "thread_refs (Dropping plan rc) = miss_infos plan"
| "thread_refs ph = {#}"

fun thread_pend :: "phase \<Rightarrow> ptr set" where
  "thread_pend (Decided plan mc) = set_mset (miss_infos plan)"
| "thread_pend (Drained plan mc out) = set_mset (miss_infos plan)"
| "thread_pend (Assigned plan mc) = set_mset (miss_infos plan)"
| "thread_pend (Flushed plan) = set_mset (miss_infos plan)"
| "thread_pend (Failed plan rc) = set_mset (miss_infos plan)"
| "thread_pend (Undoing plan tr rc) = set_mset (miss_infos plan)"
| "thread_pend (Dropping plan rc) = set_mset (miss_infos plan)"
| "thread_pend ph = {}"

fun thread_slots :: "phase \<Rightarrow> u64 set" where
  "thread_slots (Drained plan mc out) = set out"
| "thread_slots (Assigned plan mc) = miss_slots plan"
| "thread_slots (Flushed plan) = miss_slots plan"
| "thread_slots (Failed plan rc) = miss_slots plan"
| "thread_slots (Undoing plan tr rc) = miss_slots plan \<union> set tr"
| "thread_slots (Dropping plan rc) = miss_slots plan"
| "thread_slots (Releasing tr r) = set tr"
| "thread_slots ph = {}"

section \<open>Knowledge\<close>

definition plan_held :: "(byte list \<Rightarrow> hash) \<Rightarrow> byte list \<Rightarrow> u64 \<Rightarrow> Index \<Rightarrow> PlanEntry list \<Rightarrow> bool" where
  "plan_held sha buf start ix plan \<longleftrightarrow>
     plan_describes sha buf start plan \<and> length buf = length plan * BLOCK_SIZE
     \<and> (\<forall>e \<in> set plan. \<exists>mi. heap ix (info e) = Some mi \<and> mi_hash mi = pe_hash e)
     \<and> distinct (map info (filter miss plan))
     \<and> (\<forall>e \<in> set plan. \<not> miss e \<longrightarrow> info e \<in> ran (hash_to_master ix))"

definition slots_distinct :: "PlanEntry list \<Rightarrow> bool" where
  "slots_distinct plan \<longleftrightarrow> (\<forall>j < length plan. \<forall>k < length plan. miss (plan ! j) \<longrightarrow> miss (plan ! k) \<longrightarrow>
     master_blk (plan ! j) = master_blk (plan ! k) \<longrightarrow> j = k)"

definition plan_placed :: "Index \<Rightarrow> PlanEntry list \<Rightarrow> bool" where
  "plan_placed ix plan \<longleftrightarrow> slots_distinct plan
     \<and> (\<forall>e \<in> set plan. miss e \<longrightarrow> slot_of ix (info e) = master_blk e \<and> unat (master_blk e) < MAX_SLOTS)"

definition plan_flushed :: "fbytes \<Rightarrow> byte list \<Rightarrow> PlanEntry list \<Rightarrow> bool" where
  "plan_flushed f buf plan \<longleftrightarrow> (\<forall>j < length plan. miss (plan ! j) \<longrightarrow>
     Suc (unat (master_blk (plan ! j))) * BLOCK_SIZE \<le> length f
     \<and> chunk f (unat (master_blk (plan ! j))) = chunk buf j)"

fun write_ok :: "(byte list \<Rightarrow> hash) \<Rightarrow> byte list \<Rightarrow> u64 \<Rightarrow> fbytes \<Rightarrow> Index \<Rightarrow> phase \<Rightarrow> bool" where
  "write_ok sha buf start f ix Ready = True"
| "write_ok sha buf start f ix (Decided plan mc) \<longleftrightarrow> plan_held sha buf start ix plan \<and> mc = length (filter miss plan)"
| "write_ok sha buf start f ix (Drained plan mc out) \<longleftrightarrow>
     plan_held sha buf start ix plan \<and> mc = length (filter miss plan) \<and> 0 < mc \<and> distinct out \<and> length out \<le> mc"
| "write_ok sha buf start f ix (Assigned plan mc) \<longleftrightarrow>
     plan_held sha buf start ix plan \<and> plan_placed ix plan \<and> mc = length (filter miss plan)"
| "write_ok sha buf start f ix (Flushed plan) \<longleftrightarrow>
     plan_held sha buf start ix plan \<and> plan_placed ix plan \<and> plan_flushed f buf plan"
| "write_ok sha buf start f ix (Failed plan rc) \<longleftrightarrow> plan_held sha buf start ix plan \<and> plan_placed ix plan"
| "write_ok sha buf start f ix (Undoing plan tr rc) \<longleftrightarrow>
     distinct (map info (filter miss plan)) \<and> slots_distinct plan \<and> distinct tr \<and> set tr \<inter> miss_slots plan = {}
     \<and> length plan \<le> length buf div BLOCK_SIZE"
| "write_ok sha buf start f ix (Dropping plan rc) \<longleftrightarrow>
     distinct (map info (filter miss plan)) \<and> slots_distinct plan \<and> length plan \<le> length buf div BLOCK_SIZE"
| "write_ok sha buf start f ix (Releasing tr r) \<longleftrightarrow> distinct tr"
| "write_ok sha buf start f ix (Located ps) = False"
| "write_ok sha buf start f ix (Finished r b) = True"

definition thread_ok :: "(byte list \<Rightarrow> hash) \<Rightarrow> request \<Rightarrow> fbytes \<Rightarrow> Index \<Rightarrow> phase \<Rightarrow> bool" where
  "thread_ok sha rq f ix ph = (case rq of
     Write pa buf offset \<Rightarrow> write_ok sha buf (start_block_of offset) f ix ph
   | Remove pa s e \<Rightarrow> (case ph of Ready \<Rightarrow> True | Releasing tr r \<Rightarrow> distinct tr | Finished r b \<Rightarrow> True | _ \<Rightarrow> False)
   | Read pa buf sz offset \<Rightarrow> (case ph of Ready \<Rightarrow> True | Located ps \<Rightarrow> True | Finished r b \<Rightarrow> True | _ \<Rightarrow> False))"

text \<open>The slots in \<open>H\<close> keep their contents.\<close>

definition content_kept :: "u64 set \<Rightarrow> fbytes \<Rightarrow> fbytes \<Rightarrow> bool" where
  "content_kept H f f' \<longleftrightarrow> length f \<le> length f'
     \<and> (\<forall>s \<in> H. Suc (unat s) * BLOCK_SIZE \<le> length f \<longrightarrow> chunk f' (unat s) = chunk f (unat s))"

lemma content_kept_refl [simp, intro]: "content_kept H f f"
  by (simp add: content_kept_def)

lemma content_kept_mono: "content_kept H f f' \<Longrightarrow> H' \<subseteq> H \<Longrightarrow> content_kept H' f f'"
  by (auto simp: content_kept_def)

lemma plan_held_kept:
  assumes "plan_held sha buf start ix plan" "kept (infos plan) ix ix'"
  shows "plan_held sha buf start ix' plan"
  using assms unfolding plan_held_def kept_def by fastforce

lemma plan_placed_kept:
  assumes "plan_placed ix plan" "plan_held sha buf start ix plan" "kept (infos plan) ix ix'"
  shows "plan_placed ix' plan"
  unfolding plan_placed_def
proof (intro conjI ballI impI)
  show "slots_distinct plan" using assms(1) by (simp add: plan_placed_def)
  fix e assume e: "e \<in> set plan" "miss e"
  obtain mi where mi: "heap ix (info e) = Some mi" using assms(2) e unfolding plan_held_def by blast
  have "info e \<in># infos plan" using e by simp
  from kept_slot[OF assms(3) this mi] show "slot_of ix' (info e) = master_blk e"
    using assms(1) e by (simp add: plan_placed_def)
  show "unat (master_blk e) < MAX_SLOTS" using assms(1) e by (simp add: plan_placed_def)
qed

lemma miss_slots_nthI: "j < length plan \<Longrightarrow> miss (plan ! j) \<Longrightarrow> master_blk (plan ! j) \<in> miss_slots plan"
  unfolding miss_slots_nth by blast

lemma plan_flushed_kept:
  assumes "plan_flushed f buf plan" "content_kept (miss_slots plan) f f'"
  shows "plan_flushed f' buf plan"
  unfolding plan_flushed_def
proof (intro allI impI)
  fix j assume j: "j < length plan" "miss (plan ! j)"
  let ?s = "unat (master_blk (plan ! j))"
  have "Suc ?s * BLOCK_SIZE \<le> length f \<and> chunk f ?s = chunk buf j"
    using assms(1) j unfolding plan_flushed_def by blast
  moreover have "length f \<le> length f'" using assms(2) unfolding content_kept_def by blast
  moreover have "Suc ?s * BLOCK_SIZE \<le> length f \<longrightarrow> chunk f' ?s = chunk f ?s"
    using assms(2) miss_slots_nthI[OF j] unfolding content_kept_def by blast
  ultimately show "Suc ?s * BLOCK_SIZE \<le> length f' \<and> chunk f' ?s = chunk buf j" by auto
qed

lemma write_ok_kept:
  assumes "write_ok sha buf start f ix ph" "kept (thread_refs ph) ix ix'" "content_kept (thread_slots ph) f f'"
  shows "write_ok sha buf start f' ix' ph"
  using assms by (cases ph) (auto simp del: set_infos intro: plan_held_kept plan_placed_kept plan_flushed_kept)

lemma thread_ok_kept:
  assumes "thread_ok sha rq f ix ph" "kept (thread_refs ph) ix ix'" "content_kept (thread_slots ph) f f'"
  shows "thread_ok sha rq f' ix' ph"
  using assms write_ok_kept unfolding thread_ok_def by (cases rq) simp_all

section \<open>What a step must do\<close>

definition request_blocks :: "request \<Rightarrow> nat" where
  "request_blocks rq = (case rq of Write pa buf offset \<Rightarrow> length buf div BLOCK_SIZE | _ \<Rightarrow> 0)"

definition request_chunks :: "request \<Rightarrow> byte list set" where
  "request_chunks rq = (case rq of Write pa buf offset \<Rightarrow> chunk buf ` {..<length buf div BLOCK_SIZE} | _ \<Rightarrow> {})"

text \<open>References a call may still add to the file table, and slots it may still allocate.\<close>

fun ref_budget :: "request \<Rightarrow> phase \<Rightarrow> nat" where
  "ref_budget rq (Releasing tr r) = 0"
| "ref_budget rq (Finished r b) = 0"
| "ref_budget rq ph = request_blocks rq"

fun slot_budget :: "request \<Rightarrow> phase \<Rightarrow> nat" where
  "slot_budget rq Ready = request_blocks rq"
| "slot_budget rq (Decided plan mc) = request_blocks rq"
| "slot_budget rq (Drained plan mc out) = request_blocks rq"
| "slot_budget rq ph = 0"

text \<open>
  The abstract effect: a write takes effect when it is consolidated, a removal when it has the write
  lock, and no other step has an effect.
\<close>

type_synonym file_system = "store \<times> (path \<rightharpoonup> u64)"

definition request_effect :: "request \<Rightarrow> file_system \<Rightarrow> file_system" where
  "request_effect rq = (\<lambda>(v, z). case rq of
     Write pa buf offset \<Rightarrow>
       (spec_write pa (start_block_of offset) (blocks_of buf) v,
        spec_grow pa ((start_block_of offset + of_nat (length (blocks_of buf))) * of_nat BLOCK_SIZE) z)
   | Remove pa s e \<Rightarrow> (spec_trim pa s e v, z)
   | Read pa buf sz offset \<Rightarrow> (v, z))"

fun takes_effect :: "request \<Rightarrow> phase \<Rightarrow> bool" where
  "takes_effect (Write pa buf offset) (Flushed plan) = True"
| "takes_effect (Remove pa s e) Ready = True"
| "takes_effect rq ph = False"

definition file_system_of :: "fbytes \<Rightarrow> Index \<Rightarrow> file_system" where
  "file_system_of f ix = (block_view f ix, file_to_sizes ix)"

definition state_ok ::
  "(byte list \<Rightarrow> hash) \<Rightarrow> ptr multiset \<Rightarrow> ptr set \<Rightarrow> u64 set \<Rightarrow> request \<Rightarrow> Index \<Rightarrow> fbytes \<Rightarrow> u64 \<Rightarrow> phase \<Rightarrow> bool" where
  "state_ok sha E P H rq ix f nb ph \<longleftrightarrow>
     wf_all sha f nb (E + thread_refs ph) (P \<union> thread_pend ph) (H \<union> thread_slots ph) ix
     \<and> wf_sizes ix \<and> thread_pend ph \<inter> P = {} \<and> thread_slots ph \<inter> H = {} \<and> set_mset E \<inter> thread_pend ph = {}
     \<and> thread_ok sha rq f ix ph"

definition step_ok ::
  "(byte list \<Rightarrow> hash) \<Rightarrow> ptr multiset \<Rightarrow> ptr set \<Rightarrow> u64 set \<Rightarrow> request
   \<Rightarrow> Index \<Rightarrow> fbytes \<Rightarrow> u64 \<Rightarrow> phase \<Rightarrow> Index \<Rightarrow> fbytes \<Rightarrow> u64 \<Rightarrow> phase \<Rightarrow> bool" where
  "step_ok sha E P H rq ix f nb ph ix' f' nb' ph' \<longleftrightarrow>
     state_ok sha E P H rq ix' f' nb' ph'
     \<and> kept E ix ix' \<and> content_kept H f f'
     \<and> stored f' ix' \<subseteq> stored f ix \<union> request_chunks rq
     \<and> card (dom (file_to_master ix')) + ref_budget rq ph' \<le> card (dom (file_to_master ix)) + ref_budget rq ph
     \<and> unat nb' + slot_budget rq ph' \<le> unat nb + slot_budget rq ph
     \<and> file_system_of f' ix' = (if takes_effect rq ph then request_effect rq else id) (file_system_of f ix)"

text \<open>A thread never holds more references than it has budget for.\<close>

lemma thread_refs_size:
  assumes "thread_ok sha rq f ix ph"
  shows "size (thread_refs ph) \<le> ref_budget rq ph"
proof (cases rq)
  case (Write pa buf offset)
  have held: "length plan = length buf div BLOCK_SIZE" if "plan_held sha buf start ix plan" for plan start
    using that by (simp add: plan_held_def)
  have miss: "length (filter miss plan) \<le> n" if "length plan \<le> n" for plan n
    using length_filter_le[of miss plan] that by linarith
  show ?thesis using assms by (cases ph) (auto simp: Write thread_ok_def request_blocks_def held miss)
qed (use assms in \<open>simp_all add: thread_ok_def split: phase.splits\<close>)

end
