(* ===== verification/Thread_Steps.thy ===== *)
theory Thread_Steps
  imports Thread_Invariant
begin

text \<open>
  Every step of a write keeps what the thread and all others rely on, whatever the others hold at
  the time. The consolidation is in the theory \<open>Thread_Publish\<close>.
\<close>

section \<open>Steps that change nothing but the phase\<close>

lemma step_ok_phase:
  assumes "state_ok sha E P H rq ix f nb ph" "thread_ok sha rq f ix ph'"
    and "thread_refs ph' = thread_refs ph" "thread_pend ph' = thread_pend ph" "thread_slots ph' = thread_slots ph"
    and "ref_budget rq ph' \<le> ref_budget rq ph" "slot_budget rq ph' \<le> slot_budget rq ph"
    and "takes_effect rq ph \<Longrightarrow> request_effect rq (file_system_of f ix) = file_system_of f ix"
  shows "step_ok sha E P H rq ix f nb ph ix f nb ph'"
  using assms by (simp add: step_ok_def state_ok_def kept_same)

lemma state_okD:
  assumes "state_ok sha E P H rq ix f nb ph"
  shows "wf_all sha f nb (E + thread_refs ph) (P \<union> thread_pend ph) (H \<union> thread_slots ph) ix"
    and "wf_index (E + thread_refs ph) (P \<union> thread_pend ph) ix" and "wf_sizes ix"
    and "thread_pend ph \<inter> P = {}" and "thread_slots ph \<inter> H = {}" and "set_mset E \<inter> thread_pend ph = {}"
    and "thread_ok sha rq f ix ph"
  using assms by (simp_all add: state_ok_def wf_all_def)

section \<open>The decision pass\<close>

definition valid_request :: "(byte list \<Rightarrow> hash) \<Rightarrow> request \<Rightarrow> bool" where
  "valid_request sha rq = (case rq of
     Write pa buf offset \<Rightarrow> length buf < 2 ^ 31 \<and> 0 \<le> offset \<and> offset + int (length buf) < 2 ^ 63
       \<and> distinct (map sha (blocks_of buf))
   | _ \<Rightarrow> True)"

lemma same_stored:
  assumes "ran (hash_to_master ix') = ran (hash_to_master ix)"
    and "\<And>p. p \<in> ran (hash_to_master ix) \<Longrightarrow> slot_of ix' p = slot_of ix p"
  shows "stored f ix' = stored f ix"
  unfolding stored_def assms(1) using assms(2) by (intro image_cong) simp_all

text \<open>In a request without repeated blocks, every HIT is on a published object.\<close>

lemma hits_published:
  assumes obj: "plan_objects hp pub pend plan" and desc: "plan_describes sha buf start plan"
    and d: "distinct (map sha (blocks_of buf))" and len: "length buf = length plan * BLOCK_SIZE"
    and e: "e \<in> set plan" "\<not> miss e"
  shows "info e \<in> pub"
proof (rule ccontr)
  assume "info e \<notin> pub"
  then have "info e \<in> info ` {e \<in> set plan. miss e}" using obj e unfolding plan_objects_def by blast
  then obtain e' where e': "e' \<in> set plan" "miss e'" "info e' = info e" by auto
  have "pe_hash e' = pe_hash e" using obj e e' unfolding plan_objects_def by (metis option.inject)
  moreover obtain j where j: "j < length plan" "e = plan ! j" using e(1) by (metis in_set_conv_nth)
  moreover obtain k where k: "k < length plan" "e' = plan ! k" using e'(1) by (metis in_set_conv_nth)
  ultimately have "sha (chunk buf k) = sha (chunk buf j)" using desc by (simp add: plan_describes_def)
  moreover have "length (blocks_of buf) = length plan" using len by simp
  ultimately have "map sha (blocks_of buf) ! k = map sha (blocks_of buf) ! j"
    using j(1) k(1) by (simp add: blocks_of_def)
  then have "k = j" using d j(1) k(1) \<open>length (blocks_of buf) = length plan\<close>
    by (metis length_map nth_eq_iff_index_eq)
  with e(2) e'(2) j(2) k(2) show False by simp
qed

lemma decide_step:
  assumes st: "state_ok sha E P H (Write pa buf offset) ix f nb Ready"
    and valid: "valid_request sha (Write pa buf offset)"
    and room: "card (dom (file_to_master ix)) + size E + length buf div BLOCK_SIZE < 2 ^ 32"
  shows "\<exists>ix' f' nb' ph'. write_step sha pa buf offset ios Ready (shared ix f nb) = Some (ph', shared ix' f' nb')
    \<and> step_ok sha E P H (Write pa buf offset) ix f nb Ready ix' f' nb' ph'"
proof -
  let ?rq = "Write pa buf offset" and ?n = "length buf div BLOCK_SIZE" and ?start = "start_block_of offset"
  have skip: "step_ok sha E P H ?rq ix f nb Ready ix f nb (Finished r [])" for r
    by (rule step_ok_phase[OF st]) (simp_all add: thread_ok_def)
  consider "length buf = 0" | "length buf \<noteq> 0" "?n = 0 \<or> length buf mod BLOCK_SIZE \<noteq> 0"
    | (go) "length buf \<noteq> 0" "?n \<noteq> 0" "length buf mod BLOCK_SIZE = 0" by blast
  then show ?thesis
  proof cases
    case go
    have wf: "wf_all sha f nb E P H ix" and wi: "wf_index E P ix" using state_okD(1,2)[OF st] by simp_all
    obtain ix' pend plan mc where p1: "pass1 sha buf ?start ?n ix = Some (ix', pend, plan, mc)"
      and inv: "pass1_inv sha buf ?start f nb E P H ix ?n (ix', pend, plan, mc)"
      by (rule pass1_correct[OF wf room])
    have sv: "same_view ix ix'" and len: "length plan = ?n" and mc: "mc = length (filter miss plan)"
      and desc: "plan_describes sha buf ?start plan"
      and obj: "plan_objects (heap ix') (ran (hash_to_master ix')) (ran pend) plan"
      and fresh: "ran pend \<inter> dom (heap ix) = {}"
      and wf': "wf_all sha f nb (E + infos plan) (P \<union> ran pend) H ix'"
      using inv by (simp_all add: pass1_inv_def)
    have pend: "ran pend = set_mset (miss_infos plan)" using obj unfolding plan_objects_def by auto
    have wi': "wf_index (E + infos plan) (P \<union> ran pend) ix'" using wf' by (simp add: wf_all_def)
    have lenb: "length buf = length plan * BLOCK_SIZE" using go(3) len by (metis div_mult_mod_eq add_0_right)
    have held: "plan_held sha buf ?start ix' plan"
      unfolding plan_held_def
    proof (intro conjI ballI impI)
      show "info e \<in> ran (hash_to_master ix')" if "e \<in> set plan" "\<not> miss e" for e
        using hits_published[OF obj desc _ lenb that] valid by (simp add: valid_request_def)
    qed (use desc lenb obj in \<open>simp_all add: plan_objects_def\<close>)
    have tabs: "hash_to_master ix' = hash_to_master ix" "file_to_master ix' = file_to_master ix"
      "file_to_sizes ix' = file_to_sizes ix" using sv by (simp_all add: same_view_def)
    have pub: "p \<in> dom (heap ix)" if "p \<in> ran (hash_to_master ix)" for p using wf_indexD(3)[OF wi] that by blast
    have dj: "ran pend \<inter> P = {}" "set_mset E \<inter> ran pend = {}" "ran pend \<inter> ran (hash_to_master ix) = {}"
      using fresh wf_indexD(3,7)[OF wi] by blast+
    have "stable {} ix ix'" using pass1_stable[OF p1] by simp
    then have "kept E ix ix'"
      by (rule kept_stable[OF wi wi']) (use dj(3) wf_indexD(4)[OF wi] in auto)
    moreover have "stored f ix' = stored f ix"
      by (rule same_stored) (use sv pub in \<open>auto simp: same_view_def\<close>)
    moreover have "block_view f ix' = block_view f ix" by (rule same_view_block_view[OF sv wi])
    moreover have "wf_sizes ix'" by (rule wf_sizes_antimono[OF state_okD(3)[OF st] tabs(3)]) (simp add: tabs)
    ultimately have "step_ok sha E P H ?rq ix f nb Ready ix' f nb (Decided plan mc)"
      using wf' dj held mc tabs state_okD(5)[OF st] unfolding pend
      by (simp add: step_ok_def state_ok_def thread_ok_def file_system_of_def del: set_infos)
    moreover have "write_step sha pa buf offset ios Ready (shared ix f nb) = Some (Decided plan mc, shared ix' f nb)"
      using go p1 by (simp add: Let_def)
    ultimately show ?thesis by blast
  qed (use skip in auto)
qed

section \<open>Assigning slots\<close>

lemma no_misses: "length (filter miss plan) = 0 \<Longrightarrow> miss_slots plan = {} \<and> (\<forall>e \<in> set plan. \<not> miss e)"
  by (auto simp: miss_slots_def miss_def filter_empty_conv)

text \<open>Taking slots from the free list.\<close>

lemma wf_slots_drain:
  assumes wf: "wf_slots H nb ix"
  shows "wf_slots (H \<union> set (take n (free_block_list ix))) nb (ix\<lparr>free_block_list := drop n (free_block_list ix)\<rparr>)"
    and "distinct (take n (free_block_list ix))" and "set (take n (free_block_list ix)) \<inter> H = {}"
proof -
  let ?fl = "free_block_list ix" and ?ix = "ix\<lparr>free_block_list := drop n (free_block_list ix)\<rparr>"
  have d: "distinct ?fl" using wf unfolding wf_slots_def by blast
  have parts: "set ?fl = set (take n ?fl) \<union> set (drop n ?fl)" "set (take n ?fl) \<inter> set (drop n ?fl) = {}"
    using d by (metis append_take_drop_id set_append) (simp add: set_take_disj_set_drop_if_distinct d)
  have live: "live_slots ?ix = live_slots ix" by (simp add: live_slots_def)
  show "wf_slots (H \<union> set (take n ?fl)) nb ?ix"
    unfolding wf_slots_def live using wf parts d unfolding wf_slots_def by auto
  show "distinct (take n ?fl)" using d by simp
  show "set (take n ?fl) \<inter> H = {}" using wf parts(1) unfolding wf_slots_def by blast
qed

lemma drain_step_ok:
  assumes st: "state_ok sha E P H (Write pa buf offset) ix f nb (Decided plan mc)"
  shows "\<exists>ix' f' nb' ph'. write_step sha pa buf offset ios (Decided plan mc) (shared ix f nb) = Some (ph', shared ix' f' nb')
    \<and> step_ok sha E P H (Write pa buf offset) ix f nb (Decided plan mc) ix' f' nb' ph'"
proof -
  let ?rq = "Write pa buf offset" and ?start = "start_block_of offset"
  note s = state_okD[OF st]
  have held: "plan_held sha buf ?start ix plan" and mc: "mc = length (filter miss plan)"
    using s(7) by (simp_all add: thread_ok_def)
  show ?thesis
  proof (cases "mc > 0")
    case False
    then have no: "miss_slots plan = {}" "\<forall>e \<in> set plan. \<not> miss e" using no_misses[of plan] mc by simp_all
    have "step_ok sha E P H ?rq ix f nb (Decided plan mc) ix f nb (Assigned plan mc)"
    proof (rule step_ok_phase[OF st])
      show "thread_ok sha ?rq f ix (Assigned plan mc)"
        using held mc no by (simp add: thread_ok_def plan_placed_def slots_distinct_def)
    qed (simp_all add: no)
    with False show ?thesis by auto
  next
    case True
    let ?fl = "free_block_list ix" and ?ix = "ix\<lparr>free_block_list := drop mc (free_block_list ix)\<rparr>"
    have wf: "wf_all sha f nb (E + infos plan) (P \<union> set_mset (miss_infos plan)) H ix" using s(1) by simp
    then have ws: "wf_slots H nb ix" by (simp add: wf_all_def)
    note dr = wf_slots_drain[OF ws, of mc]
    have "wf_all sha f nb (E + infos plan) (P \<union> set_mset (miss_infos plan)) (H \<union> set (take mc ?fl)) ?ix"
      using wf dr(1) by (simp add: wf_all_def)
    moreover have "plan_held sha buf ?start ?ix plan" using held by (simp add: plan_held_def)
    ultimately have "step_ok sha E P H ?rq ix f nb (Decided plan mc) ?ix f nb (Drained plan mc (take mc ?fl))"
      using s(3-6) dr(2,3) mc True
      by (simp add: step_ok_def state_ok_def thread_ok_def kept_same file_system_of_def stored_def)
    moreover have "write_step sha pa buf offset ios (Decided plan mc) (shared ix f nb)
        = Some (Drained plan mc (take mc ?fl), shared ?ix f nb)"
      using True by (simp add: drain_free_list_eq Let_def)
    ultimately show ?thesis by blast
  qed
qed

text \<open>
  Reserving the rest and dealing the slots out. To the plan it makes no difference that others have
  changed the free list meanwhile: the step is the sequential assignment from a free list of
  the slots taken.
\<close>

lemma assign_loop_any_free_list:
  "ofold (assign_step blks) is (ix\<lparr>free_block_list := fl\<rparr>, plan, m)
   = map_option (\<lambda>(ix, plan, m). (ix\<lparr>free_block_list := fl\<rparr>, plan, m)) (ofold (assign_step blks) is (ix, plan, m))"
proof (induction "is" arbitrary: ix plan m)
  case (Cons i "is")
  have step: "assign_step blks i (ix\<lparr>free_block_list := fl\<rparr>, plan, m)
      = map_option (\<lambda>(ix, plan, m). (ix\<lparr>free_block_list := fl\<rparr>, plan, m)) (assign_step blks i (ix, plan, m))"
    by (auto simp: assign_step_def set_master_block_def Let_def split: option.splits)
  show ?case
    by (cases "assign_step blks i (ix, plan, m)") (auto simp: step Cons.IH)
qed simp

lemma deal_slots_effect:
  assumes wf: "wf_all sha f nb (E + infos plan) (P \<union> info ` {e \<in> set plan. miss e}) (H \<union> set out) ix"
    and d: "distinct (map info (filter miss plan))" and mc: "mc = length (filter miss plan)" "mc > 0"
    and out: "distinct out" "set out \<inter> H = {}" "length out \<le> mc" and room: "unat nb + mc \<le> MAX_SLOTS"
    and rs: "reserve_slots out mc nb = (blks, nb')"
  obtains ix' plan' m where "ofold (assign_step blks) [0..<length plan] (ix, plan, 0) = Some (ix', plan', m)"
    "assigned_plan plan plan'"
    "wf_all sha f nb' (E + infos plan') (P \<union> info ` {e \<in> set plan. miss e}) (H \<union> miss_slots plan') ix'"
    "miss_slots plan' \<inter> H = {}" "unat nb' \<le> unat nb + mc"
    "hash_to_master ix' = hash_to_master ix" "file_to_master ix' = file_to_master ix"
    "file_to_sizes ix' = file_to_sizes ix"
    "\<forall>p mi. heap ix p = Some mi \<longrightarrow> (\<exists>s. heap ix' p = Some (mi\<lparr>masterBlockIndex := s\<rparr>)
       \<and> (p \<notin> info ` {e \<in> set plan. miss e} \<longrightarrow> s = masterBlockIndex mi))"
    "\<forall>e \<in> set plan'. miss e \<longrightarrow> slot_of ix' (info e) = master_blk e \<and> unat (master_blk e) < MAX_SLOTS"
    "\<forall>j < length plan. \<forall>k < length plan. miss (plan ! j) \<longrightarrow> miss (plan ! k) \<longrightarrow>
       master_blk (plan' ! j) = master_blk (plan' ! k) \<longrightarrow> j = k"
proof -
  let ?fl = "free_block_list ix" and ?ix = "ix\<lparr>free_block_list := out\<rparr>"
  have ws: "wf_slots (H \<union> set out) nb ix" using wf by (simp add: wf_all_def)
  have live: "live_slots ?ix = live_slots ix" by (simp add: live_slots_def)
  have fl: "distinct ?fl" "set ?fl \<inter> (H \<union> set out) = {}" using ws unfolding wf_slots_def by blast+
  have "wf_slots (H \<union> set ?fl) nb ?ix"
    using ws out(1,2) unfolding wf_slots_def live by auto
  then have wf1: "wf_all sha f nb (E + infos plan) (P \<union> info ` {e \<in> set plan. miss e}) (H \<union> set ?fl) ?ix"
    using wf by (simp add: wf_all_def)
  have al: "allocate_batch_storage_first ?ix mc nb = (blks, ix\<lparr>free_block_list := []\<rparr>, nb')"
    using out(3) rs by (simp add: allocate_in_two_steps drain_free_list_eq Let_def)
  obtain ix1 nb1 plan' where asg: "assign_slots ?ix nb plan mc = Some (ix1, nb1, plan')"
    and ap: "assigned_plan plan plan'"
    and wf2: "wf_all sha f nb1 (E + infos plan') (P \<union> info ` {e \<in> set plan. miss e}) (H \<union> set ?fl \<union> miss_slots plan') ix1"
    and dj: "miss_slots plan' \<inter> (H \<union> set ?fl) = {}" and nb1: "unat nb1 \<le> unat nb + mc"
    and tabs: "hash_to_master ix1 = hash_to_master ?ix" "file_to_master ix1 = file_to_master ?ix"
      "file_to_sizes ix1 = file_to_sizes ?ix"
    and hp: "\<forall>p mi. heap ?ix p = Some mi \<longrightarrow> (\<exists>s. heap ix1 p = Some (mi\<lparr>masterBlockIndex := s\<rparr>)
       \<and> (p \<notin> info ` {e \<in> set plan. miss e} \<longrightarrow> s = masterBlockIndex mi))"
    and each: "\<forall>e \<in> set plan'. miss e \<longrightarrow> slot_of ix1 (info e) = master_blk e \<and> unat (master_blk e) < MAX_SLOTS"
    and inj: "\<forall>j < length plan. \<forall>k < length plan. miss (plan ! j) \<longrightarrow> miss (plan ! k) \<longrightarrow>
       master_blk (plan' ! j) = master_blk (plan' ! k) \<longrightarrow> j = k"
    by (rule assign_slots_effect[OF wf1 d mc room])
  obtain m where run0: "ofold (assign_step blks) [0..<length plan] (ix\<lparr>free_block_list := []\<rparr>, plan, 0) = Some (ix1, plan', m)"
    and nb': "nb1 = nb'"
    using asg mc(2) al by (auto simp: assign_slots_def split: bind_splits)
  have "ix = (ix\<lparr>free_block_list := []\<rparr>)\<lparr>free_block_list := ?fl\<rparr>" by simp
  then have loop: "ofold (assign_step blks) [0..<length plan] (ix, plan, 0)
      = Some (ix1\<lparr>free_block_list := ?fl\<rparr>, plan', m)"
    using assign_loop_any_free_list[where ix = "ix\<lparr>free_block_list := []\<rparr>" and fl = ?fl, of blks "[0..<length plan]" plan 0] run0 by simp
  have empty: "free_block_list ix1 = []"
    using assign_loop_any_free_list[where ix = ix and fl = "[]", of blks "[0..<length plan]" plan 0] run0
    by (cases "ofold (assign_step blks) [0..<length plan] (ix, plan, 0)") auto
  have "wf_all sha f nb1 (E + infos plan') (P \<union> info ` {e \<in> set plan. miss e})
      (H \<union> set ?fl \<union> miss_slots plan' - set ?fl) (ix1\<lparr>free_block_list := ?fl @ free_block_list ix1\<rparr>)"
    by (rule wf_all_prepend[OF wf2 _ fl(1)]) blast
  moreover have "H \<union> set ?fl \<union> miss_slots plan' - set ?fl = H \<union> miss_slots plan'" using dj fl(2) by blast
  ultimately have "wf_all sha f nb' (E + infos plan') (P \<union> info ` {e \<in> set plan. miss e}) (H \<union> miss_slots plan')
      (ix1\<lparr>free_block_list := ?fl\<rparr>)" by (simp add: empty nb')
  from that[OF loop ap this] show ?thesis using dj nb1 nb' tabs hp each inj by (simp add: Int_Un_distrib)
qed

lemma assign_step_ok:
  assumes st: "state_ok sha E P H (Write pa buf offset) ix f nb (Drained plan mc out)"
    and room: "unat nb + length buf div BLOCK_SIZE \<le> MAX_SLOTS"
  shows "\<exists>ix' f' nb' ph'. write_step sha pa buf offset ios (Drained plan mc out) (shared ix f nb) = Some (ph', shared ix' f' nb')
    \<and> step_ok sha E P H (Write pa buf offset) ix f nb (Drained plan mc out) ix' f' nb' ph'"
proof -
  let ?rq = "Write pa buf offset" and ?start = "start_block_of offset" and ?P = "info ` {e \<in> set plan. miss e}"
  note s = state_okD[OF st]
  have held: "plan_held sha buf ?start ix plan" and mc: "mc = length (filter miss plan)" "mc > 0"
    and out: "distinct out" "length out \<le> mc"
    using s(7) by (simp_all add: thread_ok_def del: length_0_conv length_greater_0_conv)
  have d: "distinct (map info (filter miss plan))" and len: "length buf = length plan * BLOCK_SIZE"
    using held by (simp_all add: plan_held_def)
  have wf: "wf_all sha f nb (E + infos plan) (P \<union> ?P) (H \<union> set out) ix" using s(1) by simp
  have wi: "wf_index (E + infos plan) (P \<union> ?P) ix" using wf by (simp add: wf_all_def)
  have "mc \<le> length buf div BLOCK_SIZE" using mc len length_filter_le[of miss plan] by simp
  then have room': "unat nb + mc \<le> MAX_SLOTS" using room by simp
  have dout: "set out \<inter> H = {}" using s(5) by simp
  obtain blks nb' where rs: "reserve_slots out mc nb = (blks, nb')" by fastforce
  obtain ix' plan' m where asg: "ofold (assign_step blks) [0..<length plan] (ix, plan, 0) = Some (ix', plan', m)"
    and ap: "assigned_plan plan plan'"
    and wf': "wf_all sha f nb' (E + infos plan') (P \<union> ?P) (H \<union> miss_slots plan') ix'"
    and dH: "miss_slots plan' \<inter> H = {}" and nb': "unat nb' \<le> unat nb + mc"
    and tabs: "hash_to_master ix' = hash_to_master ix" "file_to_master ix' = file_to_master ix"
      "file_to_sizes ix' = file_to_sizes ix"
    and hp: "\<forall>p mi. heap ix p = Some mi \<longrightarrow> (\<exists>s. heap ix' p = Some (mi\<lparr>masterBlockIndex := s\<rparr>)
       \<and> (p \<notin> ?P \<longrightarrow> s = masterBlockIndex mi))"
    and each: "\<forall>e \<in> set plan'. miss e \<longrightarrow> slot_of ix' (info e) = master_blk e \<and> unat (master_blk e) < MAX_SLOTS"
    and inj: "\<forall>j < length plan. \<forall>k < length plan. miss (plan ! j) \<longrightarrow> miss (plan ! k) \<longrightarrow>
       master_blk (plan' ! j) = master_blk (plan' ! k) \<longrightarrow> j = k"
    by (rule deal_slots_effect[OF wf d mc out(1) dout out(2) room' rs])
  note pf = assigned_plan_facts[OF ap]
  have fld: "length plan' = length plan" "j < length plan \<Longrightarrow> info (plan' ! j) = info (plan ! j)"
    "j < length plan \<Longrightarrow> pe_hash (plan' ! j) = pe_hash (plan ! j)"
    "j < length plan \<Longrightarrow> miss (plan' ! j) = miss (plan ! j)" for j
    using ap by (simp_all add: assigned_plan_def miss_def)
  have from_old: "\<exists>e0 \<in> set plan. info e = info e0 \<and> pe_hash e = pe_hash e0 \<and> miss e = miss e0"
    if "e \<in> set plan'" for e
    using that fld by (metis in_set_conv_nth)
  have held': "plan_held sha buf ?start ix' plan'"
    unfolding plan_held_def
  proof (intro conjI ballI impI)
    show "plan_describes sha buf ?start plan'" using held pf(7) by (simp add: plan_held_def)
    show "length buf = length plan' * BLOCK_SIZE" using len fld(1) by simp
    show "distinct (map info (filter miss plan'))" using d pf(4) by simp
    fix e assume e: "e \<in> set plan'"
    then obtain e0 where e0: "e0 \<in> set plan" "info e = info e0" "pe_hash e = pe_hash e0" "miss e = miss e0"
      using from_old by blast
    then obtain mi where "heap ix (info e) = Some mi" "mi_hash mi = pe_hash e"
      using held unfolding plan_held_def by auto
    then show "\<exists>mi. heap ix' (info e) = Some mi \<and> mi_hash mi = pe_hash e" using hp by fastforce
    show "info e \<in> ran (hash_to_master ix')" if "\<not> miss e"
      using held e0 that unfolding plan_held_def tabs by auto
  qed
  have placed: "plan_placed ix' plan'"
    using inj each fld unfolding plan_placed_def slots_distinct_def by simp
  have slot: "slot_of ix' p = slot_of ix p" if "p \<in> dom (heap ix)" "p \<notin> ?P" for p
    using hp that by (fastforce simp: slot_of_def)
  have pub: "p \<in> dom (heap ix) \<and> p \<notin> ?P" if "p \<in> ran (hash_to_master ix)" for p
    using wf_indexD(3,4)[OF wi] that by blast
  have view: "block_view f ix' = block_view f ix"
    by (rule block_view_cong[OF tabs(2)]) (use slot pub wf_index_heap(3)[OF wi] in blast)
  have "kept E ix ix'"
    unfolding kept_def tabs
  proof (intro ballI allI impI conjI)
    fix p mi assume p: "p \<in># E" "heap ix p = Some mi"
    then have "p \<notin> ?P" using s(6) by auto
    then show "\<exists>mi'. heap ix' p = Some mi' \<and> mi_hash mi' = mi_hash mi \<and> masterBlockIndex mi' = masterBlockIndex mi"
      using hp p(2) by fastforce
  qed
  moreover have "stored f ix' = stored f ix"
    by (rule same_stored) (use slot pub in \<open>simp_all add: tabs\<close>)
  moreover have "wf_sizes ix'" by (rule wf_sizes_antimono[OF s(3) tabs(3)]) (simp add: tabs)
  moreover have pends: "set_mset (miss_infos plan') = ?P" using arg_cong[OF pf(4), of set] by auto
  moreover have "unat nb' \<le> unat nb + length buf div BLOCK_SIZE" using nb' \<open>mc \<le> _\<close> by simp
  moreover have "mc = length (filter miss plan')" using mc(1) pf(5) by simp
  ultimately have "step_ok sha E P H ?rq ix f nb (Drained plan mc out) ix' f nb' (Assigned plan' mc)"
    using wf' dH held' placed tabs view s(4,6)
    by (simp add: step_ok_def state_ok_def thread_ok_def file_system_of_def request_blocks_def)
  moreover have "write_step sha pa buf offset ios (Drained plan mc out) (shared ix f nb) = Some (Assigned plan' mc, shared ix' f nb')"
    using asg rs by (simp add: Let_def)
  ultimately show ?thesis by blast
qed

section \<open>The flush\<close>

lemma plan_ready_held:
  assumes "plan_held sha buf start ix plan" "plan_placed ix plan"
  shows "plan_ready plan buf"
  using assms unfolding plan_ready_def plan_held_def plan_placed_def slots_distinct_def plan_describes_def miss_def[symmetric]
  by auto

lemma flush_step_ok:
  assumes st: "state_ok sha E P H (Write pa buf offset) ix f nb (Assigned plan mc)"
  shows "\<exists>ix' f' nb' ph'. write_step sha pa buf offset ios (Assigned plan mc) (shared ix f nb) = Some (ph', shared ix' f' nb')
    \<and> step_ok sha E P H (Write pa buf offset) ix f nb (Assigned plan mc) ix' f' nb' ph'"
proof -
  let ?rq = "Write pa buf offset" and ?start = "start_block_of offset"
  note s = state_okD[OF st]
  have held: "plan_held sha buf ?start ix plan" and placed: "plan_placed ix plan"
    and mc: "mc = length (filter miss plan)"
    using s(7) by (simp_all add: thread_ok_def)
  obtain rc f' ios' where fl: "(if mc > 0 then flush_plan f ios plan buf else (0, f, ios)) = (rc, f', ios')"
    by (metis prod_cases3)
  have eff: "length f \<le> length f'
    \<and> (\<forall>k. Suc k * BLOCK_SIZE \<le> length f \<longrightarrow> (\<forall>s \<in> miss_slots plan. unat s \<noteq> k) \<longrightarrow> chunk f' k = chunk f k)
    \<and> (\<not> rc < 0 \<longrightarrow> plan_flushed f' buf plan)"
  proof (cases "mc > 0")
    case True
    then have "flush_loop plan buf 0 f ios = (rc, f', ios')" using fl by (simp add: flush_plan_def)
    note fc = flush_loop_correct[OF plan_ready_held[OF held placed] le0 this]
    show ?thesis
    proof (intro conjI allI impI)
      show "length f \<le> length f'" using fc by blast
      fix k assume k: "Suc k * BLOCK_SIZE \<le> length f" "\<forall>s \<in> miss_slots plan. unat s \<noteq> k"
      then have "\<forall>j. 0 \<le> j \<and> j < length plan \<longrightarrow> kind (plan ! j) = PLAN_MISS \<longrightarrow> unat (master_blk (plan ! j)) \<noteq> k"
        using miss_slots_nthI unfolding miss_def by blast
      with fc k(1) show "chunk f' k = chunk f k" by blast
    next
      show "plan_flushed f' buf plan" if "\<not> rc < 0"
        using fc that unfolding plan_flushed_def miss_def by auto
    qed
  next
    case False
    then have "\<forall>e \<in> set plan. \<not> miss e" using no_misses[of plan] mc by simp
    then have "plan_flushed f buf plan" by (simp add: plan_flushed_def)
    with False fl show ?thesis by simp
  qed
  let ?ph' = "if rc < 0 then Failed plan rc else Flushed plan"
  have frame: "\<forall>k. Suc k * BLOCK_SIZE \<le> length f \<longrightarrow> (\<forall>s \<in> H \<union> miss_slots plan. unat s \<noteq> k) \<longrightarrow> chunk f' k = chunk f k"
    using eff by blast
  have wf: "wf_all sha f nb (E + infos plan) (P \<union> set_mset (miss_infos plan)) (H \<union> miss_slots plan) ix"
    using s(1) by simp
  note hw = wf_all_held_write[OF wf conjunct1[OF eff] frame]
  have "content_kept H f f'"
    unfolding content_kept_def
  proof (intro conjI ballI impI)
    fix s assume sH: "s \<in> H" "Suc (unat s) * BLOCK_SIZE \<le> length f"
    have "s \<notin> miss_slots plan" using s(5) sH(1) by auto
    then have "\<forall>s' \<in> miss_slots plan. unat s' \<noteq> unat s" by (metis word_unat_eq_iff)
    with eff sH(2) show "chunk f' (unat s) = chunk f (unat s)" by blast
  qed (use eff in blast)
  moreover have "stored f' ix = stored f ix" unfolding stored_def by (rule image_cong) (use hw(3) in simp_all)
  moreover have "thread_ok sha ?rq f' ix ?ph'" using held placed eff by (simp add: thread_ok_def)
  moreover have "takes_effect ?rq (Assigned plan mc) = False" by simp
  ultimately have "step_ok sha E P H ?rq ix f nb (Assigned plan mc) ix f' nb ?ph'"
    using hw(1,2) s(3-6) by (simp add: step_ok_def state_ok_def kept_same file_system_of_def)
  moreover have "write_step sha pa buf offset ios (Assigned plan mc) (shared ix f nb) = Some (?ph', shared ix f' nb)"
    unfolding write_step.simps shared_simps(2) fl by (simp add: Let_def)
  ultimately show ?thesis by blast
qed

section \<open>Releasing slots\<close>

lemma release_slots_ok:
  assumes wf: "wf_all sha f nb E P (H \<union> set tr) ix" and tr: "distinct tr" "set tr \<inter> H = {}"
  shows "wf_all sha f nb E P H (release_slots tr ix)"
proof -
  have "wf_all sha f nb E P (H \<union> set tr - set tr) (release_slots tr ix)"
    unfolding release_slots_def by (rule wf_all_prepend[OF wf _ tr(1)]) simp
  moreover have "H \<union> set tr - set tr = H" using tr(2) by blast
  ultimately show ?thesis by simp
qed

lemma release_slots_frame [simp]:
  "kept E ix (release_slots tr ix)" "stored f (release_slots tr ix) = stored f ix"
  "file_to_master (release_slots tr ix) = file_to_master ix" "file_to_sizes (release_slots tr ix) = file_to_sizes ix"
  "hash_to_master (release_slots tr ix) = hash_to_master ix"
  "block_view f (release_slots tr ix) = block_view f ix" "wf_sizes (release_slots tr ix) = wf_sizes ix"
  "file_system_of f (release_slots tr ix) = file_system_of f ix"
  by (simp_all add: release_slots_def kept_same stored_def file_system_of_def)

lemma releasing_ok:
  assumes st: "state_ok sha E P H rq ix f nb (Releasing tr r)" and rq: "\<And>pa buf sz offset. rq \<noteq> Read pa buf sz offset"
  shows "step_ok sha E P H rq ix f nb (Releasing tr r) (release_slots tr ix) f nb (Finished r [])"
proof -
  note s = state_okD[OF st]
  have "distinct tr" using s(7) rq by (cases rq) (simp_all add: thread_ok_def)
  then have "wf_all sha f nb E P H (release_slots tr ix)"
    using release_slots_ok[of sha f nb E P H tr ix] s(1,5) by simp
  moreover have "thread_ok sha rq f (release_slots tr ix) (Finished r [])"
    by (cases rq) (simp_all add: thread_ok_def)
  moreover have "\<not> takes_effect rq (Releasing tr r)" by (cases rq) simp_all
  ultimately show ?thesis using s(3) by (simp add: step_ok_def state_ok_def)
qed

end
