(* ===== verification/Thread_Rollback.thy ===== *)
theory Thread_Rollback
  imports Thread_Steps Read_Correct
begin

text \<open>
  The stages of a rollback among other threads, a removal, and a read: each keeps what the thread
  and all others rely on.
\<close>

section \<open>Rollback\<close>

lemma failed_step_ok:
  assumes st: "state_ok sha E P H (Write pa buf offset) ix f nb (Failed plan rc)"
  shows "\<exists>ix' f' nb' ph'. write_step sha pa buf offset ios (Failed plan rc) (shared ix f nb) = Some (ph', shared ix' f' nb')
    \<and> step_ok sha E P H (Write pa buf offset) ix f nb (Failed plan rc) ix' f' nb' ph'"
proof -
  let ?rq = "Write pa buf offset" and ?start = "start_block_of offset"
  let ?P = "P \<union> set_mset (miss_infos plan)" and ?H = "H \<union> miss_slots plan"
  note s = state_okD[OF st]
  have held: "plan_held sha buf ?start ix plan" and placed: "plan_placed ix plan"
    using s(7) by (simp_all add: thread_ok_def)
  have wf: "wf_all sha f nb (E + infos plan) ?P ?H ix" using s(1) by simp
  have wi: "wf_index (E + infos plan) ?P ix" using wf by (simp add: wf_all_def)
  have keep: "\<forall>e \<in> set plan. info e \<in> ?P \<longrightarrow> info e \<in># miss_infos plan"
  proof (intro ballI impI)
    fix e assume e: "e \<in> set plan" "info e \<in> ?P"
    show "info e \<in># miss_infos plan"
    proof (cases "miss e")
      case False
      with held e(1) have "info e \<in> ran (hash_to_master ix)" by (simp add: plan_held_def)
      with wf_indexD(4)[OF wi] e(2) show ?thesis by blast
    qed (use e(1) in auto)
  qed
  have "rollback_inv sha f nb E ?P ?H ix plan 0 (ix, [])"
    using wf unfolding rollback_inv_def prod.case by (simp add: infos_split[of plan] add.assoc)
  then have "\<exists>st. ofold (rollback_hit_step plan) [0..<length plan] (ix, []) = Some st
      \<and> rollback_inv sha f nb E ?P ?H ix plan (length plan) st"
    by (rule ofold_upt) (rule rollback_hit_step_inv[OF _ _ keep])
  then obtain ix' tr where l: "ofold (rollback_hit_step plan) [0..<length plan] (ix, []) = Some (ix', tr)"
    and r: "rollback_inv sha f nb E ?P ?H ix plan (length plan) (ix', tr)"
    by (metis surj_pair)
  note r' = r[unfolded rollback_inv_def prod.case]
  have wf': "wf_all sha f nb (E + miss_infos plan) ?P (H \<union> (miss_slots plan \<union> set tr)) ix'"
    and tr: "set tr \<inter> ?H = {}" "distinct tr"
    and tabs: "file_to_master ix' = file_to_master ix" "file_to_sizes ix' = file_to_sizes ix"
      "block_view f ix' = block_view f ix"
    using r' by (simp_all add: Un_assoc)
  have wi': "wf_index (E + miss_infos plan) ?P ix'" using wf' by (simp add: wf_all_def)
  have stab: "stable {} ix ix'" by (rule rollback_hit_stable[OF l])
  have "kept E ix ix'" by (rule kept_stable[OF wi wi' stab]) (use wf_indexD(4)[OF wi] in auto)
  moreover have "stored f ix' \<subseteq> stored f ix"
    using stored_shrinks[OF wi wi' stab] loops_shrink(1)[OF l] by simp
  moreover have "wf_sizes ix'" by (rule wf_sizes_antimono[OF s(3) tabs(2)]) (simp add: tabs)
  moreover have "thread_ok sha ?rq f ix' (Undoing plan tr rc)"
    using held placed tr unfolding thread_ok_def plan_held_def plan_placed_def by auto
  ultimately have "step_ok sha E P H ?rq ix f nb (Failed plan rc) ix' f nb (Undoing plan tr rc)"
    using wf' tr tabs s(4-6) by (auto simp: step_ok_def state_ok_def file_system_of_def)
  moreover have "write_step sha pa buf offset ios (Failed plan rc) (shared ix f nb) = Some (Undoing plan tr rc, shared ix' f nb)"
    using l by simp
  ultimately show ?thesis by blast
qed

lemma undoing_step_ok:
  assumes st: "state_ok sha E P H (Write pa buf offset) ix f nb (Undoing plan tr rc)"
  shows "step_ok sha E P H (Write pa buf offset) ix f nb (Undoing plan tr rc) (release_slots tr ix) f nb (Dropping plan rc)"
proof -
  note s = state_okD[OF st]
  have ok: "distinct tr" "set tr \<inter> miss_slots plan = {}" using s(7) by (simp_all add: thread_ok_def)
  have "wf_all sha f nb (E + miss_infos plan) (P \<union> set_mset (miss_infos plan)) (H \<union> miss_slots plan) (release_slots tr ix)"
    by (rule release_slots_ok) (use s(1,5) ok in \<open>auto simp: Un_assoc\<close>)
  moreover have "thread_ok sha (Write pa buf offset) f (release_slots tr ix) (Dropping plan rc)"
    using s(7) by (simp add: thread_ok_def)
  ultimately show ?thesis using s(3-6) by (auto simp: step_ok_def state_ok_def)
qed

lemma dropping_step_ok:
  assumes st: "state_ok sha E P H (Write pa buf offset) ix f nb (Dropping plan rc)"
  shows "\<exists>ix' f' nb' ph'. write_step sha pa buf offset ios (Dropping plan rc) (shared ix f nb) = Some (ph', shared ix' f' nb')
    \<and> step_ok sha E P H (Write pa buf offset) ix f nb (Dropping plan rc) ix' f' nb' ph'"
proof -
  let ?rq = "Write pa buf offset" and ?P = "P \<union> set_mset (miss_infos plan)"
  note s = state_okD[OF st]
  have d: "distinct (map info (filter miss plan))" and sd: "slots_distinct plan"
    using s(7) by (simp_all add: thread_ok_def)
  have wi: "wf_index (E + miss_infos plan) ?P ix" using s(2) by simp
  have "undo_inv sha f nb E P H ix plan 0 ix" using s(1) by (simp add: undo_inv_def)
  then have "\<exists>ix'. ofold (rollback_miss_step plan) [0..<length plan] ix = Some ix'
      \<and> undo_inv sha f nb E P H ix plan (length plan) ix'"
  proof (rule ofold_upt)
    fix i ix2 assume i: "i < length plan" and u: "undo_inv sha f nb E P H ix plan i ix2"
    show "\<exists>t. rollback_miss_step plan i ix2 = Some t \<and> undo_inv sha f nb E P H ix plan (Suc i) t"
    proof (rule undo_step_inv[OF u i d sd[unfolded slots_distinct_def]], intro ballI impI)
      fix e assume e: "e \<in> set plan" "miss e"
      then have "info e \<in># miss_infos plan" "master_blk e \<in> miss_slots plan"
        by (auto simp: miss_slots_def miss_def)
      with s(4-6) show "info e \<notin> P \<and> info e \<notin># E \<and> master_blk e \<notin> H" by auto
    qed
  qed
  then obtain ix' where l: "ofold (rollback_miss_step plan) [0..<length plan] ix = Some ix'"
    and u: "undo_inv sha f nb E P H ix plan (length plan) ix'" by blast
  have wf': "wf_all sha f nb E P H ix'" and tabs: "file_to_master ix' = file_to_master ix"
    "file_to_sizes ix' = file_to_sizes ix" "block_view f ix' = block_view f ix"
    using u by (simp_all add: undo_inv_def miss_slots_def)
  have wi': "wf_index E P ix'" using wf' by (simp add: wf_all_def)
  have stab: "stable {} ix ix'" by (rule rollback_miss_stable[OF l])
  have "kept E ix ix'" by (rule kept_stable[OF wi wi' stab]) (use wf_indexD(4)[OF wi] in auto)
  moreover have "stored f ix' \<subseteq> stored f ix"
    using stored_shrinks[OF wi wi' stab] loops_shrink(2)[OF l] by simp
  moreover have "wf_sizes ix'" by (rule wf_sizes_antimono[OF s(3) tabs(2)]) (simp add: tabs)
  ultimately have "step_ok sha E P H ?rq ix f nb (Dropping plan rc) ix' f nb (Finished rc [])"
    using wf' tabs by (auto simp: step_ok_def state_ok_def file_system_of_def thread_ok_def)
  moreover have "write_step sha pa buf offset ios (Dropping plan rc) (shared ix f nb) = Some (Finished rc [], shared ix' f nb)"
    using l by simp
  ultimately show ?thesis by blast
qed

section \<open>Removal\<close>

text \<open>The loop of a removal, whatever other threads hold.\<close>

lemma remove_batch_step_inv:
  assumes wf: "wf_all sha f nb E P (H \<union> set tr) ix" and tr: "set tr \<inter> H = {}" "distinct tr"
  shows "\<exists>ix' tr'. remove_batch_step pa b (ix, tr) = Some (ix', tr')
    \<and> wf_all sha f nb E P (H \<union> set tr') ix' \<and> set tr' \<inter> H = {} \<and> distinct tr'
    \<and> block_view f ix' = (block_view f ix)(bkey pa b := None) \<and> file_to_sizes ix' = file_to_sizes ix
    \<and> dom (file_to_master ix') \<subseteq> dom (file_to_master ix)"
proof (cases "file_to_master ix (bkey pa b)")
  case None
  then have "(block_view f ix)(bkey pa b := None) = block_view f ix"
    by (auto simp: block_view_def fun_eq_iff)
  with None wf tr show ?thesis by (simp add: remove_batch_step_def lookup_by_file_block_def)
next
  case (Some q)
  let ?ix = "remove_file_block ix pa b"
  note rem = wf_all_remove_file[OF wf Some]
  have "q \<notin> P"
    using wf_index_heap(3)[of E P ix, OF _ Some] wf wf_indexD(4)[of E P ix] by (auto simp: wf_all_def)
  then have keep: "q \<in> P \<longrightarrow> q \<in># E" by blast
  obtain ss ix' where rel: "release_ref q ?ix = Some (ss, ix')"
    and wf': "wf_all sha f nb E P (H \<union> set tr \<union> set ss) ix'" and ss: "set ss \<inter> (H \<union> set tr) = {}" "distinct ss"
    and fr: "file_to_master ix' = file_to_master ?ix" "file_to_sizes ix' = file_to_sizes ?ix"
    and v: "block_view f ix' = block_view f ?ix"
    by (rule wf_all_release[OF rem(1) keep])
  have H: "H \<union> set tr \<union> set ss = H \<union> set (ss @ tr)" by auto
  have "remove_batch_step pa b (ix, tr) = Some (ix', ss @ tr)"
    using Some rel by (simp add: remove_batch_step_def lookup_by_file_block_def)
  moreover have "dom (file_to_master ix') \<subseteq> dom (file_to_master ix)"
    by (auto simp: fr remove_file_block_def split: if_splits)
  ultimately show ?thesis
    using wf'[unfolded H] ss tr v rem(2) fr by (auto simp: remove_file_block_def)
qed

lemma remove_batch_loop:
  assumes "wf_all sha f nb E P (H \<union> set tr) ix" "set tr \<inter> H = {}" "distinct tr"
  shows "\<exists>ix' tr'. ofold (remove_batch_step pa) bs (ix, tr) = Some (ix', tr')
    \<and> wf_all sha f nb E P (H \<union> set tr') ix' \<and> set tr' \<inter> H = {} \<and> distinct tr'
    \<and> block_view f ix' = (\<lambda>k. if bi_path k = pa \<and> bi_offset k \<in> set bs then None else block_view f ix k)
    \<and> file_to_sizes ix' = file_to_sizes ix \<and> dom (file_to_master ix') \<subseteq> dom (file_to_master ix)"
  using assms
proof (induction bs arbitrary: ix tr)
  case (Cons b bs)
  obtain ix1 tr1 where one: "remove_batch_step pa b (ix, tr) = Some (ix1, tr1)"
    "wf_all sha f nb E P (H \<union> set tr1) ix1" "set tr1 \<inter> H = {}" "distinct tr1"
    "block_view f ix1 = (block_view f ix)(bkey pa b := None)" "file_to_sizes ix1 = file_to_sizes ix"
    "dom (file_to_master ix1) \<subseteq> dom (file_to_master ix)"
    using remove_batch_step_inv[OF Cons.prems, of pa b] by blast
  obtain ix' tr' where rest: "ofold (remove_batch_step pa) bs (ix1, tr1) = Some (ix', tr')"
    "wf_all sha f nb E P (H \<union> set tr') ix'" "set tr' \<inter> H = {}" "distinct tr'"
    "block_view f ix' = (\<lambda>k. if bi_path k = pa \<and> bi_offset k \<in> set bs then None else block_view f ix1 k)"
    "file_to_sizes ix' = file_to_sizes ix1" "dom (file_to_master ix') \<subseteq> dom (file_to_master ix1)"
    using Cons.IH[OF one(2-4)] by blast
  have "block_view f ix' = (\<lambda>k. if bi_path k = pa \<and> bi_offset k \<in> set (b # bs) then None else block_view f ix k)"
    unfolding rest(5) one(5) by (auto simp: fun_eq_iff BlockIndice_eq_iff)
  moreover have "dom (file_to_master ix') \<subseteq> dom (file_to_master ix)" using rest(7) one(7) by (rule order_trans)
  ultimately show ?case using rest one by simp
qed simp

lemma spec_trim_nothing: "e \<le> s \<Longrightarrow> spec_trim pa s e v = v"
  by (auto simp: spec_trim_def fun_eq_iff)

lemma removal_step_ok:
  assumes st: "state_ok sha E P H (Remove pa b e) ix f nb Ready"
  shows "\<exists>ix' f' nb' ph'. remove_step pa b e Ready (shared ix f nb) = Some (ph', shared ix' f' nb')
    \<and> step_ok sha E P H (Remove pa b e) ix f nb Ready ix' f' nb' ph'"
proof (cases "b \<ge> e")
  case True
  have "step_ok sha E P H (Remove pa b e) ix f nb Ready ix f nb (Finished 0 [])"
    by (rule step_ok_phase[OF st])
      (use True in \<open>simp_all add: thread_ok_def request_effect_def file_system_of_def spec_trim_nothing\<close>)
  with True show ?thesis by auto
next
  case False
  note s = state_okD[OF st]
  have wf: "wf_all sha f nb E P H ix" and wi: "wf_index E P ix" using s(1,2) by simp_all
  obtain ix' tr where l: "ofold (remove_batch_step pa) (block_range b e) (ix, []) = Some (ix', tr)"
    and wf': "wf_all sha f nb E P (H \<union> set tr) ix'" and tr: "set tr \<inter> H = {}" "distinct tr"
    and v: "block_view f ix' = (\<lambda>k. if bi_path k = pa \<and> bi_offset k \<in> set (block_range b e) then None else block_view f ix k)"
    and fr: "file_to_sizes ix' = file_to_sizes ix" "dom (file_to_master ix') \<subseteq> dom (file_to_master ix)"
    using remove_batch_loop[of sha f nb E P H "[]" ix pa "block_range b e"] wf by auto
  have wi': "wf_index E P ix'" using wf' by (simp add: wf_all_def)
  have stab: "stable {} ix ix'" by (rule remove_loop_stable[OF l])
  have "kept E ix ix'" by (rule kept_stable[OF wi wi' stab]) (use wf_indexD(4)[OF wi] in auto)
  moreover have "stored f ix' \<subseteq> stored f ix"
    using stored_shrinks[OF wi wi' stab] loops_shrink(4)[OF l] by simp
  moreover have "wf_sizes ix'" by (rule wf_sizes_antimono[OF s(3) fr])
  moreover have "card (dom (file_to_master ix')) \<le> card (dom (file_to_master ix))"
    by (rule card_mono[OF wf_indexD(1)[OF wi] fr(2)])
  moreover have "file_system_of f ix' = request_effect (Remove pa b e) (file_system_of f ix)"
    unfolding file_system_of_def v fr(1) by (simp add: request_effect_def spec_trim_def set_block_range)
  ultimately have "step_ok sha E P H (Remove pa b e) ix f nb Ready ix' f nb (Releasing tr 0)"
    using wf' tr by (auto simp: step_ok_def state_ok_def thread_ok_def)
  moreover have "remove_step pa b e Ready (shared ix f nb) = Some (Releasing tr 0, shared ix' f nb)"
    using False l by simp
  ultimately show ?thesis by blast
qed

section \<open>Reading\<close>

lemma reading_step_ok:
  assumes st: "state_ok sha E P H (Read pa buf sz offset) ix f nb ph" and ph: "ph = Ready \<or> (\<exists>ps. ph = Located ps)"
  shows "\<exists>ph'. read_step qs pa buf sz offset ios ph (shared ix f nb) = Some (ph', shared ix f nb)
    \<and> step_ok sha E P H (Read pa buf sz offset) ix f nb ph ix f nb ph'"
proof -
  let ?rq = "Read pa buf sz offset"
  have fin: "step_ok sha E P H ?rq ix f nb ph ix f nb (Finished r b)" for r b
    by (rule step_ok_phase[OF st]) (use ph in \<open>auto simp: thread_ok_def\<close>)
  have loc: "step_ok sha E P H ?rq ix f nb Ready ix f nb (Located ps)" if "ph = Ready" for ps
    by (rule step_ok_phase[OF st[unfolded that]]) (simp_all add: thread_ok_def request_blocks_def)
  have wi: "wf_index (E + thread_refs ph) (P \<union> thread_pend ph) ix" by (rule state_okD(2)[OF st])
  from ph show ?thesis
  proof
    assume r: "ph = Ready"
    obtain ps where "lookup_pairs ix pa (start_block_of offset) 0 (sz div BLOCK_SIZE) = Some ps"
      using lookup_pairs_spec[OF wi] by blast
    with fin loc r show ?thesis by (auto simp: Let_def)
  next
    assume "\<exists>ps. ph = Located ps"
    with fin show ?thesis by (auto simp: Let_def split: prod.splits)
  qed
qed

end
