(* ===== verification/Thread_Publish.thy ===== *)
theory Thread_Publish
  imports Thread_Rollback
begin

text \<open>
  The consolidation of a write among other threads. Between the decision pass and the write lock
  another thread may have published the same content: the MISS then loses the race, its pending
  object is freed, its slot is given back, and the block is mapped to the winner's object. The
  effect on the files is the same.
\<close>

section \<open>Slots of a plan\<close>

lemma slots_distinct_taken:
  assumes "slots_distinct plan" "i < length plan" "miss (plan ! i)"
  shows "master_blk (plan ! i) \<notin> miss_slots (take i plan)"
proof
  assume "master_blk (plan ! i) \<in> miss_slots (take i plan)"
  then obtain k where "k < i" "miss (plan ! k)" "master_blk (plan ! k) = master_blk (plan ! i)"
    using assms(2) unfolding miss_slots_nth by auto
  then show False using assms unfolding slots_distinct_def by (metis less_trans nat_neq_iff)
qed

lemma slots_distinct_rest:
  assumes "slots_distinct plan" "i < length plan" "miss (plan ! i)"
  shows "master_blk (plan ! i) \<notin> miss_slots (drop (Suc i) plan)"
proof
  assume "master_blk (plan ! i) \<in> miss_slots (drop (Suc i) plan)"
  then obtain k where "k < length (drop (Suc i) plan)" "miss (drop (Suc i) plan ! k)"
    "master_blk (plan ! i) = master_blk (drop (Suc i) plan ! k)"
    unfolding miss_slots_nth by blast
  then have "Suc i + k < length plan" "miss (plan ! (Suc i + k))" "master_blk (plan ! i) = master_blk (plan ! (Suc i + k))"
    using assms(2) by (simp_all add: nth_drop)
  then have "i = Suc i + k" using assms unfolding slots_distinct_def by blast
  then show False by simp
qed

lemma slots_distinct_parts:
  assumes "slots_distinct plan"
  shows "miss_slots (take i plan) \<inter> miss_slots (drop i plan) = {}"
proof (rule equals0I)
  fix s assume "s \<in> miss_slots (take i plan) \<inter> miss_slots (drop i plan)"
  then obtain j k where j: "j < i" "j < length plan" "miss (plan ! j)" "s = master_blk (plan ! j)"
    and k: "k < length plan - i" "miss (drop i plan ! k)" "s = master_blk (drop i plan ! k)"
    unfolding miss_slots_nth by auto
  then have "i + k < length plan" "miss (plan ! (i + k))" "master_blk (plan ! (i + k)) = s" by simp_all
  with j have "j = i + k" using assms unfolding slots_distinct_def by metis
  with j(1) show False by simp
qed

lemma miss_slots_take_Suc:
  "i < length plan \<Longrightarrow> miss_slots (take (Suc i) plan)
    = (if miss (plan ! i) then insert (master_blk (plan ! i)) (miss_slots (take i plan)) else miss_slots (take i plan))"
  by (auto simp: take_Suc_conv_app_nth miss_slots_def miss_def)

section \<open>A reference taken on a published object\<close>

lemma wf_all_fetch_add:
  assumes wf: "wf_all sha f nb E P H ix" and p: "heap ix p = Some mi"
    and room: "card (dom (file_to_master ix)) + size E + 1 < 2 ^ 32"
  obtains ix' where "fetch_add_ref p ix = Some ix'" "wf_all sha f nb (add_mset p E) P H ix'"
    "slot_of ix' = slot_of ix" "hash_to_master ix' = hash_to_master ix" "file_to_master ix' = file_to_master ix"
    "file_to_sizes ix' = file_to_sizes ix"
    "\<forall>q mi. heap ix q = Some mi \<longrightarrow> (\<exists>mi'. heap ix' q = Some mi' \<and> mi_hash mi' = mi_hash mi)"
proof -
  have wi: "wf_index E P ix" using wf by (simp add: wf_all_def)
  have "card (refs (file_to_master ix) p) \<le> card (dom (file_to_master ix))"
    by (rule card_refs_le_dom[OF wf_indexD(1)[OF wi]])
  moreover have "count E p \<le> size E" by (rule count_le_size)
  ultimately have "card (refs (file_to_master ix) p) + count E p + 1 < 2 ^ 32" using room by linarith
  then obtain ix' where fa: "fetch_add_ref p ix = Some ix'" "wf_index (add_mset p E) P ix'"
    "ix' = ix\<lparr>heap := (heap ix)(p \<mapsto> mi\<lparr>refcount := refcount mi + 1\<rparr>)\<rparr>"
    by (rule fetch_add_ref_wf[OF wi p])
  have sl: "slot_of ix' = slot_of ix" using p by (auto simp: fa(3) slot_of_def fun_eq_iff)
  have "wf_slots H nb ix'" "wf_content sha f ix'"
    using wf wf_slots_cong[of ix' ix] wf_content_cong[of ix' ix] by (simp_all add: wf_all_def sl) (simp_all add: fa(3))
  with fa(2) have "wf_all sha f nb (add_mset p E) P H ix'" by (simp add: wf_all_def)
  from that[OF fa(1) this sl] p show ?thesis by (simp add: fa(3))
qed

section \<open>The publishing loop\<close>

text \<open>What the thread knows of its plan before the loop, and what is disjoint from the holdings of others.\<close>

definition publishing ::
  "byte list \<Rightarrow> fbytes \<Rightarrow> ptr multiset \<Rightarrow> ptr set \<Rightarrow> u64 set \<Rightarrow> PlanEntry list \<Rightarrow> bool" where
  "publishing buf f E P H plan \<longleftrightarrow> slots_distinct plan \<and> distinct (map info (filter miss plan))
     \<and> set_mset (miss_infos plan) \<inter> P = {} \<and> set_mset E \<inter> set_mset (miss_infos plan) = {}
     \<and> miss_slots plan \<inter> H = {} \<and> plan_flushed f buf plan"

definition race_inv ::
  "(byte list \<Rightarrow> hash) \<Rightarrow> byte list \<Rightarrow> fbytes \<Rightarrow> u64 \<Rightarrow> ptr multiset \<Rightarrow> ptr set \<Rightarrow> u64 set \<Rightarrow> Index \<Rightarrow> PlanEntry list
   \<Rightarrow> nat \<Rightarrow> Index \<times> PlanEntry list \<times> u64 list \<Rightarrow> bool" where
  "race_inv sha buf f nb E P H ix plan i = (\<lambda>(ix1, plan1, tr).
     length plan1 = length plan
     \<and> (\<forall>j < length plan. kind (plan1 ! j) = kind (plan ! j) \<and> logical_blk (plan1 ! j) = logical_blk (plan ! j)
          \<and> (i \<le> j \<longrightarrow> plan1 ! j = plan ! j))
     \<and> wf_all sha f nb (E + infos plan1) (P \<union> set_mset (miss_infos (drop i plan)))
          (H \<union> miss_slots (drop i plan) \<union> set tr) ix1
     \<and> distinct tr \<and> set tr \<subseteq> miss_slots (take i plan)
     \<and> (\<forall>j < length plan. \<exists>mi. heap ix1 (info (plan1 ! j)) = Some mi \<and> mi_hash mi = pe_hash (plan ! j))
     \<and> (\<forall>j < length plan. j < i \<or> \<not> miss (plan ! j) \<longrightarrow> info (plan1 ! j) \<in> ran (hash_to_master ix1))
     \<and> (\<forall>j < length plan. i \<le> j \<longrightarrow> miss (plan ! j) \<longrightarrow> slot_of ix1 (info (plan ! j)) = master_blk (plan ! j))
     \<and> file_to_master ix1 = file_to_master ix \<and> file_to_sizes ix1 = file_to_sizes ix
     \<and> block_view f ix1 = block_view f ix
     \<and> stored f ix1 \<subseteq> stored f ix \<union> chunk buf ` {..<length plan})"

text \<open>Nobody else published the content: the pending object becomes public.\<close>

lemma race_won:
  assumes pb: "publishing buf f E P H plan" and inv: "race_inv sha buf f nb E P H ix plan i (ix1, plan1, tr)"
    and i: "i < length plan" "miss (plan ! i)" and desc: "pe_hash (plan ! i) = sha (chunk buf i)"
    and free: "hash_to_master ix1 (pe_hash (plan ! i)) = None"
  shows "race_inv sha buf f nb E P H ix plan (Suc i) (insert_hash ix1 (pe_hash (plan ! i)) (info (plan ! i)), plan1, tr)"
proof -
  let ?e = "plan ! i" and ?r = "drop (Suc i) plan"
  let ?ix = "insert_hash ix1 (pe_hash ?e) (info ?e)"
  note v = inv[unfolded race_inv_def prod.case]
  have d: "drop i plan = ?e # ?r" using i(1) by (simp add: Cons_nth_drop_Suc)
  have me: "plan1 ! i = ?e" using v i(1) by simp
  obtain mi where mi: "heap ix1 (info ?e) = Some mi" "mi_hash mi = pe_hash ?e"
  proof -
    have "\<exists>mi. heap ix1 (info (plan1 ! i)) = Some mi \<and> mi_hash mi = pe_hash ?e" using v i(1) by blast
    with that show ?thesis unfolding me by blast
  qed
  have slot: "masterBlockIndex mi = master_blk ?e"
  proof -
    have "slot_of ix1 (info ?e) = master_blk ?e" using v i by blast
    with mi(1) show ?thesis by (simp add: slot_of_def)
  qed
  have sd: "slots_distinct plan" and di: "distinct (map info (filter miss plan))" using pb by (simp_all add: publishing_def)
  have mem: "info ?e \<in># miss_infos plan" "master_blk ?e \<in> miss_slots plan"
    using i by (auto intro: miss_slots_nthI)
  have tr: "set tr \<subseteq> miss_slots (take i plan)" using v by blast
  have content: "Suc (unat (master_blk ?e)) * BLOCK_SIZE \<le> length f" "chunk f (unat (master_blk ?e)) = chunk buf i"
    using pb i unfolding publishing_def plan_flushed_def by blast+
  have wf: "wf_all sha f nb (E + infos plan1) (insert (info ?e) (P \<union> set_mset (miss_infos ?r)))
      (insert (masterBlockIndex mi) (H \<union> miss_slots ?r \<union> set tr)) ix1"
    using v i(2) unfolding d slot by (simp add: miss_slots_Cons del: set_infos)
  have wf': "wf_all sha f nb (E + infos plan1) (P \<union> set_mset (miss_infos ?r)) (H \<union> miss_slots ?r \<union> set tr) ?ix"
  proof (rule insert_hash_wf_all[OF wf _ mi(1), unfolded mi(2)])
    show "info ?e \<notin> P \<union> set_mset (miss_infos ?r)"
      using miss_info_rest_distinct[OF i di] pb mem(1) unfolding publishing_def by blast
    show "masterBlockIndex mi \<notin> H \<union> miss_slots ?r \<union> set tr"
      using slots_distinct_rest[OF sd i] slots_distinct_taken[OF sd i] tr pb mem(2)
      unfolding slot publishing_def by blast
  qed (use free content desc in \<open>simp_all add: slot\<close>)
  have ran: "ran (hash_to_master ?ix) = insert (info ?e) (ran (hash_to_master ix1))"
    using free by (simp add: insert_hash_def ran_map_upd)
  have sl: "slot_of ?ix = slot_of ix1" by (simp add: insert_hash_def slot_of_def fun_eq_iff)
  have "stored f ?ix = insert (chunk buf i) (stored f ix1)"
    using mi(1) content(2) by (simp add: stored_def ran sl) (simp add: slot_of_def slot)
  then have "stored f ?ix \<subseteq> stored f ix \<union> chunk buf ` {..<length plan}" using v i(1) by auto
  moreover have "block_view f ?ix = block_view f ix"
  proof -
    have "block_view f ?ix = block_view f ix1" by (rule block_view_cong) (simp_all add: sl, simp add: insert_hash_def)
    then show ?thesis using v by simp
  qed
  moreover have "set tr \<subseteq> miss_slots (take (Suc i) plan)" using tr i by (auto simp: miss_slots_take_Suc)
  moreover have "\<forall>j < length plan. j < Suc i \<or> \<not> miss (plan ! j) \<longrightarrow> info (plan1 ! j) \<in> ran (hash_to_master ?ix)"
    using v me unfolding ran by (auto simp: less_Suc_eq)
  moreover have "heap ?ix = heap ix1" "file_to_master ?ix = file_to_master ix1" "file_to_sizes ?ix = file_to_sizes ix1"
    by (simp_all add: insert_hash_def)
  ultimately show ?thesis
    using v wf' unfolding race_inv_def prod.case sl by (simp del: set_infos)
qed

text \<open>Somebody did: the pending object is freed and the winner's adopted.\<close>

lemma infos_update:
  assumes "i < length plan"
  shows "infos plan = add_mset (info (plan ! i)) (infos (take i plan) + infos (drop (Suc i) plan))"
    and "infos (plan[i := e]) = add_mset (info e) (infos (take i plan) + infos (drop (Suc i) plan))"
proof -
  have "infos (take i plan @ plan ! i # drop (Suc i) plan)
      = add_mset (info (plan ! i)) (infos (take i plan) + infos (drop (Suc i) plan))"
    unfolding infos_def by simp
  then show "infos plan = add_mset (info (plan ! i)) (infos (take i plan) + infos (drop (Suc i) plan))"
    using id_take_nth_drop[OF assms] by simp
  show "infos (plan[i := e]) = add_mset (info e) (infos (take i plan) + infos (drop (Suc i) plan))"
    unfolding upd_conv_take_nth_drop[OF assms] infos_def by simp
qed

text \<open>Only one entry of the plan refers to the pending object.\<close>

lemma race_alone:
  assumes pb: "publishing buf f E P H plan" and inv: "race_inv sha buf f nb E P H ix plan i (ix1, plan1, tr)"
    and i: "i < length plan" "miss (plan ! i)" and j: "j < length plan" "j \<noteq> i"
  shows "info (plan1 ! j) \<noteq> info (plan ! i)"
proof -
  note v = inv[unfolded race_inv_def prod.case]
  have di: "distinct (map info (filter miss plan))" using pb by (simp add: publishing_def)
  have d: "drop i plan = plan ! i # drop (Suc i) plan" using i(1) by (simp add: Cons_nth_drop_Suc)
  have "wf_all sha f nb (E + infos plan1) (P \<union> set_mset (miss_infos (drop i plan)))
      (H \<union> miss_slots (drop i plan) \<union> set tr) ix1" using v by blast
  then have wi: "wf_index (E + infos plan1) (P \<union> set_mset (miss_infos (drop i plan))) ix1" by (simp add: wf_all_def)
  have "info (plan ! i) \<in># miss_infos (drop i plan)" using i(2) unfolding d by simp
  then have np: "info (plan ! i) \<notin> ran (hash_to_master ix1)" using wf_indexD(4)[OF wi] by blast
  show ?thesis
  proof (cases "j < i \<or> \<not> miss (plan ! j)")
    case True
    then have "info (plan1 ! j) \<in> ran (hash_to_master ix1)" using v j(1) by blast
    with np show ?thesis by metis
  next
    case False
    then have "i < j" using j(2) by simp
    then have "plan1 ! j = plan ! j" using v j(1) by simp
    moreover have "j = Suc i + (j - Suc i)" using \<open>i < j\<close> by simp
    moreover have "drop (Suc i) plan ! (j - Suc i) \<in> set (drop (Suc i) plan)" using \<open>i < j\<close> j(1) by (intro nth_mem) simp
    ultimately have "plan ! j \<in> set (drop (Suc i) plan)" using i(1) by (metis Suc_leI nth_drop)
    then have "info (plan ! j) \<in># miss_infos (drop (Suc i) plan)" using False by auto
    with miss_info_rest_distinct[OF i di] \<open>plan1 ! j = plan ! j\<close> show ?thesis by metis
  qed
qed

lemma race_lost:
  assumes pb: "publishing buf f E P H plan" and inv: "race_inv sha buf f nb E P H ix plan i (ix1, plan1, tr)"
    and i: "i < length plan" "miss (plan ! i)"
    and win: "hash_to_master ix1 (pe_hash (plan ! i)) = Some w"
    and room: "card (dom (file_to_master ix)) + size E + length plan < 2 ^ 32"
  shows "\<exists>ix2 ix3. free_info (info (plan ! i)) ix1 = Some ix2 \<and> fetch_add_ref w ix2 = Some ix3
    \<and> race_inv sha buf f nb E P H ix plan (Suc i)
        (ix3, plan1[i := (plan ! i)\<lparr>info := w\<rparr>], master_blk (plan ! i) # tr)"
proof -
  let ?e = "plan ! i" and ?r = "drop (Suc i) plan" and ?p = "info (plan ! i)" and ?s = "master_blk (plan ! i)"
  let ?plan = "plan1[i := ?e\<lparr>info := w\<rparr>]"
  let ?R = "infos (take i plan1) + infos (drop (Suc i) plan1)"
  note v = inv[unfolded race_inv_def prod.case]
  note alone = race_alone[OF pb inv i]
  have d: "drop i plan = ?e # ?r" using i(1) by (simp add: Cons_nth_drop_Suc)
  have len: "length plan1 = length plan" and me: "plan1 ! i = ?e" using v i(1) by simp_all
  have i1: "i < length plan1" using i(1) len by simp
  have sd: "slots_distinct plan" and di: "distinct (map info (filter miss plan))" using pb by (simp_all add: publishing_def)
  have mem: "?p \<in># miss_infos plan" "?s \<in> miss_slots plan" using i by (auto intro: miss_slots_nthI)
  have tr: "set tr \<subseteq> miss_slots (take i plan)" "distinct tr" using v by blast+
  let ?P = "P \<union> set_mset (miss_infos ?r)" and ?H = "H \<union> miss_slots ?r \<union> set (?s # tr)"
  have "H \<union> miss_slots (drop i plan) \<union> set tr = ?H" "P \<union> set_mset (miss_infos (drop i plan)) = insert ?p ?P"
    "E + infos plan1 = add_mset ?p (E + ?R)"
    using i(2) infos_update(1)[OF i1] unfolding d me by (auto simp: miss_slots_Cons simp del: set_infos)
  then have wf: "wf_all sha f nb (add_mset ?p (E + ?R)) (insert ?p ?P) ?H ix1" using v by metis
  have "?p \<notin> ?P" using miss_info_rest_distinct[OF i di] pb mem(1) unfolding publishing_def by blast
  moreover have "?p \<notin># E + ?R"
  proof -
    have "?p \<notin># E" using pb mem(1) unfolding publishing_def by blast
    moreover have "?p \<noteq> info x" if x: "x \<in> set (take i plan1)" for x
    proof -
      obtain j where "j < length (take i plan1)" "x = take i plan1 ! j" using x by (metis in_set_conv_nth)
      then have "j < i" "x = plan1 ! j" using i1 by simp_all
      with alone[of j] i(1) show ?thesis by simp
    qed
    moreover have "?p \<noteq> info x" if x: "x \<in> set (drop (Suc i) plan1)" for x
    proof -
      obtain k where "k < length (drop (Suc i) plan1)" "x = drop (Suc i) plan1 ! k" using x by (metis in_set_conv_nth)
      then have "Suc i + k < length plan1" "x = plan1 ! (Suc i + k)" using i1 by (simp_all add: nth_drop)
      with alone[of "Suc i + k"] len show ?thesis by simp
    qed
    ultimately show ?thesis by auto
  qed
  ultimately obtain ix2 where ix2: "free_info ?p ix1 = Some ix2" "wf_all sha f nb (E + ?R) ?P ?H ix2"
    "block_view f ix2 = block_view f ix1" "ix2 = ix1\<lparr>heap := (heap ix1)(?p := None)\<rparr>"
    and np: "?p \<notin> ran (hash_to_master ix1)"
    using free_unpublished_wf[OF wf] by metis
  have "w \<in> ran (hash_to_master ix2)" using win by (auto simp: ix2(4) ran_def)
  moreover have wi2: "wf_index (E + ?R) ?P ix2" using ix2(2) by (simp add: wf_all_def)
  ultimately obtain mi where mi: "heap ix2 w = Some mi" using wf_indexD(3)[OF wi2] by blast
  have mih: "mi_hash mi = pe_hash ?e" using wf_indexD(6)[OF wi2, of "pe_hash ?e" w] win mi by (simp add: ix2(4))
  have "size ?R + 1 = length plan" using i1 len by simp
  then have "card (dom (file_to_master ix2)) + size (E + ?R) + 1 < 2 ^ 32" using room v by (simp add: ix2(4))
  from wf_all_fetch_add[OF ix2(2) mi this]
  obtain ix3 where ix3: "fetch_add_ref w ix2 = Some ix3" "wf_all sha f nb (add_mset w (E + ?R)) ?P ?H ix3"
    "slot_of ix3 = slot_of ix2" "hash_to_master ix3 = hash_to_master ix2" "file_to_master ix3 = file_to_master ix2"
    "file_to_sizes ix3 = file_to_sizes ix2"
    and hp3: "\<forall>q mi. heap ix2 q = Some mi \<longrightarrow> (\<exists>mi'. heap ix3 q = Some mi' \<and> mi_hash mi' = mi_hash mi)"
    by blast
  have nth: "?plan ! j = (if j = i then ?e\<lparr>info := w\<rparr> else plan1 ! j)" if "j < length plan" for j
    using that i1 len by (simp add: nth_list_update)
  have sl: "slot_of ix3 q = slot_of ix1 q" if "q \<noteq> ?p" for q using that by (simp add: ix3(3)) (simp add: ix2(4) slot_of_def)
  have htm: "hash_to_master ix3 = hash_to_master ix1" by (simp add: ix3(4)) (simp add: ix2(4))
  have "race_inv sha buf f nb E P H ix plan (Suc i) (ix3, ?plan, ?s # tr)"
    unfolding race_inv_def prod.case
  proof (intro conjI allI impI)
    fix j assume j: "j < length plan"
    have old: "kind (plan1 ! j) = kind (plan ! j)" "logical_blk (plan1 ! j) = logical_blk (plan ! j)"
      "i \<le> j \<Longrightarrow> plan1 ! j = plan ! j" using v j by blast+
    show "kind (?plan ! j) = kind (plan ! j)" "logical_blk (?plan ! j) = logical_blk (plan ! j)"
      using old(1,2) j by (simp_all add: nth)
    show "?plan ! j = plan ! j" if "Suc i \<le> j" using old(3) that j by (simp add: nth)
    show "\<exists>mi. heap ix3 (info (?plan ! j)) = Some mi \<and> mi_hash mi = pe_hash (plan ! j)"
    proof (cases "j = i")
      case True
      then show ?thesis using hp3 mi mih i(1) by (fastforce simp: nth)
    next
      case False
      obtain mj where "heap ix1 (info (plan1 ! j)) = Some mj" "mi_hash mj = pe_hash (plan ! j)" using v j by blast
      moreover from this(1) have "heap ix2 (info (plan1 ! j)) = Some mj" using alone[OF j False] by (simp add: ix2(4))
      ultimately show ?thesis using hp3 j False by (fastforce simp: nth)
    qed
    show "info (?plan ! j) \<in> ran (hash_to_master ix3)" if "j < Suc i \<or> \<not> miss (plan ! j)"
    proof (cases "j = i")
      case True
      then show ?thesis using win i(1) unfolding htm by (auto simp: nth ran_def)
    next
      case False
      then have "j < i \<or> \<not> miss (plan ! j)" using that by auto
      then have "info (plan1 ! j) \<in> ran (hash_to_master ix1)" using v j by blast
      then show ?thesis unfolding htm nth[OF j] using False by simp
    qed
    show "slot_of ix3 (info (plan ! j)) = master_blk (plan ! j)" if "Suc i \<le> j" "miss (plan ! j)"
    proof -
      have "info (plan1 ! j) \<noteq> ?p" using alone[OF j] that(1) by simp
      moreover have "plan1 ! j = plan ! j" using old(3) that(1) by simp
      moreover have "slot_of ix1 (info (plan ! j)) = master_blk (plan ! j)" using v j that by simp
      ultimately show ?thesis using sl by simp
    qed
  next
    have "slot_of ix3 q = slot_of ix1 q" if "q \<in> ran (hash_to_master ix1)" for q
      by (rule sl) (use that np in metis)
    then have "stored f ix3 = stored f ix1" unfolding stored_def htm by (intro image_cong) simp_all
    then show "stored f ix3 \<subseteq> stored f ix \<union> chunk buf ` {..<length plan}" using v by simp
    have "block_view f ix3 = block_view f ix2" by (rule block_view_cong) (simp_all add: ix3)
    then show "block_view f ix3 = block_view f ix" using ix2(3) v by simp
    show "wf_all sha f nb (E + infos ?plan) ?P ?H ix3" using ix3(2) infos_update(2)[OF i1] by simp
    show "set (?s # tr) \<subseteq> miss_slots (take (Suc i) plan)" using tr(1) i by (auto simp: miss_slots_take_Suc)
    show "distinct (?s # tr)" using slots_distinct_taken[OF sd i] tr by auto
  qed (use v len ix3(5,6) in \<open>simp_all add: ix2(4)\<close>)
  with ix2(1) ix3(1) show ?thesis by blast
qed

lemma race_step:
  assumes pb: "publishing buf f E P H plan" and inv: "race_inv sha buf f nb E P H ix plan i st"
    and i: "i < length plan" and desc: "pe_hash (plan ! i) = sha (chunk buf i)"
    and room: "card (dom (file_to_master ix)) + size E + length plan < 2 ^ 32"
  shows "\<exists>st'. publish_step i st = Some st' \<and> race_inv sha buf f nb E P H ix plan (Suc i) st'"
proof -
  obtain ix1 plan1 tr where st: "st = (ix1, plan1, tr)" by (cases st)
  note inv' = inv[unfolded st]
  note v = inv'[unfolded race_inv_def prod.case]
  have me: "plan1 ! i = plan ! i" using v i by simp
  show ?thesis
  proof (cases "miss (plan ! i)")
    case False
    have d: "drop i plan = plan ! i # drop (Suc i) plan" using i by (simp add: Cons_nth_drop_Suc)
    have "race_inv sha buf f nb E P H ix plan (Suc i) st"
      using v False i unfolding st race_inv_def prod.case d
      by (auto simp: miss_slots_Cons miss_slots_take_Suc less_Suc_eq simp del: set_infos)
    moreover have "publish_step i st = Some st" using False me by (simp add: st publish_step_def miss_def)
    ultimately show ?thesis by blast
  next
    case True
    have "\<exists>mi. heap ix1 (info (plan1 ! i)) = Some mi \<and> mi_hash mi = pe_hash (plan ! i)" using v i by blast
    then obtain mi where mi: "heap ix1 (info (plan ! i)) = Some mi" "mi_hash mi = pe_hash (plan ! i)"
      unfolding me by blast
    have kd: "kind (plan ! i) = PLAN_MISS" using True by (simp add: miss_def)
    show ?thesis
    proof (cases "hash_to_master ix1 (pe_hash (plan ! i))")
      case None
      have "publish_step i st = Some (insert_hash ix1 (pe_hash (plan ! i)) (info (plan ! i)), plan1, tr)"
        using kd mi None me by (simp add: st publish_step_def lookup_by_hash_def)
      with race_won[OF pb inv' i True desc None] show ?thesis by blast
    next
      case (Some w)
      obtain ix2 ix3 where r: "free_info (info (plan ! i)) ix1 = Some ix2" "fetch_add_ref w ix2 = Some ix3"
        "race_inv sha buf f nb E P H ix plan (Suc i) (ix3, plan1[i := (plan ! i)\<lparr>info := w\<rparr>], master_blk (plan ! i) # tr)"
        using race_lost[OF pb inv' i True Some room] by blast
      then have "publish_step i st = Some (ix3, plan1[i := (plan ! i)\<lparr>info := w\<rparr>], master_blk (plan ! i) # tr)"
        using kd mi Some me by (simp add: st publish_step_def lookup_by_hash_def)
      with r(3) show ?thesis by blast
    qed
  qed
qed

text \<open>After the loop every entry refers to a published object that holds the entry's block.\<close>

lemma publish_raced:
  assumes pb: "publishing buf f E P H plan" and held: "plan_held sha buf start ix plan" and placed: "plan_placed ix plan"
    and wf: "wf_all sha f nb (E + infos plan) (P \<union> set_mset (miss_infos plan)) (H \<union> miss_slots plan) ix"
    and room: "card (dom (file_to_master ix)) + size E + length plan < 2 ^ 32"
    and coll: "inj_on sha (stored f ix \<union> chunk buf ` {..<length plan})"
  obtains ix1 plan1 tr where "ofold publish_step [0..<length plan] (ix, plan, []) = Some (ix1, plan1, tr)"
    "wf_all sha f nb (E + infos plan1) P (H \<union> set tr) ix1" "set tr \<inter> H = {}" "distinct tr"
    "length plan1 = length plan" "\<forall>e \<in> set plan1. info e \<notin> P"
    "\<forall>j < length plan1. logical_blk (plan1 ! j) = start + of_nat j"
    "\<forall>j < length plan1. chunk f (unat (slot_of ix1 (info (plan1 ! j)))) = chunk buf j"
    "file_to_master ix1 = file_to_master ix" "file_to_sizes ix1 = file_to_sizes ix"
    "block_view f ix1 = block_view f ix" "stored f ix1 \<subseteq> stored f ix \<union> chunk buf ` {..<length plan}"
proof -
  let ?n = "length plan"
  have desc: "logical_blk (plan ! j) = start + of_nat j" "pe_hash (plan ! j) = sha (chunk buf j)" if "j < ?n" for j
    using held that by (simp_all add: plan_held_def plan_describes_def)
  have "race_inv sha buf f nb E P H ix plan 0 (ix, plan, [])"
    using wf held placed unfolding race_inv_def prod.case plan_held_def plan_placed_def
    by (simp del: set_infos)
  then have "\<exists>st. ofold publish_step [0..<?n] (ix, plan, []) = Some st \<and> race_inv sha buf f nb E P H ix plan ?n st"
    by (rule ofold_upt) (rule race_step[OF pb _ _ _ room]; simp add: desc(2))
  then obtain ix1 plan1 tr where l: "ofold publish_step [0..<?n] (ix, plan, []) = Some (ix1, plan1, tr)"
    and inv: "race_inv sha buf f nb E P H ix plan ?n (ix1, plan1, tr)" by (metis prod_cases3)
  note v = inv[unfolded race_inv_def prod.case]
  have len: "length plan1 = ?n" using v by blast
  have "miss_slots [] = {}" by (simp add: miss_slots_def)
  then have wf1: "wf_all sha f nb (E + infos plan1) P (H \<union> set tr) ix1" using v by simp
  have wi1: "wf_index (E + infos plan1) P ix1" using wf1 by (simp add: wf_all_def)
  have pub: "info (plan1 ! j) \<in> ran (hash_to_master ix1)" if "j < ?n" for j using v that by blast
  have tr: "set tr \<subseteq> miss_slots plan" "distinct tr" using v by simp_all
  have trH: "set tr \<inter> H = {}" using tr(1) pb unfolding publishing_def by blast
  have nP: "\<forall>e \<in> set plan1. info e \<notin> P"
  proof
    fix e assume "e \<in> set plan1"
    then obtain j where "j < ?n" "e = plan1 ! j" using len by (metis in_set_conv_nth)
    with pub[of j] wf_indexD(4)[OF wi1] show "info e \<notin> P" by blast
  qed
  have content: "\<forall>j < length plan1. chunk f (unat (slot_of ix1 (info (plan1 ! j)))) = chunk buf j"
  proof (intro allI impI)
    fix j assume "j < length plan1"
    then have j: "j < ?n" using len by simp
    let ?p = "info (plan1 ! j)"
    obtain mi where mi: "heap ix1 ?p = Some mi" "mi_hash mi = pe_hash (plan ! j)" using v j by blast
    obtain h where h: "hash_to_master ix1 h = Some ?p" using pub[OF j] by (auto simp: ran_def)
    have "h = sha (chunk buf j)" using wf_indexD(6)[OF wi1 h] mi desc(2)[OF j] by simp
    moreover have "sha (chunk f (unat (slot_of ix1 ?p))) = h" using wf1 h unfolding wf_all_def wf_content_def by blast
    ultimately have "sha (chunk f (unat (slot_of ix1 ?p))) = sha (chunk buf j)" by simp
    moreover have "chunk f (unat (slot_of ix1 ?p)) \<in> stored f ix1" using pub[OF j] by (simp add: stored_def)
    moreover have "stored f ix1 \<subseteq> stored f ix \<union> chunk buf ` {..<?n}" using v by blast
    moreover have "chunk buf j \<in> stored f ix \<union> chunk buf ` {..<?n}" using j by simp
    ultimately show "chunk f (unat (slot_of ix1 ?p)) = chunk buf j"
      using inj_onD[OF coll] by blast
  qed
  have blk: "\<forall>j < length plan1. logical_blk (plan1 ! j) = start + of_nat j" using v len desc(1) by simp
  have "file_to_master ix1 = file_to_master ix" "file_to_sizes ix1 = file_to_sizes ix"
    "block_view f ix1 = block_view f ix" "stored f ix1 \<subseteq> stored f ix \<union> chunk buf ` {..<?n}" using v by blast+
  with that[OF l wf1 trH tr(2) len nP blk content] show ?thesis by blast
qed

section \<open>The consolidation\<close>

lemma dom_spec_write:
  assumes "unat start + length bs \<le> 2 ^ 64"
  shows "dom (spec_write pa start bs v) \<subseteq> dom v \<union> (\<lambda>j. bkey pa (start + of_nat j)) ` {..<length bs}"
proof
  fix k assume k: "k \<in> dom (spec_write pa start bs v)"
  show "k \<in> dom v \<union> (\<lambda>j. bkey pa (start + of_nat j)) ` {..<length bs}"
  proof (cases "bi_path k = pa \<and> in_blocks start (length bs) (bi_offset k)")
    case False
    with k show ?thesis by (auto simp: spec_write_def split: if_splits)
  next
    case True
    let ?j = "unat (bi_offset k) - unat start"
    have j: "?j < length bs" "unat start + ?j = unat (bi_offset k)" using True by (auto simp: in_blocks_def)
    then have "unat (start + of_nat ?j) = unat start + ?j" using assms by (intro unat_add_of_nat) simp
    then have "start + of_nat ?j = bi_offset k" using j(2) by (metis word_unat_eq_iff)
    then have "k = bkey pa (start + of_nat ?j)" using True by (simp add: BlockIndice_eq_iff)
    with j(1) show ?thesis by blast
  qed
qed

lemma publishing_step_ok:
  assumes st: "state_ok sha E P H (Write pa buf offset) ix f nb (Flushed plan)"
    and valid: "valid_request sha (Write pa buf offset)"
    and room: "card (dom (file_to_master ix)) + size E + length buf div BLOCK_SIZE < 2 ^ 32"
    and coll: "inj_on sha (stored f ix \<union> request_chunks (Write pa buf offset))"
  shows "\<exists>ix' f' nb' ph'. write_step sha pa buf offset ios (Flushed plan) (shared ix f nb) = Some (ph', shared ix' f' nb')
    \<and> step_ok sha E P H (Write pa buf offset) ix f nb (Flushed plan) ix' f' nb' ph'"
proof -
  let ?rq = "Write pa buf offset" and ?start = "start_block_of offset" and ?n = "length plan"
  note s = state_okD[OF st]
  have held: "plan_held sha buf ?start ix plan" and placed: "plan_placed ix plan" and fl: "plan_flushed f buf plan"
    using s(7) by (simp_all add: thread_ok_def)
  have n: "length buf div BLOCK_SIZE = ?n" using held by (simp add: plan_held_def BLOCK_SIZE_def)
  have chunks: "request_chunks ?rq = chunk buf ` {..<?n}" by (simp add: request_chunks_def n)
  have pb: "publishing buf f E P H plan"
    using held placed fl s(4-6) unfolding publishing_def plan_held_def plan_placed_def by simp
  have wf: "wf_all sha f nb (E + infos plan) (P \<union> set_mset (miss_infos plan)) (H \<union> miss_slots plan) ix"
    using s(1) by simp
  have wi: "wf_index (E + infos plan) (P \<union> set_mset (miss_infos plan)) ix" using wf by (simp add: wf_all_def)
  obtain ix1 plan1 tr1 where l1: "ofold publish_step [0..<?n] (ix, plan, []) = Some (ix1, plan1, tr1)"
    and wf1: "wf_all sha f nb (E + infos plan1) P (H \<union> set tr1) ix1" and tr1: "set tr1 \<inter> H = {}" "distinct tr1"
    and len: "length plan1 = ?n" and nP: "\<forall>e \<in> set plan1. info e \<notin> P"
    and blk: "\<forall>j < length plan1. logical_blk (plan1 ! j) = ?start + of_nat j"
    and content: "\<forall>j < length plan1. chunk f (unat (slot_of ix1 (info (plan1 ! j)))) = chunk buf j"
    and fr1: "file_to_master ix1 = file_to_master ix" "file_to_sizes ix1 = file_to_sizes ix"
      "block_view f ix1 = block_view f ix"
    and st1: "stored f ix1 \<subseteq> stored f ix \<union> chunk buf ` {..<?n}"
    by (rule publish_raced[OF pb held placed wf room[unfolded n] coll[unfolded chunks]])
  have range: "(unat ?start + ?n) * BLOCK_SIZE < 2 ^ 64"
    using request_in_range[of offset "length buf"] valid n by (simp add: valid_request_def)
  then have range': "unat ?start + length plan1 < 2 ^ 64" unfolding len by (simp add: BLOCK_SIZE_def)
  obtain ix2 tr where l2: "ofold (map_block_step pa plan1) [0..<?n] (ix1, tr1) = Some (ix2, tr)"
    and wf2: "wf_all sha f nb E P (H \<union> set tr) ix2" and tr: "set tr \<inter> H = {}" "distinct tr"
    and fr2: "file_to_sizes ix2 = file_to_sizes ix1"
    and v: "block_view f ix2 = spec_write pa ?start (map (chunk buf) [0..<?n]) (block_view f ix1)"
    using map_loop_from[OF wf1 tr1 nP blk content range', unfolded len] by blast
  let ?e = "(?start + of_nat ?n) * of_nat BLOCK_SIZE :: u64"
  let ?ix = "grow_size pa ?e ix2"
  have eq: "?ix = ix2\<lparr>file_to_sizes := spec_grow pa ?e (file_to_sizes ix2)\<rparr>" by (rule grow_size_eq)
  have c: "consolidate pa ?start plan ix = Some (?ix, tr)" using l1 l2 by (simp add: consolidate_def Let_def)
  have wf': "wf_all sha f nb E P (H \<union> set tr) ?ix" using wf2 unfolding eq by (simp add: wf_all_def)
  have wi': "wf_index E P ?ix" using wf' by (simp add: wf_all_def)
  have view: "block_view f ?ix = spec_write pa ?start (blocks_of buf) (block_view f ix)"
    unfolding eq using v fr1(3) n by (simp add: blocks_of_def)
  have grow: "file_to_sizes ?ix = spec_grow pa ?e (file_to_sizes ix)" unfolding eq using fr1(2) fr2 by simp
  have lb: "length (blocks_of buf) = ?n" by (simp add: n)
  have "wf_sizes ?ix" by (rule wf_sizes_write[OF s(3) view]) (use grow range lb in simp_all)
  moreover have "kept E ix ?ix"
    by (rule kept_stable[OF wi wi' consolidate_stable[OF c]]) (use wf_indexD(4)[OF wi] in auto)
  moreover have "stored f ?ix \<subseteq> stored f ix \<union> request_chunks ?rq"
  proof -
    have wi1: "wf_index (E + infos plan1) P ix1" and wi2: "wf_index E P ix2" using wf1 wf2 by (simp_all add: wf_all_def)
    have "stable {} ix1 ix2" using ofold_stable[where g = fst, OF map_block_step_stable l2] by simp
    then have "stored f ix2 \<subseteq> stored f ix1"
      by (rule stored_shrinks[OF wi1 wi2]) (use loops_shrink(3)[OF l2] in simp_all)
    moreover have "stored f ?ix = stored f ix2" unfolding eq by (simp add: stored_def)
    ultimately show ?thesis using st1 unfolding chunks by blast
  qed
  moreover have "card (dom (file_to_master ?ix)) \<le> card (dom (file_to_master ix)) + length buf div BLOCK_SIZE"
  proof -
    have fin: "finite (dom (file_to_master ix))" by (rule wf_indexD(1)[OF wi])
    let ?K = "(\<lambda>j. bkey pa (?start + of_nat j)) ` {..<?n}"
    have "dom (block_view f ?ix) \<subseteq> dom (block_view f ix) \<union> ?K"
      unfolding view using dom_spec_write[of ?start "blocks_of buf"] range' len lb by simp
    then have "card (dom (file_to_master ?ix)) \<le> card (dom (file_to_master ix) \<union> ?K)"
      unfolding dom_block_view using fin by (intro card_mono) simp_all
    also have "\<dots> \<le> card (dom (file_to_master ix)) + card ?K" by (rule card_Un_le)
    also have "card ?K \<le> ?n" using card_image_le[of "{..<?n}"] by simp
    finally show ?thesis unfolding n by simp
  qed
  moreover have "file_system_of f ?ix = request_effect ?rq (file_system_of f ix)"
    using view grow lb by (simp add: file_system_of_def request_effect_def)
  ultimately have "step_ok sha E P H ?rq ix f nb (Flushed plan) ?ix f nb
      (Releasing tr (int_of_size (length buf div BLOCK_SIZE * BLOCK_SIZE)))"
    using wf' tr by (auto simp: step_ok_def state_ok_def thread_ok_def request_blocks_def)
  moreover have "write_step sha pa buf offset ios (Flushed plan) (shared ix f nb)
      = Some (Releasing tr (int_of_size (length buf div BLOCK_SIZE * BLOCK_SIZE)), shared ?ix f nb)"
    using c by simp
  ultimately show ?thesis by blast
qed

section \<open>Any step\<close>

lemma any_step_ok:
  assumes st: "state_ok sha E P H rq ix f nb ph" and valid: "valid_request sha rq"
    and room: "card (dom (file_to_master ix)) + size E + ref_budget rq ph < 2 ^ 32"
    and slots: "unat nb + slot_budget rq ph \<le> MAX_SLOTS"
    and coll: "inj_on sha (stored f ix \<union> request_chunks rq)"
  shows "\<exists>ix' f' nb' ph'. thread_step sha qs rq ios ph (shared ix f nb) = Some (ph', shared ix' f' nb')
    \<and> step_ok sha E P H rq ix f nb ph ix' f' nb' ph'"
proof -
  have ok: "thread_ok sha rq f ix ph" by (rule state_okD(7)[OF st])
  have stay: "step_ok sha E P H rq ix f nb (Finished r b) ix f nb (Finished r b)" if "ph = Finished r b" for r b
    by (rule step_ok_phase[OF st[unfolded that] ok[unfolded that]]) (cases rq; simp)+
  show ?thesis
  proof (cases rq)
    case (Write pa buf offset)
    note w = st[unfolded Write]
    have r: "ref_budget rq Ready = length buf div BLOCK_SIZE" by (simp add: Write request_blocks_def)
    show ?thesis
    proof (cases ph)
      case Ready
      with decide_step[OF w[unfolded Ready] valid[unfolded Write]] room r show ?thesis unfolding Write by simp
    next
      case (Decided plan mc)
      with drain_step_ok[OF w[unfolded Decided]] show ?thesis unfolding Write by simp
    next
      case (Drained plan mc out)
      with assign_step_ok[OF w[unfolded Drained]] slots show ?thesis unfolding Write by (simp add: request_blocks_def)
    next
      case (Assigned plan mc)
      with flush_step_ok[OF w[unfolded Assigned]] show ?thesis unfolding Write by simp
    next
      case (Flushed plan)
      with publishing_step_ok[OF w[unfolded Flushed] valid[unfolded Write]] room coll show ?thesis
        unfolding Write by (simp add: request_blocks_def)
    next
      case (Failed plan rc)
      with failed_step_ok[OF w[unfolded Failed]] show ?thesis unfolding Write by simp
    next
      case (Undoing plan tr rc)
      with undoing_step_ok[OF w[unfolded Undoing]] show ?thesis unfolding Write by auto
    next
      case (Dropping plan rc)
      with dropping_step_ok[OF w[unfolded Dropping]] show ?thesis unfolding Write by simp
    next
      case (Releasing tr r)
      with releasing_ok[OF w[unfolded Releasing]] show ?thesis unfolding Write by auto
    next
      case (Finished r b)
      with stay show ?thesis unfolding Write by auto
    qed (use ok Write in \<open>simp add: thread_ok_def\<close>)
  next
    case (Remove pa b e)
    note w = st[unfolded Remove]
    show ?thesis
    proof (cases ph)
      case Ready
      with removal_step_ok[OF w[unfolded Ready]] show ?thesis unfolding Remove by simp
    next
      case (Releasing tr r)
      with releasing_ok[OF w[unfolded Releasing]] show ?thesis unfolding Remove by auto
    next
      case (Finished r b)
      with stay show ?thesis unfolding Remove by auto
    qed (use ok Remove in \<open>simp_all add: thread_ok_def\<close>)
  next
    case (Read pa buf sz offset)
    note w = st[unfolded Read]
    show ?thesis
    proof (cases "ph = Ready \<or> (\<exists>ps. ph = Located ps)")
      case True
      from reading_step_ok[OF w this, of qs ios] show ?thesis unfolding Read by auto
    next
      case False
      then obtain r b where "ph = Finished r b" using ok Read by (cases ph) (simp_all add: thread_ok_def)
      with stay show ?thesis unfolding Read by auto
    qed
  qed
qed

end
