(* ===== verification/Thread_Safety.thy ===== *)
theory Thread_Safety
  imports Thread_Publish
begin

text \<open>
  All threads together. The holdings of the threads are disjoint, what the index counts is the sum
  of what they hold, and each thread's knowledge is right; every step of any thread keeps this, so
  every schedule runs, and the files change as if the calls had run one after the other.
\<close>

section \<open>Results and progress of one thread\<close>

text \<open>Whether a call has taken effect.\<close>

fun took_effect :: "request \<Rightarrow> phase \<Rightarrow> bool" where
  "took_effect (Write pa buf offset) (Releasing tr r) = True"
| "took_effect (Write pa buf offset) (Finished r b) = (0 < r)"
| "took_effect (Remove pa s e) ph = (ph \<noteq> Ready)"
| "took_effect rq ph = False"

text \<open>The value returned: the size or an error for a write, 0 for a removal.\<close>

definition result_ok :: "request \<Rightarrow> phase \<Rightarrow> bool" where
  "result_ok rq ph = (case rq of
     Write pa buf offset \<Rightarrow> (case ph of
         Ready \<Rightarrow> True
       | Failed plan rc \<Rightarrow> rc < 0 | Undoing plan tr rc \<Rightarrow> rc < 0 | Dropping plan rc \<Rightarrow> rc < 0
       | Releasing tr r \<Rightarrow> r = int (length buf) \<and> 0 < r
       | Finished r b \<Rightarrow> r = int (length buf) \<or> r < 0
       | _ \<Rightarrow> 0 < length buf \<and> BLOCK_SIZE dvd length buf)
   | Remove pa s e \<Rightarrow> (case ph of Releasing tr r \<Rightarrow> r = 0 | Finished r b \<Rightarrow> r = 0 | _ \<Rightarrow> True)
   | Read pa buf sz offset \<Rightarrow> True)"

text \<open>Steps a call may still take.\<close>

fun steps_left :: "phase \<Rightarrow> nat" where
  "steps_left Ready = 7"
| "steps_left (Decided plan mc) = 6"
| "steps_left (Drained plan mc out) = 5"
| "steps_left (Assigned plan mc) = 4"
| "steps_left (Flushed plan) = 2"
| "steps_left (Failed plan rc) = 3"
| "steps_left (Undoing plan tr rc) = 2"
| "steps_left (Dropping plan rc) = 1"
| "steps_left (Releasing tr r) = 1"
| "steps_left (Located ps) = 1"
| "steps_left (Finished r b) = 0"

lemma result_step:
  assumes step: "thread_step sha qs rq ios ph sh = Some (ph', sh')" and ok: "result_ok rq ph"
    and t: "thread_ok sha rq f ix ph" and valid: "valid_request sha rq"
  shows "result_ok rq ph'" and "took_effect rq ph' = (took_effect rq ph \<or> takes_effect rq ph)"
    and "takes_effect rq ph \<Longrightarrow> \<not> took_effect rq ph" and "steps_left ph' \<le> steps_left ph - 1"
proof -
  have "result_ok rq ph' \<and> took_effect rq ph' = (took_effect rq ph \<or> takes_effect rq ph)
      \<and> (takes_effect rq ph \<longrightarrow> \<not> took_effect rq ph) \<and> steps_left ph' \<le> steps_left ph - 1"
  proof (cases rq)
    case (Write pa buf offset)
    have len: "int_of_size (length buf div BLOCK_SIZE * BLOCK_SIZE) = int (length buf)"
      if "BLOCK_SIZE dvd length buf"
      using that valid Write by (simp add: valid_request_def int_of_size_small)
    have e: "0 < errno_val EOPNOTSUPP" by (simp add: errno_val_def)
    show ?thesis using step ok t len e unfolding Write
      by (cases ph) (auto simp: result_ok_def thread_ok_def Let_def mod_eq_0_iff_dvd split: bind_splits prod.splits if_splits)
  next
    case (Remove pa b e)
    show ?thesis using step ok t unfolding Remove
      by (cases ph) (auto simp: result_ok_def thread_ok_def split: bind_splits prod.splits if_splits)
  next
    case (Read pa buf sz offset)
    show ?thesis using step ok t unfolding Read
      by (cases ph) (auto simp: result_ok_def thread_ok_def Let_def split: bind_splits prod.splits if_splits)
  qed
  then show "result_ok rq ph'" "took_effect rq ph' = (took_effect rq ph \<or> takes_effect rq ph)"
    "takes_effect rq ph \<Longrightarrow> \<not> took_effect rq ph" "steps_left ph' \<le> steps_left ph - 1" by blast+
qed

section \<open>The invariant of all threads\<close>

text \<open>\<open>S\<close> bounds the blocks that may ever be stored: those of the start and those of the requests.\<close>

definition threads_ok ::
  "(byte list \<Rightarrow> hash) \<Rightarrow> byte list set \<Rightarrow> nat \<Rightarrow> (nat \<Rightarrow> request) \<Rightarrow> (nat \<Rightarrow> phase)
   \<Rightarrow> Index \<Rightarrow> fbytes \<Rightarrow> u64 \<Rightarrow> bool" where
  "threads_ok sha S n rq ph ix f nb \<longleftrightarrow>
     wf_all sha f nb (\<Sum>j<n. thread_refs (ph j)) (\<Union>j<n. thread_pend (ph j)) (\<Union>j<n. thread_slots (ph j)) ix
     \<and> wf_sizes ix
     \<and> (\<forall>i<n. \<forall>j<n. i \<noteq> j \<longrightarrow> thread_pend (ph i) \<inter> thread_pend (ph j) = {}
          \<and> thread_slots (ph i) \<inter> thread_slots (ph j) = {} \<and> set_mset (thread_refs (ph i)) \<inter> thread_pend (ph j) = {})
     \<and> (\<forall>i<n. thread_ok sha (rq i) f ix (ph i) \<and> request_chunks (rq i) \<subseteq> S)
     \<and> stored f ix \<subseteq> S
     \<and> card (dom (file_to_master ix)) + (\<Sum>j<n. ref_budget (rq j) (ph j)) < 2 ^ 32
     \<and> unat nb + (\<Sum>j<n. slot_budget (rq j) (ph j)) \<le> MAX_SLOTS"

lemma refs_not_pending:
  assumes st: "state_ok sha E P H rq ix f nb ph"
  shows "set_mset (thread_refs ph) \<inter> P = {}"
proof -
  note s = state_okD[OF st]
  have held: "info e \<notin> P" if "plan_held sha buf start ix plan" "e \<in> set plan"
    "thread_pend ph = info ` {e \<in> set plan. miss e}" for buf start plan e
  proof (cases "miss e")
    case True
    with that s(4) show ?thesis by blast
  next
    case False
    with that have "info e \<in> ran (hash_to_master ix)" by (simp add: plan_held_def)
    with wf_indexD(4)[OF s(2)] show ?thesis by blast
  qed
  show ?thesis
  proof (cases rq)
    case (Write pa buf offset)
    show ?thesis using s(4,7) held[of buf "start_block_of offset"] unfolding Write
      by (cases ph) (auto simp: thread_ok_def)
  qed (use s(7) in \<open>cases ph; simp add: thread_ok_def\<close>)+
qed

text \<open>Thread \<open>i\<close> against the others.\<close>

lemma threads_ok_state:
  assumes inv: "threads_ok sha S n rq ph ix f nb" and i: "i < n"
  shows "state_ok sha (\<Sum>j\<in>{..<n} - {i}. thread_refs (ph j)) (\<Union>j\<in>{..<n} - {i}. thread_pend (ph j))
    (\<Union>j\<in>{..<n} - {i}. thread_slots (ph j)) (rq i) ix f nb (ph i)"
proof -
  note v = inv[unfolded threads_ok_def]
  have un: "(\<Union>j<n. A j) = (\<Union>j\<in>{..<n} - {i}. A j) \<union> A i" for A :: "nat \<Rightarrow> 'x set" using i by auto
  have sum: "(\<Sum>j<n. thread_refs (ph j)) = (\<Sum>j\<in>{..<n} - {i}. thread_refs (ph j)) + thread_refs (ph i)"
    using sum.remove[of "{..<n}" i] i by (simp add: add.commute)
  have "set_mset (\<Sum>j\<in>{..<n} - {i}. thread_refs (ph j)) \<inter> thread_pend (ph i) = {}"
    using v i by (auto simp: set_mset_sum)
  with v i show ?thesis unfolding state_ok_def sum un[of "\<lambda>j. thread_pend (ph j)"] un[of "\<lambda>j. thread_slots (ph j)"]
    by (intro conjI) blast+
qed

lemma threads_step:
  assumes inv: "threads_ok sha S n rq ph ix f nb" and i: "i < n"
    and valid: "valid_request sha (rq i)" and coll: "inj_on sha S"
  shows "\<exists>ix' f' nb' ph'. thread_step sha qs (rq i) ios (ph i) (shared ix f nb) = Some (ph', shared ix' f' nb')
    \<and> threads_ok sha S n rq (ph(i := ph')) ix' f' nb'
    \<and> file_system_of f' ix' = (if takes_effect (rq i) (ph i) then request_effect (rq i) else id) (file_system_of f ix)"
proof -
  note v = inv[unfolded threads_ok_def]
  let ?I = "{..<n} - {i}"
  let ?E = "\<Sum>j\<in>?I. thread_refs (ph j)" and ?P = "\<Union>j\<in>?I. thread_pend (ph j)" and ?H = "\<Union>j\<in>?I. thread_slots (ph j)"
  have st: "state_ok sha ?E ?P ?H (rq i) ix f nb (ph i)" by (rule threads_ok_state[OF inv i])
  have split: "(\<Sum>j<n. g j) = g i + (\<Sum>j\<in>?I. g j)" for g :: "nat \<Rightarrow> nat"
    by (rule sum.remove) (use i in auto)
  have "size ?E \<le> (\<Sum>j\<in>?I. ref_budget (rq j) (ph j))"
    unfolding size_multiset_sum by (rule sum_mono) (use v in \<open>auto intro: thread_refs_size\<close>)
  then have room: "card (dom (file_to_master ix)) + size ?E + ref_budget (rq i) (ph i) < 2 ^ 32"
    using v split[of "\<lambda>j. ref_budget (rq j) (ph j)"] by linarith
  have slots: "unat nb + slot_budget (rq i) (ph i) \<le> MAX_SLOTS"
    using v split[of "\<lambda>j. slot_budget (rq j) (ph j)"] by linarith
  have "stored f ix \<union> request_chunks (rq i) \<subseteq> S" using v i by blast
  then have "inj_on sha (stored f ix \<union> request_chunks (rq i))" using coll by (rule inj_on_subset[rotated])
  from any_step_ok[OF st valid room slots this, of qs ios]
  obtain ix' f' nb' ph' where step: "thread_step sha qs (rq i) ios (ph i) (shared ix f nb) = Some (ph', shared ix' f' nb')"
    and ok: "step_ok sha ?E ?P ?H (rq i) ix f nb (ph i) ix' f' nb' ph'" by blast
  note o = ok[unfolded step_ok_def]
  have st': "state_ok sha ?E ?P ?H (rq i) ix' f' nb' ph'" using o by blast
  note s' = state_okD[OF st']
  let ?ph = "ph(i := ph')"
  have rest: "(\<Sum>j\<in>?I. g (?ph j)) = (\<Sum>j\<in>?I. g (ph j))" for g :: "phase \<Rightarrow> ptr multiset"
    by (rule sum.cong) auto
  have sum: "(\<Sum>j<n. thread_refs (?ph j)) = ?E + thread_refs ph'"
    using sum.remove[of "{..<n}" i "\<lambda>j. thread_refs (?ph j)"] i rest[of thread_refs] by (simp add: add.commute)
  have un: "(\<Union>j<n. A (?ph j)) = (\<Union>j\<in>?I. A (ph j)) \<union> A ph'" for A :: "phase \<Rightarrow> 'x set"
    using i by (auto split: if_splits)
  have budget: "(\<Sum>j<n. b (rq j) (?ph j)) = b (rq i) ph' + (\<Sum>j\<in>?I. b (rq j) (ph j))" for b :: "request \<Rightarrow> phase \<Rightarrow> nat"
    unfolding split[of "\<lambda>j. b (rq j) (?ph j)"] by (auto intro: sum.cong)
  have "threads_ok sha S n rq ?ph ix' f' nb'"
    unfolding threads_ok_def sum un budget
  proof (intro conjI allI impI)
    show "wf_all sha f' nb' (?E + thread_refs ph') (?P \<union> thread_pend ph') (?H \<union> thread_slots ph') ix'" by (rule s'(1))
    show "wf_sizes ix'" by (rule s'(3))
    have "stored f' ix' \<subseteq> stored f ix \<union> request_chunks (rq i)" using o by blast
    then show "stored f' ix' \<subseteq> S" using v i by blast
    show "card (dom (file_to_master ix')) + (ref_budget (rq i) ph' + (\<Sum>j\<in>?I. ref_budget (rq j) (ph j))) < 2 ^ 32"
      using o v split[of "\<lambda>j. ref_budget (rq j) (ph j)"] by linarith
    show "unat nb' + (slot_budget (rq i) ph' + (\<Sum>j\<in>?I. slot_budget (rq j) (ph j))) \<le> MAX_SLOTS"
      using o v split[of "\<lambda>j. slot_budget (rq j) (ph j)"] by linarith
  next
    fix a assume a: "a < n"
    show "request_chunks (rq a) \<subseteq> S" using v a by blast
    show "thread_ok sha (rq a) f' ix' (?ph a)"
    proof (cases "a = i")
      case True
      with s'(7) show ?thesis by simp
    next
      case False
      then have aI: "a \<in> ?I" using a by simp
      have "thread_refs (ph a) \<subseteq># ?E" using sum.remove[OF _ aI, of "\<lambda>j. thread_refs (ph j)"] by simp
      then have "kept (thread_refs (ph a)) ix ix'" using o kept_mono by blast
      moreover have "content_kept (thread_slots (ph a)) f f'" using o aI by (blast intro: content_kept_mono)
      moreover have "thread_ok sha (rq a) f ix (ph a)" using v a by blast
      ultimately have "thread_ok sha (rq a) f' ix' (ph a)" by (rule thread_ok_kept[rotated])
      with False show ?thesis by simp
    qed
    fix b assume b: "b < n" "a \<noteq> b"
    have old: "thread_pend (ph a) \<inter> thread_pend (ph b) = {}" "thread_slots (ph a) \<inter> thread_slots (ph b) = {}"
      "set_mset (thread_refs (ph a)) \<inter> thread_pend (ph b) = {}" using v a b by blast+
    have mine: "thread_pend ph' \<inter> thread_pend (ph j) = {}" "thread_slots ph' \<inter> thread_slots (ph j) = {}"
      "set_mset (thread_refs ph') \<inter> thread_pend (ph j) = {}" "set_mset (thread_refs (ph j)) \<inter> thread_pend ph' = {}"
      if "j < n" "j \<noteq> i" for j
      using that s'(4,5,6) refs_not_pending[OF st'] by (auto simp: set_mset_sum)
    consider "a = i" | "b = i" | "a \<noteq> i" "b \<noteq> i" by blast
    then show "thread_pend (?ph a) \<inter> thread_pend (?ph b) = {}" "thread_slots (?ph a) \<inter> thread_slots (?ph b) = {}"
      "set_mset (thread_refs (?ph a)) \<inter> thread_pend (?ph b) = {}"
      using old mine[of a] mine[of b] a b by (cases; auto)+
  qed
  with step o show ?thesis by blast
qed

section \<open>Schedules\<close>

text \<open>A configuration, with the calls that have taken effect so far in their order.\<close>

definition config_ok ::
  "(byte list \<Rightarrow> hash) \<Rightarrow> byte list set \<Rightarrow> request list \<Rightarrow> file_system \<Rightarrow> config \<Rightarrow> nat list \<Rightarrow> bool" where
  "config_ok sha S rqs fs c order = (case c of (sh, ths) \<Rightarrow>
     map fst ths = rqs
     \<and> threads_ok sha S (length rqs) (\<lambda>j. rqs ! j) (\<lambda>j. snd (ths ! j)) (sh_index sh) (sh_master sh) (sh_next sh)
     \<and> (\<forall>j < length rqs. result_ok (rqs ! j) (snd (ths ! j)))
     \<and> distinct order \<and> set order = {j. j < length rqs \<and> took_effect (rqs ! j) (snd (ths ! j))}
     \<and> file_system_of (sh_master sh) (sh_index sh) = fold (\<lambda>j. request_effect (rqs ! j)) order fs)"

lemma shared_eta: "shared (sh_index sh) (sh_master sh) (sh_next sh) = sh"
  by (simp add: shared_def)

lemma threads_ok_cong:
  assumes "\<And>j. j < n \<Longrightarrow> ph j = ph' j"
  shows "threads_ok sha S n rq ph ix f nb = threads_ok sha S n rq ph' ix f nb"
proof -
  have "(\<Sum>j<n. g (ph j)) = (\<Sum>j<n. g (ph' j))" "(\<Sum>j<n. b (rq j) (ph j)) = (\<Sum>j<n. b (rq j) (ph' j))"
    for g :: "phase \<Rightarrow> ptr multiset" and b :: "request \<Rightarrow> phase \<Rightarrow> nat"
    using assms by (simp_all cong: sum.cong_simp)
  with assms show ?thesis unfolding threads_ok_def by simp
qed

lemma sched_step_ok:
  assumes c: "config_ok sha S rqs fs c order" and valid: "\<forall>rq \<in> set rqs. valid_request sha rq" and coll: "inj_on sha S"
  shows "\<exists>c' order'. sched_step sha qs (i, ios) c = Some c' \<and> config_ok sha S rqs fs c' order'
    \<and> (\<forall>j < length rqs. steps_left (snd (snd c' ! j)) \<le> steps_left (snd (snd c ! j)) - of_bool (j = i))"
proof -
  obtain sh ths where ceq: "c = (sh, ths)" by (cases c)
  note v = c[unfolded ceq config_ok_def prod.case]
  have m: "map fst ths = rqs" using v by blast
  then have len: "length ths = length rqs" by (metis length_map)
  have fst: "fst (ths ! j) = rqs ! j" if "j < length rqs" for j using m len that by (metis nth_map)
  show ?thesis
  proof (cases "i < length rqs")
    case False
    then have "sched_step sha qs (i, ios) c = Some c" by (simp add: sched_step_def ceq len)
    moreover have "\<forall>j < length rqs. steps_left (snd (snd c ! j)) \<le> steps_left (snd (snd c ! j)) - of_bool (j = i)"
      using False by auto
    ultimately show ?thesis using c by blast
  next
    case True
    let ?rq = "rqs ! i" and ?ph = "snd (ths ! i)"
    let ?n = "length rqs" and ?ph' = "\<lambda>j. snd (ths ! j)"
    have inv: "threads_ok sha S ?n (\<lambda>j. rqs ! j) ?ph' (sh_index sh) (sh_master sh) (sh_next sh)" using v by blast
    have vr: "valid_request sha ?rq" using valid True by simp
    obtain ix' f' nb' ph' where step: "thread_step sha qs ?rq ios ?ph sh = Some (ph', shared ix' f' nb')"
      and ok: "threads_ok sha S ?n (\<lambda>j. rqs ! j) (?ph'(i := ph')) ix' f' nb'"
      and eff: "file_system_of f' ix' = (if takes_effect ?rq ?ph then request_effect ?rq else id)
        (file_system_of (sh_master sh) (sh_index sh))"
      using threads_step[OF inv True vr coll, of qs ios] unfolding shared_eta by blast
    let ?ths = "ths[i := (?rq, ph')]"
    have run: "sched_step sha qs (i, ios) c = Some (shared ix' f' nb', ?ths)"
      using True step by (simp add: sched_step_def ceq len fst)
    have nth: "snd (?ths ! j) = (if j = i then ph' else snd (ths ! j))" if "j < ?n" for j
      using that len by (simp add: nth_list_update)
    have "thread_ok sha ?rq (sh_master sh) (sh_index sh) ?ph" using inv True by (simp add: threads_ok_def)
    moreover have "result_ok ?rq ?ph" using v True by blast
    ultimately have res: "result_ok ?rq ph'" "took_effect ?rq ph' = (took_effect ?rq ?ph \<or> takes_effect ?rq ?ph)"
      "takes_effect ?rq ?ph \<longrightarrow> \<not> took_effect ?rq ?ph" "steps_left ph' \<le> steps_left ?ph - 1"
      using result_step[OF step _ _ vr] by blast+
    let ?order = "if takes_effect ?rq ?ph then order @ [i] else order"
    have set: "set order = {j. j < ?n \<and> took_effect (rqs ! j) (snd (ths ! j))}" using v by blast
    have "config_ok sha S rqs fs (shared ix' f' nb', ?ths) ?order"
      unfolding config_ok_def prod.case
    proof (intro conjI allI impI)
      show "map fst ?ths = rqs" using m True by (metis fst_conv list_update_id map_update)
      show "threads_ok sha S ?n (\<lambda>j. rqs ! j) (\<lambda>j. snd (?ths ! j)) (sh_index (shared ix' f' nb'))
          (sh_master (shared ix' f' nb')) (sh_next (shared ix' f' nb'))"
        using ok nth threads_ok_cong[of ?n "?ph'(i := ph')" "\<lambda>j. snd (?ths ! j)"] by simp
      show "result_ok (rqs ! j) (snd (?ths ! j))" if "j < ?n" for j
        using v res(1) that by (simp add: nth)
      have "takes_effect ?rq ?ph \<longrightarrow> i \<notin> set order" using res(3) unfolding set by simp
      then show "distinct ?order" using v by simp
      show "set ?order = {j. j < ?n \<and> took_effect (rqs ! j) (snd (?ths ! j))}"
      proof -
        have "took_effect (rqs ! j) (snd (?ths ! j)) \<longleftrightarrow>
            took_effect (rqs ! j) (snd (ths ! j)) \<or> j = i \<and> takes_effect ?rq ?ph" if "j < ?n" for j
          by (cases "j = i") (use res(2) that in \<open>simp_all add: nth\<close>)
        then have "{j. j < ?n \<and> took_effect (rqs ! j) (snd (?ths ! j))}
            = {j. j < ?n \<and> took_effect (rqs ! j) (snd (ths ! j))} \<union> (if takes_effect ?rq ?ph then {i} else {})"
          using True by auto
        then show ?thesis unfolding set[symmetric] by simp
      qed
      show "file_system_of (sh_master (shared ix' f' nb')) (sh_index (shared ix' f' nb'))
          = fold (\<lambda>j. request_effect (rqs ! j)) ?order fs"
        using eff v by simp
    qed
    moreover have "\<forall>j < ?n. steps_left (snd (?ths ! j)) \<le> steps_left (snd (ths ! j)) - of_bool (j = i)"
      using res(4) by (simp add: nth)
    ultimately show ?thesis using run ceq by auto
  qed
qed

lemma run_schedule_ok:
  assumes valid: "\<forall>rq \<in> set rqs. valid_request sha rq" and coll: "inj_on sha S"
    and c: "config_ok sha S rqs fs c order"
  shows "\<exists>c' order'. run_schedule sha qs sched c = Some c' \<and> config_ok sha S rqs fs c' order'
    \<and> (\<forall>j < length rqs. steps_left (snd (snd c' ! j)) \<le> steps_left (snd (snd c ! j)) - count_list (map fst sched) j)"
  using c unfolding run_schedule_def
proof (induction sched arbitrary: c order)
  case Nil
  then show ?case by auto
next
  case (Cons x sched)
  obtain i ios where x: "x = (i, ios)" by (cases x)
  obtain c1 order1 where one: "sched_step sha qs (i, ios) c = Some c1" "config_ok sha S rqs fs c1 order1"
    "\<forall>j < length rqs. steps_left (snd (snd c1 ! j)) \<le> steps_left (snd (snd c ! j)) - of_bool (j = i)"
    using sched_step_ok[OF Cons.prems valid coll, of qs i ios] by blast
  obtain c' order' where rest: "ofold (sched_step sha qs) sched c1 = Some c'" "config_ok sha S rqs fs c' order'"
    "\<forall>j < length rqs. steps_left (snd (snd c' ! j)) \<le> steps_left (snd (snd c1 ! j)) - count_list (map fst sched) j"
    using Cons.IH[OF one(2)] by blast
  have "steps_left (snd (snd c' ! j)) \<le> steps_left (snd (snd c ! j)) - count_list (map fst (x # sched)) j"
    if "j < length rqs" for j
  proof -
    have "steps_left (snd (snd c' ! j)) \<le> steps_left (snd (snd c1 ! j)) - count_list (map fst sched) j"
      and "steps_left (snd (snd c1 ! j)) \<le> steps_left (snd (snd c ! j)) - of_bool (j = i)"
      using rest(3) one(3) that by blast+
    then show ?thesis by (cases "j = i") (auto simp: x)
  qed
  with one(1) rest show ?case by (auto simp: x)
qed

text \<open>The start: no call holds anything.\<close>

lemma start_ok:
  assumes wf: "wf_all sha f nb {#} {} {} ix" and sizes: "wf_sizes ix"
    and S: "S = stored f ix \<union> (\<Union>rq \<in> set rqs. request_chunks rq)"
    and refs: "card (dom (file_to_master ix)) + (\<Sum>rq\<leftarrow>rqs. request_blocks rq) < 2 ^ 32"
    and slots: "unat nb + (\<Sum>rq\<leftarrow>rqs. request_blocks rq) \<le> MAX_SLOTS"
  shows "config_ok sha S rqs (file_system_of f ix) (start_threads (shared ix f nb) rqs) []"
proof -
  have sum: "(\<Sum>j<length rqs. request_blocks (rqs ! j)) = (\<Sum>rq\<leftarrow>rqs. request_blocks rq)"
    by (simp add: sum_list_sum_nth atLeast0LessThan)
  have ready: "thread_ok sha rq f ix Ready" "result_ok rq Ready" "\<not> took_effect rq Ready" for rq
    by (cases rq; simp add: thread_ok_def result_ok_def)+
  have "threads_ok sha S (length rqs) (\<lambda>j. rqs ! j) (\<lambda>j. snd (map (\<lambda>rq. (rq, Ready)) rqs ! j)) ix f nb
      = threads_ok sha S (length rqs) (\<lambda>j. rqs ! j) (\<lambda>j. Ready) ix f nb"
    by (rule threads_ok_cong) simp
  moreover have "threads_ok sha S (length rqs) (\<lambda>j. rqs ! j) (\<lambda>j. Ready) ix f nb"
    unfolding threads_ok_def using wf sizes refs slots ready(1) by (auto simp: sum S)
  ultimately show ?thesis using ready by (simp add: config_ok_def start_threads_def o_def)
qed

text \<open>When every call is finished, nothing is held any more.\<close>

lemma all_finished:
  assumes inv: "threads_ok sha S n rq ph ix f nb" and fin: "\<forall>j < n. steps_left (ph j) = 0"
  shows "wf_all sha f nb {#} {} {} ix \<and> wf_sizes ix"
proof -
  have none: "thread_refs (ph j) = {#} \<and> thread_pend (ph j) = {} \<and> thread_slots (ph j) = {}" if "j < n" for j
    using fin that by (cases "ph j") auto
  then have "(\<Sum>j<n. thread_refs (ph j)) = {#}" "(\<Union>j<n. thread_pend (ph j)) = {}" "(\<Union>j<n. thread_slots (ph j)) = {}"
    by simp_all
  then show ?thesis using inv by (simp add: threads_ok_def)
qed

end
