(* ===== verification/Thread_Races.thy ===== *)
theory Thread_Races
  imports Threads Example_Run
begin

text \<open>
  Two races in \<open>src/dedup.c\<close>, evaluated step by step. A request with a repeated block that loses the race for
  it leaves a mapping to a freed object; and a read that has looked up its slots
  returns another file's block when a removal frees the slot and a write reuses it.
\<close>

section \<open>A repeated block loses the race\<close>

definition race_path :: path where
  "race_path = [47, 98]"

definition race_buf :: "byte list" where
  "race_buf = replicate 8192 7"

text \<open>Both threads after their decision passes: the first has a MISS and a HIT on one pending object.\<close>

definition race_twice :: "PlanEntry list" where
  "race_twice =
     [\<lparr>kind = PLAN_MISS, logical_blk = 0, master_blk = 0, payload = 0, pe_hash = demo_hash, info = 1\<rparr>,
      \<lparr>kind = PLAN_HIT, logical_blk = 1, master_blk = 0, payload = 4096, pe_hash = demo_hash, info = 1\<rparr>]"

definition race_once :: "PlanEntry list" where
  "race_once = [\<lparr>kind = PLAN_MISS, logical_blk = 0, master_blk = 0, payload = 0, pe_hash = demo_hash, info = 2\<rparr>]"

definition race_ix1 :: Index where
  "race_ix1 = empty_index\<lparr>heap := [1 \<mapsto> \<lparr>mi_hash = demo_hash, masterBlockIndex = 0, refcount = 2\<rparr>], next_ptr := 2\<rparr>"

definition race_ix2 :: Index where
  "race_ix2 = race_ix1\<lparr>heap := (heap race_ix1)(2 \<mapsto> \<lparr>mi_hash = demo_hash, masterBlockIndex = 0, refcount = 1\<rparr>), next_ptr := 3\<rparr>"

text \<open>The second thread has published its object.\<close>

definition race_ix3 :: Index where
  "race_ix3 = race_ix2\<lparr>hash_to_master := [demo_hash \<mapsto> 2], file_to_master := [bkey race_path 0 \<mapsto> 2],
     file_to_sizes := [race_path \<mapsto> 4096]\<rparr>"

definition race_ix4 :: Index where
  "race_ix4 = race_ix3\<lparr>heap := (heap race_ix3)(1 \<mapsto> \<lparr>mi_hash = demo_hash, masterBlockIndex = 1, refcount = 2\<rparr>)\<rparr>"

definition race_placed :: "PlanEntry list" where
  "race_placed = race_twice[0 := (race_twice ! 0)\<lparr>master_blk := 1\<rparr>]"

text \<open>The first thread has freed its pending object, to which its second block is mapped.\<close>

definition race_ix5 :: Index where
  "race_ix5 = race_ix4\<lparr>heap := [2 \<mapsto> \<lparr>mi_hash = demo_hash, masterBlockIndex = 0, refcount = 2\<rparr>],
     file_to_master := [bkey race_path 0 \<mapsto> 2, bkey demo_path 0 \<mapsto> 2, bkey demo_path 1 \<mapsto> 1],
     file_to_sizes := [race_path \<mapsto> 4096, demo_path \<mapsto> 8192]\<rparr>"

lemmas race_defs = race_ix1_def race_ix2_def race_ix3_def race_ix4_def race_ix5_def race_twice_def race_once_def
  race_placed_def empty_index_def

abbreviation twice_step :: "phase \<Rightarrow> Shared \<Rightarrow> (phase \<times> Shared) option" where
  "twice_step \<equiv> write_step demo_sha demo_path race_buf 0 []"

abbreviation once_step :: "phase \<Rightarrow> Shared \<Rightarrow> (phase \<times> Shared) option" where
  "once_step \<equiv> write_step demo_sha race_path demo_buf 0 []"

lemma race_decide_twice: "twice_step Ready (shared empty_index [] 0) = Some (Decided race_twice 1, shared race_ix1 [] 0)"
  by (simp add: pass1_def pass1_step_def hash_block_def demo_sha_def race_buf_def lookup_by_hash_def new_info_def
      fetch_add_ref_def race_defs demo_hash_def Let_def demo_start BLOCK_SIZE_def upt_rec)

lemma race_decide_once: "once_step Ready (shared race_ix1 [] 0) = Some (Decided race_once 1, shared race_ix2 [] 0)"
  by (simp add: pass1_def pass1_step_def hash_block_def demo_sha_def demo_buf_def lookup_by_hash_def new_info_def
      race_defs demo_hash_def Let_def demo_start BLOCK_SIZE_def upt_rec)

lemma race_drain_once: "once_step (Decided race_once 1) (shared race_ix2 [] 0) = Some (Drained race_once 1 [], shared race_ix2 [] 0)"
  by (simp add: drain_free_list_eq race_defs)

lemma race_assign_once: "once_step (Drained race_once 1 []) (shared race_ix2 [] 0) = Some (Assigned race_once 1, shared race_ix2 [] 1)"
  by (simp add: reserve_slots_def assign_step_def set_master_block_def race_defs Let_def fun_upd_idem)

lemma race_flush_once:
  "once_step (Assigned race_once 1) (shared race_ix2 [] 1) = Some (Flushed race_once, shared race_ix2 demo_buf 1)"
  by (simp add: flush_plan_def flush_loop.simps skip_hits.simps run_end.simps pwrite_sys_def blk_off_def
      race_once_def demo_buf_def BLOCK_SIZE_def file_write_def)

lemma race_publish_once:
  "once_step (Flushed race_once) (shared race_ix2 demo_buf 1) = Some (Releasing [] 4096, shared race_ix3 demo_buf 1)"
  by (simp add: consolidate_def publish_step_def map_block_step_def index_op_defs grow_size_def race_defs
      BLOCK_SIZE_def Let_def demo_start int_of_size_def demo_buf_def)

lemma race_drain_twice:
  "twice_step (Decided race_twice 1) (shared race_ix3 f 1) = Some (Drained race_twice 1 [], shared race_ix3 f 1)"
  by (simp add: drain_free_list_eq race_defs)

lemma race_assign_twice:
  "twice_step (Drained race_twice 1 []) (shared race_ix3 f 1) = Some (Assigned race_placed 1, shared race_ix4 f 2)"
  by (simp add: reserve_slots_def assign_step_def set_master_block_def race_defs Let_def upt_rec)

lemma race_flush_twice:
  "twice_step (Assigned race_placed 1) (shared race_ix4 demo_buf 2) = Some (Flushed race_placed, shared race_ix4 race_buf 2)"
  by (simp add: flush_plan_def flush_loop.simps skip_hits.simps run_end.simps pwrite_sys_def blk_off_def
      race_defs demo_buf_def race_buf_def BLOCK_SIZE_def file_write_def replicate_add[symmetric])

lemma race_publish_twice:
  "twice_step (Flushed race_placed) (shared race_ix4 race_buf 2) = Some (Releasing [1] 8192, shared race_ix5 race_buf 2)"
  by (simp add: consolidate_def publish_step_def map_block_step_def index_op_defs grow_size_def race_defs free_info_def
      fetch_add_ref_def BLOCK_SIZE_def Let_def demo_start int_of_size_def race_buf_def demo_path_def race_path_def
      upt_rec fun_upd_twist)

lemmas race_steps = race_decide_twice race_decide_once race_drain_once race_assign_once race_flush_once race_publish_once
  race_drain_twice race_assign_twice race_flush_twice race_publish_twice

text \<open>The two calls, the schedule, and its outcome.\<close>

definition race_calls :: "request list" where
  "race_calls = [Write demo_path race_buf 0, Write race_path demo_buf 0]"

definition race_sched :: "(nat \<times> io list) list" where
  "race_sched = map (\<lambda>i. (i, [])) [0, 1, 1, 1, 1, 1, 1, 0, 0, 0, 0, 0]"

lemma release_nothing: "release_slots [] ix = ix"
  by (simp add: release_slots_def)

lemma race_run:
  "run_schedule demo_sha qs race_sched (start_threads (shared empty_index [] 0) race_calls)
   = Some (shared (release_slots [1] race_ix5) race_buf 2,
       [(Write demo_path race_buf 0, Finished 8192 []), (Write race_path demo_buf 0, Finished 4096 [])])"
  unfolding run_schedule_def race_sched_def race_calls_def start_threads_def
  by (simp add: sched_step_def race_steps[unfolded One_nat_def] release_nothing del: write_step.simps(1,2,3,4,5))

section \<open>A read overtaken by a removal and a write\<close>

definition other_buf :: "byte list" where
  "other_buf = replicate 4096 9"

definition other_hash :: hash where
  "other_hash = replicate 64 9"

definition reuse_plan :: "u64 \<Rightarrow> PlanEntry list" where
  "reuse_plan s = [\<lparr>kind = PLAN_MISS, logical_blk = 0, master_blk = s, payload = 0, pe_hash = other_hash, info = 2\<rparr>]"

text \<open>The removal has freed slot 0, and the write has taken it.\<close>

definition reuse_ix1 :: Index where
  "reuse_ix1 = demo_ix\<lparr>file_to_master := Map.empty, hash_to_master := Map.empty, heap := Map.empty\<rparr>"

definition reuse_ix2 :: Index where
  "reuse_ix2 = reuse_ix1\<lparr>heap := [2 \<mapsto> \<lparr>mi_hash = other_hash, masterBlockIndex = 0, refcount = 1\<rparr>], next_ptr := 3\<rparr>"

definition reuse_ix3 :: Index where
  "reuse_ix3 = reuse_ix2\<lparr>hash_to_master := [other_hash \<mapsto> 2], file_to_master := [bkey race_path 0 \<mapsto> 2],
     file_to_sizes := [demo_path \<mapsto> 4096, race_path \<mapsto> 4096]\<rparr>"

lemmas reuse_defs = reuse_ix1_def reuse_ix2_def reuse_ix3_def reuse_plan_def demo_ix_def demo_held_def empty_index_def

abbreviation reuse_write :: "phase \<Rightarrow> Shared \<Rightarrow> (phase \<times> Shared) option" where
  "reuse_write \<equiv> write_step demo_sha race_path other_buf 0 []"

lemma reuse_locate:
  "read_step qs demo_path demo_buf 4096 0 [] Ready (shared demo_ix f nb)
   = Some (Located [\<lparr>logical_idx = 0, master_block_index = 0\<rparr>], shared demo_ix f nb)"
  by (simp add: Let_def demo_start BLOCK_SIZE_def lookup_by_file_block_def demo_ix_def demo_held_def)

lemma reuse_remove:
  "remove_step demo_path 0 1 Ready (shared demo_ix f nb) = Some (Releasing [0] 0, shared reuse_ix1 f nb)"
  by (simp add: block_range_def remove_batch_step_def lookup_by_file_block_def remove_file_block_def release_ref_alt
      remove_hash_def reuse_defs Let_def)

lemma reuse_decide:
  "reuse_write Ready (shared (release_slots [0] reuse_ix1) f nb)
   = Some (Decided (reuse_plan 0) 1, shared (release_slots [0] reuse_ix2) f nb)"
  by (simp add: pass1_def pass1_step_def hash_block_def demo_sha_def other_buf_def lookup_by_hash_def new_info_def
      release_slots_def reuse_defs other_hash_def Let_def demo_start BLOCK_SIZE_def upt_rec)

lemma reuse_drain:
  "reuse_write (Decided (reuse_plan 0) 1) (shared (release_slots [0] reuse_ix2) f nb)
   = Some (Drained (reuse_plan 0) 1 [0], shared reuse_ix2 f nb)"
  by (simp add: drain_free_list_eq reuse_defs release_slots_def)

lemma reuse_assign:
  "reuse_write (Drained (reuse_plan 0) 1 [0]) (shared reuse_ix2 f nb)
   = Some (Assigned (reuse_plan 0) 1, shared reuse_ix2 f nb)"
  by (simp add: reserve_slots_def assign_step_def set_master_block_def reuse_defs Let_def fun_upd_idem)

lemma reuse_flush:
  "reuse_write (Assigned (reuse_plan 0) 1) (shared ix demo_buf nb) = Some (Flushed (reuse_plan 0), shared ix other_buf nb)"
  by (simp add: flush_plan_def flush_loop.simps skip_hits.simps run_end.simps pwrite_sys_def blk_off_def
      reuse_plan_def demo_buf_def other_buf_def BLOCK_SIZE_def file_write_def)

lemma reuse_publish:
  "reuse_write (Flushed (reuse_plan 0)) (shared reuse_ix2 f nb) = Some (Releasing [] 4096, shared reuse_ix3 f nb)"
  by (simp add: consolidate_def publish_step_def map_block_step_def index_op_defs grow_size_def reuse_defs
      BLOCK_SIZE_def Let_def demo_start int_of_size_def other_buf_def demo_path_def race_path_def fun_upd_twist)

lemma reuse_read:
  "read_step qs demo_path demo_buf 4096 0 [] (Located [\<lparr>logical_idx = 0, master_block_index = 0\<rparr>]) (shared ix other_buf nb)
   = Some (Finished 4096 other_buf, shared ix other_buf nb)"
proof -
  let ?q = "[\<lparr>logical_idx = 0, master_block_index = 0\<rparr>]"
  have sort: "sort_pairs qs ?q = ?q" by (simp add: sort_pairs_def insertion_sort_def INSERTION_SORT_THRESHOLD_def)
  have "pread_sys IoOk other_buf BLOCK_SIZE (blk_off 0) = (4096, other_buf)"
    by (simp add: pread_sys_def blk_off_def other_buf_def BLOCK_SIZE_def)
  then have "read_group ?q other_buf 0 1 demo_buf [] = (0, other_buf, [])"
    by (simp add: read_group_def put_block_def file_write_def demo_buf_def other_buf_def BLOCK_SIZE_def)
  moreover have "read_groups ?q other_buf 1 2 other_buf [] = (0, other_buf, [])" by (simp add: read_groups.simps)
  ultimately have "read_groups ?q other_buf 0 1 demo_buf [] = (0, other_buf, [])"
    by (subst read_groups.simps) (simp add: Let_def numeral_2_eq_2)
  then show ?thesis by (simp add: sort int_of_size_def BLOCK_SIZE_def)
qed

lemmas reuse_steps = reuse_locate reuse_remove reuse_decide reuse_drain reuse_assign reuse_flush reuse_publish reuse_read

definition reuse_calls :: "request list" where
  "reuse_calls = [Read demo_path demo_buf 4096 0, Remove demo_path 0 1, Write race_path other_buf 0]"

definition reuse_sched :: "(nat \<times> io list) list" where
  "reuse_sched = map (\<lambda>i. (i, [])) [0, 1, 1, 2, 2, 2, 2, 2, 2, 0]"

lemma reuse_run:
  "run_schedule demo_sha qs reuse_sched (start_threads (shared demo_ix demo_buf 1) reuse_calls)
   = Some (shared reuse_ix3 other_buf 1,
       [(Read demo_path demo_buf 4096 0, Finished 4096 other_buf), (Remove demo_path 0 1, Finished 0 []),
        (Write race_path other_buf 0, Finished 4096 [])])"
  unfolding run_schedule_def reuse_sched_def reuse_calls_def start_threads_def
  by (simp add: sched_step_def reuse_steps[unfolded One_nat_def] release_nothing
      del: write_step.simps(1,2,3,4,5) read_step.simps(1,2) remove_step.simps(1))

end
