(* ===== verification/Thread_Properties.thy ===== *)
theory Thread_Properties
  imports Thread_Safety Thread_Races
begin

text \<open>
  What concurrent calls of \<open>src/dedup.c\<close> promise: they serialise, they all return with
  true replies, and alone they are the sequential routines; and where the promise ends: repeated blocks in one request, and reads.
\<close>

section \<open>Calls that serialise\<close>

text \<open>
  The calls the promise is about: whole requests in range, no block repeated inside one request,
  room for all of them together, and no collision of SHA-512 among the blocks involved.
\<close>

definition threads_pre :: "(byte list \<Rightarrow> hash) \<Rightarrow> Index \<Rightarrow> fbytes \<Rightarrow> u64 \<Rightarrow> request list \<Rightarrow> bool" where
  "threads_pre sha ix f nb rqs \<longleftrightarrow>
     consistent sha f nb ix \<and> (\<forall>rq \<in> set rqs. valid_request sha rq)
     \<and> card (dom (file_to_master ix)) + (\<Sum>rq\<leftarrow>rqs. request_blocks rq) < 2 ^ 32
     \<and> unat nb + (\<Sum>rq\<leftarrow>rqs. request_blocks rq) \<le> MAX_SLOTS
     \<and> inj_on sha (stored f ix \<union> (\<Union>rq \<in> set rqs. request_chunks rq))"

lemma threads_run:
  assumes pre: "threads_pre sha ix f nb rqs"
  obtains ix' f' nb' ths order where
    "run_schedule sha qs sched (start_threads (shared ix f nb) rqs) = Some (shared ix' f' nb', ths)"
    "length ths = length rqs" "threads_ok sha (stored f ix \<union> (\<Union>rq \<in> set rqs. request_chunks rq)) (length rqs)
       (\<lambda>j. rqs ! j) (\<lambda>j. snd (ths ! j)) ix' f' nb'"
    "\<forall>j < length rqs. result_ok (rqs ! j) (snd (ths ! j))"
    "distinct order" "set order = {j. j < length rqs \<and> took_effect (rqs ! j) (snd (ths ! j))}"
    "file_system_of f' ix' = fold (\<lambda>j. request_effect (rqs ! j)) order (file_system_of f ix)"
    "\<forall>j < length rqs. steps_left (snd (ths ! j)) \<le> 7 - count_list (map fst sched) j"
proof -
  let ?S = "stored f ix \<union> (\<Union>rq \<in> set rqs. request_chunks rq)"
  have p: "wf_all sha f nb {#} {} {} ix" "wf_sizes ix" "\<forall>rq \<in> set rqs. valid_request sha rq"
    "card (dom (file_to_master ix)) + (\<Sum>rq\<leftarrow>rqs. request_blocks rq) < 2 ^ 32"
    "unat nb + (\<Sum>rq\<leftarrow>rqs. request_blocks rq) \<le> MAX_SLOTS" "inj_on sha ?S"
    using pre by (simp_all add: threads_pre_def consistent_def)
  note start = start_ok[OF p(1,2) refl p(4,5)]
  obtain c order where run: "run_schedule sha qs sched (start_threads (shared ix f nb) rqs) = Some c"
    and c: "config_ok sha ?S rqs (file_system_of f ix) c order"
    and left: "\<forall>j < length rqs. steps_left (snd (snd c ! j))
      \<le> steps_left (snd (snd (start_threads (shared ix f nb) rqs) ! j)) - count_list (map fst sched) j"
    using run_schedule_ok[OF p(3,6) start, of qs sched] by blast
  obtain sh ths where ceq: "c = (sh, ths)" by (cases c)
  note v = c[unfolded ceq config_ok_def prod.case]
  have len: "length ths = length rqs" using v by (metis length_map)
  have "\<forall>j < length rqs. steps_left (snd (ths ! j)) \<le> 7 - count_list (map fst sched) j"
    using left by (simp add: ceq start_threads_def)
  with that[of "sh_index sh" "sh_master sh" "sh_next sh" ths order] run v len show ?thesis
    unfolding ceq shared_eta by blast
qed

text \<open>
  C3: Calls serialise as long as no request repeats a block. Take any number of writes, removals and reads, each
  write of whole blocks or not, in range, and with no block repeated inside it; room in the index and in the slot numbers for all of them;
  and no collision of SHA-512 among the stored and the written blocks. Then under any schedule of
  their steps, complete or not, and whatever the kernel answers, no call follows a dangling pointer, and blocks and sizes of all files
  are those of the calls that took effect (the writes that did not fail, and the removals)
  executed one after the other in some order; when all have returned, the index is consistent. The condition
  on repeated blocks is needed: see \<open>repeated_block_dangles\<close>. Steps are cut at the lock
  operations; the locks themselves are not modelled.
\<close>

theorem threads_serialise:
  assumes "threads_pre sha ix f nb rqs"
  shows "\<exists>ix' f' nb' ths order.
    run_schedule sha qs sched (start_threads (shared ix f nb) rqs) = Some (shared ix' f' nb', ths)
    \<and> distinct order \<and> set order = {j. j < length rqs \<and> took_effect (rqs ! j) (snd (ths ! j))}
    \<and> file_system_of f' ix' = fold (\<lambda>j. request_effect (rqs ! j)) order (file_system_of f ix)
    \<and> ((\<forall>j < length rqs. steps_left (snd (ths ! j)) = 0) \<longrightarrow> consistent sha f' nb' ix')"
proof -
  obtain ix' f' nb' ths order where
    "run_schedule sha qs sched (start_threads (shared ix f nb) rqs) = Some (shared ix' f' nb', ths)"
    and inv: "threads_ok sha (stored f ix \<union> (\<Union>rq \<in> set rqs. request_chunks rq)) (length rqs)
       (\<lambda>j. rqs ! j) (\<lambda>j. snd (ths ! j)) ix' f' nb'"
    and "distinct order" "set order = {j. j < length rqs \<and> took_effect (rqs ! j) (snd (ths ! j))}"
    "file_system_of f' ix' = fold (\<lambda>j. request_effect (rqs ! j)) order (file_system_of f ix)"
    by (rule threads_run[OF assms, of qs sched])
  moreover have "consistent sha f' nb' ix'" if "\<forall>j < length rqs. steps_left (snd (ths ! j)) = 0"
    using all_finished[OF inv that] by (simp add: consistent_def)
  ultimately show ?thesis by blast
qed

text \<open>Two threads that write the same block to different files.\<close>

definition twin_calls :: "request list" where
  "twin_calls = [Write demo_path demo_buf 0, Write race_path demo_buf 0]"

lemma twin_pre: "threads_pre demo_sha empty_index [] 0 twin_calls"
  using consistent_empty[of demo_sha "[]"]
  by (simp add: threads_pre_def twin_calls_def valid_request_def request_blocks_def request_chunks_def
      demo_buf_def blocks_of_def stored_def empty_index_def MAX_SLOTS_def BLOCK_SIZE_def lessThan_Suc)

theorem threads_serialise_witness:
  "\<exists>ix' f' nb' ths. run_schedule demo_sha (\<lambda>cmp. sort_key master_block_index) race_sched
      (start_threads (shared empty_index [] 0) twin_calls) = Some (shared ix' f' nb', ths)"
  using threads_serialise[OF twin_pre] by blast

text \<open>
  A call whose own kernel answers are all good: no phase of the rollback is ever entered.
\<close>

fun on_course :: "request \<Rightarrow> phase \<Rightarrow> bool" where
  "on_course (Write pa buf offset) (Failed plan rc) = False"
| "on_course (Write pa buf offset) (Undoing plan tr rc) = False"
| "on_course (Write pa buf offset) (Dropping plan rc) = False"
| "on_course (Write pa buf offset) (Finished r b) = (r = int (length buf))"
| "on_course rq ph = True"

lemma flush_healthy:
  assumes "plan_held sha buf start ix plan" "plan_placed ix plan" "\<forall>io \<in> set ios. io = IoOk"
  shows "fst (flush_plan f ios plan buf) = 0"
  unfolding flush_plan_def using assms by (intro flush_loop_healthy plan_ready_held) simp_all

lemma on_course_step:
  assumes step: "thread_step sha qs rq ios ph sh = Some (ph', sh')" and course: "on_course rq ph"
    and t: "thread_ok sha rq f ix ph" and res: "result_ok rq ph"
    and healthy: "\<forall>io \<in> set ios. io = IoOk"
    and aligned: "\<forall>pa buf offset. rq = Write pa buf offset \<longrightarrow> BLOCK_SIZE dvd length buf"
  shows "on_course rq ph'"
proof (cases rq)
  case (Write pa buf offset)
  have al: "BLOCK_SIZE dvd length buf" using aligned Write by blast
  show ?thesis
  proof (cases ph)
    case Ready
    have "length buf div BLOCK_SIZE \<noteq> 0" if "buf \<noteq> []" using al that by (auto simp: dvd_div_eq_0_iff)
    then show ?thesis using step al unfolding Write Ready
      by (auto simp: Let_def mod_eq_0_iff_dvd split: bind_splits if_splits)
  next
    case (Assigned plan mc)
    then have ok: "plan_held sha buf (start_block_of offset) ix plan" "plan_placed ix plan"
      using t Write by (simp_all add: thread_ok_def)
    from flush_healthy[OF ok healthy, of "sh_master sh"] step show ?thesis unfolding Write Assigned
      by (auto split: if_splits prod.splits)
  next
    case (Releasing tr r)
    then show ?thesis using step res unfolding Write by (auto simp: result_ok_def)
  qed (use step course in \<open>auto simp: Write Let_def split: bind_splits prod.splits if_splits\<close>)
next
  case (Remove pa s e)
  then show ?thesis by (cases ph') simp_all
next
  case (Read pa buf sz offset)
  then show ?thesis by (cases ph') simp_all
qed

lemma on_course_run:
  assumes valid: "\<forall>rq \<in> set rqs. valid_request sha rq" and coll: "inj_on sha S"
    and j: "j < length rqs" and aligned: "\<forall>pa buf offset. rqs ! j = Write pa buf offset \<longrightarrow> BLOCK_SIZE dvd length buf"
  shows "config_ok sha S rqs fs c order \<Longrightarrow> on_course (rqs ! j) (snd (snd c ! j))
    \<Longrightarrow> \<forall>ios. (j, ios) \<in> set sched \<longrightarrow> (\<forall>io \<in> set ios. io = IoOk)
    \<Longrightarrow> run_schedule sha qs sched c = Some c' \<Longrightarrow> on_course (rqs ! j) (snd (snd c' ! j))"
  unfolding run_schedule_def
proof (induction sched arbitrary: c order)
  case Nil
  then show ?case by simp
next
  case (Cons x sched)
  obtain i ios where x: "x = (i, ios)" by (cases x)
  obtain c1 order1 where one: "sched_step sha qs (i, ios) c = Some c1" "config_ok sha S rqs fs c1 order1"
    using sched_step_ok[OF Cons.prems(1) valid coll, of qs i ios] by blast
  obtain sh ths where c: "c = (sh, ths)" by (cases c)
  note v = Cons.prems(1)[unfolded c config_ok_def prod.case]
  have len: "length ths = length rqs" and fst: "fst (ths ! j) = rqs ! j"
    using v j by (metis length_map, metis length_map nth_map)
  have "on_course (rqs ! j) (snd (snd c1 ! j))"
  proof (cases "i = j")
    case True
    obtain ph' sh' where step: "thread_step sha qs (rqs ! j) ios (snd (ths ! j)) sh = Some (ph', sh')"
      and c1: "c1 = (sh', ths[j := (rqs ! j, ph')])"
      using one(1) True j len fst by (auto simp: sched_step_def c split: bind_splits)
    have t: "thread_ok sha (rqs ! j) (sh_master sh) (sh_index sh) (snd (ths ! j))"
      using v j by (simp add: threads_ok_def)
    have "on_course (rqs ! j) ph'"
      by (rule on_course_step[OF step _ t _ _ aligned]) (use Cons.prems(2,3) v j True in \<open>auto simp: c x\<close>)
    then show ?thesis using j len by (simp add: c1)
  next
    case False
    then have "snd c1 ! j = ths ! j"
      using one(1) by (auto simp: sched_step_def c split: bind_splits if_splits)
    then show ?thesis using Cons.prems(2) by (simp add: c)
  qed
  moreover have "ofold (sched_step sha qs) sched c1 = Some c'" using Cons.prems(4) one(1) by (simp add: x)
  ultimately show ?case using Cons.IH[OF one(2)] Cons.prems(3) by simp
qed

text \<open>What a finished call must have returned, given whether it has an effect on the files.\<close>

definition reply_matches :: "request \<Rightarrow> bool \<Rightarrow> int \<Rightarrow> bool" where
  "reply_matches rq effective r = (case rq of
     Write pa buf offset \<Rightarrow> if effective then buf \<noteq> [] \<and> r = int (length buf) else r < 0 \<or> buf = [] \<and> r = 0
   | Remove pa s e \<Rightarrow> effective \<and> r = 0
   | Read pa buf sz offset \<Rightarrow> \<not> effective)"

lemma finished_reply:
  assumes "result_ok rq (Finished r b)"
  shows "reply_matches rq (took_effect rq (Finished r b)) r"
  using assms by (cases rq) (auto simp: result_ok_def reply_matches_def)

text \<open>
  C4: Every call returns, and the replies tell the truth. When every thread has been given at least seven steps (a step is the
  code between two operations on \<open>metadata_rwlock\<close> or \<open>freelist_mutex\<close>; the waiting for the locks itself is not
  modelled), in any interleaving and whatever the kernel answers, all calls have returned, the index is consistent, and there is one order of the calls with an
  effect such that blocks and sizes of all files are those of executing exactly these calls in it:
  a write is among them exactly when it returned its length, and any other write returned
  a negative code (or 0 for an empty buffer); every removal is among them and returned 0. A write of whole blocks whose own
  \<open>pwrite\<close> calls all succeed returns its length, whatever happens to the others. As for C3: requests are in
  range, no block is repeated inside one request, the index and the slot numbers have room for all of them,
  and SHA-512 does not collide on the blocks involved.
\<close>

theorem threads_finish:
  assumes "threads_pre sha ix f nb rqs" "\<forall>j < length rqs. 7 \<le> count_list (map fst sched) j"
  shows "\<exists>ix' f' nb' ths order.
    run_schedule sha qs sched (start_threads (shared ix f nb) rqs) = Some (shared ix' f' nb', ths)
    \<and> consistent sha f' nb' ix'
    \<and> distinct order \<and> set order \<subseteq> {..<length rqs}
    \<and> file_system_of f' ix' = fold (\<lambda>j. request_effect (rqs ! j)) order (file_system_of f ix)
    \<and> (\<forall>j < length rqs. \<exists>r b. ths ! j = (rqs ! j, Finished r b)
        \<and> reply_matches (rqs ! j) (j \<in> set order) r
        \<and> (\<forall>pa buf offset. rqs ! j = Write pa buf offset \<longrightarrow> BLOCK_SIZE dvd length buf
             \<longrightarrow> (\<forall>ios. (j, ios) \<in> set sched \<longrightarrow> (\<forall>io \<in> set ios. io = IoOk)) \<longrightarrow> r = int (length buf)))"
proof -
  let ?S = "stored f ix \<union> (\<Union>rq \<in> set rqs. request_chunks rq)"
  let ?c = "start_threads (shared ix f nb) rqs"
  have p: "wf_all sha f nb {#} {} {} ix" "wf_sizes ix" "\<forall>rq \<in> set rqs. valid_request sha rq"
    "card (dom (file_to_master ix)) + (\<Sum>rq\<leftarrow>rqs. request_blocks rq) < 2 ^ 32"
    "unat nb + (\<Sum>rq\<leftarrow>rqs. request_blocks rq) \<le> MAX_SLOTS" "inj_on sha ?S"
    using assms(1) by (simp_all add: threads_pre_def consistent_def)
  note start = start_ok[OF p(1,2) refl p(4,5)]
  obtain sh ths order where run: "run_schedule sha qs sched ?c = Some (sh, ths)"
    and c: "config_ok sha ?S rqs (file_system_of f ix) (sh, ths) order"
    and left: "\<forall>j < length rqs. steps_left (snd (ths ! j)) \<le> steps_left (snd (snd ?c ! j)) - count_list (map fst sched) j"
    using run_schedule_ok[OF p(3,6) start, of qs sched] by (metis surj_pair snd_conv)
  note v = c[unfolded config_ok_def prod.case]
  have fin: "\<forall>j < length rqs. steps_left (snd (ths ! j)) = 0"
    using left assms(2) by (fastforce simp: start_threads_def)
  have "threads_ok sha ?S (length rqs) (\<lambda>j. rqs ! j) (\<lambda>j. snd (ths ! j)) (sh_index sh) (sh_master sh) (sh_next sh)"
    using v by blast
  then have cons: "consistent sha (sh_master sh) (sh_next sh) (sh_index sh)"
    using all_finished[OF _ fin] by (simp add: consistent_def)
  have replies: "\<exists>r b. ths ! j = (rqs ! j, Finished r b) \<and> reply_matches (rqs ! j) (j \<in> set order) r
        \<and> (\<forall>pa buf offset. rqs ! j = Write pa buf offset \<longrightarrow> BLOCK_SIZE dvd length buf
             \<longrightarrow> (\<forall>ios. (j, ios) \<in> set sched \<longrightarrow> (\<forall>io \<in> set ios. io = IoOk)) \<longrightarrow> r = int (length buf))"
    if j: "j < length rqs" for j
  proof -
    have "steps_left (snd (ths ! j)) = 0" using fin j by blast
    then obtain r b where ph: "snd (ths ! j) = Finished r b" by (cases "snd (ths ! j)") simp_all
    moreover have "fst (ths ! j) = rqs ! j" using v j by (metis length_map nth_map)
    ultimately have th: "ths ! j = (rqs ! j, Finished r b)" by (metis prod.collapse)
    have "result_ok (rqs ! j) (Finished r b)" using v j ph by metis
    moreover have "j \<in> set order \<longleftrightarrow> took_effect (rqs ! j) (Finished r b)" using v j ph by auto
    ultimately have "reply_matches (rqs ! j) (j \<in> set order) r" using finished_reply by simp
    moreover have "r = int (length buf)"
      if w: "rqs ! j = Write pa buf offset" "BLOCK_SIZE dvd length buf"
        "\<forall>ios. (j, ios) \<in> set sched \<longrightarrow> (\<forall>io \<in> set ios. io = IoOk)" for pa buf offset
    proof -
      have "on_course (rqs ! j) (snd (snd ?c ! j))" using j w(1) by (simp add: start_threads_def)
      from on_course_run[OF p(3,6) j _ start this w(3) run] w(1,2) ph show ?thesis by simp
    qed
    ultimately show ?thesis using th by blast
  qed
  show ?thesis
    by (rule exI[of _ "sh_index sh"], rule exI[of _ "sh_master sh"], rule exI[of _ "sh_next sh"],
        rule exI[of _ ths], rule exI[of _ order])
      (use run cons v replies in \<open>auto simp: shared_eta\<close>)
qed

text \<open>Both writes of the same block, interleaved step by step, the second with a failing disk.\<close>

definition twin_sched :: "(nat \<times> io list) list" where
  "twin_sched = concat (replicate 7 [(0, []), (1, [IoErr EIO])])"

theorem threads_finish_witness:
  "\<exists>sh ths r b0 b1. run_schedule demo_sha (\<lambda>cmp. sort_key master_block_index) twin_sched
      (start_threads (shared empty_index [] 0) twin_calls) = Some (sh, ths)
    \<and> ths ! 0 = (twin_calls ! 0, Finished 4096 b0) \<and> ths ! 1 = (twin_calls ! 1, Finished r b1) \<and> (r = 4096 \<or> r < 0)"
proof -
  let ?run = "\<lambda>ix' f' nb' ths. run_schedule demo_sha (\<lambda>cmp. sort_key master_block_index) twin_sched
      (start_threads (shared empty_index [] 0) twin_calls) = Some (shared ix' f' nb', ths)"
  have two: "j = 0 \<or> j = Suc 0" if "j < length twin_calls" for j using that by (auto simp: twin_calls_def)
  have enough: "\<forall>j < length twin_calls. 7 \<le> count_list (map fst twin_sched) j"
    using two by (fastforce simp: twin_sched_def numeral_eq_Suc)
  have zero: "\<forall>ios. (0, ios) \<in> set twin_sched \<longrightarrow> (\<forall>io \<in> set ios. io = IoOk)" by (simp add: twin_sched_def)
  obtain ix' f' nb' ths order where run: "?run ix' f' nb' ths"
    and reply: "\<forall>j < length twin_calls. \<exists>r b. ths ! j = (twin_calls ! j, Finished r b)
        \<and> reply_matches (twin_calls ! j) (j \<in> set order) r
        \<and> (\<forall>pa buf offset. twin_calls ! j = Write pa buf offset \<longrightarrow> BLOCK_SIZE dvd length buf
             \<longrightarrow> (\<forall>ios. (j, ios) \<in> set twin_sched \<longrightarrow> (\<forall>io \<in> set ios. io = IoOk)) \<longrightarrow> r = int (length buf))"
    using threads_finish[OF twin_pre enough, of "\<lambda>cmp. sort_key master_block_index"] by blast
  have calls: "length twin_calls = 2" "twin_calls ! 0 = Write demo_path demo_buf 0" "twin_calls ! 1 = Write race_path demo_buf 0"
    by (simp_all add: twin_calls_def)
  have len: "length demo_buf = 4096" "BLOCK_SIZE dvd length demo_buf" by (simp_all add: demo_buf_def BLOCK_SIZE_def)
  obtain r0 b0 where "ths ! 0 = (twin_calls ! 0, Finished r0 b0)" "r0 = 4096"
    using reply[rule_format, of 0] calls len zero by fastforce
  moreover obtain r1 b1 where "ths ! 1 = (twin_calls ! 1, Finished r1 b1)" "r1 = 4096 \<or> r1 < 0"
    using reply[rule_format, of 1] calls len by (fastforce simp: reply_matches_def split: if_splits)
  ultimately show ?thesis using run by blast
qed

text \<open>
  A call that runs alone is the sequential routine: the steps a call is cut into at the lock boundaries compose to
  \<open>write_dedup\<close>, \<open>remove_blocks_dedup_batch\<close> and \<open>read_dedup\<close>, with the same result, index, master file
  and next slot, undefined behaviour included.
\<close>

lemma call_alone_is_sequential:
  "run_alone sha qs (Write pa buf offset) ios (shared ix f nb)
     = map_option (\<lambda>(rc, ix, f, nb, _). (Finished rc [], shared ix f nb))
         (write_dedup sha ix pa buf (length buf) offset f nb ios)
   \<and> run_alone sha qs (Remove pa s e) ios (shared ix f nb)
     = map_option (\<lambda>ix. (Finished 0 [], shared ix f nb)) (remove_blocks_dedup_batch ix pa s e)
   \<and> run_alone sha qs (Read pa buf sz offset) ios (shared ix f nb)
     = map_option (\<lambda>(rc, buf, _). (Finished rc buf, shared ix f nb))
         (read_dedup qs True ix pa buf sz offset f ios)"
  by (intro conjI write_alone remove_alone read_alone)

section \<open>Where the promise ends\<close>

text \<open>
  C17: One request with a repeated block is enough to break the index. A thread writes two equal
  blocks to one file while another writes the same block: there is a schedule in which both
  return success and the second block of the first file is mapped to a freed object, so the next
  read of the file follows a dangling pointer.
\<close>

theorem repeated_block_dangles:
  "\<exists>sched sh ths. run_schedule demo_sha qs sched (start_threads (shared empty_index [] 0) race_calls) = Some (sh, ths)
     \<and> map snd ths = [Finished 8192 [], Finished 4096 []]
     \<and> file_to_master (sh_index sh) (bkey demo_path 1) = Some 1 \<and> heap (sh_index sh) 1 = None
     \<and> read_dedup qs True (sh_index sh) demo_path buf 8192 0 f ios = None"
proof -
  let ?ix = "release_slots [1] race_ix5"
  have ne: "bkey race_path 0 \<noteq> bkey demo_path 1" "bkey race_path 0 \<noteq> bkey demo_path 0"
    by (simp_all add: race_path_def demo_path_def)
  have tab: "file_to_master ?ix (bkey demo_path 1) = Some 1" "file_to_master ?ix (bkey demo_path 0) = Some 2"
    by (simp_all add: release_slots_def race_ix5_def)
  have hp: "heap ?ix 1 = None" "heap ?ix 2 = Some \<lparr>mi_hash = demo_hash, masterBlockIndex = 0, refcount = 2\<rparr>"
    by (simp_all add: release_slots_def race_ix5_def)
  have "lookup_pairs ?ix demo_path 0 0 2 = None"
    using tab hp by (simp add: numeral_2_eq_2 lookup_by_file_block_def)
  then have "read_dedup qs True ?ix demo_path buf 8192 0 f ios = None"
    by (simp add: read_dedup_def demo_start BLOCK_SIZE_def Let_def)
  with race_run[of qs] tab hp show ?thesis by (intro exI[of _ race_sched] exI) auto
qed

text \<open>
  C18: A read can return another file's data. A read that has looked up its slots holds neither lock
  nor reference: when another thread removes the block and a third one writes to another file,
  the slot is reused and the read returns, with success, the bytes of the other file.
\<close>

theorem read_returns_foreign_block:
  "\<exists>sched sh ths. run_schedule demo_sha qs sched (start_threads (shared demo_ix demo_buf 1) reuse_calls) = Some (sh, ths)
     \<and> snd (ths ! 0) = Finished (int (length other_buf)) other_buf
     \<and> block_view demo_buf demo_ix (bkey demo_path 0) = Some demo_buf
     \<and> block_view (sh_master sh) (sh_index sh) (bkey demo_path 0) = None
     \<and> block_view (sh_master sh) (sh_index sh) (bkey race_path 0) = Some other_buf
     \<and> other_buf \<noteq> demo_buf"
proof -
  have c: "chunk demo_buf 0 = demo_buf" "chunk other_buf 0 = other_buf"
    by (simp_all add: chunk_def demo_buf_def other_buf_def BLOCK_SIZE_def)
  have v: "block_view demo_buf demo_ix (bkey demo_path 0) = Some demo_buf"
    by (simp add: block_view_def demo_ix_def demo_held_def slot_of_def c)
  have w: "block_view other_buf reuse_ix3 (bkey demo_path 0) = None"
    "block_view other_buf reuse_ix3 (bkey race_path 0) = Some other_buf"
    by (simp_all add: block_view_def reuse_ix3_def reuse_ix2_def slot_of_def c demo_path_def race_path_def)
  have n: "other_buf \<noteq> demo_buf" "length other_buf = 4096" by (simp_all add: demo_buf_def other_buf_def)
  show ?thesis
    by (rule exI[of _ reuse_sched]) (use reuse_run[of qs] v w n in simp)
qed

end
