(* ===== verification/Bpf_Maps.thy ===== *)
theory Bpf_Maps
  imports Dedup_Prelude
begin

text \<open>
  BPF hash maps with their bound \<open>max_entries\<close>, and the part that \<open>syscounter.bpf.c\<close> and
  \<open>cachestat.bpf.c\<close> have in common: the set of traced processes, which grows when a traced process
  forks.
\<close>

section \<open>Bounded maps\<close>

text \<open>\<open>bpf_map_update_elem\<close>: a new key is refused when the map is full; \<open>BPF_NOEXIST\<close> refuses a known one.\<close>

definition bpf_update :: "nat \<Rightarrow> bool \<Rightarrow> 'k \<Rightarrow> 'v \<Rightarrow> ('k \<rightharpoonup> 'v) \<Rightarrow> ('k \<rightharpoonup> 'v)" where
  "bpf_update max_entries noexist k v m =
     (if m k \<noteq> None then (if noexist then m else m(k \<mapsto> v))
      else if card (dom m) < max_entries then m(k \<mapsto> v) else m)"

definition bpf_delete :: "'k \<Rightarrow> ('k \<rightharpoonup> 'v) \<Rightarrow> ('k \<rightharpoonup> 'v)" where
  "bpf_delete k m = m(k := None)"

definition bounded :: "nat \<Rightarrow> ('k \<rightharpoonup> 'v) \<Rightarrow> bool" where
  "bounded n m \<longleftrightarrow> finite (dom m) \<and> card (dom m) \<le> n"

lemma bounded_empty [simp]: "bounded n Map.empty"
  by (simp add: bounded_def)

lemma bounded_update:
  assumes "bounded n m"
  shows "bounded n (bpf_update n x k v m)"
proof (cases "m k = None")
  case True
  then have "k \<notin> dom m" by blast
  with assms True show ?thesis by (auto simp: bpf_update_def bounded_def)
next
  case False
  then have "dom (m(k \<mapsto> v)) = dom m" by auto
  with assms False show ?thesis by (auto simp: bpf_update_def bounded_def)
qed

lemma bounded_delete: "bounded n m \<Longrightarrow> bounded n (bpf_delete k m)"
  by (auto simp: bounded_def bpf_delete_def intro: le_trans[OF card_Diff1_le])

lemma bounded_overwrite:
  assumes "bounded n m" "m k \<noteq> None"
  shows "bounded n (m(k \<mapsto> v))"
proof -
  have "dom (m(k \<mapsto> v)) = dom m" using assms(2) by auto
  with assms(1) show ?thesis by (simp add: bounded_def)
qed

section \<open>The traced processes\<close>

definition MAX_PIDS :: nat where
  "MAX_PIDS = 100"

type_synonym pid_map = "u32 \<rightharpoonup> u32"

definition to_discard :: "pid_map \<Rightarrow> u32 \<Rightarrow> bool" where
  "to_discard pids pid \<longleftrightarrow> pids pid = None"

text \<open>\<open>trace_sched_process_fork\<close> of both programs.\<close>

definition trace_sched_process_fork :: "u32 \<times> u32 \<Rightarrow> pid_map \<Rightarrow> pid_map" where
  "trace_sched_process_fork = (\<lambda>(parent_pid, child_pid) pids.
     if to_discard pids parent_pid then pids else bpf_update MAX_PIDS False child_pid 1 pids)"

text \<open>The processes given on the command line, each added in user space.\<close>

definition add_pid :: "u32 \<Rightarrow> pid_map \<Rightarrow> pid_map" where
  "add_pid pid pids = bpf_update MAX_PIDS False pid 1 pids"

text \<open>What is meant to be traced: the processes given, and whatever they fork.\<close>

definition descend_step :: "u32 \<times> u32 \<Rightarrow> u32 set \<Rightarrow> u32 set" where
  "descend_step f S = (if fst f \<in> S then insert (snd f) S else S)"

definition descendants :: "(u32 \<times> u32) list \<Rightarrow> u32 set \<Rightarrow> u32 set" where
  "descendants forks S = fold descend_step forks S"

lemma descendants_simps [simp]:
  "descendants [] S = S" "descendants (f # forks) S = descendants forks (descend_step f S)"
  by (simp_all add: descendants_def)

lemma descend_step_mono: "S \<subseteq> T \<Longrightarrow> descend_step f S \<subseteq> descend_step f T"
  by (auto simp: descend_step_def)

lemma descend_step_grow: "S \<subseteq> descend_step f S"
  by (auto simp: descend_step_def)

lemma descendants_mono: "S \<subseteq> T \<Longrightarrow> descendants forks S \<subseteq> descendants forks T"
  by (induction forks arbitrary: S T) (simp_all add: descend_step_mono)

lemma descendants_grow: "S \<subseteq> descendants forks S"
  by (induction forks arbitrary: S) (simp, metis descend_step_grow descendants_simps(2) subset_trans)

lemma dom_bpf_update:
  "dom (bpf_update n False k v m) = (if k \<in> dom m \<or> card (dom m) < n then insert k (dom m) else dom m)"
  by (auto simp: bpf_update_def)

lemma dom_fork:
  "dom (trace_sched_process_fork f pids)
   = (if fst f \<in> dom pids \<and> (snd f \<in> dom pids \<or> card (dom pids) < MAX_PIDS)
      then insert (snd f) (dom pids) else dom pids)"
  by (cases f) (simp add: trace_sched_process_fork_def to_discard_def domIff dom_bpf_update)

lemma forks_bounded:
  "bounded MAX_PIDS pids \<Longrightarrow> bounded MAX_PIDS (fold trace_sched_process_fork forks pids)"
  by (induction forks arbitrary: pids) (auto simp: trace_sched_process_fork_def bounded_update split: prod.splits)

lemma forks_sound: "dom (fold trace_sched_process_fork forks pids) \<subseteq> descendants forks (dom pids)"
proof (induction forks arbitrary: pids)
  case Nil
  then show ?case by simp
next
  case (Cons f forks)
  have "dom (trace_sched_process_fork f pids) \<subseteq> descend_step f (dom pids)"
    by (auto simp: dom_fork descend_step_def)
  then have "descendants forks (dom (trace_sched_process_fork f pids)) \<subseteq> descendants (f # forks) (dom pids)"
    by (simp add: descendants_mono)
  with Cons.IH[of "trace_sched_process_fork f pids"] show ?case by simp
qed

text \<open>As long as all of them fit, exactly the descendants are traced.\<close>

lemma forks_complete:
  assumes "card (descendants forks (dom pids)) \<le> MAX_PIDS"
  shows "dom (fold trace_sched_process_fork forks pids) = descendants forks (dom pids)"
  using assms
proof (induction forks arbitrary: pids)
  case Nil
  then show ?case by simp
next
  case (Cons f forks)
  have "card (descend_step f (dom pids)) \<le> card (descendants (f # forks) (dom pids))"
    by (rule card_mono) (simp_all add: descendants_grow)
  then have fit: "card (descend_step f (dom pids)) \<le> MAX_PIDS" using Cons.prems by simp
  have S: "dom (trace_sched_process_fork f pids) = descend_step f (dom pids)"
  proof (cases "fst f \<in> dom pids \<and> snd f \<notin> dom pids")
    case True
    then have "card (dom pids) < MAX_PIDS" using fit by (simp add: descend_step_def)
    with True show ?thesis by (simp add: dom_fork descend_step_def)
  next
    case False
    then show ?thesis by (auto simp: dom_fork descend_step_def)
  qed
  then show ?case using Cons.IH[of "trace_sched_process_fork f pids"] Cons.prems by simp
qed

end
