(* ===== verification/Syscounter_Probe.thy ===== *)
theory Syscounter_Probe
  imports Bpf_Maps
begin

text \<open>
  \<open>bpf_programs/syscounter/syscounter.bpf.c\<close>: the programs that the kernel runs at the entry and
  exit of seven system calls. An entry stores a time per thread, the exit turns it into a count and
  a sum of times per process, command and call. What the helpers of the kernel tell a program about
  the running task is the record \<open>task\<close>.
\<close>

section \<open>State\<close>

definition MAX_OPS :: nat where
  "MAX_OPS = 7"

definition MAX_THREADS :: nat where
  "MAX_THREADS = 16"

record CounterKey =
  ck_command :: "byte list"
  ck_pid :: u32
  ck_op :: u32

record CounterValue =
  cv_count :: u64
  cv_time_sum :: u64

record Tracer =
  pids_to_consider :: pid_map
  enter_timestamps :: "u32 \<rightharpoonup> u64"
  counters :: "CounterKey \<rightharpoonup> CounterValue"

text \<open>
  \<open>struct file\<close>, with the one thing read of it. \<open>fd_array\<close> is what the kernel's table holds for a
  descriptor: \<open>None\<close> (\<open>NULL\<close>) if it is not open. \<open>BPF_CORE_READ\<close> through \<open>NULL\<close> gives 0.
\<close>

record kfile =
  i_mode :: u32

record task =
  t_pid :: u32
  t_tid :: u32
  t_comm :: "byte list"
  fd_array :: "int \<Rightarrow> kfile option"

section \<open>Regular files\<close>

definition get_file_from_fd :: "task \<Rightarrow> int \<Rightarrow> kfile option" where
  "get_file_from_fd t fd = (if fd < 0 then None else fd_array t fd)"

definition check_file_mode :: "u32 \<Rightarrow> bool" where
  "check_file_mode mode \<longleftrightarrow> and mode 0xF000 \<noteq> 0x8000"

definition check_file_mode_from_file :: "kfile option \<Rightarrow> bool" where
  "check_file_mode_from_file f = check_file_mode (case f of None \<Rightarrow> 0 | Some f \<Rightarrow> i_mode f)"

section \<open>Entry and exit\<close>

definition update_counter_enter :: "u32 \<Rightarrow> u64 \<Rightarrow> Tracer \<Rightarrow> Tracer" where
  "update_counter_enter tid timestamp tr =
     tr\<lparr>enter_timestamps := bpf_update (MAX_PIDS * MAX_THREADS) False tid timestamp (enter_timestamps tr)\<rparr>"

text \<open>
  The exit, one access to a map or one atomic addition per step, as programs on other CPUs can run in between.
  \<open>x_seen\<close> is what \<open>*enter_time\<close> gives when it is read after the entry has been deleted: the stored time,
  unless the kernel has used the element for another entry by then.
\<close>

record exit_call =
  x_pid :: u32
  x_tid :: u32
  x_op :: u32
  x_comm :: "byte list"
  x_now :: u64
  x_seen :: "u64 \<Rightarrow> u64"

datatype exit_phase =
    Exit_start
  | Exit_found u64
  | Exit_deleted u64
  | Exit_insert u64
  | Exit_add_time u64
  | Exit_add_count
  | Exit_done int

definition exit_key :: "exit_call \<Rightarrow> CounterKey" where
  "exit_key x = \<lparr>ck_command = x_comm x, ck_pid = x_pid x, ck_op = x_op x\<rparr>"

definition add_to_counter :: "(CounterValue \<Rightarrow> CounterValue) \<Rightarrow> CounterKey \<Rightarrow> Tracer \<Rightarrow> Tracer" where
  "add_to_counter f key tr = tr\<lparr>counters := (counters tr)(key := map_option f (counters tr key))\<rparr>"

fun exit_step :: "exit_call \<Rightarrow> exit_phase \<Rightarrow> Tracer \<Rightarrow> exit_phase \<times> Tracer" where
  "exit_step x Exit_start tr =
     (case enter_timestamps tr (x_tid x) of None \<Rightarrow> (Exit_done (-1), tr) | Some enter_time \<Rightarrow> (Exit_found enter_time, tr))"
| "exit_step x (Exit_found enter_time) tr =
     (Exit_deleted enter_time, tr\<lparr>enter_timestamps := bpf_delete (x_tid x) (enter_timestamps tr)\<rparr>)"
| "exit_step x (Exit_deleted enter_time) tr =
     (let delta = x_now x - x_seen x enter_time
      in ((case counters tr (exit_key x) of None \<Rightarrow> Exit_insert delta | Some v \<Rightarrow> Exit_add_time delta), tr))"
| "exit_step x (Exit_insert delta) tr =
     (Exit_done 0, tr\<lparr>counters :=
        bpf_update (MAX_PIDS * MAX_OPS) True (exit_key x) \<lparr>cv_count = 1, cv_time_sum = delta\<rparr> (counters tr)\<rparr>)"
| "exit_step x (Exit_add_time delta) tr =
     (Exit_add_count, add_to_counter (\<lambda>v. v\<lparr>cv_time_sum := cv_time_sum v + delta\<rparr>) (exit_key x) tr)"
| "exit_step x Exit_add_count tr =
     (Exit_done 0, add_to_counter (\<lambda>v. v\<lparr>cv_count := cv_count v + 1\<rparr>) (exit_key x) tr)"
| "exit_step x (Exit_done r) tr = (Exit_done r, tr)"

text \<open>
  The steps of one exit without interruption. The result is 0 if there was an entry time, -1 otherwise.
\<close>

definition update_counter_exit :: "u32 \<Rightarrow> u32 \<Rightarrow> u32 \<Rightarrow> byte list \<Rightarrow> u64 \<Rightarrow> Tracer \<Rightarrow> int \<times> Tracer" where
  "update_counter_exit pid tid oper comm timestamp tr =
     (let x = \<lparr>x_pid = pid, x_tid = tid, x_op = oper, x_comm = comm, x_now = timestamp, x_seen = (\<lambda>enter_time. enter_time)\<rparr>
      in case fold (\<lambda>_ (ph, tr). exit_step x ph tr) [0..<5] (Exit_start, tr) of
           (Exit_done r, tr) \<Rightarrow> (r, tr)
         | (_, tr) \<Rightarrow> (0, tr))"

lemma update_counter_exit_alone:
  "update_counter_exit pid tid oper comm timestamp tr =
     (let key = \<lparr>ck_command = comm, ck_pid = pid, ck_op = oper\<rparr>
      in case enter_timestamps tr tid of
           None \<Rightarrow> (-1, tr)
         | Some enter_time \<Rightarrow>
             (let tr = tr\<lparr>enter_timestamps := bpf_delete tid (enter_timestamps tr)\<rparr>;
                  delta = timestamp - enter_time
              in (0, tr\<lparr>counters :=
                   (case counters tr key of
                      None \<Rightarrow> bpf_update (MAX_PIDS * MAX_OPS) True key \<lparr>cv_count = 1, cv_time_sum = delta\<rparr> (counters tr)
                    | Some v \<Rightarrow> (counters tr)(key \<mapsto>
                        v\<lparr>cv_time_sum := cv_time_sum v + delta, cv_count := cv_count v + 1\<rparr>))\<rparr>)))"
proof -
  have five: "[0..<5] = [0, 1, 2, 3, 4 :: nat]" by (simp add: upt_rec)
  show ?thesis
    by (auto simp: update_counter_exit_def five exit_key_def add_to_counter_def Let_def split: option.splits)
qed

text \<open>An entry without a look at a descriptor, and one that is for regular files only.\<close>

definition enter_any :: "task \<Rightarrow> u64 \<Rightarrow> Tracer \<Rightarrow> Tracer" where
  "enter_any t now tr =
     (if to_discard (pids_to_consider tr) (t_pid t) then tr else update_counter_enter (t_tid t) now tr)"

definition enter_regular :: "task \<Rightarrow> u32 \<Rightarrow> u64 \<Rightarrow> Tracer \<Rightarrow> Tracer" where
  "enter_regular t fd now tr =
     (if to_discard (pids_to_consider tr) (t_pid t) then tr
      else if check_file_mode_from_file (get_file_from_fd t (sint fd)) then tr
      else update_counter_enter (t_tid t) now tr)"

definition exit_counted :: "task \<Rightarrow> u32 \<Rightarrow> u64 \<Rightarrow> Tracer \<Rightarrow> Tracer" where
  "exit_counted t syscall_id now tr =
     (if to_discard (pids_to_consider tr) (t_pid t) then tr
      else snd (update_counter_exit (t_pid t) (t_tid t) syscall_id (t_comm t) now tr))"

section \<open>The programs\<close>

definition sys_enter_openat :: "task \<Rightarrow> u64 \<Rightarrow> Tracer \<Rightarrow> Tracer" where
  "sys_enter_openat = enter_any"

text \<open>The descriptor is known only at the exit: if it is not a regular file, the entry time is dropped.\<close>

definition sys_exit_openat :: "task \<Rightarrow> u32 \<Rightarrow> int \<Rightarrow> u64 \<Rightarrow> Tracer \<Rightarrow> Tracer" where
  "sys_exit_openat t syscall_id retval now tr =
     (if to_discard (pids_to_consider tr) (t_pid t) then tr
      else let f = get_file_from_fd t (sint (word_of_int retval :: u32)) in
        if f \<noteq> None \<and> check_file_mode_from_file f
        then tr\<lparr>enter_timestamps := bpf_delete (t_tid t) (enter_timestamps tr)\<rparr>
        else snd (update_counter_exit (t_pid t) (t_tid t) syscall_id (t_comm t) now tr))"

definition sys_enter_write :: "task \<Rightarrow> u32 \<Rightarrow> u64 \<Rightarrow> Tracer \<Rightarrow> Tracer" where
  "sys_enter_write = enter_regular"

definition sys_exit_write :: "task \<Rightarrow> u32 \<Rightarrow> u64 \<Rightarrow> Tracer \<Rightarrow> Tracer" where
  "sys_exit_write = exit_counted"

definition sys_enter_pwrite64 :: "task \<Rightarrow> u32 \<Rightarrow> u64 \<Rightarrow> Tracer \<Rightarrow> Tracer" where
  "sys_enter_pwrite64 = enter_regular"

definition sys_exit_pwrite64 :: "task \<Rightarrow> u32 \<Rightarrow> u64 \<Rightarrow> Tracer \<Rightarrow> Tracer" where
  "sys_exit_pwrite64 = exit_counted"

definition sys_enter_read :: "task \<Rightarrow> u32 \<Rightarrow> u64 \<Rightarrow> Tracer \<Rightarrow> Tracer" where
  "sys_enter_read = enter_regular"

definition sys_exit_read :: "task \<Rightarrow> u32 \<Rightarrow> u64 \<Rightarrow> Tracer \<Rightarrow> Tracer" where
  "sys_exit_read = exit_counted"

definition sys_enter_pread64 :: "task \<Rightarrow> u32 \<Rightarrow> u64 \<Rightarrow> Tracer \<Rightarrow> Tracer" where
  "sys_enter_pread64 = enter_regular"

definition sys_exit_pread64 :: "task \<Rightarrow> u32 \<Rightarrow> u64 \<Rightarrow> Tracer \<Rightarrow> Tracer" where
  "sys_exit_pread64 = exit_counted"

definition sys_enter_close :: "task \<Rightarrow> u32 \<Rightarrow> u64 \<Rightarrow> Tracer \<Rightarrow> Tracer" where
  "sys_enter_close = enter_regular"

definition sys_exit_close :: "task \<Rightarrow> u32 \<Rightarrow> u64 \<Rightarrow> Tracer \<Rightarrow> Tracer" where
  "sys_exit_close = exit_counted"

definition sys_enter_unlink :: "task \<Rightarrow> u64 \<Rightarrow> Tracer \<Rightarrow> Tracer" where
  "sys_enter_unlink = enter_any"

definition sys_exit_unlink :: "task \<Rightarrow> u32 \<Rightarrow> u64 \<Rightarrow> Tracer \<Rightarrow> Tracer" where
  "sys_exit_unlink = exit_counted"

lemmas probe_defs = sys_enter_openat_def sys_enter_write_def sys_enter_pwrite64_def sys_enter_read_def
  sys_enter_pread64_def sys_enter_close_def sys_enter_unlink_def sys_exit_write_def sys_exit_pwrite64_def
  sys_exit_read_def sys_exit_pread64_def sys_exit_close_def sys_exit_unlink_def

section \<open>Events\<close>

datatype op = Op_openat | Op_write | Op_pwrite64 | Op_read | Op_pread64 | Op_close | Op_unlink

datatype event = Enter op u32 | Exit op int | Fork u32 u32

text \<open>The number of a call on x86-64, which the kernel passes as \<open>syscall_id\<close>.\<close>

primrec syscall_nr :: "op \<Rightarrow> u32" where
  "syscall_nr Op_openat = 257"
| "syscall_nr Op_write = 1"
| "syscall_nr Op_pwrite64 = 18"
| "syscall_nr Op_read = 0"
| "syscall_nr Op_pread64 = 17"
| "syscall_nr Op_close = 3"
| "syscall_nr Op_unlink = 87"

text \<open>Which program runs on which tracepoint.\<close>

fun probe :: "task \<Rightarrow> u64 \<Rightarrow> event \<Rightarrow> Tracer \<Rightarrow> Tracer" where
  "probe t now (Enter Op_openat fd) tr = sys_enter_openat t now tr"
| "probe t now (Enter Op_unlink fd) tr = sys_enter_unlink t now tr"
| "probe t now (Enter Op_write fd) tr = sys_enter_write t fd now tr"
| "probe t now (Enter Op_pwrite64 fd) tr = sys_enter_pwrite64 t fd now tr"
| "probe t now (Enter Op_read fd) tr = sys_enter_read t fd now tr"
| "probe t now (Enter Op_pread64 fd) tr = sys_enter_pread64 t fd now tr"
| "probe t now (Enter Op_close fd) tr = sys_enter_close t fd now tr"
| "probe t now (Exit Op_openat r) tr = sys_exit_openat t (syscall_nr Op_openat) r now tr"
| "probe t now (Exit Op_unlink r) tr = sys_exit_unlink t (syscall_nr Op_unlink) now tr"
| "probe t now (Exit Op_write r) tr = sys_exit_write t (syscall_nr Op_write) now tr"
| "probe t now (Exit Op_pwrite64 r) tr = sys_exit_pwrite64 t (syscall_nr Op_pwrite64) now tr"
| "probe t now (Exit Op_read r) tr = sys_exit_read t (syscall_nr Op_read) now tr"
| "probe t now (Exit Op_pread64 r) tr = sys_exit_pread64 t (syscall_nr Op_pread64) now tr"
| "probe t now (Exit Op_close r) tr = sys_exit_close t (syscall_nr Op_close) now tr"
| "probe t now (Fork parent child) tr =
     tr\<lparr>pids_to_consider := trace_sched_process_fork (parent, child) (pids_to_consider tr)\<rparr>"

definition run_events :: "(task \<times> u64 \<times> event) list \<Rightarrow> Tracer \<Rightarrow> Tracer" where
  "run_events evs tr = fold (\<lambda>(t, now, e). probe t now e) evs tr"

section \<open>The maps stay within their bounds\<close>

definition tracer_ok :: "Tracer \<Rightarrow> bool" where
  "tracer_ok tr \<longleftrightarrow> bounded MAX_PIDS (pids_to_consider tr)
     \<and> bounded (MAX_PIDS * MAX_THREADS) (enter_timestamps tr)
     \<and> bounded (MAX_PIDS * MAX_OPS) (counters tr)"

lemma update_counter_enter_ok: "tracer_ok tr \<Longrightarrow> tracer_ok (update_counter_enter tid now tr)"
  by (simp add: tracer_ok_def update_counter_enter_def bounded_update)

lemma update_counter_exit_ok: "tracer_ok tr \<Longrightarrow> tracer_ok (snd (update_counter_exit pid tid op comm now tr))"
  by (auto simp: tracer_ok_def update_counter_exit_alone Let_def bounded_update bounded_delete bounded_overwrite
      split: option.splits)

lemma enter_ok: "tracer_ok tr \<Longrightarrow> tracer_ok (enter_any t now tr)"
  "tracer_ok tr \<Longrightarrow> tracer_ok (enter_regular t fd now tr)"
  "tracer_ok tr \<Longrightarrow> tracer_ok (exit_counted t nr now tr)"
  by (simp_all add: enter_any_def enter_regular_def exit_counted_def update_counter_enter_ok update_counter_exit_ok)

lemma exit_openat_ok: "tracer_ok tr \<Longrightarrow> tracer_ok (sys_exit_openat t nr r now tr)"
  by (simp add: sys_exit_openat_def Let_def update_counter_exit_ok) (simp add: tracer_ok_def bounded_delete)

lemma fork_ok: "tracer_ok tr \<Longrightarrow>
    tracer_ok (tr\<lparr>pids_to_consider := trace_sched_process_fork (parent, child) (pids_to_consider tr)\<rparr>)"
  by (simp add: tracer_ok_def trace_sched_process_fork_def bounded_update)

lemma probe_ok: "tracer_ok tr \<Longrightarrow> tracer_ok (probe t now e tr)"
  by (cases "(t, now, e, tr)" rule: probe.cases) (simp_all add: probe_defs enter_ok exit_openat_ok fork_ok)

lemma run_events_ok: "tracer_ok tr \<Longrightarrow> tracer_ok (run_events evs tr)"
  unfolding run_events_def by (induction evs arbitrary: tr) (auto simp: probe_ok)

section \<open>What other threads cannot disturb\<close>

lemma probe_other_thread:
  assumes "t_tid t \<noteq> tid"
  shows "enter_timestamps (probe t now e tr) tid = enter_timestamps tr tid"
  using assms
  by (cases "(t, now, e, tr)" rule: probe.cases)
    (auto simp: probe_defs enter_any_def enter_regular_def exit_counted_def sys_exit_openat_def Let_def
      update_counter_enter_def update_counter_exit_alone bpf_update_def bpf_delete_def split: option.splits)

lemma probe_pids_grow: "dom (pids_to_consider tr) \<subseteq> dom (pids_to_consider (probe t now e tr))"
  by (cases "(t, now, e, tr)" rule: probe.cases)
    (auto simp: probe_defs enter_any_def enter_regular_def exit_counted_def sys_exit_openat_def Let_def
      update_counter_enter_def update_counter_exit_alone trace_sched_process_fork_def bpf_update_def
      split: option.splits)

lemma other_threads:
  assumes "\<forall>(t, now, e) \<in> set evs. t_tid t \<noteq> tid"
  shows "enter_timestamps (run_events evs tr) tid = enter_timestamps tr tid"
    and "dom (pids_to_consider tr) \<subseteq> dom (pids_to_consider (run_events evs tr))"
proof (atomize (full), use assms in \<open>induction evs arbitrary: tr\<close>)
  case Nil
  then show ?case by (simp add: run_events_def)
next
  case (Cons x evs)
  obtain t now e where x: "x = (t, now, e)" by (metis prod_cases3)
  have "run_events (x # evs) tr = run_events evs (probe t now e tr)" by (simp add: run_events_def x)
  moreover have "enter_timestamps (probe t now e tr) tid = enter_timestamps tr tid"
    by (rule probe_other_thread) (use Cons.prems x in auto)
  ultimately show ?case using Cons.IH[of "probe t now e tr"] Cons.prems probe_pids_grow[of tr t now e] by auto
qed

end
