(* ===== verification/Exit_Races.thy ===== *)
theory Exit_Races
  imports Syscounter_Probe
begin

text \<open>
  The exit programs of \<open>syscounter.bpf.c\<close> on several CPUs at once: their accesses to the maps
  interleave. Counts of a known key are exact in every interleaving, as they are added atomically; a key that is
  new to two programs at once loses the call of one of them.
\<close>

section \<open>Interleavings\<close>

type_synonym exits = "exit_phase list \<times> Tracer"

definition exits_step :: "exit_call list \<Rightarrow> nat \<Rightarrow> exits \<Rightarrow> exits" where
  "exits_step xs i = (\<lambda>(phs, tr).
     if i < length xs then let (ph, tr) = exit_step (xs ! i) (phs ! i) tr in (phs[i := ph], tr) else (phs, tr))"

definition run_exits :: "exit_call list \<Rightarrow> nat list \<Rightarrow> exits \<Rightarrow> exits" where
  "run_exits xs sched c = fold (exits_step xs) sched c"

fun exit_steps_left :: "exit_phase \<Rightarrow> nat" where
  "exit_steps_left Exit_start = 5"
| "exit_steps_left (Exit_found t) = 4"
| "exit_steps_left (Exit_deleted t) = 3"
| "exit_steps_left (Exit_add_time d) = 2"
| "exit_steps_left (Exit_insert d) = 1"
| "exit_steps_left Exit_add_count = 1"
| "exit_steps_left (Exit_done r) = 0"

section \<open>Known keys\<close>

text \<open>What an exit with the entry time \<open>t0\<close> knows in each phase, when its key is known.\<close>

fun exit_ok :: "exit_call \<Rightarrow> u64 \<Rightarrow> exit_phase \<Rightarrow> Tracer \<Rightarrow> bool" where
  "exit_ok x t0 Exit_start tr = (enter_timestamps tr (x_tid x) = Some t0)"
| "exit_ok x t0 (Exit_found t) tr = (t = t0)"
| "exit_ok x t0 (Exit_deleted t) tr = (t = t0)"
| "exit_ok x t0 (Exit_insert d) tr = False"
| "exit_ok x t0 (Exit_add_time d) tr = (d = x_now x - t0)"
| "exit_ok x t0 Exit_add_count tr = True"
| "exit_ok x t0 (Exit_done r) tr = (r = 0)"

text \<open>What it has added so far.\<close>

fun added_count :: "exit_phase \<Rightarrow> u64" where
  "added_count (Exit_done r) = 1"
| "added_count ph = 0"

fun added_time :: "exit_call \<Rightarrow> u64 \<Rightarrow> exit_phase \<Rightarrow> u64" where
  "added_time x t0 Exit_add_count = x_now x - t0"
| "added_time x t0 (Exit_done r) = x_now x - t0"
| "added_time x t0 ph = 0"

definition known_inv :: "exit_call list \<Rightarrow> u64 list \<Rightarrow> Tracer \<Rightarrow> exits \<Rightarrow> bool" where
  "known_inv xs t0 tr0 = (\<lambda>(phs, tr). length phs = length xs
     \<and> (\<forall>i < length xs. exit_ok (xs ! i) (t0 ! i) (phs ! i) tr)
     \<and> (\<forall>k. counters tr k = map_option (\<lambda>v.
          \<lparr>cv_count = cv_count v + (\<Sum>i<length xs. if exit_key (xs ! i) = k then added_count (phs ! i) else 0),
           cv_time_sum = cv_time_sum v
             + (\<Sum>i<length xs. if exit_key (xs ! i) = k then added_time (xs ! i) (t0 ! i) (phs ! i) else 0)\<rparr>) (counters tr0 k)))"

lemma sum_update:
  fixes g :: "nat \<Rightarrow> 'b \<Rightarrow> 'a::ab_group_add"
  assumes "i < n" "length phs = n"
  shows "(\<Sum>j<n. g j (phs[i := ph] ! j)) = (\<Sum>j<n. g j (phs ! j)) + (g i ph - g i (phs ! i))"
proof -
  have "(\<Sum>j\<in>{..<n} - {i}. g j (phs[i := ph] ! j)) = (\<Sum>j\<in>{..<n} - {i}. g j (phs ! j))"
    by (rule sum.cong) auto
  moreover have "phs[i := ph] ! i = ph" using assms by simp
  ultimately show ?thesis
    using sum.remove[of "{..<n}" i "\<lambda>j. g j (phs[i := ph] ! j)"] sum.remove[of "{..<n}" i "\<lambda>j. g j (phs ! j)"] assms(1)
    by (simp add: algebra_simps)
qed

text \<open>One step of one exit: its own part of the invariant, the entry times of others, and what it adds.\<close>

lemma exit_step_known:
  assumes ok: "exit_ok x t0 ph tr" and key: "counters tr (exit_key x) \<noteq> None" and seen: "x_seen x = (\<lambda>t. t)"
    and step: "exit_step x ph tr = (ph', tr')"
  shows "exit_ok x t0 ph' tr'" "\<And>tid. tid \<noteq> x_tid x \<Longrightarrow> enter_timestamps tr' tid = enter_timestamps tr tid"
    and "counters tr' k = (if k = exit_key x then map_option (\<lambda>v.
        \<lparr>cv_count = cv_count v + (added_count ph' - added_count ph),
         cv_time_sum = cv_time_sum v + (added_time x t0 ph' - added_time x t0 ph)\<rparr>) (counters tr k) else counters tr k)"
    and "exit_steps_left ph' = exit_steps_left ph - 1"
proof -
  have id: "map_option (\<lambda>v. \<lparr>cv_count = cv_count v, cv_time_sum = cv_time_sum v\<rparr>) m = m" for m
    by (cases m) simp_all
  have all: "exit_ok x t0 ph' tr' \<and> (\<forall>tid. tid \<noteq> x_tid x \<longrightarrow> enter_timestamps tr' tid = enter_timestamps tr tid)
    \<and> counters tr' k = (if k = exit_key x then map_option (\<lambda>v.
        \<lparr>cv_count = cv_count v + (added_count ph' - added_count ph),
         cv_time_sum = cv_time_sum v + (added_time x t0 ph' - added_time x t0 ph)\<rparr>) (counters tr k) else counters tr k)
    \<and> exit_steps_left ph' = exit_steps_left ph - 1"
    using ok key step seen
    by (cases ph) (auto simp: add_to_counter_def bpf_delete_def Let_def id option.map_comp o_def split: option.splits
        intro!: option.map_cong)
  then show "exit_ok x t0 ph' tr'" "\<And>tid. tid \<noteq> x_tid x \<Longrightarrow> enter_timestamps tr' tid = enter_timestamps tr tid"
    "counters tr' k = (if k = exit_key x then map_option (\<lambda>v.
        \<lparr>cv_count = cv_count v + (added_count ph' - added_count ph),
         cv_time_sum = cv_time_sum v + (added_time x t0 ph' - added_time x t0 ph)\<rparr>) (counters tr k) else counters tr k)"
    "exit_steps_left ph' = exit_steps_left ph - 1" by blast+
qed

lemma exit_ok_other:
  assumes "exit_ok x t0 ph tr" "enter_timestamps tr' (x_tid x) = enter_timestamps tr (x_tid x)"
  shows "exit_ok x t0 ph tr'"
  using assms by (cases ph) simp_all

lemma known_step:
  assumes inv: "known_inv xs t0 tr0 c" and tids: "distinct (map x_tid xs)" and seen: "\<forall>x \<in> set xs. x_seen x = (\<lambda>t. t)"
    and known: "\<forall>x \<in> set xs. counters tr0 (exit_key x) \<noteq> None"
  shows "known_inv xs t0 tr0 (exits_step xs i c)"
    and "j < length xs \<Longrightarrow> exit_steps_left (fst (exits_step xs i c) ! j) = exit_steps_left (fst c ! j) - of_bool (j = i)"
proof (atomize (full), cases "i < length xs")
  case False
  then show "known_inv xs t0 tr0 (exits_step xs i c)
    \<and> (j < length xs \<longrightarrow> exit_steps_left (fst (exits_step xs i c) ! j) = exit_steps_left (fst c ! j) - of_bool (j = i))"
    using inv by (auto simp: exits_step_def split: prod.splits)
next
  case True
  obtain phs tr where c: "c = (phs, tr)" by (cases c)
  obtain ph' tr' where step: "exit_step (xs ! i) (phs ! i) tr = (ph', tr')" by fastforce
  note v = inv[unfolded c known_inv_def prod.case]
  have key: "counters tr (exit_key (xs ! i)) \<noteq> None" using v known True by simp
  have ok: "exit_ok (xs ! i) (t0 ! i) (phs ! i) tr" using v True by blast
  have sn: "x_seen (xs ! i) = (\<lambda>t. t)" using seen True by simp
  note s = exit_step_known[OF ok key sn step]
  have run: "exits_step xs i c = (phs[i := ph'], tr')" using True step by (simp add: exits_step_def c)
  have len: "length phs = length xs" using v by blast
  have oks: "exit_ok (xs ! j) (t0 ! j) (phs[i := ph'] ! j) tr'" if j: "j < length xs" for j
  proof (cases "j = i")
    case True
    then show ?thesis using s(1) j len by simp
  next
    case False
    then have "x_tid (xs ! j) \<noteq> x_tid (xs ! i)"
      using tids j True by (metis length_map nth_eq_iff_index_eq nth_map)
    from s(2)[OF this] v j False show ?thesis by (auto intro: exit_ok_other)
  qed
  have cnt: "counters tr' k = map_option (\<lambda>v.
          \<lparr>cv_count = cv_count v + (\<Sum>j<length xs. if exit_key (xs ! j) = k then added_count (phs[i := ph'] ! j) else 0),
           cv_time_sum = cv_time_sum v
             + (\<Sum>j<length xs. if exit_key (xs ! j) = k then added_time (xs ! j) (t0 ! j) (phs[i := ph'] ! j) else 0)\<rparr>)
      (counters tr0 k)" for k
  proof -
    note a = sum_update[OF True len, of "\<lambda>j ph. if exit_key (xs ! j) = k then added_count ph else 0" ph']
      sum_update[OF True len, of "\<lambda>j ph. if exit_key (xs ! j) = k then added_time (xs ! j) (t0 ! j) ph else 0" ph']
    have "counters tr k = map_option (\<lambda>v.
          \<lparr>cv_count = cv_count v + (\<Sum>i<length xs. if exit_key (xs ! i) = k then added_count (phs ! i) else 0),
           cv_time_sum = cv_time_sum v
             + (\<Sum>i<length xs. if exit_key (xs ! i) = k then added_time (xs ! i) (t0 ! i) (phs ! i) else 0)\<rparr>) (counters tr0 k)"
      using v by blast
    then show ?thesis
      unfolding a s(3) by (cases "counters tr0 k"; cases "exit_key (xs ! i) = k") (simp_all add: add.assoc)
  qed
  have "known_inv xs t0 tr0 (phs[i := ph'], tr')"
    unfolding known_inv_def prod.case using len oks cnt by simp
  moreover have "exit_steps_left (phs[i := ph'] ! j) = exit_steps_left (phs ! j) - of_bool (j = i)" if "j < length xs"
    using that len s(4) by (cases "j = i") simp_all
  ultimately show "known_inv xs t0 tr0 (exits_step xs i c)
    \<and> (j < length xs \<longrightarrow> exit_steps_left (fst (exits_step xs i c) ! j) = exit_steps_left (fst c ! j) - of_bool (j = i))"
    by (simp add: run[unfolded c] c)
qed

text \<open>In every interleaving of complete exits, every counter gets one for each exit with its key, and the sum of their times.\<close>

lemma known_keys_exact:
  assumes tids: "distinct (map x_tid xs)" and seen: "\<forall>x \<in> set xs. x_seen x = (\<lambda>t. t)"
    and known: "\<forall>x \<in> set xs. counters tr (exit_key x) \<noteq> None" and len: "length t0 = length xs"
    and entries: "\<forall>i < length xs. enter_timestamps tr (x_tid (xs ! i)) = Some (t0 ! i)"
    and complete: "\<forall>i < length xs. 5 \<le> count_list sched i"
  shows "\<exists>tr'. run_exits xs sched (replicate (length xs) Exit_start, tr) = (replicate (length xs) (Exit_done 0), tr')
    \<and> (\<forall>k. counters tr' k = map_option (\<lambda>v.
        \<lparr>cv_count = cv_count v + (\<Sum>i<length xs. if exit_key (xs ! i) = k then 1 else 0),
         cv_time_sum = cv_time_sum v + (\<Sum>i<length xs. if exit_key (xs ! i) = k then x_now (xs ! i) - t0 ! i else 0)\<rparr>)
      (counters tr k))"
proof -
  have run: "known_inv xs t0 tr c \<Longrightarrow> known_inv xs t0 tr (run_exits xs sched c)
      \<and> (\<forall>j < length xs. exit_steps_left (fst (run_exits xs sched c) ! j) = exit_steps_left (fst c ! j) - count_list sched j)"
    for c sched
  proof (induction sched arbitrary: c)
    case Nil
    then show ?case by (simp add: run_exits_def)
  next
    case (Cons i sched)
    have "run_exits xs (i # sched) c = run_exits xs sched (exits_step xs i c)" by (simp add: run_exits_def)
    then show ?case
      using Cons.IH[OF known_step(1)[OF Cons.prems tids seen known]] known_step(2)[OF Cons.prems tids seen known]
      by auto
  qed
  let ?c = "(replicate (length xs) Exit_start, tr)"
  have "map_option (\<lambda>v. \<lparr>cv_count = cv_count v, cv_time_sum = cv_time_sum v\<rparr>) m = m" for m
    by (cases m) simp_all
  then have "known_inv xs t0 tr ?c" using entries by (simp add: known_inv_def sum.neutral)
  note r = run[OF this, of sched]
  obtain phs tr' where c: "run_exits xs sched ?c = (phs, tr')" by fastforce
  note v = r[THEN conjunct1, unfolded c known_inv_def prod.case]
  have "phs ! j = Exit_done 0" if j: "j < length xs" for j
  proof -
    have "exit_steps_left (phs ! j) = 0" using r complete j by (auto simp: c)
    then obtain e where "phs ! j = Exit_done e" by (cases "phs ! j") simp_all
    with v j show ?thesis by force
  qed
  then have phs: "phs = replicate (length xs) (Exit_done 0)" using v by (intro nth_equalityI) simp_all
  with v show ?thesis unfolding c by (intro exI[of _ tr']) (simp cong: sum.cong_simp if_cong)
qed

section \<open>New keys\<close>

abbreviation one_after_the_other :: "nat list" where
  "one_after_the_other \<equiv> [0, 0, 0, 0, 0, 1, 1, 1, 1, 1]"

abbreviation both_look_first :: "nat list" where
  "both_look_first \<equiv> [0, 0, 0, 1, 1, 1, 0, 0, 1, 1]"

text \<open>
  C22: Two exit programs for the same process, command and call run on two CPUs. If the counter exists, both calls are
  counted with both times, in every interleaving of their accesses to the maps. If it does not, this is so when one runs
  after the other, but there is an interleaving in which both programs look the counter up before either has
  inserted it: the second insertion is refused (\<open>BPF_NOEXIST\<close>), its result is not looked at, both programs return 0, and
  the second call is missing from count and time. The entry times are taken to be intact when they are read after their deletion.
\<close>

theorem concurrent_exits:
  assumes "x_tid x \<noteq> x_tid y" "exit_key x = k" "exit_key y = k" "x_seen x = (\<lambda>t. t)" "x_seen y = (\<lambda>t. t)"
    and "enter_timestamps tr (x_tid x) = Some tx" "enter_timestamps tr (x_tid y) = Some ty"
    and "counters tr k \<noteq> None \<or> card (dom (counters tr)) < MAX_PIDS * MAX_OPS"
    and "run = (\<lambda>sched. run_exits [x, y] sched ([Exit_start, Exit_start], tr))"
    and "counted_as = (\<lambda>c v. fst c = [Exit_done 0, Exit_done 0] \<and> counters (snd c) = (counters tr)(k \<mapsto> v))"
  shows "case counters tr k of
      Some v \<Rightarrow> \<forall>sched. 5 \<le> count_list sched 0 \<and> 5 \<le> count_list sched 1 \<longrightarrow> counted_as (run sched)
        \<lparr>cv_count = cv_count v + 2, cv_time_sum = cv_time_sum v + (x_now x - tx) + (x_now y - ty)\<rparr>
    | None \<Rightarrow> counted_as (run one_after_the_other) \<lparr>cv_count = 2, cv_time_sum = (x_now x - tx) + (x_now y - ty)\<rparr>
        \<and> counted_as (run both_look_first) \<lparr>cv_count = 1, cv_time_sum = x_now x - tx\<rparr>"
proof (cases "counters tr k")
  case None
  have "card (dom (counters tr)) < MAX_PIDS * MAX_OPS" using assms(8) None by simp
  then show ?thesis using assms(1-7) None
    by (simp add: assms(9,10) run_exits_def exits_step_def bpf_delete_def bpf_update_def add_to_counter_def nth_Cons' Let_def)
next
  case (Some v)
  have "counted_as (run sched) \<lparr>cv_count = cv_count v + 2, cv_time_sum = cv_time_sum v + (x_now x - tx) + (x_now y - ty)\<rparr>"
    if "5 \<le> count_list sched 0" "5 \<le> count_list sched 1" for sched
  proof -
    have len: "length [tx, ty] = length [x, y]" "length [x, y] = 2" by simp_all
    have two: "i = 0 \<or> i = 1" if "i < length [x, y]" for i using that by auto
    have tids: "distinct (map x_tid [x, y])" using assms(1) by simp
    have seen: "\<forall>z \<in> set [x, y]. x_seen z = (\<lambda>t. t)" using assms(4,5) by simp
    have known: "\<forall>z \<in> set [x, y]. counters tr (exit_key z) \<noteq> None" using assms(2,3) Some by simp
    have entries: "\<forall>i < length [x, y]. enter_timestamps tr (x_tid ([x, y] ! i)) = Some ([tx, ty] ! i)"
      using assms(6,7) two by fastforce
    have complete: "\<forall>i < length [x, y]. 5 \<le> count_list sched i" using that two by blast
    obtain tr' where tr': "run_exits [x, y] sched (replicate (length [x, y]) Exit_start, tr) = (replicate (length [x, y]) (Exit_done 0), tr')"
      "\<forall>k'. counters tr' k' = map_option (\<lambda>v.
        \<lparr>cv_count = cv_count v + (\<Sum>i<length [x, y]. if exit_key ([x, y] ! i) = k' then 1 else 0),
         cv_time_sum = cv_time_sum v + (\<Sum>i<length [x, y]. if exit_key ([x, y] ! i) = k' then x_now ([x, y] ! i) - [tx, ty] ! i else 0)\<rparr>)
      (counters tr k')"
      using known_keys_exact[OF tids seen known len(1) entries complete] by blast
    have "counters tr' k' = ((counters tr)(k \<mapsto>
        \<lparr>cv_count = cv_count v + 2, cv_time_sum = cv_time_sum v + (x_now x - tx) + (x_now y - ty)\<rparr>)) k'" for k'
      using tr'(2) Some assms(2,3) by (cases "counters tr k'") (auto simp: numeral_2_eq_2 add.assoc)
    then have "counters tr' = (counters tr)(k \<mapsto>
        \<lparr>cv_count = cv_count v + 2, cv_time_sum = cv_time_sum v + (x_now x - tx) + (x_now y - ty)\<rparr>)" by (rule ext)
    with tr'(1) show ?thesis by (simp add: assms(9,10))
  qed
  with Some show ?thesis by simp
qed

text \<open>Two threads of process 10 leave \<open>read\<close>.\<close>

definition demo_exit :: "u32 \<Rightarrow> u64 \<Rightarrow> exit_call" where
  "demo_exit tid now = \<lparr>x_pid = 10, x_tid = tid, x_op = 0, x_comm = [97], x_now = now, x_seen = (\<lambda>t. t)\<rparr>"

definition demo_entered :: Tracer where
  "demo_entered = \<lparr>pids_to_consider = [10 \<mapsto> 1], enter_timestamps = [1 \<mapsto> 5, 2 \<mapsto> 6], counters = Map.empty\<rparr>"

theorem concurrent_exits_witness:
  "let run = \<lambda>sched. counters (snd (run_exits [demo_exit 1 9, demo_exit 2 8] sched ([Exit_start, Exit_start], demo_entered)));
       k = \<lparr>ck_command = [97], ck_pid = 10, ck_op = 0\<rparr>
   in run one_after_the_other = [k \<mapsto> \<lparr>cv_count = 2, cv_time_sum = 6\<rparr>]
     \<and> run both_look_first = [k \<mapsto> \<lparr>cv_count = 1, cv_time_sum = 4\<rparr>]"
  using concurrent_exits[of "demo_exit 1 9" "demo_exit 2 8" "\<lparr>ck_command = [97], ck_pid = 10, ck_op = 0\<rparr>" demo_entered 5 6, OF _ _ _ _ _ _ _ _ refl refl]
  by (simp add: demo_exit_def demo_entered_def exit_key_def MAX_PIDS_def MAX_OPS_def Let_def)

end
