(* ===== verification/C_Numbers.thy ===== *)
theory C_Numbers
  imports Dedup_Prelude
begin

text \<open>
  Decimal numbers in C strings, as the tracing programs read and print them: \<open>strtol\<close> with base 10,
  \<open>atoi\<close>, \<open>%d\<close>, \<open>%llu\<close> and padding. Strings are byte lists without the terminating NUL.
\<close>

text \<open>The bytes of a string literal.\<close>

definition ascii :: "string \<Rightarrow> byte list" where
  "ascii s = map of_char s"

section \<open>Reading\<close>

definition is_space :: "byte \<Rightarrow> bool" where
  "is_space b \<longleftrightarrow> b = 32 \<or> 9 \<le> b \<and> b \<le> 13"

definition is_digit :: "byte \<Rightarrow> bool" where
  "is_digit b \<longleftrightarrow> 48 \<le> b \<and> b \<le> 57"

definition digit_val :: "byte \<Rightarrow> int" where
  "digit_val b = int (unat b) - 48"

definition number_val :: "byte list \<Rightarrow> int" where
  "number_val ds = foldl (\<lambda>n d. 10 * n + digit_val d) 0 ds"

definition INT_MAX :: nat where
  "INT_MAX = 2147483647"

definition LONG_MAX :: int where
  "LONG_MAX = 2 ^ 63 - 1"

text \<open>
  The value (clamped to \<open>long\<close>), the rest of the string (\<open>endptr\<close>; the whole string if there is
  no number), and whether \<open>errno\<close> is set to \<open>ERANGE\<close>.
\<close>

definition strtol10 :: "byte list \<Rightarrow> int \<times> byte list \<times> bool" where
  "strtol10 s =
     (let s1 = dropWhile is_space s;
          neg = (s1 \<noteq> [] \<and> hd s1 = 45);
          s2 = (if s1 \<noteq> [] \<and> (hd s1 = 45 \<or> hd s1 = 43) then tl s1 else s1);
          ds = takeWhile is_digit s2;
          v = (if neg then - number_val ds else number_val ds)
      in if ds = [] then (0, s, False)
         else if v > LONG_MAX then (LONG_MAX, dropWhile is_digit s2, True)
         else if v < - LONG_MAX - 1 then (- LONG_MAX - 1, dropWhile is_digit s2, True)
         else (v, dropWhile is_digit s2, False))"

text \<open>\<open>(int) strtol(s, NULL, 10)\<close>, which is what glibc's \<open>atoi\<close> is.\<close>

definition atoi :: "byte list \<Rightarrow> u32" where
  "atoi s = word_of_int (fst (strtol10 s))"

section \<open>Printing\<close>

fun digits :: "nat \<Rightarrow> byte list" where
  "digits n = (if n < 10 then [of_nat (48 + n)] else digits (n div 10) @ [of_nat (48 + n mod 10)])"

declare digits.simps [simp del]

text \<open>\<open>%d\<close> and \<open>%ld\<close>.\<close>

definition print_int :: "int \<Rightarrow> byte list" where
  "print_int i = (if i < 0 then 45 # digits (nat (- i)) else digits (nat i))"

text \<open>\<open>%llu\<close>.\<close>

definition print_u64 :: "u64 \<Rightarrow> byte list" where
  "print_u64 w = digits (unat w)"

text \<open>Padding on the right, as \<open>%-20s\<close> does.\<close>

definition pad_right :: "nat \<Rightarrow> byte list \<Rightarrow> byte list" where
  "pad_right n s = s @ replicate (n - length s) 32"

lemma of_nat_digit: "d < 10 \<Longrightarrow> is_digit (of_nat (48 + d)) \<and> digit_val (of_nat (48 + d)) = int d"
proof -
  assume "d < 10"
  then have "unat (of_nat (48 + d) :: byte) = 48 + d"
    by (simp add: unat_of_nat take_bit_eq_mod del: of_nat_add)
  with \<open>d < 10\<close> show ?thesis
    by (simp add: is_digit_def digit_val_def word_le_nat_alt del: of_nat_add)
qed

lemma digits_are_digits: "\<forall>b \<in> set (digits n). is_digit b"
proof (induction n rule: digits.induct)
  case (1 n)
  then show ?case using of_nat_digit by (subst digits.simps) (auto simp del: of_nat_add)
qed

lemma digits_nonempty [simp]: "digits n \<noteq> []"
  by (subst digits.simps) simp

lemma digits_length: "n < 10 ^ Suc m \<Longrightarrow> length (digits n) \<le> Suc m"
proof (induction m arbitrary: n)
  case 0
  then show ?case by (subst digits.simps) simp
next
  case (Suc m)
  show ?case
  proof (cases "n < 10")
    case False
    have "n div 10 < 10 ^ Suc m" using Suc.prems by (simp add: less_mult_imp_div_less)
    with Suc.IH[of "n div 10"] False show ?thesis by (subst digits.simps) simp
  qed (subst digits.simps, simp)
qed

lemma number_val_snoc: "number_val (ds @ [d]) = 10 * number_val ds + digit_val d"
  by (simp add: number_val_def)

lemma number_val_digits: "number_val (digits n) = int n"
proof (induction n rule: digits.induct)
  case (1 n)
  show ?case
  proof (cases "n < 10")
    case True
    then show ?thesis using of_nat_digit[of n] by (subst digits.simps) (simp add: number_val_def del: of_nat_add)
  next
    case False
    have "10 * int (n div 10) + int (n mod 10) = int n" by presburger
    with False 1 of_nat_digit[of "n mod 10"] show ?thesis
      by (subst digits.simps) (simp add: number_val_snoc del: of_nat_add)
  qed
qed

lemma digits_inj: "digits m = digits n \<longleftrightarrow> m = n"
  by (metis number_val_digits of_nat_eq_iff)

text \<open>Reading a printed number gives it back and stops at its end.\<close>

lemma strtol_digits:
  assumes "int n \<le> LONG_MAX"
  shows "strtol10 (digits n) = (int n, [], False)"
proof -
  obtain d ds where d: "digits n = d # ds" "is_digit d"
    using digits_are_digits[of n] digits_nonempty[of n] by (cases "digits n") auto
  have "\<not> is_space d" "d \<noteq> 45" "d \<noteq> 43"
    using d(2) by (auto simp: is_space_def is_digit_def word_le_nat_alt)
  moreover have "takeWhile is_digit (digits n) = digits n" "dropWhile is_digit (digits n) = []"
    using digits_are_digits[of n] by (auto simp: takeWhile_eq_all_conv dropWhile_eq_Nil_conv)
  ultimately show ?thesis
    using assms number_val_digits[of n] unfolding strtol10_def Let_def d(1) by (simp add: LONG_MAX_def)
qed

text \<open>A printed number ends at its last separator, so labels of the form \<open>name-number\<close> are unambiguous.\<close>

lemma dash_label_inj:
  "a @ [45] @ digits m = b @ [45] @ digits n \<longleftrightarrow> a = b \<and> m = n"
proof
  assume eq: "a @ [45] @ digits m = b @ [45] @ digits n"
  have nd: "takeWhile is_digit (rev (x @ [45] @ digits k)) = rev (digits k)" for x and k :: nat
  proof -
    have "\<not> is_digit 45" by (simp add: is_digit_def)
    moreover have "\<And>b. b \<in> set (rev (digits k)) \<Longrightarrow> is_digit b" using digits_are_digits[of k] by simp
    ultimately show ?thesis
      using takeWhile_append2[of "rev (digits k)" is_digit "45 # rev x"] by simp
  qed
  have "rev (digits m) = rev (digits n)" using nd[of a m] nd[of b n] unfolding eq by metis
  then have "m = n" by (simp add: digits_inj)
  with eq show "a = b \<and> m = n" by simp
qed simp

end
