(* ===== verification/Syscounter_Report.thy ===== *)
theory Syscounter_Report
  imports Syscounter_Probe C_Numbers "HOL-Library.Signed_Division"
begin

text \<open>
  \<open>bpf_programs/syscounter/syscounter.c\<close>: the command line, and the report that is built from the
  map of counters when the tool is interrupted. Text is modelled as the bytes printed. The arrays
  that are allocated for a fixed number of elements can be overrun, which has no result (\<open>None\<close>).
\<close>

section \<open>The command line\<close>

text \<open>
  The processes to trace and the name of the CSV file: the last of at least two arguments is the
  file if it does not end where a number ends. \<open>argv\<close> is without the program's name.
\<close>

definition split_args :: "byte list list \<Rightarrow> u32 list \<times> byte list option" where
  "split_args argv =
     (if length argv \<ge> 2 \<and> fst (snd (strtol10 (last argv))) \<noteq> []
      then (map atoi (butlast argv), Some (last argv)) else (map atoi argv, None))"

definition initial_tracer :: "u32 list \<Rightarrow> Tracer" where
  "initial_tracer pids = \<lparr>pids_to_consider = fold add_pid pids Map.empty,
     enter_timestamps = Map.empty, counters = Map.empty\<rparr>"

section \<open>Reading the counters\<close>

type_synonym entry = "CounterKey \<times> CounterValue"

text \<open>
  \<open>order\<close> is the order in which \<open>bpf_map__get_next_key\<close> returns the keys; a key without an entry is
  skipped. The two arrays are one list of pairs.
\<close>

definition get_values_from_counter_map :: "CounterKey list \<Rightarrow> (CounterKey \<rightharpoonup> CounterValue) \<Rightarrow> entry list" where
  "get_values_from_counter_map order m =
     concat (map (\<lambda>k. case m k of None \<Rightarrow> [] | Some v \<Rightarrow> [(k, v)]) order)"

definition COMM_STR_LEN :: nat where
  "COMM_STR_LEN = 32"

text \<open>\<open>snprintf(val, sizeof(val), "%s-%d", command, pid)\<close>.\<close>

definition label :: "CounterKey \<Rightarrow> byte list" where
  "label k = take (COMM_STR_LEN - 1) (ck_command k @ [45] @ print_int (sint (ck_pid k)))"

text \<open>\<open>pid_list\<close> has room for \<open>MAX_PIDS\<close> strings, \<open>op_list\<close> for \<open>MAX_OPS\<close> numbers.\<close>

fun get_unique_pid_values :: "entry list \<Rightarrow> byte list list \<Rightarrow> byte list list option" where
  "get_unique_pid_values [] pid_list = Some pid_list"
| "get_unique_pid_values ((k, v) # es) pid_list =
     (if label k \<in> set pid_list then get_unique_pid_values es pid_list
      else if length pid_list < MAX_PIDS then get_unique_pid_values es (pid_list @ [label k])
      else None)"

fun get_unique_op_values :: "entry list \<Rightarrow> u32 list \<Rightarrow> u32 list option" where
  "get_unique_op_values [] op_list = Some op_list"
| "get_unique_op_values ((k, v) # es) op_list =
     (if ck_op k \<in> set op_list then get_unique_op_values es op_list
      else if length op_list < MAX_OPS then get_unique_op_values es (op_list @ [ck_op k])
      else None)"

section \<open>The table\<close>

text \<open>
  The totals are \<open>long\<close>, whose overflow C leaves undefined; the model keeps the 64 bits and wraps around.
\<close>

definition add_value :: "CounterValue \<Rightarrow> CounterValue \<Rightarrow> CounterValue" where
  "add_value a b = a\<lparr>cv_count := cv_count a + cv_count b, cv_time_sum := cv_time_sum a + cv_time_sum b\<rparr>"

definition zero_value :: CounterValue where
  "zero_value = \<lparr>cv_count = 0, cv_time_sum = 0\<rparr>"

text \<open>
  The innermost loop over the entries for one label and one call: the value of the cell (the last
  entry found) and the new total of the call.
\<close>

definition cell_loop :: "entry list \<Rightarrow> byte list \<Rightarrow> u32 \<Rightarrow> CounterValue \<Rightarrow> CounterValue \<times> CounterValue" where
  "cell_loop es lab oper tot =
     fold (\<lambda>(k, v) (val, tot). if label k = lab \<and> ck_op k = oper then (v, add_value tot v) else (val, tot))
       es (zero_value, tot)"

text \<open>One row: its cells, and the totals after it.\<close>

fun row_loop :: "entry list \<Rightarrow> byte list \<Rightarrow> u32 list \<Rightarrow> CounterValue list \<Rightarrow> CounterValue list \<times> CounterValue list" where
  "row_loop es lab (oper # ops) (tot # totals) =
     (let (val, tot) = cell_loop es lab oper tot;
          (vals, totals) = row_loop es lab ops totals
      in (val # vals, tot # totals))"
| "row_loop es lab ops totals = ([], totals)"

fun table_loop :: "entry list \<Rightarrow> byte list list \<Rightarrow> u32 list \<Rightarrow> CounterValue list
    \<Rightarrow> (byte list \<times> CounterValue list) list \<times> CounterValue list" where
  "table_loop es [] ops totals = ([], totals)"
| "table_loop es (lab # labs) ops totals =
     (let (vals, totals) = row_loop es lab ops totals;
          (rows, totals) = table_loop es labs ops totals
      in ((lab, vals) # rows, totals))"

text \<open>\<open>val.count ? val.time_sum / val.count : 0\<close>, on \<open>long\<close>.\<close>

definition average :: "CounterValue \<Rightarrow> int" where
  "average v = (if cv_count v = 0 then 0 else sint (cv_time_sum v) sdiv sint (cv_count v))"

section \<open>Printing\<close>

text \<open>\<open>%06ld\<close>: zeros after the sign, up to six characters.\<close>

definition print_padded :: "int \<Rightarrow> byte list" where
  "print_padded i =
     (if i < 0 then 45 # replicate (5 - length (digits (nat (- i)))) 48 @ digits (nat (- i))
      else replicate (6 - length (digits (nat i))) 48 @ digits (nat i))"

text \<open>\<open>snprintf(cell, 20, "%06ldx | %ldns", count, avg)\<close> printed with \<open>%-20s\<close>.\<close>

definition print_cell :: "CounterValue \<Rightarrow> byte list" where
  "print_cell v = pad_right 20
     (take 19 (print_padded (sint (cv_count v)) @ ascii ''x | '' @ print_int (average v) @ ascii ''ns''))"

definition newline :: "byte list" where "newline = [10]"

text \<open>\<open>resolve\<close> is \<open>resolve_syscall\<close>. The arrays of the totals have \<open>MAX_OPS\<close> elements.\<close>

definition print_results :: "(u32 \<Rightarrow> byte list) \<Rightarrow> entry list \<Rightarrow> byte list list \<Rightarrow> u32 list \<Rightarrow> byte list" where
  "print_results resolve es pid_list op_list =
     (let (rows, totals) = table_loop es pid_list op_list (replicate (length op_list) zero_value);
          rule_line = replicate (COMM_STR_LEN + length op_list * 20) 45 @ newline
      in pad_right 32 (ascii ''PID'' @ [92] @ ascii ''OP'') @ concat (map (\<lambda>oper. pad_right 20 (resolve oper)) op_list) @ newline
         @ rule_line
         @ concat (map (\<lambda>(lab, vals). pad_right 32 lab @ concat (map print_cell vals) @ newline) rows)
         @ rule_line
         @ pad_right 32 (ascii ''Total'') @ concat (map print_cell totals) @ newline)"

definition csv_line :: "(u32 \<Rightarrow> byte list) \<Rightarrow> byte list \<Rightarrow> u32 \<times> CounterValue \<Rightarrow> byte list" where
  "csv_line resolve lab = (\<lambda>(oper, v).
     if sint (cv_count v) > 0
     then lab @ [44] @ resolve oper @ [44] @ print_int (sint (cv_count v)) @ [44]
          @ print_int (sint (cv_time_sum v) sdiv sint (cv_count v)) @ newline
     else [])"

fun csv_totals :: "CounterValue list \<Rightarrow> byte list" where
  "csv_totals [] = []"
| "csv_totals (v # vs) =
     print_int (sint (cv_count v)) @ [44] @ print_int (average v) @ (if vs = [] then newline else [44]) @ csv_totals vs"

definition write_results_to_csv :: "(u32 \<Rightarrow> byte list) \<Rightarrow> entry list \<Rightarrow> byte list list \<Rightarrow> u32 list \<Rightarrow> byte list" where
  "write_results_to_csv resolve es pid_list op_list =
     (let (rows, totals) = table_loop es pid_list op_list (replicate (length op_list) zero_value)
      in ascii ''PID-Command,Syscall Name,Count,Avg Time (ns)'' @ newline
         @ concat (map (\<lambda>(lab, vals). concat (map (csv_line resolve lab) (zip op_list vals))) rows)
         @ ascii ''TOTAL,'' @ csv_totals totals)"

text \<open>The end of \<open>main\<close>: the table, and the CSV file if one was named and can be opened.\<close>

definition report ::
  "(u32 \<Rightarrow> byte list) \<Rightarrow> CounterKey list \<Rightarrow> Tracer \<Rightarrow> byte list option \<Rightarrow> bool
   \<Rightarrow> (byte list \<times> byte list option) option" where
  "report resolve order tr csv_filename open_ok =
     (let es = get_values_from_counter_map order (counters tr)
      in if es = [] then Some ([], None)
         else do {
           pid_list \<leftarrow> get_unique_pid_values es [];
           op_list \<leftarrow> get_unique_op_values es [];
           let table = print_results resolve es pid_list op_list;
           Some (table, if csv_filename \<noteq> None \<and> open_ok
                        then Some (write_results_to_csv resolve es pid_list op_list) else None)
         })"

section \<open>The program\<close>

text \<open>
  \<open>main\<close>. Where the programs are not loaded or no process is given, the returned \<open>err\<close> was never
  assigned; where they cannot be attached, the object is destroyed twice. Both are undefined. The
  events are those until the interrupt. The results are the text of the table, the CSV file and the
  exit status.
\<close>

definition syscounter_main ::
  "(u32 \<Rightarrow> byte list) \<Rightarrow> bool \<Rightarrow> bool \<Rightarrow> byte list list \<Rightarrow> (task \<times> u64 \<times> event) list
   \<Rightarrow> CounterKey list \<Rightarrow> bool \<Rightarrow> (byte list \<times> byte list option \<times> int) option" where
  "syscounter_main resolve loaded attached argv evs order open_ok =
     (if \<not> loaded then None
      else if argv = [] then None
      else let (pids, csv_filename) = split_args argv;
               tr = initial_tracer pids
           in if \<not> attached then None
              else do {
                (table, csv) \<leftarrow> report resolve order (run_events evs tr) csv_filename open_ok;
                Some (table, csv, 0)
              })"

end
