(* ===== verification/Report_Properties.thy ===== *)
theory Report_Properties
  imports Syscounter_Properties
begin

text \<open>
  The report of the system-call counter: every entry of the map of counters is in exactly one cell
  and in exactly one total, the array of calls is large enough, and the array of labels is not.
\<close>

section \<open>The lists of labels and calls\<close>

lemma unique_pids:
  assumes "distinct acc" "length acc \<le> MAX_PIDS"
  shows "get_unique_pid_values es acc = Some labs \<Longrightarrow> distinct labs \<and> set labs = set acc \<union> label ` fst ` set es"
    and "get_unique_pid_values es acc = None \<longleftrightarrow> MAX_PIDS < card (set acc \<union> label ` fst ` set es)"
proof (atomize (full), use assms in \<open>induction es acc rule: get_unique_pid_values.induct\<close>)
  case (1 acc)
  then show ?case by (auto simp: distinct_card)
next
  case (2 k v es acc)
  consider (old) "label k \<in> set acc" | (room) "label k \<notin> set acc" "length acc < MAX_PIDS"
    | (full) "label k \<notin> set acc" "length acc = MAX_PIDS" using 2(4) by linarith
  then show ?case
  proof cases
    case old
    then have "set acc \<union> label ` fst ` set ((k, v) # es) = set acc \<union> label ` fst ` set es" by auto
    with 2(1)[OF old 2(3,4)] old show ?thesis by simp
  next
    case room
    then have "set acc \<union> label ` fst ` set ((k, v) # es) = set (acc @ [label k]) \<union> label ` fst ` set es" by auto
    with 2(2)[OF room] 2(3) room show ?thesis by simp
  next
    case full
    have "Suc (length acc) = card (set (acc @ [label k]))" using full 2(3) by (simp add: distinct_card)
    also have "\<dots> \<le> card (set acc \<union> label ` fst ` set ((k, v) # es))" by (rule card_mono) auto
    finally show ?thesis using full by simp
  qed
qed

lemma unique_ops:
  assumes "distinct acc" "length acc \<le> MAX_OPS"
  shows "get_unique_op_values es acc = Some ops \<Longrightarrow> distinct ops \<and> set ops = set acc \<union> ck_op ` fst ` set es"
    and "get_unique_op_values es acc = None \<longleftrightarrow> MAX_OPS < card (set acc \<union> ck_op ` fst ` set es)"
proof (atomize (full), use assms in \<open>induction es acc rule: get_unique_op_values.induct\<close>)
  case (1 acc)
  then show ?case by (auto simp: distinct_card)
next
  case (2 k v es acc)
  consider (old) "ck_op k \<in> set acc" | (room) "ck_op k \<notin> set acc" "length acc < MAX_OPS"
    | (full) "ck_op k \<notin> set acc" "length acc = MAX_OPS" using 2(4) by linarith
  then show ?case
  proof cases
    case old
    then have "set acc \<union> ck_op ` fst ` set ((k, v) # es) = set acc \<union> ck_op ` fst ` set es" by auto
    with 2(1)[OF old 2(3,4)] old show ?thesis by simp
  next
    case room
    then have "set acc \<union> ck_op ` fst ` set ((k, v) # es) = set (acc @ [ck_op k]) \<union> ck_op ` fst ` set es" by auto
    with 2(2)[OF room] 2(3) room show ?thesis by simp
  next
    case full
    have "Suc (length acc) = card (set (acc @ [ck_op k]))" using full 2(3) by (simp add: distinct_card)
    also have "\<dots> \<le> card (set acc \<union> ck_op ` fst ` set ((k, v) # es))" by (rule card_mono) auto
    finally show ?thesis using full by simp
  qed
qed

section \<open>Totals\<close>

text \<open>The sum of a field over the entries that satisfy a condition; words add modulo \<open>2 ^ 64\<close>.\<close>

definition field_sum :: "(CounterValue \<Rightarrow> u64) \<Rightarrow> (CounterKey \<Rightarrow> bool) \<Rightarrow> entry list \<Rightarrow> u64" where
  "field_sum f P es = sum_list (map (\<lambda>e. if P (fst e) then f (snd e) else 0) es)"

definition additive :: "(CounterValue \<Rightarrow> u64) \<Rightarrow> bool" where
  "additive f \<longleftrightarrow> f zero_value = 0 \<and> (\<forall>a b. f (add_value a b) = f a + f b)"

lemma additive_fields: "additive cv_count" "additive cv_time_sum"
  by (simp_all add: additive_def zero_value_def add_value_def)

lemma cell_loop_total:
  assumes "additive f"
  shows "f (snd (cell_loop es lab oper tot)) = f tot + field_sum f (\<lambda>k. label k = lab \<and> ck_op k = oper) es"
proof -
  have "f (snd (fold (\<lambda>(k, v) (val, tot). if label k = lab \<and> ck_op k = oper then (v, add_value tot v) else (val, tot))
      es (val, tot))) = f tot + field_sum f (\<lambda>k. label k = lab \<and> ck_op k = oper) es" for val
    using assms by (induction es arbitrary: val tot) (auto simp: field_sum_def additive_def)
  then show ?thesis by (simp add: cell_loop_def)
qed

lemma row_loop_totals:
  "length ops = length totals \<Longrightarrow>
   row_loop es lab ops totals
     = (map2 (\<lambda>oper tot. fst (cell_loop es lab oper tot)) ops totals,
        map2 (\<lambda>oper tot. snd (cell_loop es lab oper tot)) ops totals)"
  by (induction es lab ops totals rule: row_loop.induct) (auto split: prod.splits)

lemma row_totals:
  assumes "additive f" "length ops = length totals"
  shows "map2 (\<lambda>oper tot. f tot + g oper) ops (map2 (\<lambda>oper tot. snd (cell_loop es lab oper tot)) ops totals)
    = map2 (\<lambda>oper tot. f tot + (field_sum f (\<lambda>k. label k = lab \<and> ck_op k = oper) es + g oper)) ops totals"
  using assms(2)
proof (induction ops totals rule: list_induct2)
  case Nil
  show ?case by simp
next
  case (Cons oper ops tot totals)
  then show ?case by (simp add: cell_loop_total[OF assms(1)] add.assoc)
qed

lemma table_loop_totals:
  assumes "additive f" "length ops = length totals"
  shows "map f (snd (table_loop es labs ops totals))
    = map2 (\<lambda>oper tot. f tot + (\<Sum>lab\<leftarrow>labs. field_sum f (\<lambda>k. label k = lab \<and> ck_op k = oper) es)) ops totals
    \<and> length (snd (table_loop es labs ops totals)) = length totals"
  using assms(2)
proof (induction labs arbitrary: totals)
  case Nil
  then show ?case by (induction ops totals rule: list_induct2) auto
next
  case (Cons lab labs)
  let ?totals = "map2 (\<lambda>oper tot. snd (cell_loop es lab oper tot)) ops totals"
  have "snd (table_loop es (lab # labs) ops totals) = snd (table_loop es labs ops ?totals)"
    using Cons.prems by (simp add: row_loop_totals split: prod.splits)
  moreover have "length ops = length ?totals" using Cons.prems by simp
  ultimately show ?case
    using Cons.IH[of ?totals] Cons.prems
    by (simp add: row_totals[OF assms(1)])
qed

lemma sum_list_swap: "(\<Sum>x\<leftarrow>xs. \<Sum>y\<leftarrow>ys. (g x y :: u64)) = (\<Sum>y\<leftarrow>ys. \<Sum>x\<leftarrow>xs. g x y)"
  by (induction xs) (simp_all add: sum_list_addf)

lemma sum_list_one:
  assumes "distinct xs" "x \<in> set xs"
  shows "(\<Sum>y\<leftarrow>xs. if x = y then (c :: u64) else 0) = c"
proof -
  have none: "(\<Sum>y\<leftarrow>ys. if x = y then c else 0) = 0" if "x \<notin> set ys" for ys
    using that by (induction ys) auto
  show ?thesis using assms by (induction xs) (auto simp: none)
qed

lemma sum_over_labels:
  assumes "distinct labs" "label ` fst ` set es \<subseteq> set labs"
  shows "(\<Sum>lab\<leftarrow>labs. field_sum f (\<lambda>k. label k = lab \<and> ck_op k = oper) es)
    = field_sum f (\<lambda>k. ck_op k = oper) es"
proof -
  have "(\<Sum>lab\<leftarrow>labs. if label (fst e) = lab \<and> ck_op (fst e) = oper then f (snd e) else 0)
      = (if ck_op (fst e) = oper then f (snd e) else 0)" if "e \<in> set es" for e
  proof -
    have "label (fst e) \<in> set labs" using assms(2) that by auto
    from sum_list_one[OF assms(1) this, of "f (snd e)"] show ?thesis by simp
  qed
  then show ?thesis unfolding field_sum_def by (subst sum_list_swap) (simp cong: map_cong)
qed

text \<open>
  C28: the totals of the report are exact: for each call the sum of all counts, and of all times, of
  the entries of that call, each entry counted once. The sums are words; a sum of times beyond \<open>2 ^ 63\<close>
  nanoseconds would be a signed overflow in C.
\<close>

theorem report_totals_exact:
  assumes "get_unique_pid_values es [] = Some labs" "get_unique_op_values es [] = Some ops"
    and "table_loop es labs ops (replicate (length ops) zero_value) = (rows, totals)"
  shows "map cv_count totals = map (\<lambda>oper. field_sum cv_count (\<lambda>k. ck_op k = oper) es) ops
    \<and> map cv_time_sum totals = map (\<lambda>oper. field_sum cv_time_sum (\<lambda>k. ck_op k = oper) es) ops
    \<and> distinct ops \<and> set ops = ck_op ` fst ` set es"
proof -
  have labs: "distinct labs" "label ` fst ` set es \<subseteq> set labs"
    using unique_pids(1)[of "[]" es labs] assms(1) by simp_all
  have sum: "map f totals = map (\<lambda>oper. field_sum f (\<lambda>k. ck_op k = oper) es) ops" if f: "additive f" for f
    using table_loop_totals[OF f, of ops "replicate (length ops) zero_value" es labs] assms(3) f
    by (simp add: zip_replicate2 comp_def sum_over_labels[OF labs] additive_def)
  show ?thesis
    using sum[OF additive_fields(1)] sum[OF additive_fields(2)] unique_ops(1)[of "[]" es ops] assms(2) by simp
qed

definition demo_entries :: "entry list" where
  "demo_entries =
     [(\<lparr>ck_command = [97], ck_pid = 10, ck_op = 0\<rparr>, \<lparr>cv_count = 2, cv_time_sum = 8\<rparr>),
      (\<lparr>ck_command = [98], ck_pid = 11, ck_op = 0\<rparr>, \<lparr>cv_count = 3, cv_time_sum = 5\<rparr>)]"

lemma demo_digits: "digits 10 = [49, 48]" "digits 11 = [49, 49]"
  by (simp_all add: digits.simps)

lemma demo_labels:
  "label \<lparr>ck_command = [97], ck_pid = 10, ck_op = 0\<rparr> = [97, 45, 49, 48]"
  "label \<lparr>ck_command = [98], ck_pid = 11, ck_op = 0\<rparr> = [98, 45, 49, 49]"
  by (simp_all add: label_def print_int_def demo_digits COMM_STR_LEN_def)

theorem report_totals_exact_witness:
  "map cv_count (snd (table_loop demo_entries [[97, 45, 49, 48], [98, 45, 49, 49]] [0] [zero_value])) = [5]"
proof -
  have "get_unique_pid_values demo_entries [] = Some [[97, 45, 49, 48], [98, 45, 49, 49]]"
    "get_unique_op_values demo_entries [] = Some [0]"
    by (simp_all add: demo_entries_def demo_labels MAX_PIDS_def MAX_OPS_def)
  from report_totals_exact[OF this, of "fst (table_loop demo_entries [[97, 45, 49, 48], [98, 45, 49, 49]] [0] [zero_value])"
      "snd (table_loop demo_entries [[97, 45, 49, 48], [98, 45, 49, 49]] [0] [zero_value])"]
  show ?thesis by (simp add: field_sum_def demo_entries_def)
qed

section \<open>Cells\<close>

text \<open>Commands as the kernel gives them (at most 15 bytes) and process numbers that are not negative.\<close>

definition plausible_key :: "CounterKey \<Rightarrow> bool" where
  "plausible_key k \<longleftrightarrow> length (ck_command k) \<le> 15 \<and> 0 \<le> sint (ck_pid k)"

lemma label_inj:
  assumes "plausible_key k" "plausible_key k'" "label k = label k'"
  shows "ck_command k = ck_command k' \<and> ck_pid k = ck_pid k'"
proof -
  have lab: "label x = ck_command x @ [45] @ digits (nat (sint (ck_pid x)))" if "plausible_key x" for x
  proof -
    have "sint (ck_pid x) < 2 ^ 31" using sint_lt[of "ck_pid x"] by simp
    then have "nat (sint (ck_pid x)) < 10 ^ Suc 9" using that by (simp add: nat_less_iff)
    from digits_length[OF this] have "length (digits (nat (sint (ck_pid x)))) \<le> 10" by simp
    then have "length (ck_command x @ [45] @ digits (nat (sint (ck_pid x)))) \<le> COMM_STR_LEN - 1"
      using that by (simp add: plausible_key_def COMM_STR_LEN_def)
    moreover have "print_int (sint (ck_pid x)) = digits (nat (sint (ck_pid x)))"
      using that by (simp add: print_int_def plausible_key_def)
    ultimately show ?thesis unfolding label_def by (metis take_all)
  qed
  have "ck_command k = ck_command k'" "nat (sint (ck_pid k)) = nat (sint (ck_pid k'))"
    using assms(3) dash_label_inj unfolding lab[OF assms(1)] lab[OF assms(2)] by blast+
  then have "sint (ck_pid k) = sint (ck_pid k')" using assms(1,2) by (simp add: plausible_key_def eq_nat_nat_iff)
  then show ?thesis using \<open>ck_command k = ck_command k'\<close> by (simp add: signed_word_eqI)
qed

lemma CounterKey_eqI:
  "ck_command k = ck_command k' \<Longrightarrow> ck_pid k = ck_pid k' \<Longrightarrow> ck_op k = ck_op k' \<Longrightarrow> k = (k' :: CounterKey)"
  by (cases k; cases k') simp

lemma last_match:
  assumes "\<forall>e \<in> set es. P (fst e) \<longrightarrow> snd e = v" "val = v \<or> (\<exists>e \<in> set es. P (fst e))"
  shows "fst (fold (\<lambda>(k, w) (val, tot). if P k then (w, add_value tot w) else (val, tot)) es (val, tot)) = v"
  using assms
proof (induction es arbitrary: val tot)
  case Nil
  then show ?case by simp
next
  case (Cons e es)
  obtain k w where e: "e = (k, w)" by (cases e)
  show ?case
  proof (cases "P k")
    case True
    then have "w = v" using Cons.prems(1) unfolding e by simp
    with True Cons.IH[of v "add_value tot v"] Cons.prems(1) show ?thesis unfolding e by simp
  next
    case False
    with Cons.IH[of val tot] Cons.prems show ?thesis unfolding e by simp
  qed
qed

lemma cell_loop_value:
  assumes "\<forall>e \<in> set es. label (fst e) = lab \<and> ck_op (fst e) = oper \<longrightarrow> snd e = v"
    and "\<exists>e \<in> set es. label (fst e) = lab \<and> ck_op (fst e) = oper"
  shows "fst (cell_loop es lab oper tot) = v"
  unfolding cell_loop_def by (rule last_match) (use assms in auto)

text \<open>
  The cell of a label and a call shows the one entry behind it: two entries of the map never
  share a cell, because \<open>command-pid\<close> is unambiguous.
\<close>

lemma report_cell_exact:
  assumes "distinct (map fst es)" "\<forall>e \<in> set es. plausible_key (fst e)" "(k, v) \<in> set es"
  shows "fst (cell_loop es (label k) (ck_op k) tot) = v"
proof (rule cell_loop_value)
  show "\<exists>e \<in> set es. label (fst e) = label k \<and> ck_op (fst e) = ck_op k" using assms(3) by force
  show "\<forall>e \<in> set es. label (fst e) = label k \<and> ck_op (fst e) = ck_op k \<longrightarrow> snd e = v"
  proof (intro ballI impI, elim conjE)
    fix e assume e: "e \<in> set es" "label (fst e) = label k" "ck_op (fst e) = ck_op k"
    have "plausible_key (fst e)" "plausible_key k" using assms(2,3) e(1) by force+
    from label_inj[OF this e(2)] have "fst e = k" using e(3) by (intro CounterKey_eqI) simp_all
    then show "snd e = v" using assms(1,3) e(1) by (metis eq_key_imp_eq_value prod.collapse)
  qed
qed

theorem report_cell_exact_witness:
  "fst (cell_loop demo_entries [98, 45, 49, 49] 0 zero_value) = \<lparr>cv_count = 3, cv_time_sum = 5\<rparr>"
  using report_cell_exact[of demo_entries "\<lparr>ck_command = [98], ck_pid = 11, ck_op = 0\<rparr>"
      "\<lparr>cv_count = 3, cv_time_sum = 5\<rparr>" zero_value]
  by (simp add: demo_entries_def plausible_key_def demo_labels)

section \<open>The arrays\<close>

definition traced_ops :: "u32 set" where
  "traced_ops = {257, 1, 18, 0, 17, 3, 87}"

definition ops_traced :: "(CounterKey \<rightharpoonup> CounterValue) \<Rightarrow> bool" where
  "ops_traced m \<longleftrightarrow> ck_op ` dom m \<subseteq> traced_ops"

lemma syscall_nr_traced: "syscall_nr oper \<in> traced_ops"
  by (cases oper) (simp_all add: traced_ops_def)

lemma exit_ops:
  assumes "ops_traced (counters tr)" "nr \<in> traced_ops"
  shows "ops_traced (counters (snd (update_counter_exit pid tid nr comm now tr)))"
  using assms by (auto simp: ops_traced_def update_counter_exit_alone Let_def bpf_update_def split: option.splits if_splits)

lemma probe_ops:
  assumes tr: "ops_traced (counters tr)"
  shows "ops_traced (counters (probe t now e tr))"
proof (cases e)
  case (Enter oper fd)
  then show ?thesis using tr
    by (cases oper) (simp_all add: probe_defs enter_any_def enter_regular_def update_counter_enter_def)
next
  case (Exit oper r)
  note ex = exit_ops[OF tr syscall_nr_traced[of oper]]
  show ?thesis using tr ex unfolding Exit
    by (cases oper) (auto simp: probe_defs exit_counted_def sys_exit_openat_def Let_def simp del: syscall_nr.simps)
next
  case (Fork parent child)
  then show ?thesis using tr by simp
qed

text \<open>\<open>op_list\<close> is never overrun: only the seven traced calls reach the counters.\<close>

lemma op_array_suffices:
  "get_unique_op_values (get_values_from_counter_map order (counters (run_events evs (initial_tracer pids)))) [] \<noteq> None"
proof -
  let ?m = "counters (run_events evs (initial_tracer pids))"
  have keep: "ops_traced (counters (run_events evs tr))" if "ops_traced (counters tr)" for tr
    unfolding run_events_def using that
  proof (induction evs arbitrary: tr)
    case (Cons x evs)
    obtain t now e where "x = (t, now, e)" by (metis prod_cases3)
    then show ?case using Cons.IH[OF probe_ops[OF Cons.prems]] by simp
  qed simp
  have m: "ops_traced ?m" by (rule keep) (simp add: initial_tracer_def ops_traced_def)
  let ?es = "get_values_from_counter_map order ?m"
  have "fst ` set ?es \<subseteq> dom ?m" by (auto simp: get_values_from_counter_map_def dom_def split: option.splits dest: sym)
  with m have "ck_op ` fst ` set ?es \<subseteq> traced_ops" unfolding ops_traced_def by blast
  then have "card (ck_op ` fst ` set ?es) \<le> card traced_ops" by (rule card_mono[rotated]) (simp add: traced_ops_def)
  also have "card traced_ops \<le> MAX_OPS" by (simp add: traced_ops_def MAX_OPS_def)
  finally show ?thesis using unique_ops(2)[of "[]" ?es] by simp
qed

lemma report_defined:
  assumes "es = get_values_from_counter_map order (counters tr)" "get_unique_op_values es [] \<noteq> None"
  shows "report resolve order tr csv open_ok = None \<longleftrightarrow> 100 < card (label ` fst ` set es)"
proof (cases "es = []")
  case False
  have "get_unique_pid_values es [] = None \<longleftrightarrow> 100 < card (label ` fst ` set es)"
    using unique_pids(2)[of "[]" es] by (simp add: MAX_PIDS_def)
  with False assms show ?thesis by (auto simp: report_def Let_def split: option.splits bind_splits)
qed (use assms in \<open>simp add: report_def\<close>)

text \<open>
  C31: the program has a defined result exactly when none of this happens: the programs are not
  loaded or no process is given (\<open>err\<close> is never assigned), they cannot be attached (the object is
  destroyed twice), or the counters have more than 100 labels of the form \<open>command-pid\<close> and overrun
  \<open>pid_list\<close>. The map holds up to 700 entries, and a process that changes its command has several labels.
  An overflow of the \<open>long\<close> totals (more than 292 years) is not looked at here: the model wraps around.
\<close>

theorem syscounter_defined_iff:
  "(\<exists>r. syscounter_main resolve loaded attached argv evs order open_ok = Some r) \<longleftrightarrow>
     loaded \<and> argv \<noteq> [] \<and> attached
   \<and> card (label ` fst ` set (get_values_from_counter_map order
       (counters (run_events evs (initial_tracer (fst (split_args argv))))))) \<le> 100"
proof (cases "split_args argv")
  case (Pair pids csv)
  let ?n = "card (label ` fst ` set (get_values_from_counter_map order (counters (run_events evs (initial_tracer pids)))))"
  have "report resolve order (run_events evs (initial_tracer pids)) csv open_ok = None \<longleftrightarrow> 100 < ?n"
    by (rule report_defined[OF refl op_array_suffices])
  then have "(\<exists>r. report resolve order (run_events evs (initial_tracer pids)) csv open_ok = Some r) \<longleftrightarrow> ?n \<le> 100"
    by (metis linorder_not_le not_None_eq)
  then show ?thesis by (auto simp: syscounter_main_def Pair Let_def split: bind_splits)
qed

text \<open>
  Every initialiser of the table is found under its number, and numbers outside the table are
  \<open>unknown\<close>.
\<close>

lemma resolve_syscall_exact:
  "(\<forall>(n, s) \<in> set syscall_table. resolve_syscall (word_of_int n) = ascii s)
   \<and> (sint nr \<notin> fst ` set syscall_table \<longrightarrow> resolve_syscall nr = ascii ''unknown'')"
proof (intro conjI impI)
  show "\<forall>(n, s) \<in> set syscall_table. resolve_syscall (word_of_int n) = ascii s"
    using resolve_entry by blast
  assume "sint nr \<notin> fst ` set syscall_table"
  then have "map_of syscall_table (sint nr) = None" by (simp only: map_of_eq_None_iff not_False_eq_True)
  then show "resolve_syscall nr = ascii ''unknown''" by (simp add: resolve_syscall_def)
qed

theorem resolve_syscall_exact_witness:
  "resolve_syscall 257 = ascii ''openat''"
proof -
  have "(257, ''openat'') \<in> set syscalls_3" by (simp add: syscalls_3_def)
  then have "(257, ''openat'') \<in> set syscall_table" by (simp add: syscall_table_def)
  with resolve_syscall_exact show ?thesis by fastforce
qed

end
