(* ===== verification/Cachestat.thy ===== *)
theory Cachestat
  imports Bpf_Maps
begin

text \<open>
  \<open>bpf_programs/cachestat/cachestat.bpf.c\<close>, the programs that count events of the page cache, and the
  part of \<open>cachestat.c\<close> that decides which of them are loaded. What the running kernel answers to
  \<open>fentry_can_attach\<close>, \<open>kprobe_exists\<close> and \<open>tracepoint_exists\<close> is a record of predicates;
  \<open>Attach_Points\<close> models these three functions.
\<close>

section \<open>Where programs attach\<close>

datatype point =
    Add_to_page_cache_lru | Mark_page_accessed | Account_page_dirtied | Folio_account_dirtied
  | Mark_buffer_dirty | Folio_mark_accessed | Folio_add_lru
  | Writeback_dirty_folio | Writeback_dirty_page

datatype program =
    fentry_add_to_page_cache_lru | fentry_mark_page_accessed | fentry_account_page_dirtied
  | fentry_mark_buffer_dirty | kprobe_add_to_page_cache_lru | kprobe_mark_page_accessed
  | kprobe_account_page_dirtied | kprobe_folio_account_dirtied | kprobe_mark_buffer_dirty
  | tracepoint_writeback_dirty_folio | tracepoint_writeback_dirty_page
  | fentry_folio_mark_accessed | kprobe_folio_mark_accessed | fentry_folio_add_lru | kprobe_folio_add_lru

definition programs :: "program list" where
  "programs =
     [fentry_add_to_page_cache_lru, fentry_mark_page_accessed, fentry_account_page_dirtied,
      fentry_mark_buffer_dirty, kprobe_add_to_page_cache_lru, kprobe_mark_page_accessed,
      kprobe_account_page_dirtied, kprobe_folio_account_dirtied, kprobe_mark_buffer_dirty,
      tracepoint_writeback_dirty_folio, tracepoint_writeback_dirty_page,
      fentry_folio_mark_accessed, kprobe_folio_mark_accessed, fentry_folio_add_lru, kprobe_folio_add_lru]"

lemma programs_complete: "p \<in> set programs"
  by (cases p) (simp_all add: programs_def)

text \<open>The \<open>SEC\<close> names.\<close>

fun section_point :: "program \<Rightarrow> point" where
  "section_point fentry_add_to_page_cache_lru = Add_to_page_cache_lru"
| "section_point fentry_mark_page_accessed = Mark_page_accessed"
| "section_point fentry_account_page_dirtied = Account_page_dirtied"
| "section_point fentry_mark_buffer_dirty = Mark_buffer_dirty"
| "section_point kprobe_add_to_page_cache_lru = Add_to_page_cache_lru"
| "section_point kprobe_mark_page_accessed = Mark_page_accessed"
| "section_point kprobe_account_page_dirtied = Account_page_dirtied"
| "section_point kprobe_folio_account_dirtied = Folio_account_dirtied"
| "section_point kprobe_mark_buffer_dirty = Mark_buffer_dirty"
| "section_point tracepoint_writeback_dirty_folio = Writeback_dirty_folio"
| "section_point tracepoint_writeback_dirty_page = Writeback_dirty_page"
| "section_point fentry_folio_mark_accessed = Folio_mark_accessed"
| "section_point kprobe_folio_mark_accessed = Folio_mark_accessed"
| "section_point fentry_folio_add_lru = Folio_add_lru"
| "section_point kprobe_folio_add_lru = Folio_add_lru"

section \<open>The programs\<close>

text \<open>\<open>total\<close> and \<open>misses\<close> are signed, \<open>mbd\<close> is not; all three wrap at 64 bits.\<close>

record Cache_Counters =
  cc_total :: u64
  cc_misses :: u64
  cc_mbd :: u64

definition add_total :: "u64 \<Rightarrow> Cache_Counters \<Rightarrow> Cache_Counters" where
  "add_total d c = c\<lparr>cc_total := cc_total c + d\<rparr>"

definition add_misses :: "u64 \<Rightarrow> Cache_Counters \<Rightarrow> Cache_Counters" where
  "add_misses d c = c\<lparr>cc_misses := cc_misses c + d\<rparr>"

definition add_mbd :: "u64 \<Rightarrow> Cache_Counters \<Rightarrow> Cache_Counters" where
  "add_mbd d c = c\<lparr>cc_mbd := cc_mbd c + d\<rparr>"

lemmas counter_defs = add_total_def add_misses_def add_mbd_def

definition to_ignore :: "pid_map \<Rightarrow> u32 \<Rightarrow> bool" where
  "to_ignore pids pid \<longleftrightarrow> (case pids pid of Some _ \<Rightarrow> False | None \<Rightarrow> True)"

fun program_body :: "program \<Rightarrow> Cache_Counters \<Rightarrow> Cache_Counters" where
  "program_body fentry_add_to_page_cache_lru c = add_misses 1 c"
| "program_body fentry_mark_page_accessed c = add_total 1 c"
| "program_body fentry_account_page_dirtied c = add_misses (- 1) c"
| "program_body fentry_mark_buffer_dirty c = add_mbd 1 (add_total (- 1) c)"
| "program_body kprobe_add_to_page_cache_lru c = add_misses 1 c"
| "program_body kprobe_mark_page_accessed c = add_total 1 c"
| "program_body kprobe_account_page_dirtied c = add_misses (- 1) c"
| "program_body kprobe_folio_account_dirtied c = add_misses (- 1) c"
| "program_body kprobe_mark_buffer_dirty c = add_mbd 1 (add_total (- 1) c)"
| "program_body tracepoint_writeback_dirty_folio c = add_misses (- 1) c"
| "program_body tracepoint_writeback_dirty_page c = add_misses (- 1) c"
| "program_body fentry_folio_mark_accessed c = add_total 1 c"
| "program_body kprobe_folio_mark_accessed c = add_total 1 c"
| "program_body fentry_folio_add_lru c = add_misses 1 c"
| "program_body kprobe_folio_add_lru c = add_misses 1 c"

definition run_program :: "pid_map \<Rightarrow> u32 \<Rightarrow> program \<Rightarrow> Cache_Counters \<Rightarrow> Cache_Counters" where
  "run_program pids pid p c = (if \<not> to_ignore pids pid then program_body p c else c)"

section \<open>Choosing the programs\<close>

record Kernel =
  can_fentry :: "point \<Rightarrow> bool"
  can_kprobe :: "point \<Rightarrow> bool"
  has_tracepoint :: "point \<Rightarrow> bool"
  set_attach_target_ok :: bool

text \<open>The opened BPF object: which programs will be loaded, and where they attach.\<close>

record Skeleton =
  autoload :: "program \<Rightarrow> bool"
  target :: "program \<Rightarrow> point"

definition cachestat_open :: Skeleton where
  "cachestat_open = \<lparr>autoload = \<lambda>_. True, target = section_point\<rparr>"

definition drop_program :: "program \<Rightarrow> Skeleton \<Rightarrow> Skeleton" where
  "drop_program p sk = sk\<lparr>autoload := (autoload sk)(p := False)\<rparr>"

definition drop_programs :: "program list \<Rightarrow> Skeleton \<Rightarrow> Skeleton" where
  "drop_programs ps sk = fold drop_program ps sk"

definition retarget :: "Kernel \<Rightarrow> Skeleton \<Rightarrow> Skeleton option" where
  "retarget kn sk =
     (if can_fentry kn Folio_account_dirtied
      then (if set_attach_target_ok kn
            then Some (sk\<lparr>target := (target sk)(fentry_account_page_dirtied := Folio_account_dirtied)\<rparr>)
            else None)
      else Some sk)"

definition choose_dirtied :: "Kernel \<Rightarrow> Skeleton \<Rightarrow> Skeleton" where
  "choose_dirtied kn =
     (if can_kprobe kn Folio_account_dirtied
      then drop_programs [kprobe_account_page_dirtied, tracepoint_writeback_dirty_folio, tracepoint_writeback_dirty_page]
      else if can_kprobe kn Account_page_dirtied
      then drop_programs [kprobe_folio_account_dirtied, tracepoint_writeback_dirty_folio, tracepoint_writeback_dirty_page]
      else if has_tracepoint kn Writeback_dirty_folio
      then drop_programs [kprobe_account_page_dirtied, kprobe_folio_account_dirtied, tracepoint_writeback_dirty_page]
      else if has_tracepoint kn Writeback_dirty_page
      then drop_programs [kprobe_account_page_dirtied, kprobe_folio_account_dirtied, tracepoint_writeback_dirty_folio]
      else id)"

definition choose_dirtied_fentry :: "Kernel \<Rightarrow> Skeleton \<Rightarrow> Skeleton" where
  "choose_dirtied_fentry kn =
     (if can_fentry kn Folio_account_dirtied \<or> can_fentry kn Account_page_dirtied
      then drop_programs [kprobe_account_page_dirtied]
      else drop_programs [fentry_account_page_dirtied])"

definition choose_add_lru :: "Kernel \<Rightarrow> Skeleton \<Rightarrow> Skeleton" where
  "choose_add_lru kn =
     (if can_fentry kn Folio_add_lru
      then drop_programs [kprobe_folio_add_lru, fentry_add_to_page_cache_lru, kprobe_add_to_page_cache_lru]
      else if can_fentry kn Add_to_page_cache_lru
      then drop_programs [kprobe_add_to_page_cache_lru, fentry_folio_add_lru, kprobe_folio_add_lru]
      else if can_kprobe kn Folio_add_lru
      then drop_programs [fentry_folio_add_lru, fentry_add_to_page_cache_lru, kprobe_add_to_page_cache_lru]
      else drop_programs [fentry_add_to_page_cache_lru, fentry_folio_add_lru, kprobe_folio_add_lru])"

definition choose_accessed :: "Kernel \<Rightarrow> Skeleton \<Rightarrow> Skeleton" where
  "choose_accessed kn =
     (if can_fentry kn Folio_mark_accessed
      then drop_programs [kprobe_folio_mark_accessed, fentry_mark_page_accessed, kprobe_mark_page_accessed]
      else if can_fentry kn Mark_page_accessed
      then drop_programs [kprobe_mark_page_accessed, fentry_folio_mark_accessed, kprobe_folio_mark_accessed]
      else if can_kprobe kn Folio_mark_accessed
      then drop_programs [fentry_folio_mark_accessed, fentry_mark_page_accessed, kprobe_mark_page_accessed]
      else drop_programs [fentry_mark_page_accessed, fentry_folio_mark_accessed, kprobe_folio_mark_accessed])"

definition choose_buffer_dirty :: "Kernel \<Rightarrow> Skeleton \<Rightarrow> Skeleton" where
  "choose_buffer_dirty kn =
     (if can_fentry kn Mark_buffer_dirty
      then drop_programs [kprobe_mark_buffer_dirty]
      else drop_programs [fentry_mark_buffer_dirty])"

definition choose_programs :: "Kernel \<Rightarrow> Skeleton option" where
  "choose_programs kn =
     (case retarget kn cachestat_open of
        None \<Rightarrow> None
      | Some sk \<Rightarrow> Some (choose_buffer_dirty kn (choose_accessed kn (choose_add_lru kn
          (choose_dirtied_fentry kn (choose_dirtied kn sk))))))"

section \<open>Events\<close>

record Cache_Tracer =
  traced_pids :: pid_map
  cache_counts :: Cache_Counters

text \<open>A call by a process (its pid), or a fork (parent and child).\<close>

datatype cache_event = At u32 point | Forked u32 u32

definition run_call :: "Skeleton \<Rightarrow> pid_map \<Rightarrow> u32 \<Rightarrow> point \<Rightarrow> Cache_Counters \<Rightarrow> Cache_Counters" where
  "run_call sk pids pid pt c = fold (run_program pids pid) [p \<leftarrow> programs. autoload sk p \<and> target sk p = pt] c"

fun cache_step :: "Skeleton \<Rightarrow> cache_event \<Rightarrow> Cache_Tracer \<Rightarrow> Cache_Tracer" where
  "cache_step sk (At pid pt) tr = tr\<lparr>cache_counts := run_call sk (traced_pids tr) pid pt (cache_counts tr)\<rparr>"
| "cache_step sk (Forked parent child) tr =
     tr\<lparr>traced_pids := trace_sched_process_fork (parent, child) (traced_pids tr)\<rparr>"

definition cache_run :: "Skeleton \<Rightarrow> cache_event list \<Rightarrow> Cache_Tracer \<Rightarrow> Cache_Tracer" where
  "cache_run sk evs tr = fold (cache_step sk) evs tr"

section \<open>What is chosen\<close>

lemma autoload_drop [simp]: "autoload (drop_programs ps sk) p \<longleftrightarrow> autoload sk p \<and> p \<notin> set ps"
proof -
  have "autoload (fold drop_program ps sk) p \<longleftrightarrow> autoload sk p \<and> p \<notin> set ps"
    by (induction ps arbitrary: sk) (auto simp: drop_program_def)
  then show ?thesis by (simp add: drop_programs_def)
qed

lemma target_drop [simp]: "target (drop_programs ps sk) = target sk"
proof -
  have "target (fold drop_program ps sk) = target sk"
    by (induction ps arbitrary: sk) (auto simp: drop_program_def)
  then show ?thesis by (simp add: drop_programs_def)
qed

definition chosen :: "Kernel \<Rightarrow> program \<Rightarrow> bool" where
  "chosen kn p = (case p of
      fentry_add_to_page_cache_lru \<Rightarrow> \<not> can_fentry kn Folio_add_lru \<and> can_fentry kn Add_to_page_cache_lru
    | kprobe_add_to_page_cache_lru \<Rightarrow> \<not> can_fentry kn Folio_add_lru \<and> \<not> can_fentry kn Add_to_page_cache_lru
        \<and> \<not> can_kprobe kn Folio_add_lru
    | fentry_folio_add_lru \<Rightarrow> can_fentry kn Folio_add_lru
    | kprobe_folio_add_lru \<Rightarrow> \<not> can_fentry kn Folio_add_lru \<and> \<not> can_fentry kn Add_to_page_cache_lru
        \<and> can_kprobe kn Folio_add_lru
    | fentry_mark_page_accessed \<Rightarrow> \<not> can_fentry kn Folio_mark_accessed \<and> can_fentry kn Mark_page_accessed
    | kprobe_mark_page_accessed \<Rightarrow> \<not> can_fentry kn Folio_mark_accessed \<and> \<not> can_fentry kn Mark_page_accessed
        \<and> \<not> can_kprobe kn Folio_mark_accessed
    | fentry_folio_mark_accessed \<Rightarrow> can_fentry kn Folio_mark_accessed
    | kprobe_folio_mark_accessed \<Rightarrow> \<not> can_fentry kn Folio_mark_accessed \<and> \<not> can_fentry kn Mark_page_accessed
        \<and> can_kprobe kn Folio_mark_accessed
    | fentry_mark_buffer_dirty \<Rightarrow> can_fentry kn Mark_buffer_dirty
    | kprobe_mark_buffer_dirty \<Rightarrow> \<not> can_fentry kn Mark_buffer_dirty
    | fentry_account_page_dirtied \<Rightarrow> can_fentry kn Folio_account_dirtied \<or> can_fentry kn Account_page_dirtied
    | kprobe_account_page_dirtied \<Rightarrow> \<not> can_kprobe kn Folio_account_dirtied
        \<and> (can_kprobe kn Account_page_dirtied
           \<or> \<not> has_tracepoint kn Writeback_dirty_folio \<and> \<not> has_tracepoint kn Writeback_dirty_page)
        \<and> \<not> can_fentry kn Folio_account_dirtied \<and> \<not> can_fentry kn Account_page_dirtied
    | kprobe_folio_account_dirtied \<Rightarrow> can_kprobe kn Folio_account_dirtied
        \<or> \<not> can_kprobe kn Account_page_dirtied
          \<and> \<not> has_tracepoint kn Writeback_dirty_folio \<and> \<not> has_tracepoint kn Writeback_dirty_page
    | tracepoint_writeback_dirty_folio \<Rightarrow> \<not> can_kprobe kn Folio_account_dirtied \<and> \<not> can_kprobe kn Account_page_dirtied
        \<and> (has_tracepoint kn Writeback_dirty_folio \<or> \<not> has_tracepoint kn Writeback_dirty_page)
    | tracepoint_writeback_dirty_page \<Rightarrow> \<not> can_kprobe kn Folio_account_dirtied \<and> \<not> can_kprobe kn Account_page_dirtied
        \<and> \<not> has_tracepoint kn Writeback_dirty_folio)"

lemma choose_autoload:
  assumes "choose_programs kn = Some sk"
  shows "autoload sk p = chosen kn p"
proof -
  obtain sk0 where sk0: "retarget kn cachestat_open = Some sk0"
    and sk: "sk = choose_buffer_dirty kn (choose_accessed kn (choose_add_lru kn (choose_dirtied_fentry kn (choose_dirtied kn sk0))))"
    using assms by (auto simp: choose_programs_def split: option.splits)
  have "autoload sk0 = (\<lambda>_. True)"
    using sk0 by (auto simp: retarget_def cachestat_open_def split: if_splits)
  then show ?thesis
    unfolding sk choose_buffer_dirty_def choose_accessed_def choose_add_lru_def choose_dirtied_fentry_def choose_dirtied_def
    by (cases p) (auto simp: chosen_def)
qed

lemma choose_target:
  assumes "choose_programs kn = Some sk"
  shows "target sk p = (if p = fentry_account_page_dirtied \<and> can_fentry kn Folio_account_dirtied
    then Folio_account_dirtied else section_point p)"
proof -
  obtain sk0 where sk0: "retarget kn cachestat_open = Some sk0"
    and sk: "sk = choose_buffer_dirty kn (choose_accessed kn (choose_add_lru kn (choose_dirtied_fentry kn (choose_dirtied kn sk0))))"
    using assms by (auto simp: choose_programs_def split: option.splits)
  have "target sk = target sk0"
    unfolding sk choose_buffer_dirty_def choose_accessed_def choose_add_lru_def choose_dirtied_fentry_def choose_dirtied_def
    by (simp add: id_def)
  then show ?thesis
    using sk0 by (auto simp: retarget_def cachestat_open_def split: if_splits)
qed

end
