(* ===== verification/Cachestat_Report.thy ===== *)
theory Cachestat_Report
  imports Cachestat C_Numbers
begin

text \<open>
  \<open>bpf_programs/cachestat/cachestat.c\<close>: the command line, the loop that reads and clears the counters,
  and the JSON file written at the end. The events that happen while the program sleeps and between
  two reads are part of the input of an interval. The percentage is printed from a \<open>float\<close>; its text
  is an argument.
\<close>

section \<open>The command line\<close>

record Env =
  env_interval :: u64
  env_times :: u32
  env_timestamp :: bool
  env_verbose :: bool
  env_output :: "byte list option"
  env_pids :: "u32 list"
  pos_args :: nat

definition default_env :: Env where
  "default_env = \<lparr>env_interval = 1, env_times = 99999999, env_timestamp = False, env_verbose = False,
     env_output = None, env_pids = [], pos_args = 0\<rparr>"

datatype argp_key =
    Key_h | Key_v | Key_T | Key_o "byte list" | Key_arg "byte list" | Key_p "byte list" | Key_other

datatype parse_result = Parsed Env | Exits | Unknown Env

text \<open>The tokens that \<open>strtok_r\<close> finds between commas; there is no empty token.\<close>

function tokens :: "byte list \<Rightarrow> byte list list" where
  "tokens s = (case dropWhile (\<lambda>b. b = 44) s of
      [] \<Rightarrow> []
    | b # bs \<Rightarrow> (b # takeWhile (\<lambda>b. b \<noteq> 44) bs) # tokens (dropWhile (\<lambda>b. b \<noteq> 44) bs))"
  by auto
termination
proof (relation "measure length")
  fix s bs :: "byte list" and b
  assume s: "dropWhile (\<lambda>b. b = 44) s = b # bs"
  have "length (dropWhile (\<lambda>b. b \<noteq> 44) bs) \<le> length bs" by (rule length_dropWhile_le)
  also have "\<dots> < length (dropWhile (\<lambda>b. b = 44) s)" by (simp add: s)
  also have "\<dots> \<le> length s" by (rule length_dropWhile_le)
  finally show "(dropWhile (\<lambda>b. b \<noteq> 44) bs, s) \<in> measure length" by simp
qed simp

declare tokens.simps [simp del]

fun parse_arg :: "argp_key \<Rightarrow> Env \<Rightarrow> parse_result" where
  "parse_arg Key_h env = Exits"
| "parse_arg Key_v env = Parsed (env\<lparr>env_verbose := True\<rparr>)"
| "parse_arg Key_T env = Parsed (env\<lparr>env_timestamp := True\<rparr>)"
| "parse_arg (Key_o a) env = Parsed (env\<lparr>env_output := Some a\<rparr>)"
| "parse_arg (Key_arg a) env =
     (let (v, _, range_error) = strtol10 a
      in if pos_args env = 0
         then (if range_error then Exits
               else Parsed (env\<lparr>env_interval := word_of_int v, pos_args := 1\<rparr>))
         else if pos_args env = 1
         then (if range_error then Exits
               else Parsed (env\<lparr>env_times := word_of_int v, pos_args := 2\<rparr>))
         else Exits)"
| "parse_arg (Key_p a) env =
     (if length (tokens a) > MAX_PIDS then Exits
      else Parsed (env\<lparr>env_pids := map atoi (tokens a)\<rparr>))"
| "parse_arg Key_other env = Unknown env"

text \<open>\<open>argp\<close> reports an unknown key only for an option, and all options have keys here.\<close>

fun parse_all :: "argp_key list \<Rightarrow> Env \<Rightarrow> Env option" where
  "parse_all [] env = Some env"
| "parse_all (k # ks) env =
     (case parse_arg k env of Exits \<Rightarrow> None | Parsed env \<Rightarrow> parse_all ks env | Unknown env \<Rightarrow> parse_all ks env)"

section \<open>One interval\<close>

text \<open>\<open>__atomic_exchange_n (&counter, 0)\<close>.\<close>

definition take_total :: "Cache_Tracer \<Rightarrow> u64 \<times> Cache_Tracer" where
  "take_total tr = (cc_total (cache_counts tr), tr\<lparr>cache_counts := (cache_counts tr)\<lparr>cc_total := 0\<rparr>\<rparr>)"

definition take_misses :: "Cache_Tracer \<Rightarrow> u64 \<times> Cache_Tracer" where
  "take_misses tr = (cc_misses (cache_counts tr), tr\<lparr>cache_counts := (cache_counts tr)\<lparr>cc_misses := 0\<rparr>\<rparr>)"

definition take_mbd :: "Cache_Tracer \<Rightarrow> u64 \<times> Cache_Tracer" where
  "take_mbd tr = (cc_mbd (cache_counts tr), tr\<lparr>cache_counts := (cache_counts tr)\<lparr>cc_mbd := 0\<rparr>\<rparr>)"

text \<open>
  What happens in one round of the loop: events during the sleep, between the first two and the last
  two exchanges, what \<open>get_meminfo\<close> reads, and whether the signal has come.
\<close>

record Round =
  while_sleeping :: "cache_event list"
  before_misses :: "cache_event list"
  before_mbd :: "cache_event list"
  meminfo :: "(u64 \<times> u64) option"
  exiting :: bool

definition read_counters :: "Skeleton \<Rightarrow> Round \<Rightarrow> Cache_Tracer \<Rightarrow> (u64 \<times> u64 \<times> u64) \<times> Cache_Tracer" where
  "read_counters sk r tr =
     (let (tot, tr) = take_total (cache_run sk (while_sleeping r) tr);
          (misses, tr) = take_misses (cache_run sk (before_misses r) tr);
          (mbd, tr) = take_mbd (cache_run sk (before_mbd r) tr)
      in ((tot, misses, mbd), tr))"

text \<open>Hits and misses of an interval, from the signed counters.\<close>

definition hits_and_misses :: "u64 \<Rightarrow> u64 \<Rightarrow> u64 \<times> u64" where
  "hits_and_misses tot misses =
     (let tot = (if sint tot < 0 then 0 else tot);
          misses = (if sint misses < 0 then 0 else misses);
          hits = tot - misses
      in if sint hits < 0 then (0, tot) else (hits, misses))"

record Line =
  line_hits :: u64
  line_misses :: u64
  line_dirties :: u64
  buffers_mb :: u64
  cached_mb :: u64

record Sums =
  total_hits :: u64
  total_misses :: u64
  total_dirties :: u64

definition zero_sums :: Sums where
  "zero_sums = \<lparr>total_hits = 0, total_misses = 0, total_dirties = 0\<rparr>"

definition add_sums :: "u64 \<times> u64 \<Rightarrow> u64 \<Rightarrow> Sums \<Rightarrow> Sums" where
  "add_sums = (\<lambda>(hits, misses) mbd s. \<lparr>total_hits = total_hits s + hits, total_misses = total_misses s + misses,
     total_dirties = total_dirties s + mbd\<rparr>)"

section \<open>The loop\<close>

text \<open>
  How the loop ends; \<open>Running\<close> when the input has no further round, \<open>Undefined\<close> when the number of
  rounds left is decremented at \<open>INT_MIN\<close>.
\<close>

datatype loop_end = Finished | No_meminfo | Running | Undefined

fun main_loop :: "Skeleton \<Rightarrow> Round list \<Rightarrow> u32 \<Rightarrow> Cache_Tracer \<Rightarrow> Sums \<Rightarrow> Line list \<times> Sums \<times> loop_end" where
  "main_loop sk [] left tr sums = ([], sums, Running)"
| "main_loop sk (r # rs) left tr sums =
     (let ((tot, misses, mbd), tr) = read_counters sk r tr;
          (hits, misses) = hits_and_misses tot misses;
          sums = add_sums (hits, misses) mbd sums
      in case meminfo r of
           None \<Rightarrow> ([], sums, No_meminfo)
         | Some (buffers, cached) \<Rightarrow>
             (let line = \<lparr>line_hits = hits, line_misses = misses, line_dirties = mbd,
                          buffers_mb = buffers div 1024, cached_mb = cached div 1024\<rparr>
              in if exiting r then ([line], sums, Finished)
                 else if left = 0x80000000 then ([line], sums, Undefined)
                 else if left - 1 = 0 then ([line], sums, Finished)
                 else (let (lines, sums, e) = main_loop sk rs (left - 1) tr sums in (line # lines, sums, e))))"

section \<open>The JSON file\<close>

definition json_field :: "string \<Rightarrow> byte list \<Rightarrow> byte list" where
  "json_field name v = [34] @ ascii name @ [34] @ ascii '': '' @ v"

text \<open>\<open>percent hits total\<close> is the text of \<open>hitratio\<close>.\<close>

definition json_text :: "(u64 \<Rightarrow> u64 \<Rightarrow> byte list) \<Rightarrow> u64 \<times> u64 \<Rightarrow> Sums \<Rightarrow> byte list" where
  "json_text percent = (\<lambda>(buffers, cached) s.
     [123] @ json_field ''hits'' (print_u64 (total_hits s)) @ ascii '', ''
     @ json_field ''misses'' (print_u64 (total_misses s)) @ ascii '', ''
     @ json_field ''dirties'' (print_u64 (total_dirties s)) @ ascii '', ''
     @ json_field ''hitratio'' (percent (total_hits s) (total_hits s + total_misses s)) @ ascii '', ''
     @ json_field ''buffers_mb'' (print_u64 (buffers div 1024)) @ ascii '', ''
     @ json_field ''cached_mb'' (print_u64 (cached div 1024)) @ [125, 10])"

text \<open>Results of the calls on files: \<open>errno\<close> where a call fails.\<close>

record Json_Io =
  io_meminfo :: "(u64 \<times> u64) option"
  io_fopen :: "int option"
  io_fprintf :: "int option"
  io_fclose :: "int option"

text \<open>The returned error and the contents of the file, if it was written and closed.\<close>

definition write_output_json :: "(u64 \<Rightarrow> u64 \<Rightarrow> byte list) \<Rightarrow> Json_Io \<Rightarrow> Sums \<Rightarrow> int \<times> byte list option" where
  "write_output_json percent io s =
     (case io_meminfo io of
        None \<Rightarrow> (- 1, None)
      | Some mem \<Rightarrow>
          (case io_fopen io of
             Some err \<Rightarrow> (err, None)
           | None \<Rightarrow>
               (case io_fprintf io of
                  Some err \<Rightarrow> (err, None)
                | None \<Rightarrow>
                    (case io_fclose io of
                       Some err \<Rightarrow> (err, None)
                     | None \<Rightarrow> (0, Some (json_text percent mem s))))))"

section \<open>The program\<close>

record Boot =
  open_ok :: bool
  load_ok :: bool
  bss_mapped :: bool
  attach_ok :: bool

text \<open>How far the program comes before the loop: \<open>Some failed\<close> when it goes to \<open>cleanup\<close> or returns.\<close>

definition initial_cache_tracer :: "u32 list \<Rightarrow> Cache_Tracer" where
  "initial_cache_tracer pids = \<lparr>traced_pids = fold add_pid pids Map.empty,
     cache_counts = \<lparr>cc_total = 0, cc_misses = 0, cc_mbd = 0\<rparr>\<rparr>"

definition cleanup :: "(u64 \<Rightarrow> u64 \<Rightarrow> byte list) \<Rightarrow> Json_Io \<Rightarrow> Env \<Rightarrow> bool \<Rightarrow> Sums \<Rightarrow> nat \<times> byte list option" where
  "cleanup percent io env err s =
     (if \<not> err \<and> env_output env \<noteq> None
      then (let (e, text) = write_output_json percent io s in (if e \<noteq> 0 then 1 else 0, text))
      else (if err then 1 else 0, None))"

text \<open>
  \<open>main\<close> after the arguments are read: the lines printed, the exit status (\<open>None\<close> while the loop runs or
  when it has no defined continuation) and the contents of the JSON file.
\<close>

definition cachestat_main ::
  "(u64 \<Rightarrow> u64 \<Rightarrow> byte list) \<Rightarrow> Json_Io \<Rightarrow> Kernel \<Rightarrow> Boot \<Rightarrow> Env \<Rightarrow> Round list
   \<Rightarrow> Line list \<times> (nat \<times> byte list option) option" where
  "cachestat_main percent io kn boot env rounds =
     (if \<not> open_ok boot then ([], Some (1, None))
      else case choose_programs kn of
        None \<Rightarrow> ([], Some (cleanup percent io env True zero_sums))
      | Some sk \<Rightarrow>
          if \<not> load_ok boot then ([], Some (cleanup percent io env True zero_sums))
          else if \<not> bss_mapped boot then ([], Some (cleanup percent io env False zero_sums))
          else if \<not> attach_ok boot then ([], Some (cleanup percent io env True zero_sums))
          else (case main_loop sk rounds (env_times env) (initial_cache_tracer (env_pids env)) zero_sums of
                  (lines, sums, Finished) \<Rightarrow> (lines, Some (cleanup percent io env False sums))
                | (lines, sums, No_meminfo) \<Rightarrow> (lines, Some (cleanup percent io env True sums))
                | (lines, sums, _) \<Rightarrow> (lines, None)))"

end
