(* ===== verification/Cachestat_Properties.thy ===== *)
theory Cachestat_Properties
  imports Cachestat_Report
begin

text \<open>
  What the cache statistics count: which programs are loaded on which kernel, the counters as numbers
  of calls by traced processes, and the lines and totals that are reported.
\<close>

section \<open>One call\<close>

definition zero_counts :: Cache_Counters where
  "zero_counts = \<lparr>cc_total = 0, cc_misses = 0, cc_mbd = 0\<rparr>"

definition plus_counts :: "Cache_Counters \<Rightarrow> Cache_Counters \<Rightarrow> Cache_Counters" where
  "plus_counts c d = \<lparr>cc_total = cc_total c + cc_total d, cc_misses = cc_misses c + cc_misses d, cc_mbd = cc_mbd c + cc_mbd d\<rparr>"

lemma plus_counts_zero [simp]: "plus_counts c zero_counts = c" "plus_counts zero_counts c = c"
  by (simp_all add: plus_counts_def zero_counts_def)

lemma plus_counts_assoc: "plus_counts (plus_counts a b) c = plus_counts a (plus_counts b c)"
  by (simp add: plus_counts_def)

lemma program_body_delta: "program_body p c = plus_counts c (program_body p zero_counts)"
  by (cases p) (simp_all add: counter_defs plus_counts_def zero_counts_def)

definition call_delta :: "Skeleton \<Rightarrow> point \<Rightarrow> Cache_Counters" where
  "call_delta sk pt = fold program_body [p \<leftarrow> programs. autoload sk p \<and> target sk p = pt] zero_counts"

lemma run_call_delta:
  "run_call sk pids pid pt c = (if pids pid = None then c else plus_counts c (call_delta sk pt))"
proof -
  have run: "fold (run_program pids pid) ps c = (if pids pid = None then c else plus_counts c (fold program_body ps zero_counts))"
    for ps c
  proof (cases "pids pid")
    case None
    then have "run_program pids pid p = id" for p by (simp add: run_program_def to_ignore_def fun_eq_iff)
    with None show ?thesis by (induction ps arbitrary: c) simp_all
  next
    case (Some v)
    then have "run_program pids pid = program_body" by (simp add: run_program_def to_ignore_def fun_eq_iff)
    moreover have "fold program_body ps c = plus_counts c (fold program_body ps zero_counts)"
    proof (induction ps arbitrary: c)
      case (Cons p ps)
      show ?case using Cons[of "program_body p c"] Cons[of "program_body p zero_counts"]
        by (simp add: program_body_delta[of p c] plus_counts_assoc)
    qed simp
    ultimately show ?thesis using Some by simp
  qed
  show ?thesis unfolding run_call_def call_delta_def by (rule run)
qed

section \<open>Which kernel functions are counted\<close>

text \<open>
  The names a kernel uses: a function that \<open>fentry\<close> can attach to can be probed, a page that gets
  dirty is accounted under one of the two names, and at least one source of that event is there.
\<close>

definition supported :: "Kernel \<Rightarrow> bool" where
  "supported kn \<longleftrightarrow>
     (can_fentry kn Folio_account_dirtied \<longrightarrow> can_kprobe kn Folio_account_dirtied)
   \<and> (can_fentry kn Account_page_dirtied \<longrightarrow> can_kprobe kn Account_page_dirtied)
   \<and> \<not> (can_kprobe kn Folio_account_dirtied \<and> can_kprobe kn Account_page_dirtied)
   \<and> (can_kprobe kn Folio_account_dirtied \<or> can_kprobe kn Account_page_dirtied
      \<or> has_tracepoint kn Writeback_dirty_folio \<or> has_tracepoint kn Writeback_dirty_page)"

definition accessed_point :: "Kernel \<Rightarrow> point" where
  "accessed_point kn =
     (if can_fentry kn Folio_mark_accessed
         \<or> \<not> can_fentry kn Mark_page_accessed \<and> can_kprobe kn Folio_mark_accessed
      then Folio_mark_accessed else Mark_page_accessed)"

definition add_lru_point :: "Kernel \<Rightarrow> point" where
  "add_lru_point kn =
     (if can_fentry kn Folio_add_lru
         \<or> \<not> can_fentry kn Add_to_page_cache_lru \<and> can_kprobe kn Folio_add_lru
      then Folio_add_lru else Add_to_page_cache_lru)"

definition dirtied_point :: "Kernel \<Rightarrow> point" where
  "dirtied_point kn =
     (if can_kprobe kn Folio_account_dirtied then Folio_account_dirtied
      else if can_kprobe kn Account_page_dirtied then Account_page_dirtied
      else if has_tracepoint kn Writeback_dirty_folio then Writeback_dirty_folio
      else Writeback_dirty_page)"

text \<open>How often a page that gets dirty is subtracted from \<open>misses\<close>.\<close>

definition dirtied_weight :: "Kernel \<Rightarrow> nat" where
  "dirtied_weight kn = (if can_fentry kn Folio_account_dirtied then 2 else 1)"

definition expected_delta :: "Kernel \<Rightarrow> point \<Rightarrow> Cache_Counters" where
  "expected_delta kn pt =
     \<lparr>cc_total = of_bool (pt = accessed_point kn) - of_bool (pt = Mark_buffer_dirty),
      cc_misses = of_bool (pt = add_lru_point kn) - of_nat (dirtied_weight kn) * of_bool (pt = dirtied_point kn),
      cc_mbd = of_bool (pt = Mark_buffer_dirty)\<rparr>"

lemmas point_defs = accessed_point_def add_lru_point_def dirtied_point_def dirtied_weight_def

lemma call_delta_exact:
  assumes "choose_programs kn = Some sk" "supported kn"
  shows "call_delta sk pt = expected_delta kn pt"
proof -
  have sel: "[p \<leftarrow> programs. autoload sk p \<and> target sk p = pt]
    = [p \<leftarrow> programs. chosen kn p \<and> (if p = fentry_account_page_dirtied \<and> can_fentry kn Folio_account_dirtied
        then Folio_account_dirtied else section_point p) = pt]"
    by (simp add: choose_autoload[OF assms(1)] choose_target[OF assms(1)])
  show ?thesis using assms(2) unfolding call_delta_def sel expected_delta_def
    by (cases pt) (auto simp: programs_def chosen_def counter_defs zero_counts_def point_defs supported_def)
qed

section \<open>All events\<close>

text \<open>The calls made by processes that are traced when they make them.\<close>

fun traced_calls :: "cache_event list \<Rightarrow> pid_map \<Rightarrow> point list" where
  "traced_calls [] pids = []"
| "traced_calls (At pid pt # evs) pids = (if pids pid = None then [] else [pt]) @ traced_calls evs pids"
| "traced_calls (Forked parent child # evs) pids = traced_calls evs (trace_sched_process_fork (parent, child) pids)"

definition sum_counts :: "Cache_Counters list \<Rightarrow> Cache_Counters" where
  "sum_counts ds = foldr plus_counts ds zero_counts"

lemma sum_counts_simps [simp]:
  "sum_counts [] = zero_counts" "sum_counts (d # ds) = plus_counts d (sum_counts ds)"
  by (simp_all add: sum_counts_def)

lemma cache_run_counts:
  "cache_counts (cache_run sk evs tr)
   = plus_counts (cache_counts tr) (sum_counts (map (call_delta sk) (traced_calls evs (traced_pids tr))))"
  unfolding cache_run_def
proof (induction evs arbitrary: tr)
  case (Cons e evs)
  show ?case
  proof (cases e)
    case (At pid pt)
    then show ?thesis using Cons[of "cache_step sk (At pid pt) tr"]
      by (simp add: run_call_delta plus_counts_assoc)
  next
    case (Forked parent child)
    then show ?thesis using Cons[of "cache_step sk (Forked parent child) tr"] by simp
  qed
qed simp

lemma sum_expected:
  "sum_counts (map (expected_delta kn) pts) =
     \<lparr>cc_total = of_nat (count_list pts (accessed_point kn)) - of_nat (count_list pts Mark_buffer_dirty),
      cc_misses = of_nat (count_list pts (add_lru_point kn))
        - of_nat (dirtied_weight kn) * of_nat (count_list pts (dirtied_point kn)),
      cc_mbd = of_nat (count_list pts Mark_buffer_dirty)\<rparr>"
proof (induction pts)
  case (Cons pt pts)
  then show ?case by (simp add: expected_delta_def plus_counts_def algebra_simps)
qed (simp add: zero_counts_def)

text \<open>
  C24: on every supported kernel the counters are exact numbers of calls by traced processes (modulo
  \<open>2 ^ 64\<close>), except that a page that gets dirty is subtracted twice from \<open>misses\<close> when \<open>fentry\<close> can
  attach to \<open>folio_account_dirtied\<close>.
\<close>

theorem cache_counters_exact:
  assumes "choose_programs kn = Some sk" "supported kn"
    and "calls = traced_calls evs (traced_pids tr)" "tr' = cache_run sk evs tr"
  shows "cc_total (cache_counts tr') = cc_total (cache_counts tr)
      + of_nat (count_list calls (accessed_point kn)) - of_nat (count_list calls Mark_buffer_dirty)
    \<and> cc_misses (cache_counts tr') = cc_misses (cache_counts tr) + of_nat (count_list calls (add_lru_point kn))
      - of_nat (if can_fentry kn Folio_account_dirtied then 2 else 1) * of_nat (count_list calls (dirtied_point kn))
    \<and> cc_mbd (cache_counts tr') = cc_mbd (cache_counts tr) + of_nat (count_list calls Mark_buffer_dirty)"
proof -
  have "call_delta sk = expected_delta kn" using call_delta_exact[OF assms(1,2)] by (rule ext)
  then have "cache_counts tr' = plus_counts (cache_counts tr) (sum_counts (map (expected_delta kn) calls))"
    using cache_run_counts[of sk evs tr] assms(3,4) by simp
  then show ?thesis by (simp add: sum_expected plus_counts_def dirtied_weight_def)
qed

definition demo_kernel :: Kernel where
  "demo_kernel = \<lparr>can_fentry = \<lambda>p. p \<noteq> Account_page_dirtied, can_kprobe = \<lambda>p. p \<noteq> Account_page_dirtied,
     has_tracepoint = \<lambda>_. True, set_attach_target_ok = True\<rparr>"

definition demo_skeleton :: Skeleton where
  "demo_skeleton = the (choose_programs demo_kernel)"

lemma demo_chosen: "choose_programs demo_kernel = Some demo_skeleton"
  by (simp add: demo_skeleton_def choose_programs_def retarget_def demo_kernel_def)

lemma demo_supported: "supported demo_kernel"
  by (simp add: supported_def demo_kernel_def)

text \<open>One dirty page of a traced process makes \<open>misses\<close> smaller by two.\<close>

theorem cache_counters_exact_witness:
  "cc_misses (cache_counts (cache_run demo_skeleton [At 7 Folio_account_dirtied] (initial_cache_tracer [7]))) = - 2"
  using cache_counters_exact[OF demo_chosen demo_supported refl refl, of "[At 7 Folio_account_dirtied]" "initial_cache_tracer [7]"]
  by (simp add: initial_cache_tracer_def add_pid_def bpf_update_def MAX_PIDS_def demo_kernel_def point_defs)

section \<open>The chosen programs can attach\<close>

fun is_fentry :: "program \<Rightarrow> bool" where
  "is_fentry p \<longleftrightarrow> p \<in> {fentry_add_to_page_cache_lru, fentry_mark_page_accessed, fentry_account_page_dirtied,
     fentry_mark_buffer_dirty, fentry_folio_mark_accessed, fentry_folio_add_lru}"

fun is_tracepoint :: "program \<Rightarrow> bool" where
  "is_tracepoint p \<longleftrightarrow> p \<in> {tracepoint_writeback_dirty_folio, tracepoint_writeback_dirty_page}"

definition can_attach :: "Kernel \<Rightarrow> Skeleton \<Rightarrow> program \<Rightarrow> bool" where
  "can_attach kn sk p =
     (if is_fentry p then can_fentry kn (target sk p)
      else if is_tracepoint p then has_tracepoint kn (target sk p)
      else can_kprobe kn (target sk p))"

text \<open>Something to attach to for each of the four kinds of events.\<close>

definition has_points :: "Kernel \<Rightarrow> bool" where
  "has_points kn \<longleftrightarrow> supported kn
     \<and> (\<exists>p \<in> {Folio_add_lru, Add_to_page_cache_lru}. can_fentry kn p \<or> can_kprobe kn p)
     \<and> (\<exists>p \<in> {Folio_mark_accessed, Mark_page_accessed}. can_fentry kn p \<or> can_kprobe kn p)
     \<and> (can_fentry kn Mark_buffer_dirty \<or> can_kprobe kn Mark_buffer_dirty)"

text \<open>
  Where the kernel offers something for each kind of event, every program that is left to be
  loaded has something to attach to, so that neither loading nor attaching fails for a missing name.
\<close>

lemma chosen_programs_attach:
  assumes "choose_programs kn = Some sk" "has_points kn" "autoload sk p"
  shows "can_attach kn sk p"
  using assms(2,3) unfolding choose_autoload[OF assms(1)] can_attach_def choose_target[OF assms(1)]
  by (cases p) (auto simp: chosen_def has_points_def supported_def)

theorem chosen_programs_attach_witness:
  "can_attach demo_kernel demo_skeleton fentry_folio_add_lru"
proof (rule chosen_programs_attach[OF demo_chosen])
  show "has_points demo_kernel" using demo_supported by (simp add: has_points_def demo_kernel_def)
  show "autoload demo_skeleton fentry_folio_add_lru"
    by (simp add: choose_autoload[OF demo_chosen] chosen_def demo_kernel_def)
qed

section \<open>One interval\<close>

lemma sint_diff_nonneg:
  fixes a b :: u64
  assumes "0 \<le> sint a" "0 \<le> sint b"
  shows "sint (a - b) = sint a - sint b"
proof -
  have "sint a < 2 ^ 63" "sint b < 2 ^ 63" using sint_lt[of a] sint_lt[of b] by simp_all
  then have "signed_take_bit 63 (sint a - sint b) = sint a - sint b"
    using assms by (intro signed_take_bit_int_eq_self) simp_all
  then show ?thesis by (simp add: sint_word_diff)
qed

text \<open>
  The reported hits and misses are never negative, their sum is the clamped total, and the misses
  are the clamped counter cut off at the total: neither the subtraction nor the sum overflows.
\<close>

lemma interval_split_exact:
  "sint (fst (hits_and_misses tot misses)) + sint (snd (hits_and_misses tot misses)) = max 0 (sint tot)
   \<and> sint (snd (hits_and_misses tot misses)) = min (max 0 (sint misses)) (max 0 (sint tot))
   \<and> 0 \<le> sint (fst (hits_and_misses tot misses))"
proof -
  define t where "t = (if sint tot < 0 then 0 else tot)"
  define m where "m = (if sint misses < 0 then 0 else misses)"
  have t: "sint t = max 0 (sint tot)" and m: "sint m = max 0 (sint misses)"
    by (simp_all add: t_def m_def)
  have d: "sint (t - m) = sint t - sint m" by (rule sint_diff_nonneg) (simp_all add: t m)
  have "hits_and_misses tot misses = (if sint (t - m) < 0 then (0, t) else (t - m, m))"
    by (simp add: hits_and_misses_def t_def m_def Let_def)
  then show ?thesis using t m d by auto
qed

section \<open>No event is lost between intervals\<close>

definition round_events :: "Round \<Rightarrow> cache_event list" where
  "round_events r = while_sleeping r @ before_misses r @ before_mbd r"

fun read_rounds :: "Skeleton \<Rightarrow> Round list \<Rightarrow> Cache_Tracer \<Rightarrow> (u64 \<times> u64 \<times> u64) list \<times> Cache_Tracer" where
  "read_rounds sk [] tr = ([], tr)"
| "read_rounds sk (r # rs) tr =
     (let (read, tr) = read_counters sk r tr; (reads, tr) = read_rounds sk rs tr in (read # reads, tr))"

definition counts_of :: "u64 \<times> u64 \<times> u64 \<Rightarrow> Cache_Counters" where
  "counts_of = (\<lambda>(t, m, b). \<lparr>cc_total = t, cc_misses = m, cc_mbd = b\<rparr>)"

fun pids_after :: "cache_event list \<Rightarrow> pid_map \<Rightarrow> pid_map" where
  "pids_after [] pids = pids"
| "pids_after (At pid pt # evs) pids = pids_after evs pids"
| "pids_after (Forked parent child # evs) pids = pids_after evs (trace_sched_process_fork (parent, child) pids)"

lemma cache_run_pids: "traced_pids (cache_run sk evs tr) = pids_after evs (traced_pids tr)"
  unfolding cache_run_def
proof (induction evs arbitrary: tr)
  case (Cons e evs)
  then show ?case by (cases e) simp_all
qed simp

lemma cache_run_append: "cache_run sk (a @ b) tr = cache_run sk b (cache_run sk a tr)"
  by (simp add: cache_run_def)

lemma plus_counts_cancel: "plus_counts a b = plus_counts a c \<longleftrightarrow> b = c"
  by (cases b; cases c) (simp add: plus_counts_def)

lemma plus_counts_commute: "plus_counts a b = plus_counts b a"
  by (simp add: plus_counts_def add.commute)

lemma plus_counts_left_commute: "plus_counts a (plus_counts b c) = plus_counts b (plus_counts a c)"
  by (simp add: plus_counts_def add.left_commute)

lemmas plus_counts_ac = plus_counts_assoc plus_counts_commute plus_counts_left_commute

text \<open>Running from other counters shifts the result by the difference.\<close>

lemma cache_run_shift:
  assumes "plus_counts d c = cache_counts tr"
  shows "plus_counts d (cache_counts (cache_run sk evs (tr\<lparr>cache_counts := c\<rparr>))) = cache_counts (cache_run sk evs tr)"
  by (simp add: cache_run_counts plus_counts_assoc[symmetric] assms)

lemma read_counters_conserve:
  assumes "read_counters sk r tr = (read, tr')"
  shows "plus_counts (counts_of read) (cache_counts tr') = cache_counts (cache_run sk (round_events r) tr)
    \<and> traced_pids tr' = traced_pids (cache_run sk (round_events r) tr)"
proof -
  obtain t m b where read: "read = (t, m, b)" by (cases read)
  let ?tr1 = "cache_run sk (while_sleeping r) tr"
  define c1 where "c1 = (cache_counts ?tr1)\<lparr>cc_total := 0\<rparr>"
  let ?tr2 = "cache_run sk (before_misses r) (?tr1\<lparr>cache_counts := c1\<rparr>)"
  define c2 where "c2 = (cache_counts ?tr2)\<lparr>cc_misses := 0\<rparr>"
  let ?tr3 = "cache_run sk (before_mbd r) (?tr2\<lparr>cache_counts := c2\<rparr>)"
  have r: "t = cc_total (cache_counts ?tr1)" "m = cc_misses (cache_counts ?tr2)" "b = cc_mbd (cache_counts ?tr3)"
    "tr' = ?tr3\<lparr>cache_counts := (cache_counts ?tr3)\<lparr>cc_mbd := 0\<rparr>\<rparr>"
    using assms by (simp_all add: read read_counters_def take_total_def take_misses_def take_mbd_def c1_def c2_def)
  let ?t = "\<lparr>cc_total = t, cc_misses = 0, cc_mbd = 0\<rparr>"
  let ?m = "\<lparr>cc_total = 0, cc_misses = m, cc_mbd = 0\<rparr>"
  let ?b = "\<lparr>cc_total = 0, cc_misses = 0, cc_mbd = b\<rparr>"
  have "plus_counts ?t c1 = cache_counts ?tr1" by (simp add: c1_def r(1) plus_counts_def)
  then have 1: "plus_counts ?t (cache_counts ?tr2) = cache_counts (cache_run sk (before_misses r) ?tr1)"
    by (rule cache_run_shift)
  have "plus_counts ?m c2 = cache_counts ?tr2" by (simp add: c2_def r(2) plus_counts_def)
  then have "plus_counts (plus_counts ?t ?m) c2 = cache_counts (cache_run sk (before_misses r) ?tr1)"
    using 1 by (simp add: plus_counts_assoc)
  from cache_run_shift[OF this]
  have 2: "plus_counts (plus_counts ?t ?m) (cache_counts ?tr3)
      = cache_counts (cache_run sk (before_mbd r) (cache_run sk (before_misses r) ?tr1))"
    by (simp add: cache_run_counts cache_run_pids)
  have "plus_counts (counts_of read) (cache_counts tr') = plus_counts (plus_counts ?t ?m) (cache_counts ?tr3)"
    by (simp add: read r counts_of_def plus_counts_def)
  then show ?thesis using 2 r(4) by (simp add: round_events_def cache_run_append cache_run_pids)
qed

text \<open>
  C25: no event is lost or counted in two intervals, also when it happens while the three counters are
  being read: what all rounds read, and what is left, add up to an uninterrupted count.
\<close>

theorem rounds_conserve_counts:
  assumes "read_rounds sk rs tr = (reads, tr')"
  shows "plus_counts (sum_counts (map counts_of reads)) (cache_counts tr')
    = cache_counts (cache_run sk (concat (map round_events rs)) tr)"
  using assms
proof (induction rs arbitrary: tr reads)
  case Nil
  then show ?case by (simp add: cache_run_def)
next
  case (Cons r rs)
  obtain read tr1 where 1: "read_counters sk r tr = (read, tr1)" by (cases "read_counters sk r tr")
  obtain reads2 where 2: "read_rounds sk rs tr1 = (reads2, tr')" and reads: "reads = read # reads2"
    using Cons.prems 1 by (auto split: prod.splits)
  note c = read_counters_conserve[OF 1]
  have "plus_counts (sum_counts (map counts_of reads)) (cache_counts tr')
      = plus_counts (counts_of read) (cache_counts (cache_run sk (concat (map round_events rs)) tr1))"
    using Cons.IH[OF 2] by (simp add: reads plus_counts_assoc)
  also have "\<dots> = cache_counts (cache_run sk (concat (map round_events (r # rs))) tr)"
    using c by (simp add: cache_run_counts[of sk "concat (map round_events rs)"] cache_run_append plus_counts_assoc[symmetric])
  finally show ?case .
qed

definition demo_round :: "cache_event list \<Rightarrow> cache_event list \<Rightarrow> Round" where
  "demo_round a b = \<lparr>while_sleeping = a, before_misses = b, before_mbd = [], meminfo = Some (2048, 4096), exiting = False\<rparr>"

theorem rounds_conserve_counts_witness:
  "\<exists>reads tr'. read_rounds demo_skeleton [demo_round [At 7 Folio_mark_accessed] [At 7 Folio_mark_accessed], demo_round [] []]
      (initial_cache_tracer [7]) = (reads, tr')
    \<and> plus_counts (sum_counts (map counts_of reads)) (cache_counts tr') = \<lparr>cc_total = 2, cc_misses = 0, cc_mbd = 0\<rparr>"
proof -
  let ?rs = "[demo_round [At 7 Folio_mark_accessed] [At 7 Folio_mark_accessed], demo_round [] []]"
  obtain reads tr' where 1: "read_rounds demo_skeleton ?rs (initial_cache_tracer [7]) = (reads, tr')" by (meson surj_pair)
  have "call_delta demo_skeleton = expected_delta demo_kernel"
    using call_delta_exact[OF demo_chosen demo_supported] by (rule ext)
  then have "cache_counts (cache_run demo_skeleton (concat (map round_events ?rs)) (initial_cache_tracer [7]))
      = \<lparr>cc_total = 2, cc_misses = 0, cc_mbd = 0\<rparr>"
    by (simp add: cache_run_counts round_events_def demo_round_def initial_cache_tracer_def add_pid_def bpf_update_def
        MAX_PIDS_def expected_delta_def point_defs demo_kernel_def plus_counts_def zero_counts_def)
  with 1 rounds_conserve_counts[OF 1] show ?thesis by simp
qed

section \<open>The loop\<close>

text \<open>
  What a printed line must say of one round: the misses are the counter, at least 0 and at most the total, the hits are the
  rest of the total, and the memory figures are those of the round in MB.
\<close>

definition reports :: "Round \<Rightarrow> u64 \<times> u64 \<times> u64 \<Rightarrow> Line \<Rightarrow> bool" where
  "reports r = (\<lambda>(tot, misses, mbd) l.
     sint (line_misses l) = min (max 0 (sint misses)) (max 0 (sint tot))
     \<and> sint (line_hits l) = max 0 (sint tot) - sint (line_misses l)
     \<and> line_dirties l = mbd
     \<and> (\<exists>buffers cached. meminfo r = Some (buffers, cached)
          \<and> buffers_mb l = buffers div 1024 \<and> cached_mb l = cached div 1024))"

definition each_reported :: "Skeleton \<Rightarrow> Cache_Tracer \<Rightarrow> Round list \<Rightarrow> Line list \<Rightarrow> bool" where
  "each_reported sk tr rs lines \<longleftrightarrow> list_all2 (\<lambda>(r, read) l. reports r read l) (zip rs (fst (read_rounds sk rs tr))) lines"

text \<open>The sums of the lines, column by column.\<close>

definition column_sums :: "Line list \<Rightarrow> Sums \<Rightarrow> Sums" where
  "column_sums lines s = \<lparr>total_hits = total_hits s + sum_list (map line_hits lines),
     total_misses = total_misses s + sum_list (map line_misses lines),
     total_dirties = total_dirties s + sum_list (map line_dirties lines)\<rparr>"

lemma main_loop_ends:
  assumes "0 < sint n" "nat (sint n) \<le> length rs" "\<forall>r \<in> set rs. meminfo r \<noteq> None"
  shows "\<exists>lines. main_loop sk rs n tr s = (lines, column_sums lines s, Finished)
    \<and> lines \<noteq> [] \<and> length lines \<le> nat (sint n)
    \<and> (\<forall>i < length lines - 1. \<not> exiting (rs ! i))
    \<and> (length lines = nat (sint n) \<or> exiting (rs ! (length lines - 1)))
    \<and> each_reported sk tr (take (length lines) rs) lines"
  using assms
proof (induction rs arbitrary: n tr s)
  case Nil
  then show ?case by simp
next
  case (Cons r rs)
  obtain t m b tr1 where read: "read_counters sk r tr = ((t, m, b), tr1)" by (metis prod_cases3 surj_pair)
  obtain h ms where hm: "hits_and_misses t m = (h, ms)" by (cases "hits_and_misses t m")
  obtain buffers cached where mem: "meminfo r = Some (buffers, cached)" using Cons.prems(3) by auto
  define line where "line = \<lparr>line_hits = h, line_misses = ms, line_dirties = b,
    buffers_mb = buffers div 1024, cached_mb = cached div 1024\<rparr>"
  have line: "reports r (t, m, b) line"
    using interval_split_exact[of t m] by (simp add: reports_def line_def hm mem)
  have min: "n \<noteq> 0x80000000" using Cons.prems(1) by auto
  have pred: "sint (n - 1) = sint n - 1" using Cons.prems(1) sint_lt[of n]
    by (simp add: sint_word_diff signed_take_bit_int_eq_self)
  have add: "add_sums (h, ms) b s = column_sums [line] s" by (simp add: add_sums_def column_sums_def line_def)
  show ?case
  proof (cases "exiting r \<or> n - 1 = 0")
    case True
    then have "main_loop sk (r # rs) n tr s = ([line], column_sums [line] s, Finished)"
      using min by (auto simp: read hm mem line_def[symmetric] add Let_def)
    moreover have "each_reported sk tr (take (length [line]) (r # rs)) [line]"
      using line by (simp add: each_reported_def read)
    moreover have "n = 1 \<or> exiting r" using True by auto
    ultimately show ?thesis using Cons.prems(1) by (intro exI[of _ "[line]"]) auto
  next
    case False
    then have "sint (n - 1) \<noteq> 0" by (metis signed_eq_0_iff)
    then have "0 < sint (n - 1)" using pred Cons.prems(1) by linarith
    moreover have "nat (sint (n - 1)) \<le> length rs" using Cons.prems(2) pred by simp
    ultimately obtain lines where IH: "main_loop sk rs (n - 1) tr1 (add_sums (h, ms) b s)
          = (lines, column_sums lines (add_sums (h, ms) b s), Finished)"
      "lines \<noteq> []" "length lines \<le> nat (sint (n - 1))" "\<forall>i < length lines - 1. \<not> exiting (rs ! i)"
      "length lines = nat (sint (n - 1)) \<or> exiting (rs ! (length lines - 1))"
      "each_reported sk tr1 (take (length lines) rs) lines"
      using Cons.IH[of "n - 1" tr1 "add_sums (h, ms) b s"] Cons.prems(3) by auto
    have "column_sums lines (column_sums [line] s) = column_sums (line # lines) s"
      by (simp add: column_sums_def add.assoc)
    then have "main_loop sk (r # rs) n tr s = (line # lines, column_sums (line # lines) s, Finished)"
      using False min IH(1) by (simp add: read hm mem line_def[symmetric] add Let_def)
    moreover have "each_reported sk tr (take (length (line # lines)) (r # rs)) (line # lines)"
      using IH(6) line by (simp add: each_reported_def read case_prod_beta)
    moreover have "length (line # lines) \<le> nat (sint n)"
      "length (line # lines) = nat (sint n) \<or> exiting ((r # rs) ! (length (line # lines) - 1))"
      using IH(2,3,5) pred Cons.prems(1) by (auto simp: nth_Cons' nat_eq_iff)
    moreover have "\<forall>i < length (line # lines) - 1. \<not> exiting ((r # rs) ! i)"
      using IH(2,4) False by (auto simp: nth_Cons')
    ultimately show ?thesis by blast
  qed
qed

text \<open>A JSON object on one line: the names in quotes, the values as they are, a comma and a blank in between.\<close>

fun with_commas :: "byte list list \<Rightarrow> byte list" where
  "with_commas [] = []"
| "with_commas [x] = x"
| "with_commas (x # y # xs) = x @ [44, 32] @ with_commas (y # xs)"

definition json_object :: "(string \<times> byte list) list \<Rightarrow> byte list" where
  "json_object nvs = [123] @ with_commas (map (\<lambda>(name, v). [34] @ ascii name @ [34, 58, 32] @ v) nvs) @ [125, 10]"

text \<open>
  C26: When everything is in place and the number of rounds is positive, the program ends by itself, with status 0, after
  exactly that many rounds or after the first one in which the signal has come. It has printed one line per round, in
  order, each with the hits, misses and dirtied pages of the counters read in that round (a negative counter taken as 0, the misses cut off at the
  total) and the memory figures of the round. With an output file, the
  file holds one JSON object whose \<open>hits\<close>, \<open>misses\<close> and \<open>dirties\<close> are the 64-bit sums of the columns of these
  lines, whose ratio is that of the hits to hits and misses, and whose memory figures are those read last, in MB.
\<close>

theorem cachestat_reports:
  assumes "choose_programs kn = Some sk" "open_ok boot" "load_ok boot" "bss_mapped boot" "attach_ok boot"
    and "0 < sint (env_times env)" "nat (sint (env_times env)) \<le> length rounds" "\<forall>r \<in> set rounds. meminfo r \<noteq> None"
    and "io_meminfo io = Some (buffers, cached)" "io_fopen io = None" "io_fprintf io = None" "io_fclose io = None"
  shows "\<exists>lines text. cachestat_main percent io kn boot env rounds = (lines, Some (0, text))
    \<and> lines \<noteq> [] \<and> length lines \<le> nat (sint (env_times env))
    \<and> (\<forall>i < length lines - 1. \<not> exiting (rounds ! i))
    \<and> (length lines = nat (sint (env_times env)) \<or> exiting (rounds ! (length lines - 1)))
    \<and> each_reported sk (initial_cache_tracer (env_pids env)) (take (length lines) rounds) lines
    \<and> text = (if env_output env = None then None else
        let hits = sum_list (map line_hits lines); misses = sum_list (map line_misses lines);
            dirties = sum_list (map line_dirties lines)
        in Some (json_object
          [(''hits'', print_u64 hits), (''misses'', print_u64 misses), (''dirties'', print_u64 dirties),
           (''hitratio'', percent hits (hits + misses)),
           (''buffers_mb'', print_u64 (buffers div 1024)), (''cached_mb'', print_u64 (cached div 1024))]))"
proof -
  from main_loop_ends[OF assms(6-8), of sk "initial_cache_tracer (env_pids env)" zero_sums] obtain lines where
    l: "main_loop sk rounds (env_times env) (initial_cache_tracer (env_pids env)) zero_sums
        = (lines, column_sums lines zero_sums, Finished)"
      "lines \<noteq> []" "length lines \<le> nat (sint (env_times env))"
      "\<forall>i < length lines - 1. \<not> exiting (rounds ! i)"
      "length lines = nat (sint (env_times env)) \<or> exiting (rounds ! (length lines - 1))"
      "each_reported sk (initial_cache_tracer (env_pids env)) (take (length lines) rounds) lines"
    by blast
  have "cachestat_main percent io kn boot env rounds
      = (lines, Some (0, if env_output env = None then None
          else Some (json_text percent (buffers, cached) (column_sums lines zero_sums))))"
    using assms(1-5,9-12) l(1) by (simp add: cachestat_main_def cleanup_def write_output_json_def)
  moreover have "json_text percent (buffers, cached) (column_sums lines zero_sums) = json_object
      [(''hits'', print_u64 (sum_list (map line_hits lines))), (''misses'', print_u64 (sum_list (map line_misses lines))),
       (''dirties'', print_u64 (sum_list (map line_dirties lines))),
       (''hitratio'', percent (sum_list (map line_hits lines))
          (sum_list (map line_hits lines) + sum_list (map line_misses lines))),
       (''buffers_mb'', print_u64 (buffers div 1024)), (''cached_mb'', print_u64 (cached div 1024))]"
    by (simp add: json_text_def json_field_def json_object_def column_sums_def zero_sums_def ascii_def)
  ultimately show ?thesis using l(2-6) by (intro exI[of _ lines] exI conjI) (auto simp: Let_def)
qed

text \<open>Two rounds with an output file: one page found in the cache, then nothing.\<close>

abbreviation demo_rounds :: "Round list" where
  "demo_rounds \<equiv> [demo_round [At 7 Folio_mark_accessed] [], demo_round [] []]"

abbreviation demo_cache_env :: Env where
  "demo_cache_env \<equiv> default_env\<lparr>env_times := 2, env_output := Some [111], env_pids := [7]\<rparr>"

theorem cachestat_reports_witness:
  "\<exists>lines text. cachestat_main (\<lambda>_ _. []) \<lparr>io_meminfo = Some (0, 0), io_fopen = None, io_fprintf = None, io_fclose = None\<rparr>
      demo_kernel \<lparr>open_ok = True, load_ok = True, bss_mapped = True, attach_ok = True\<rparr> demo_cache_env demo_rounds
      = (lines, Some (0, Some text)) \<and> length lines = 2 \<and> each_reported demo_skeleton (initial_cache_tracer [7]) demo_rounds lines"
proof -
  let ?io = "\<lparr>io_meminfo = Some (0, 0), io_fopen = None, io_fprintf = None, io_fclose = None\<rparr>"
  let ?boot = "\<lparr>open_ok = True, load_ok = True, bss_mapped = True, attach_ok = True\<rparr>"
  have mem: "\<forall>r \<in> set demo_rounds. meminfo r \<noteq> None" by (simp add: demo_round_def)
  have run: "\<not> exiting (demo_rounds ! i)" if "i < 2" for i
    using that by (auto simp: demo_round_def less_2_cases_iff)
  obtain lines js where l: "cachestat_main (\<lambda>_ _. []) ?io demo_kernel ?boot demo_cache_env demo_rounds = (lines, Some (0, js))"
    "length lines \<le> 2" "lines \<noteq> []" "length lines = 2 \<or> exiting (demo_rounds ! (length lines - 1))"
    "each_reported demo_skeleton (initial_cache_tracer [7]) (take (length lines) demo_rounds) lines" "js \<noteq> None"
    using cachestat_reports[OF demo_chosen, of ?boot demo_cache_env demo_rounds ?io 0 0 "\<lambda>_ _. []"] mem
    by (auto simp: Let_def)
  have "length lines - 1 < 2" using l(2,3) by (cases lines) auto
  then have "length lines = 2" using l(4) run by blast
  with l show ?thesis by auto
qed

text \<open>When the counters cannot be mapped, the program ends with status 0 and writes zeros.\<close>

lemma unmapped_counters_succeed:
  assumes "choose_programs kn = Some sk" "open_ok boot" "load_ok boot" "\<not> bss_mapped boot" "env_output env = None"
  shows "cachestat_main percent io kn boot env rounds = ([], Some (0, None))"
  using assms by (simp add: cachestat_main_def cleanup_def)

end
