(* ===== verification/C_Scanf.thy ===== *)
theory C_Scanf
  imports C_Numbers
begin

text \<open>
  The part of \<open>scanf\<close> that the tracing programs use on the text files of the kernel. A format is a list
  of directives; a stream is the list of bytes that have not been read yet, so \<open>feof\<close> holds whenever
  \<open>fscanf\<close> returns \<open>EOF\<close> (read errors are not modelled). The return value is the C library's: the number
  of stored items, and \<open>EOF\<close> when the input ends before an item has been stored.
\<close>

section \<open>Formats\<close>

text \<open>\<open>%x\<close>, \<open>%u\<close>, \<open>%c\<close>, \<open>%s\<close> with an optional width, and \<open>%[^\n]\<close>; length modifiers are the caller's.\<close>

datatype conversion = Hexadecimal | Decimal | One_char | Token "nat option" | Rest_of_line

text \<open>White space in the format, an ordinary character, a conversion, and a conversion with \<open>*\<close>.\<close>

datatype directive = White | Literal byte | Store conversion | Skip conversion

datatype item = Number u64 | Character byte | Text "byte list"

text \<open>Input that does not match stays in the stream, from the byte that cannot belong to the item.\<close>

datatype converted = Out_of_input | Mismatch "byte list" | Converted item "byte list"

definition is_hex :: "byte \<Rightarrow> bool" where
  "is_hex b \<longleftrightarrow> is_digit b \<or> 97 \<le> b \<and> b \<le> 102 \<or> 65 \<le> b \<and> b \<le> 70"

definition hex_val :: "byte \<Rightarrow> nat" where
  "hex_val b = (if is_digit b then unat b - 48 else if 97 \<le> b then unat b - 87 else unat b - 55)"

definition hex_number :: "byte list \<Rightarrow> nat" where
  "hex_number ds = foldl (\<lambda>n d. 16 * n + hex_val d) 0 ds"

text \<open>\<open>strtoull\<close> on the digits that were matched: too large a number becomes the largest one.\<close>

definition clamp_unsigned :: "bool \<Rightarrow> nat \<Rightarrow> u64" where
  "clamp_unsigned neg n = (if 2 ^ 64 \<le> n then - 1 else if neg then - of_nat n else of_nat n)"

definition scan_number :: "bool \<Rightarrow> byte list \<Rightarrow> converted" where
  "scan_number hex s =
     (let s0 = dropWhile is_space s;
          neg = (s0 \<noteq> [] \<and> hd s0 = 45);
          s1 = (if s0 \<noteq> [] \<and> (hd s0 = 45 \<or> hd s0 = 43) then tl s0 else s0);
          s2 = (if hex \<and> 2 \<le> length s1 \<and> s1 ! 0 = 48 \<and> (s1 ! 1 = 120 \<or> s1 ! 1 = 88) then drop 2 s1 else s1);
          P = (if hex then is_hex else is_digit);
          ds = takeWhile P s2
      in if s0 = [] then Out_of_input
         else if ds = [] then Mismatch s2
         else Converted (Number (clamp_unsigned neg (if hex then hex_number ds else nat (number_val ds))))
                (dropWhile P s2))"

definition scan_token :: "nat option \<Rightarrow> byte list \<Rightarrow> converted" where
  "scan_token width s =
     (let s0 = dropWhile is_space s;
          word = takeWhile (\<lambda>b. \<not> is_space b) s0;
          tok = (case width of None \<Rightarrow> word | Some w \<Rightarrow> take w word)
      in if s0 = [] then Out_of_input else if tok = [] then Mismatch s0
         else Converted (Text tok) (drop (length tok) s0))"

fun convert :: "conversion \<Rightarrow> byte list \<Rightarrow> converted" where
  "convert Hexadecimal s = scan_number True s"
| "convert Decimal s = scan_number False s"
| "convert One_char s = (case s of [] \<Rightarrow> Out_of_input | b # t \<Rightarrow> Converted (Character b) t)"
| "convert (Token w) s = scan_token w s"
| "convert Rest_of_line s =
     (if s = [] then Out_of_input else if hd s = 10 then Mismatch s
      else Converted (Text (takeWhile (\<lambda>b. b \<noteq> 10) s)) (dropWhile (\<lambda>b. b \<noteq> 10) s))"

section \<open>Reading\<close>

definition EOF :: int where
  "EOF = - 1"

text \<open>
  The result, the stored items, and the rest of the stream.
\<close>

definition out_of_input :: "item list \<Rightarrow> int \<times> item list \<times> byte list" where
  "out_of_input vs = (if vs = [] then EOF else int (length vs), vs, [])"

fun scan :: "directive list \<Rightarrow> byte list \<Rightarrow> item list \<Rightarrow> int \<times> item list \<times> byte list" where
  "scan [] s vs = (int (length vs), vs, s)"
| "scan (White # ds) s vs = scan ds (dropWhile is_space s) vs"
| "scan (Literal b # ds) s vs =
     (case s of [] \<Rightarrow> out_of_input vs
      | c # t \<Rightarrow> if c = b then scan ds t vs else (int (length vs), vs, s))"
| "scan (Store c # ds) s vs =
     (case convert c s of Out_of_input \<Rightarrow> out_of_input vs | Mismatch t \<Rightarrow> (int (length vs), vs, t)
      | Converted v t \<Rightarrow> scan ds t (vs @ [v]))"
| "scan (Skip c # ds) s vs =
     (case convert c s of Out_of_input \<Rightarrow> out_of_input vs | Mismatch t \<Rightarrow> (int (length vs), vs, t)
      | Converted v t \<Rightarrow> scan ds t vs)"

definition fscanf :: "directive list \<Rightarrow> byte list \<Rightarrow> int \<times> item list \<times> byte list" where
  "fscanf ds s = scan ds s []"

text \<open>A string is stored with a terminating NUL; writing more than the array holds is undefined.\<close>

definition fits :: "nat list \<Rightarrow> item list \<Rightarrow> bool" where
  "fits sizes vs \<longleftrightarrow> list_all (\<lambda>(n, v). case v of Text t \<Rightarrow> length t < n | _ \<Rightarrow> True) (zip sizes vs)"

fun text_of :: "item \<Rightarrow> byte list" where
  "text_of (Text t) = takeWhile (\<lambda>b. b \<noteq> 0) t"
| "text_of _ = []"

fun number_of_item :: "item \<Rightarrow> u64" where
  "number_of_item (Number n) = n"
| "number_of_item _ = 0"

text \<open>
  \<open>fgets\<close> with an array of \<open>n\<close> bytes: the line with its newline, or as much of it as fits; \<open>None\<close> at the
  end of the file. \<open>sscanf\<close> reads the string in front of the first NUL.
\<close>

definition first_line :: "byte list \<Rightarrow> byte list" where
  "first_line s = takeWhile (\<lambda>b. b \<noteq> 10) s @ (if 10 \<in> set s then [10] else [])"

definition fgets :: "nat \<Rightarrow> byte list \<Rightarrow> (byte list \<times> byte list) option" where
  "fgets n s =
     (let line = take (n - 1) (first_line s) in if s = [] then None else Some (line, drop (length line) s))"

definition sscanf :: "directive list \<Rightarrow> byte list \<Rightarrow> int \<times> item list" where
  "sscanf ds s = (let (r, vs, t) = fscanf ds (takeWhile (\<lambda>b. b \<noteq> 0) s) in (r, vs))"

section \<open>Every stored item uses up input\<close>

fun rest_of :: "converted \<Rightarrow> byte list" where
  "rest_of Out_of_input = []"
| "rest_of (Mismatch t) = t"
| "rest_of (Converted v t) = t"

definition uses_up :: "byte list \<Rightarrow> converted \<Rightarrow> bool" where
  "uses_up s c \<longleftrightarrow> length (rest_of c) \<le> length s \<and> (\<forall>v t. c = Converted v t \<longrightarrow> length t < length s)"

lemma length_dropWhile_less: "takeWhile P s \<noteq> [] \<Longrightarrow> length (dropWhile P s) < length s"
  by (cases s) (auto simp: length_dropWhile_le le_imp_less_Suc split: if_splits)

lemma uses_up_mono: "uses_up s0 c \<Longrightarrow> length s0 \<le> length s \<Longrightarrow> uses_up s c"
  by (fastforce simp: uses_up_def)

lemma scan_number_shorter: "uses_up s (scan_number h s)"
proof -
  define s0 where "s0 = dropWhile is_space s"
  define s1 where "s1 = (if s0 \<noteq> [] \<and> (hd s0 = 45 \<or> hd s0 = 43) then tl s0 else s0)"
  define s2 where "s2 = (if h \<and> 2 \<le> length s1 \<and> s1 ! 0 = 48 \<and> (s1 ! 1 = 120 \<or> s1 ! 1 = 88) then drop 2 s1 else s1)"
  define P where "P = (if h then is_hex else is_digit)"
  have "uses_up s2 (scan_number h s)"
    using length_dropWhile_less[of P s2]
    unfolding scan_number_def Let_def s0_def[symmetric] s1_def[symmetric] s2_def[symmetric] P_def[symmetric]
    by (auto simp: uses_up_def)
  moreover have "length s2 \<le> length s1" by (simp add: s2_def)
  moreover have "length s1 \<le> length s0" by (simp add: s1_def)
  moreover have "length s0 \<le> length s" by (simp add: s0_def length_dropWhile_le)
  ultimately show ?thesis by (meson uses_up_mono order_trans)
qed

lemma scan_token_shorter: "uses_up s (scan_token w s)"
proof -
  define s0 where "s0 = dropWhile is_space s"
  define tok where "tok = (case w of None \<Rightarrow> takeWhile (\<lambda>b. \<not> is_space b) s0
    | Some n \<Rightarrow> take n (takeWhile (\<lambda>b. \<not> is_space b) s0))"
  have "uses_up s0 (scan_token w s)"
    unfolding scan_token_def Let_def s0_def[symmetric] tok_def[symmetric] by (cases s0; cases tok) (auto simp: uses_up_def)
  then show ?thesis by (rule uses_up_mono) (simp add: s0_def length_dropWhile_le)
qed

lemma convert_shorter: "uses_up s (convert c s)"
proof (cases c)
  case Rest_of_line
  then show ?thesis
    by (cases s) (auto simp: uses_up_def length_dropWhile_le le_imp_less_Suc le_SucI)
next
  case One_char
  then show ?thesis by (cases s) (auto simp: uses_up_def)
qed (simp_all add: scan_number_shorter scan_token_shorter)

definition scan_sound :: "byte list \<Rightarrow> item list \<Rightarrow> int \<times> item list \<times> byte list \<Rightarrow> bool" where
  "scan_sound s vs res \<longleftrightarrow> (case res of (r, ws, t) \<Rightarrow>
     length t \<le> length s \<and> length vs \<le> length ws \<and> (length vs < length ws \<longrightarrow> length t < length s)
     \<and> (r = EOF \<and> ws = [] \<or> r = int (length ws)))"

lemma scan_sound_stop:
  "scan_sound s vs (out_of_input vs)" "length t \<le> length s \<Longrightarrow> scan_sound s vs (int (length vs), vs, t)"
  by (simp_all add: scan_sound_def out_of_input_def)

lemma scan_sound_less:
  assumes "length t < length s" "length vs \<le> length vs'" "scan_sound t vs' res"
  shows "scan_sound s vs res"
  using assms by (auto simp: scan_sound_def split: prod.splits)

lemma scan_result: "scan_sound s vs (scan ds s vs)"
proof (induction ds s vs rule: scan.induct)
  case (1 s vs)
  then show ?case by (simp add: scan_sound_stop)
next
  case (2 ds s vs)
  then show ?case using length_dropWhile_le[of is_space s] by (auto simp: scan_sound_def split: prod.splits)
next
  case (3 b ds s vs)
  show ?case
  proof (cases s)
    case (Cons c t)
    then have "length t < length s" by simp
    with Cons 3 show ?thesis using scan_sound_less[of t s vs vs "scan ds t vs"] by (cases "c = b") (simp_all add: scan_sound_stop)
  qed (simp add: scan_sound_stop)
next
  case (4 c ds s vs)
  with convert_shorter[of s c] show ?case
    by (cases "convert c s") (auto simp: scan_sound_stop uses_up_def intro: scan_sound_less[where vs' = "vs @ [v]" for v])
next
  case (5 c ds s vs)
  with convert_shorter[of s c] show ?case
    by (cases "convert c s") (auto simp: scan_sound_stop uses_up_def intro: scan_sound_less)
qed

lemma fscanf_shorter:
  assumes "fscanf ds s = (r, vs, t)" "0 < r"
  shows "length t < length s"
  using scan_result[of s "[]" ds] assms by (auto simp: fscanf_def scan_sound_def EOF_def)

lemma first_line_prefix: "\<exists>u. s = first_line s @ u"
proof (cases "10 \<in> set s")
  case True
  then have "dropWhile (\<lambda>b. b \<noteq> 10) s \<noteq> []" by (simp add: dropWhile_eq_Nil_conv)
  then obtain u where "dropWhile (\<lambda>b. b \<noteq> 10) s = 10 # u"
    using hd_dropWhile[of "\<lambda>b. b \<noteq> 10" s] by (cases "dropWhile (\<lambda>b. b \<noteq> 10) s") auto
  then have "s = first_line s @ u"
    using True takeWhile_dropWhile_id[of "\<lambda>b. b \<noteq> 10" s] by (simp add: first_line_def)
  then show ?thesis by blast
next
  case False
  then show ?thesis
    by (intro exI[of _ "dropWhile (\<lambda>b. b \<noteq> 10) s"]) (simp add: first_line_def)
qed

lemma fgets_shorter:
  assumes "fgets n s = Some (line, t)" "1 < n"
  shows "length t < length s" "s = line @ t"
proof -
  have s: "s \<noteq> []" "line = take (n - 1) (first_line s)" "t = drop (length line) s"
    using assms(1) by (auto simp: fgets_def Let_def split: if_splits)
  have "first_line s \<noteq> []" using s(1) by (cases s) (auto simp: first_line_def)
  with s(2) assms(2) have "line \<noteq> []" by simp
  then show "length t < length s" using s(1,3) by (cases s; cases line) auto
  obtain u where "s = first_line s @ u" using first_line_prefix by blast
  then have "s = line @ drop (n - 1) (first_line s) @ u"
    unfolding s(2) by (metis append.assoc append_take_drop_id)
  then show "s = line @ t" using s(3) by (metis append_eq_conv_conj)
qed

end
