(* ===== verification/Attach_Points.thy ===== *)
theory Attach_Points
  imports C_Scanf
begin

text \<open>
  \<open>bpf_programs/cachestat/trace_helpers.c\<close>: the questions a tracing program asks about the running
  kernel before it attaches to it. What the kernel answers (files, permissions, the verifier) is a
  record of functions; the descriptors of this process are a set. A symbol that does not fit in its
  array of 256 bytes has no result (\<open>None\<close>).
\<close>

section \<open>The kernel's answers\<close>

text \<open>
  Type information is only asked for the number of a function, so it is the function that gives it.
  \<open>readable\<close> holds the text files (\<open>None\<close> if they cannot be opened).
\<close>

type_synonym btf = "path \<Rightarrow> int"

record Host =
  readable :: "path \<Rightarrow> byte list option"
  accessible :: "path \<Rightarrow> bool"
  accessible_eff :: "path \<Rightarrow> bool"
  readable_by :: "path \<Rightarrow> bool"
  vmlinux_btf :: "btf option"
  module_btf :: "path \<Rightarrow> btf option"
  load_fentry :: "int \<Rightarrow> int"
  open_raw_tracepoint :: "int \<Rightarrow> int"
  raw_tp_btf_id :: "path \<Rightarrow> int"
  load_raw_tp :: "int \<Rightarrow> int"
  create_ringbuf :: int
  load_ns_pid_tgid :: int

section \<open>Probing with a small program\<close>

definition opened :: "int \<Rightarrow> int set \<Rightarrow> int set" where
  "opened fd fds = (if 0 \<le> fd then insert fd fds else fds)"

definition closed :: "int \<Rightarrow> int set \<Rightarrow> int set" where
  "closed fd fds = fds - {fd}"

definition fentry_try_attach :: "Host \<Rightarrow> int \<Rightarrow> int set \<Rightarrow> bool \<times> int set" where
  "fentry_try_attach h btf_id fds =
     (let prog_fd = load_fentry h btf_id; fds1 = opened prog_fd fds
      in if prog_fd < 0 then (False, fds1)
         else let attach_fd = open_raw_tracepoint h prog_fd;
                  fds2 = opened attach_fd fds1;
                  fds3 = (if 0 \<le> attach_fd then closed attach_fd fds2 else fds2)
              in (0 \<le> attach_fd, closed prog_fd fds3))"

definition fentry_can_attach :: "Host \<Rightarrow> path \<Rightarrow> path option \<Rightarrow> int set \<Rightarrow> bool \<times> int set" where
  "fentry_can_attach h name md fds =
     (case vmlinux_btf h of
        None \<Rightarrow> (False, fds)
      | Some vmlinux \<Rightarrow>
          let btf = (case md of None \<Rightarrow> vmlinux
                     | Some m \<Rightarrow> (case module_btf h m of None \<Rightarrow> vmlinux | Some b \<Rightarrow> b));
              btf_id = btf name
          in if btf_id > 0 then fentry_try_attach h btf_id fds else (False, fds))"

text \<open>The three probes that load or create one object, and close it if that worked.\<close>

definition probe_fd :: "int \<Rightarrow> int set \<Rightarrow> bool \<times> int set" where
  "probe_fd fd fds =
     (let fds1 = opened fd fds in (0 \<le> fd, if 0 \<le> fd then closed fd fds1 else fds1))"

definition probe_tp_btf :: "Host \<Rightarrow> path \<Rightarrow> int set \<Rightarrow> bool \<times> int set" where
  "probe_tp_btf h name fds = probe_fd (load_raw_tp h (raw_tp_btf_id h name)) fds"

definition probe_ringbuf :: "Host \<Rightarrow> int set \<Rightarrow> bool \<times> int set" where
  "probe_ringbuf h fds =
     (let map_fd = create_ringbuf h; fds1 = opened map_fd fds
      in if map_fd < 0 then (False, fds1) else (True, closed map_fd fds1))"

definition probe_bpf_ns_current_pid_tgid :: "Host \<Rightarrow> int set \<Rightarrow> bool \<times> int set" where
  "probe_bpf_ns_current_pid_tgid h fds = probe_fd (load_ns_pid_tgid h) fds"

definition vmlinux_btf_exists :: "Host \<Rightarrow> bool" where
  "vmlinux_btf_exists h \<longleftrightarrow> vmlinux_btf h \<noteq> None"

text \<open>\<open>snprintf\<close> into an array of \<open>n\<close> bytes.\<close>

definition snprintf :: "nat \<Rightarrow> byte list \<Rightarrow> byte list" where
  "snprintf n s = take (n - 1) s"

definition module_btf_exists :: "Host \<Rightarrow> path option \<Rightarrow> bool" where
  "module_btf_exists h md \<longleftrightarrow>
     (case md of None \<Rightarrow> False
      | Some m \<Rightarrow> readable_by h (snprintf 80 (ascii ''/sys/kernel/btf/'' @ m)))"

section \<open>Where the tracing files are\<close>

definition DEBUGFS :: path where
  "DEBUGFS = ascii ''/sys/kernel/debug/tracing''"

definition TRACEFS :: path where
  "TRACEFS = ascii ''/sys/kernel/tracing''"

text \<open>The answer is kept in a static variable, which starts at -1; the new value is returned too.\<close>

definition use_debugfs :: "Host \<Rightarrow> int \<Rightarrow> bool \<times> int" where
  "use_debugfs h has_debugfs =
     (let has_debugfs' = (if has_debugfs < 0 then (if accessible_eff h DEBUGFS then 1 else 0) else has_debugfs)
      in (has_debugfs' = 1, has_debugfs'))"

definition tracefs_path :: "Host \<Rightarrow> int \<Rightarrow> path \<times> int" where
  "tracefs_path h st = (let (d, st') = use_debugfs h st in (if d then DEBUGFS else TRACEFS, st'))"

definition tracefs_available_filter_functions :: "Host \<Rightarrow> int \<Rightarrow> path \<times> int" where
  "tracefs_available_filter_functions h st =
     (let (d, st') = use_debugfs h st
      in (if d then DEBUGFS @ ascii ''/available_filter_functions''
          else TRACEFS @ ascii ''/available_filter_functions'', st'))"

definition PATH_MAX :: nat where
  "PATH_MAX = 4096"

definition tracepoint_exists :: "Host \<Rightarrow> path \<Rightarrow> path \<Rightarrow> int \<Rightarrow> bool \<times> int" where
  "tracepoint_exists h category event st =
     (let (dir, st') = tracefs_path h st
      in (accessible h (snprintf PATH_MAX
            (dir @ ascii ''/events/'' @ category @ [47] @ event @ ascii ''/format'')), st'))"

section \<open>Lists of symbols\<close>

text \<open>\<open>"%s %s%*[^\n]\n"\<close>, \<open>"%s%*[^\n]\n"\<close> and \<open>"%*x %*c %s%*[^\n]\n"\<close>.\<close>

definition blacklist_format :: "directive list" where
  "blacklist_format = [Store (Token None), White, Store (Token None), Skip Rest_of_line, White]"

definition filter_format :: "directive list" where
  "filter_format = [Store (Token None), Skip Rest_of_line, White]"

definition kallsyms_format :: "directive list" where
  "kallsyms_format =
     [Skip Hexadecimal, White, Skip One_char, White, Store (Token None), Skip Rest_of_line, White]"

definition SYM_SIZE :: nat where
  "SYM_SIZE = 256"

text \<open>
  The three loops have one form: \<open>before\<close> are the sizes of the arrays that are filled before the
  symbol. A line that cannot be read ends the loop like the end of the file.
\<close>

function search_symbol :: "directive list \<Rightarrow> nat list \<Rightarrow> path \<Rightarrow> byte list \<Rightarrow> bool option" where
  "search_symbol fmt before name s =
     (let (ret, vs, t) = fscanf fmt s in
      if \<not> fits (before @ [SYM_SIZE]) vs then None
      else if ret = EOF then Some False
      else if ret \<noteq> int (length before + 1) then Some False
      else if text_of (last vs) = name then Some True
      else search_symbol fmt before name t)"
  by pat_completeness auto
termination
  by (relation "measure (\<lambda>(fmt, before, name, s). length s)") (auto dest: fscanf_shorter[OF sym])

declare search_symbol.simps [simp del]

definition kprobe_exists :: "Host \<Rightarrow> path \<Rightarrow> int \<Rightarrow> (bool \<times> int) option" where
  "kprobe_exists h name st =
     do {
       blacklisted \<leftarrow> (case readable h (ascii ''/sys/kernel/debug/kprobes/blacklist'') of
                         None \<Rightarrow> Some False
                       | Some s \<Rightarrow> search_symbol blacklist_format [SYM_SIZE] name s);
       if blacklisted then Some (False, st)
       else let (path, st') = tracefs_available_filter_functions h st in
         case readable h path of
           Some s \<Rightarrow> do { found \<leftarrow> search_symbol filter_format [] name s; Some (found, st') }
         | None \<Rightarrow>
             (case readable h (ascii ''/proc/kallsyms'') of
                None \<Rightarrow> Some (False, st')
              | Some s \<Rightarrow> do { found \<leftarrow> search_symbol kallsyms_format [] name s; Some (found, st') })
     }"

end
