(* ===== verification/Scan_Lines.thy ===== *)
theory Scan_Lines
  imports Attach_Points
begin

text \<open>
  How \<open>scanf\<close> and \<open>fgets\<close> read the lines that the kernel prints: words, hexadecimal and decimal numbers,
  and the end of a line. The theories about the readers of such files share these lemmas.
\<close>

section \<open>Words and lines\<close>

definition is_word :: "byte list \<Rightarrow> bool" where
  "is_word w \<longleftrightarrow> w \<noteq> [] \<and> list_all (\<lambda>b. \<not> is_space b \<and> b \<noteq> 0) w \<and> length w < SYM_SIZE"

definition is_rest :: "byte list \<Rightarrow> bool" where
  "is_rest r \<longleftrightarrow> 10 \<notin> set r \<and> (r = [] \<or> is_space (hd r))"

lemma is_space_bytes [simp]: "is_space 10" "is_space 32" "is_space 9"
  by (simp_all add: is_space_def)

lemma word_starts: "is_word w \<Longrightarrow> dropWhile is_space (w @ s) = w @ s"
  by (cases w) (simp_all add: is_word_def)

lemma scan_word:
  assumes "is_word w" "s = [] \<or> is_space (hd s)"
  shows "scan_token None (w @ s) = Converted (Text w) s"
proof -
  have "takeWhile (\<lambda>b. \<not> is_space b) (w @ s) = w"
    using assms by (cases s) (auto simp: is_word_def list_all_iff)
  with assms show ?thesis
    by (simp add: scan_token_def Let_def word_starts) (simp add: is_word_def)
qed

lemma text_of_word: "is_word w \<Longrightarrow> text_of (Text w) = w"
  by (auto simp: is_word_def list_all_iff takeWhile_eq_all_conv)

text \<open>The end of a line, as all three formats read it; white space that is left does not matter.\<close>

lemma scan_line_end:
  assumes "is_rest r" "vs \<noteq> []"
  obtains t where "scan [Skip Rest_of_line, White] (r @ 10 # after) vs = (int (length vs), vs, t)"
    and "dropWhile is_space t = dropWhile is_space after"
proof (cases r)
  case Nil
  then show thesis by (intro that[of "10 # after"]) simp_all
next
  case (Cons b r')
  have "dropWhile (\<lambda>b. b \<noteq> 10) (r @ 10 # after) = 10 # after"
    using assms(1) by (subst dropWhile_append2) (auto simp: is_rest_def)
  moreover have "hd (r @ 10 # after) \<noteq> 10" using assms(1) Cons by (auto simp: is_rest_def)
  ultimately show thesis using Cons by (intro that[of "dropWhile is_space after"]) simp_all
qed

lemma rest_starts: "is_rest r \<Longrightarrow> r @ 10 # s = [] \<or> is_space (hd (r @ 10 # s))"
  by (cases r) (simp_all add: is_rest_def)

lemma scan_token_skips: "scan_token w (dropWhile is_space s) = scan_token w s"
  by (simp only: scan_token_def dropWhile_idem)

lemma scan_number_skips: "scan_number h (dropWhile is_space s) = scan_number h s"
  by (simp only: scan_number_def dropWhile_idem)

lemma scan_Nil: "scan_token w [] = Out_of_input" "scan_number h [] = Out_of_input"
  by (simp_all add: scan_token_def scan_number_def)

section \<open>Numbers\<close>

lemma hex_not_space: "is_hex b \<Longrightarrow> \<not> is_space b \<and> b \<noteq> 45 \<and> b \<noteq> 43 \<and> b \<noteq> 120 \<and> b \<noteq> 88"
  by (auto simp: is_hex_def is_digit_def is_space_def word_le_nat_alt)

lemma scan_hex_then:
  assumes "addr \<noteq> []" "list_all is_hex addr" "\<not> is_hex b" "b \<noteq> 120" "b \<noteq> 88"
  shows "scan_number True (addr @ b # s) = Converted (Number (clamp_unsigned False (hex_number addr))) (b # s)"
proof -
  obtain a as where a: "addr = a # as" "is_hex a" using assms(1,2) by (cases addr) auto
  have x: "(addr @ b # s) ! 1 \<noteq> 120 \<and> (addr @ b # s) ! 1 \<noteq> 88"
    using assms a hex_not_space by (cases as) auto
  have "takeWhile is_hex (addr @ b # s) = addr" "dropWhile is_hex (addr @ b # s) = b # s"
    using assms by (simp_all add: list_all_iff)
  moreover have "dropWhile is_space (addr @ b # s) = addr @ b # s" "hd (addr @ b # s) \<noteq> 45" "hd (addr @ b # s) \<noteq> 43"
    using a hex_not_space[of a] by simp_all
  ultimately show ?thesis using x assms(1) by (simp add: scan_number_def Let_def)
qed

lemma not_hex: "\<not> is_hex 32" "\<not> is_hex 45" "\<not> is_hex 58"
  by (simp_all add: is_hex_def is_digit_def)

lemmas scan_hex = scan_hex_then[OF _ _ not_hex(1), simplified]

lemma digit_is_hex: "is_digit b \<Longrightarrow> is_hex b"
  by (simp add: is_hex_def)

lemma scan_inode:
  assumes "ino \<noteq> []" "list_all is_digit ino"
  shows "scan_number False (ino @ 32 # s) = Converted (Number (clamp_unsigned False (nat (number_val ino)))) (32 # s)"
proof -
  obtain a as where a: "ino = a # as" "is_digit a" using assms by (cases ino) auto
  have "takeWhile is_digit (ino @ 32 # s) = ino" "dropWhile is_digit (ino @ 32 # s) = 32 # s"
    using assms by (simp_all add: list_all_iff is_digit_def)
  moreover have "dropWhile is_space (ino @ 32 # s) = ino @ 32 # s" "hd (ino @ 32 # s) \<noteq> 45" "hd (ino @ 32 # s) \<noteq> 43"
    using a hex_not_space[OF digit_is_hex[of a]] by simp_all
  ultimately show ?thesis using assms(1) by (simp add: scan_number_def Let_def)
qed

lemma hex_starts: "h \<noteq> [] \<Longrightarrow> list_all is_hex h \<Longrightarrow> dropWhile is_space (h @ s) = h @ s"
  using hex_not_space by (cases h) auto

lemma inode_starts: "h \<noteq> [] \<Longrightarrow> list_all is_digit h \<Longrightarrow> dropWhile is_space (h @ s) = h @ s"
  using hex_not_space[OF digit_is_hex] by (cases h) auto

lemma dropWhile_blanks: "dropWhile is_space (replicate k 32 @ s) = dropWhile is_space s"
  by (induction k) simp_all

lemma scan_digits:
  assumes "int n \<le> LONG_MAX" "is_space b"
  shows "scan_number False (replicate k 32 @ digits n @ b # s) = Converted (Number (of_nat n)) (b # s)"
proof -
  obtain d ds where d: "digits n = d # ds" "is_digit d"
    using digits_are_digits[of n] digits_nonempty[of n] by (cases "digits n") auto
  have b: "\<not> is_digit b" using assms(2) by (auto simp: is_space_def is_digit_def word_le_nat_alt)
  have ns: "\<not> is_space d" "d \<noteq> 45" "d \<noteq> 43" using hex_not_space[OF digit_is_hex[OF d(2)]] by simp_all
  have "dropWhile is_space (replicate k 32 @ digits n @ b # s) = digits n @ b # s"
    using ns d(1) by (induction k) simp_all
  moreover have "takeWhile is_digit (digits n @ b # s) = digits n" "dropWhile is_digit (digits n @ b # s) = b # s"
    using digits_are_digits[of n] b by simp_all
  moreover have "\<not> 2 ^ 64 \<le> n" using assms(1) by (simp add: LONG_MAX_def)
  moreover have "nat (number_val (d # ds)) = n" using number_val_digits[of n] d(1) by simp
  ultimately show ?thesis
    using ns d(1) by (simp add: scan_number_def Let_def clamp_unsigned_def)
qed

section \<open>Lines for \<open>fgets\<close>\<close>

lemma first_line_newline: "10 \<notin> set l \<Longrightarrow> first_line (l @ 10 # s) = l @ [10]"
  unfolding first_line_def by (subst takeWhile_append2) auto

lemma fgets_line:
  assumes "10 \<notin> set l" "length l < n - 1"
  shows "fgets n (l @ 10 # s) = Some (l @ [10], s)"
proof -
  have "first_line (l @ 10 # s) = l @ [10]" using assms(1) by (rule first_line_newline)
  then show ?thesis using assms(2) by (simp add: fgets_def Let_def)
qed

end
