(* ===== verification/Attach_Correct.thy ===== *)
theory Attach_Correct
  imports Scan_Lines
begin

text \<open>
  What the loops over the kernel's lists of symbols find, when every line has the layout the kernel
  prints: the three files share one argument, stated as a locale over the format of a line.
\<close>

section \<open>One loop for three files\<close>

locale line_format =
  fixes fmt :: "directive list" and before :: "nat list"
    and line :: "'l \<Rightarrow> byte list" and symbol :: "'l \<Rightarrow> path" and good :: "'l \<Rightarrow> bool"
  assumes skips: "fscanf fmt (dropWhile is_space s) = fscanf fmt s"
    and at_end: "fscanf fmt [] = (EOF, [], [])"
    and reads: "good l \<Longrightarrow> \<exists>vs t. fscanf fmt (line l @ 10 # after) = (int (length before + 1), vs, t)
      \<and> fits (before @ [SYM_SIZE]) vs \<and> text_of (last vs) = symbol l
      \<and> dropWhile is_space t = dropWhile is_space after"
begin

definition file_of :: "'l list \<Rightarrow> byte list" where
  "file_of ls = concat (map (\<lambda>l. line l @ [10]) ls)"

lemma search_skips: "search_symbol fmt before name (dropWhile is_space s) = search_symbol fmt before name s"
  by (simp add: search_symbol.simps[of _ _ _ s] search_symbol.simps[of _ _ _ "dropWhile is_space s"] skips)

lemma search_file:
  assumes "list_all good ls"
  shows "search_symbol fmt before name (file_of ls) = Some (name \<in> symbol ` set ls)"
  using assms
proof (induction ls)
  case Nil
  have "fits (before @ [SYM_SIZE]) []" by (simp add: fits_def)
  then show ?case by (subst search_symbol.simps) (simp add: file_of_def at_end)
next
  case (Cons l ls)
  obtain vs t where f: "fscanf fmt (line l @ 10 # file_of ls) = (int (length before + 1), vs, t)"
    "fits (before @ [SYM_SIZE]) vs" "text_of (last vs) = symbol l" "dropWhile is_space t = dropWhile is_space (file_of ls)"
    using reads[of l "file_of ls"] Cons.prems by auto
  have "search_symbol fmt before name t = Some (name \<in> symbol ` set ls)"
    using Cons f(4) search_skips[of name t] search_skips[of name "file_of ls"] by simp
  moreover have "file_of (l # ls) = line l @ 10 # file_of ls" by (simp add: file_of_def)
  ultimately show ?case using f(1-3) by (subst search_symbol.simps) (auto simp: EOF_def)
qed

end

section \<open>The three formats\<close>

definition blacklist_line :: "path \<times> path \<times> path \<Rightarrow> byte list" where
  "blacklist_line = (\<lambda>(range, s, r). range @ [9] @ s @ r)"

definition filter_line :: "path \<times> path \<Rightarrow> byte list" where
  "filter_line = (\<lambda>(s, r). s @ r)"

definition kallsyms_line :: "path \<times> byte \<times> path \<times> path \<Rightarrow> byte list" where
  "kallsyms_line = (\<lambda>(addr, c, s, r). addr @ [32, c, 32] @ s @ r)"

definition blacklist_good :: "path \<times> path \<times> path \<Rightarrow> bool" where
  "blacklist_good = (\<lambda>(range, s, r). is_word range \<and> is_word s \<and> is_rest r)"

definition filter_good :: "path \<times> path \<Rightarrow> bool" where
  "filter_good = (\<lambda>(s, r). is_word s \<and> is_rest r)"

definition kallsyms_good :: "path \<times> byte \<times> path \<times> path \<Rightarrow> bool" where
  "kallsyms_good = (\<lambda>(addr, c, s, r). addr \<noteq> [] \<and> list_all is_hex addr \<and> \<not> is_space c \<and> is_word s \<and> is_rest r)"

interpretation filter_file: line_format filter_format "[]" filter_line fst filter_good
proof
  fix l :: "path \<times> path" and after
  assume g: "filter_good l"
  obtain s r where l: "l = (s, r)" by (cases l)
  with g have w: "is_word s" "is_rest r" by (simp_all add: filter_good_def)
  obtain t where "scan [Skip Rest_of_line, White] (r @ 10 # after) [Text s] = (1, [Text s], t)"
    "dropWhile is_space t = dropWhile is_space after"
    using scan_line_end[OF w(2), of "[Text s]" after] by auto
  moreover have "fits [SYM_SIZE] [Text s]" using w by (simp add: fits_def is_word_def)
  ultimately show "\<exists>vs t. fscanf filter_format (filter_line l @ 10 # after) = (int (length [] + 1), vs, t)
      \<and> fits ([] @ [SYM_SIZE]) vs \<and> text_of (last vs) = fst l \<and> dropWhile is_space t = dropWhile is_space after"
    using scan_word[OF w(1) rest_starts[OF w(2), of after]] text_of_word[OF w(1)]
    by (simp add: fscanf_def filter_format_def filter_line_def l del: text_of.simps)
qed (simp_all add: fscanf_def filter_format_def scan_token_skips scan_Nil out_of_input_def)

interpretation blacklist_file: line_format blacklist_format "[SYM_SIZE]" blacklist_line "\<lambda>l. fst (snd l)" blacklist_good
proof
  fix l :: "path \<times> path \<times> path" and after
  assume g: "blacklist_good l"
  obtain a s r where l: "l = (a, s, r)" by (cases l)
  with g have w: "is_word a" "is_word s" "is_rest r" by (simp_all add: blacklist_good_def)
  obtain t where "scan [Skip Rest_of_line, White] (r @ 10 # after) [Text a, Text s] = (2, [Text a, Text s], t)"
    "dropWhile is_space t = dropWhile is_space after"
    using scan_line_end[OF w(3), of "[Text a, Text s]" after] by auto
  moreover have "fits [SYM_SIZE, SYM_SIZE] [Text a, Text s]" using w by (simp add: fits_def is_word_def)
  ultimately show "\<exists>vs t. fscanf blacklist_format (blacklist_line l @ 10 # after) = (int (length [SYM_SIZE] + 1), vs, t)
      \<and> fits ([SYM_SIZE] @ [SYM_SIZE]) vs \<and> text_of (last vs) = fst (snd l) \<and> dropWhile is_space t = dropWhile is_space after"
    using scan_word[OF w(1), of "9 # s @ r @ 10 # after"] scan_word[OF w(2) rest_starts[OF w(3), of after]]
      text_of_word[OF w(2)] word_starts[OF w(2)]
    by (simp add: fscanf_def blacklist_format_def blacklist_line_def l del: text_of.simps)
qed (simp_all add: fscanf_def blacklist_format_def scan_token_skips scan_Nil out_of_input_def)

interpretation kallsyms_file: line_format kallsyms_format "[]" kallsyms_line "\<lambda>l. fst (snd (snd l))" kallsyms_good
proof
  fix l :: "path \<times> byte \<times> path \<times> path" and after
  assume g: "kallsyms_good l"
  obtain a c s r where l: "l = (a, c, s, r)" by (cases l)
  with g have w: "a \<noteq> []" "list_all is_hex a" "\<not> is_space c" "is_word s" "is_rest r" by (simp_all add: kallsyms_good_def)
  note v = scan_hex[OF w(1,2), of "c # 32 # s @ r @ 10 # after"]
  obtain t where "scan [Skip Rest_of_line, White] (r @ 10 # after) [Text s] = (1, [Text s], t)"
    "dropWhile is_space t = dropWhile is_space after"
    using scan_line_end[OF w(5), of "[Text s]" after] by auto
  moreover have "fits [SYM_SIZE] [Text s]" using w by (simp add: fits_def is_word_def)
  ultimately show "\<exists>vs t. fscanf kallsyms_format (kallsyms_line l @ 10 # after) = (int (length [] + 1), vs, t)
      \<and> fits ([] @ [SYM_SIZE]) vs \<and> text_of (last vs) = fst (snd (snd l)) \<and> dropWhile is_space t = dropWhile is_space after"
    using v w(3) scan_word[OF w(4) rest_starts[OF w(5), of after]] text_of_word[OF w(4)] word_starts[OF w(4)]
    by (simp add: fscanf_def kallsyms_format_def kallsyms_line_def l del: text_of.simps)
qed (simp_all add: fscanf_def kallsyms_format_def scan_number_skips scan_Nil out_of_input_def)

end
