(* ===== verification/Attach_Properties.thy ===== *)
theory Attach_Properties
  imports Attach_Correct Cachestat_Properties
begin

text \<open>
  The answers a tracing program gets about the kernel: \<open>kprobe_exists\<close> decides what the three lists of
  symbols say, the probes leave no descriptor open, and the programs \<open>cachestat\<close> loads follow from the
  kernel's files.
\<close>

section \<open>Which functions can be probed\<close>

definition BLACKLIST :: path where
  "BLACKLIST = ascii ''/sys/kernel/debug/kprobes/blacklist''"

definition KALLSYMS :: path where
  "KALLSYMS = ascii ''/proc/kallsyms''"

text \<open>The three files hold these lines, or cannot be opened.\<close>

definition symbol_files :: "Host \<Rightarrow> (path \<times> path \<times> path) list option \<Rightarrow> (path \<times> path) list option
    \<Rightarrow> (path \<times> byte \<times> path \<times> path) list option \<Rightarrow> bool" where
  "symbol_files h bl fl kl \<longleftrightarrow>
     readable h BLACKLIST = map_option blacklist_file.file_of bl \<and> pred_option (list_all blacklist_good) bl
   \<and> readable h (fst (tracefs_available_filter_functions h (- 1))) = map_option filter_file.file_of fl
   \<and> pred_option (list_all filter_good) fl
   \<and> readable h KALLSYMS = map_option kallsyms_file.file_of kl \<and> pred_option (list_all kallsyms_good) kl"

definition hookable :: "(path \<times> path \<times> path) list option \<Rightarrow> (path \<times> path) list option
    \<Rightarrow> (path \<times> byte \<times> path \<times> path) list option \<Rightarrow> path \<Rightarrow> bool" where
  "hookable bl fl kl name \<longleftrightarrow>
     (case bl of None \<Rightarrow> True | Some ls \<Rightarrow> name \<notin> (\<lambda>l. fst (snd l)) ` set ls)
   \<and> (case fl of Some ls \<Rightarrow> name \<in> fst ` set ls
      | None \<Rightarrow> (case kl of Some ls \<Rightarrow> name \<in> (\<lambda>l. fst (snd (snd l))) ` set ls | None \<Rightarrow> False))"

definition cached :: "Host \<Rightarrow> int \<Rightarrow> bool" where
  "cached h st \<longleftrightarrow> st = - 1 \<or> st = (if accessible_eff h DEBUGFS then 1 else 0)"

lemma use_debugfs_cached:
  "cached h st \<Longrightarrow> use_debugfs h st = (accessible_eff h DEBUGFS, if accessible_eff h DEBUGFS then 1 else 0)"
  by (auto simp: cached_def use_debugfs_def)

lemma filter_functions_cached:
  assumes "cached h st"
  shows "tracefs_available_filter_functions h st = tracefs_available_filter_functions h (- 1)"
    "cached h (snd (tracefs_available_filter_functions h st))"
  using use_debugfs_cached[OF assms] use_debugfs_cached[of h "- 1"]
  by (simp_all add: tracefs_available_filter_functions_def cached_def)

lemma kprobe_exists_answer:
  assumes "symbol_files h bl fl kl" "cached h st"
  obtains st' where "kprobe_exists h name st = Some (hookable bl fl kl name, st')" "cached h st'"
proof -
  obtain p st1 where p: "tracefs_available_filter_functions h (- 1) = (p, st1)"
    by (cases "tracefs_available_filter_functions h (- 1)")
  then have st: "tracefs_available_filter_functions h st = (p, st1)" "cached h st1"
    using filter_functions_cached[OF assms(2)] by simp_all
  have f: "readable h BLACKLIST = map_option blacklist_file.file_of bl" "pred_option (list_all blacklist_good) bl"
    "readable h p = map_option filter_file.file_of fl" "pred_option (list_all filter_good) fl"
    "readable h KALLSYMS = map_option kallsyms_file.file_of kl" "pred_option (list_all kallsyms_good) kl"
    using assms(1) p by (simp_all add: symbol_files_def)
  have "\<exists>st'. kprobe_exists h name st = Some (hookable bl fl kl name, st') \<and> cached h st'"
    using f assms(2) st(2) unfolding kprobe_exists_def st(1) BLACKLIST_def[symmetric] KALLSYMS_def[symmetric]
    by (cases bl; cases fl; cases kl)
      (auto simp: hookable_def blacklist_file.search_file filter_file.search_file kallsyms_file.search_file)
  with that show thesis by blast
qed

text \<open>
  C32: On lists laid out as the kernel prints them, whose words (the symbols, and the address ranges of the blacklist) are all shorter than 256 bytes,
  \<open>kprobe_exists\<close> answers (its loops end and no array overflows), and says yes exactly when the function is not in the blacklist and is in the list of functions the
  tracer can filter, or, where that list cannot be opened, in the kernel's symbol table. The answer is
  the same whether or not the place of the tracing files has been looked up before. The bound on the
  names is a condition on the kernel that the code does not check: see \<open>long_symbol_overflows\<close>.
\<close>

theorem kprobe_exists_exact:
  assumes "symbol_files h bl fl kl" "cached h st"
  shows "map_option fst (kprobe_exists h name st) = Some (hookable bl fl kl name)"
  using kprobe_exists_answer[OF assms, of name] by (metis option.simps(9) fst_conv)

definition demo_filter :: "(path \<times> path) list" where
  "demo_filter = [(ascii ''folio_add_lru'', []), (ascii ''ext4_sync'', ascii '' [ext4]'')]"

definition demo_blacklist :: "(path \<times> path \<times> path) list" where
  "demo_blacklist = [(ascii ''0xff01-0xff02'', ascii ''ext4_sync'', [])]"

definition demo_host :: Host where
  "demo_host =
     \<lparr>readable = (\<lambda>p. if p = BLACKLIST then Some (blacklist_file.file_of demo_blacklist)
                     else if p = TRACEFS @ ascii ''/available_filter_functions'' then Some (filter_file.file_of demo_filter)
                     else None),
      accessible = \<lambda>_. False, accessible_eff = \<lambda>_. False, readable_by = \<lambda>_. False,
      vmlinux_btf = None, module_btf = \<lambda>_. None, load_fentry = \<lambda>_. 3, open_raw_tracepoint = \<lambda>fd. fd + 1,
      raw_tp_btf_id = \<lambda>_. 7, load_raw_tp = \<lambda>_. 5, create_ringbuf = - 1, load_ns_pid_tgid = 6\<rparr>"

lemma demo_paths:
  "BLACKLIST \<noteq> TRACEFS @ ascii ''/available_filter_functions''" "KALLSYMS \<noteq> BLACKLIST"
  "KALLSYMS \<noteq> TRACEFS @ ascii ''/available_filter_functions''"
  by code_simp+

lemma demo_files: "symbol_files demo_host (Some demo_blacklist) (Some demo_filter) None"
proof -
  have "list_all blacklist_good demo_blacklist" "list_all filter_good demo_filter" by code_simp+
  moreover have "fst (tracefs_available_filter_functions demo_host (- 1)) = TRACEFS @ ascii ''/available_filter_functions''"
    by (simp add: demo_host_def tracefs_available_filter_functions_def use_debugfs_def)
  ultimately show ?thesis using demo_paths by (auto simp: symbol_files_def demo_host_def)
qed

theorem kprobe_exists_exact_witness:
  "map_option fst (kprobe_exists demo_host (ascii ''folio_add_lru'') (- 1)) = Some True
   \<and> map_option fst (kprobe_exists demo_host (ascii ''ext4_sync'') (- 1)) = Some False"
proof -
  have c: "cached demo_host (- 1)" by (simp add: cached_def)
  have "hookable (Some demo_blacklist) (Some demo_filter) None (ascii ''folio_add_lru'')"
    "\<not> hookable (Some demo_blacklist) (Some demo_filter) None (ascii ''ext4_sync'')"
    by code_simp+
  then show ?thesis unfolding kprobe_exists_exact[OF demo_files c] by simp
qed

text \<open>
  A symbol of 256 bytes or more in the list of functions, in front of the one asked for, overflows \<open>sym_name\<close>: \<open>%s\<close> has no width. Kernels from 6.1 on
  allow names of 511 bytes.
\<close>

lemma long_symbol_overflows:
  assumes "list_all filter_good ls" "name \<notin> fst ` set ls"
    and w: "list_all (\<lambda>b. \<not> is_space b \<and> b \<noteq> 0) w" "SYM_SIZE \<le> length w" and r: "is_rest r"
  shows "search_symbol filter_format [] name (filter_file.file_of ls @ w @ r @ 10 # after) = None"
  using assms(1,2)
proof (induction ls)
  case Nil
  have "w \<noteq> []" using w(2) by (auto simp: SYM_SIZE_def)
  then have "dropWhile is_space (w @ r @ 10 # after) = w @ r @ 10 # after" using w(1) by (cases w) simp_all
  moreover have "takeWhile (\<lambda>b. \<not> is_space b) (w @ r @ 10 # after) = w"
    using w(1) rest_starts[OF r, of after] by (cases r) (auto simp: list_all_iff)
  ultimately have "scan_token None (w @ r @ 10 # after) = Converted (Text w) (r @ 10 # after)"
    using \<open>w \<noteq> []\<close> by (simp add: scan_token_def Let_def)
  moreover obtain t where "scan [Skip Rest_of_line, White] (r @ 10 # after) [Text w] = (1, [Text w], t)"
    using scan_line_end[OF r, of "[Text w]" after] by auto
  ultimately have "fscanf filter_format (w @ r @ 10 # after) = (1, [Text w], t)"
    by (simp add: fscanf_def filter_format_def)
  then show ?case using w(2) by (subst search_symbol.simps) (simp add: filter_file.file_of_def fits_def)
next
  case (Cons l ls)
  let ?rest = "filter_file.file_of ls @ w @ r @ 10 # after"
  obtain vs t where f: "fscanf filter_format (filter_line l @ 10 # ?rest) = (1, vs, t)"
    "fits [SYM_SIZE] vs" "text_of (last vs) = fst l" "dropWhile is_space t = dropWhile is_space ?rest"
    using filter_file.reads[of l ?rest] Cons.prems(1) by auto
  have "search_symbol filter_format [] name t = None"
    using Cons f(4) filter_file.search_skips[of name t] filter_file.search_skips[of name ?rest] by simp
  moreover have "filter_file.file_of (l # ls) @ w @ r @ 10 # after = filter_line l @ 10 # ?rest"
    by (simp add: filter_file.file_of_def)
  ultimately show ?case using f(1-3) Cons.prems(2) by (subst search_symbol.simps) (auto simp: EOF_def)
qed

section \<open>Descriptors\<close>

definition fresh :: "int set \<Rightarrow> int \<Rightarrow> bool" where
  "fresh fds fd \<longleftrightarrow> fd \<notin> fds"

text \<open>
  No probe leaves a descriptor open, on any path: whatever the kernel answers, the descriptors of
  the process afterwards are those it had before, provided a new descriptor is one that was not open.
\<close>

lemma probes_close_descriptors:
  assumes "\<And>i. fresh fds (load_fentry h i)" "\<And>i. fresh (insert (load_fentry h i) fds) (open_raw_tracepoint h (load_fentry h i))"
    "\<And>i. fresh fds (load_raw_tp h i)" "fresh fds (create_ringbuf h)" "fresh fds (load_ns_pid_tgid h)"
  shows "snd (fentry_can_attach h name md fds) = fds \<and> snd (probe_tp_btf h name fds) = fds
    \<and> snd (probe_ringbuf h fds) = fds \<and> snd (probe_bpf_ns_current_pid_tgid h fds) = fds"
proof -
  have "snd (fentry_try_attach h i fds) = fds" for i
    using assms(1,2)[of i] by (auto simp: fentry_try_attach_def fresh_def opened_def closed_def Let_def)
  then have "snd (fentry_can_attach h name md fds) = fds"
    by (simp add: fentry_can_attach_def Let_def split: option.splits)
  moreover have "snd (probe_fd fd fds) = fds" if "fresh fds fd" for fd
    using that by (auto simp: probe_fd_def fresh_def opened_def closed_def)
  moreover have "snd (probe_ringbuf h fds) = fds"
    using assms(4) by (auto simp: probe_ringbuf_def Let_def fresh_def opened_def closed_def)
  ultimately show ?thesis
    using assms(3,5) by (simp add: probe_tp_btf_def probe_bpf_ns_current_pid_tgid_def)
qed

theorem probes_close_descriptors_witness:
  "snd (fentry_can_attach demo_host (ascii ''mark_buffer_dirty'') None {0, 1, 2}) = {0, 1, 2}"
  using probes_close_descriptors[of "{0, 1, 2}" demo_host] by (simp add: demo_host_def fresh_def)

section \<open>What cachestat loads\<close>

text \<open>The names in \<open>cachestat.c\<close> and in the sections of its programs.\<close>

fun point_name :: "point \<Rightarrow> path" where
  "point_name Add_to_page_cache_lru = ascii ''add_to_page_cache_lru''"
| "point_name Mark_page_accessed = ascii ''mark_page_accessed''"
| "point_name Account_page_dirtied = ascii ''account_page_dirtied''"
| "point_name Folio_account_dirtied = ascii ''folio_account_dirtied''"
| "point_name Mark_buffer_dirty = ascii ''mark_buffer_dirty''"
| "point_name Folio_mark_accessed = ascii ''folio_mark_accessed''"
| "point_name Folio_add_lru = ascii ''folio_add_lru''"
| "point_name Writeback_dirty_folio = ascii ''writeback_dirty_folio''"
| "point_name Writeback_dirty_page = ascii ''writeback_dirty_page''"

text \<open>
  The record of answers that the choice of the programs uses, from the kernel's files. It has no
  value if one of the four functions asked for with \<open>kprobe_exists\<close> overflows an array.
\<close>

definition host_kernel :: "Host \<Rightarrow> bool \<Rightarrow> Kernel option" where
  "host_kernel h ok =
     (if list_all (\<lambda>p. kprobe_exists h (point_name p) (- 1) \<noteq> None)
           [Folio_account_dirtied, Account_page_dirtied, Folio_add_lru, Folio_mark_accessed]
      then Some \<lparr>can_fentry = \<lambda>p. fst (fentry_can_attach h (point_name p) None {}),
                 can_kprobe = \<lambda>p. fst (the (kprobe_exists h (point_name p) (- 1))),
                 has_tracepoint = \<lambda>p. fst (tracepoint_exists h (ascii ''writeback'') (point_name p) (- 1)),
                 set_attach_target_ok = ok\<rparr>
      else None)"

definition kprobe_choice :: "(path \<Rightarrow> bool) \<Rightarrow> (point \<Rightarrow> bool) \<Rightarrow> program set" where
  "kprobe_choice hook tp =
     {kprobe_mark_buffer_dirty,
      if hook (ascii ''folio_add_lru'') then kprobe_folio_add_lru else kprobe_add_to_page_cache_lru,
      if hook (ascii ''folio_mark_accessed'') then kprobe_folio_mark_accessed else kprobe_mark_page_accessed}
     \<union> (if hook (ascii ''folio_account_dirtied'') then {kprobe_folio_account_dirtied}
        else if hook (ascii ''account_page_dirtied'') then {kprobe_account_page_dirtied}
        else if tp Writeback_dirty_folio then {tracepoint_writeback_dirty_folio}
        else if tp Writeback_dirty_page then {tracepoint_writeback_dirty_page}
        else {kprobe_account_page_dirtied, kprobe_folio_account_dirtied,
              tracepoint_writeback_dirty_folio, tracepoint_writeback_dirty_page})"

text \<open>
  On a kernel without type information nothing is attached with fentry, and the programs that
  remain follow from the lists of symbols and the tracepoint files alone: for each event the new name
  if it can be probed and the old one otherwise, and for dirtied pages the first of two functions and
  two tracepoints that exists (all four programs are left on when none does).
\<close>

lemma without_btf_uses_kprobes:
  assumes "symbol_files h bl fl kl" "vmlinux_btf h = None"
  shows "map_option (\<lambda>sk. {p. autoload sk p}) (Option.bind (host_kernel h ok) choose_programs)
    = Some (kprobe_choice (hookable bl fl kl)
        (\<lambda>p. fst (tracepoint_exists h (ascii ''writeback'') (point_name p) (- 1))))"
proof -
  have k: "\<exists>st. kprobe_exists h name (- 1) = Some (hookable bl fl kl name, st)" for name
    using kprobe_exists_answer[OF assms(1), of "- 1" name] by (auto simp: cached_def)
  have a: "fst (the (kprobe_exists h name (- 1))) = hookable bl fl kl name" for name
    using k[of name] by auto
  define kn where "kn = \<lparr>can_fentry = \<lambda>p. False, can_kprobe = \<lambda>p. hookable bl fl kl (point_name p),
    has_tracepoint = \<lambda>p. fst (tracepoint_exists h (ascii ''writeback'') (point_name p) (- 1)), set_attach_target_ok = ok\<rparr>"
  have "host_kernel h ok = Some kn"
    using k by (simp add: host_kernel_def kn_def a fentry_can_attach_def assms(2) del: point_name.simps) (metis option.distinct(1))
  moreover obtain sk where sk: "choose_programs kn = Some sk" by (simp add: choose_programs_def retarget_def kn_def)
  moreover have "{p. autoload sk p} = kprobe_choice (hookable bl fl kl) (has_tracepoint kn)"
    unfolding choose_autoload[OF sk] set_eq_iff mem_Collect_eq
    by (rule allI, case_tac x) (simp_all add: chosen_def kprobe_choice_def kn_def)
  ultimately show ?thesis by (simp add: kn_def)
qed

theorem without_btf_uses_kprobes_witness:
  "map_option (\<lambda>sk. {p. autoload sk p}) (Option.bind (host_kernel demo_host True) choose_programs)
    = Some {kprobe_mark_buffer_dirty, kprobe_folio_add_lru, kprobe_mark_page_accessed, kprobe_account_page_dirtied,
        kprobe_folio_account_dirtied, tracepoint_writeback_dirty_folio, tracepoint_writeback_dirty_page}"
proof -
  have "kprobe_choice (hookable (Some demo_blacklist) (Some demo_filter) None)
      (\<lambda>p. fst (tracepoint_exists demo_host (ascii ''writeback'') (point_name p) (- 1)))
    = {kprobe_mark_buffer_dirty, kprobe_folio_add_lru, kprobe_mark_page_accessed, kprobe_account_page_dirtied,
        kprobe_folio_account_dirtied, tracepoint_writeback_dirty_folio, tracepoint_writeback_dirty_page}"
    by code_simp
  then show ?thesis
    using without_btf_uses_kprobes[OF demo_files, of True] by (simp add: demo_host_def)
qed

end
