(* ===== verification/C_Sort.thy ===== *)
theory C_Sort
  imports C_Numbers
begin

text \<open>
  Strings in a buffer, \<open>strcmp\<close>, comparison functions in the style of \<open>qsort\<close>, and the binary search
  that the symbol tables share. \<open>qsort\<close> is a parameter of the code that calls it; what it promises for a
  comparison that orders its arguments is \<open>qsort_result\<close>, and an insertion sort shows that it can be met.
\<close>

section \<open>Strings\<close>

text \<open>The string that starts at an offset of a buffer.\<close>

definition string_at :: "byte list \<Rightarrow> nat \<Rightarrow> byte list" where
  "string_at buf off = takeWhile (\<lambda>b. b \<noteq> 0) (drop off buf)"

fun strcmp :: "byte list \<Rightarrow> byte list \<Rightarrow> int" where
  "strcmp [] [] = 0"
| "strcmp [] (b # bs) = - 1"
| "strcmp (a # as) [] = 1"
| "strcmp (a # as) (b # bs) = (if a = b then strcmp as bs else if a < b then - 1 else 1)"

lemma strcmp_eq: "strcmp a b = 0 \<longleftrightarrow> a = b"
  by (induction a b rule: strcmp.induct) simp_all

lemma strcmp_swap: "strcmp b a = - strcmp a b"
  by (induction a b rule: strcmp.induct) auto

lemma strcmp_trans: "strcmp a b \<le> 0 \<Longrightarrow> strcmp b c \<le> 0 \<Longrightarrow> strcmp a c \<le> 0"
proof (induction a b arbitrary: c rule: strcmp.induct)
  case (4 a as b bs)
  then show ?case by (cases c) (auto split: if_splits)
next
  case (2 b bs)
  then show ?case by (cases c) simp_all
qed simp_all

text \<open>An appended string is found at its offset, and does not change the others.\<close>

lemma string_at_append:
  assumes "0 \<in> set (drop off buf)"
  shows "string_at (buf @ x) off = string_at buf off"
proof -
  have "off \<le> length buf" using assms by (metis drop_all empty_iff list.set(1) nat_le_linear)
  then show ?thesis using assms by (simp add: string_at_def)
qed

lemma string_at_end: "0 \<notin> set name \<Longrightarrow> string_at (buf @ name @ [0]) (length buf) = name"
  by (auto simp: string_at_def takeWhile_append)

section \<open>Sorting\<close>

definition qsort_result :: "('a \<Rightarrow> 'a \<Rightarrow> int) \<Rightarrow> 'a list \<Rightarrow> 'a list \<Rightarrow> bool" where
  "qsort_result cmp xs ys \<longleftrightarrow> mset ys = mset xs \<and> sorted_wrt (\<lambda>x y. cmp x y \<le> 0) ys"

fun insert_by :: "('a \<Rightarrow> 'a \<Rightarrow> int) \<Rightarrow> 'a \<Rightarrow> 'a list \<Rightarrow> 'a list" where
  "insert_by cmp x [] = [x]"
| "insert_by cmp x (y # ys) = (if cmp x y \<le> 0 then x # y # ys else y # insert_by cmp x ys)"

definition sort_by :: "('a \<Rightarrow> 'a \<Rightarrow> int) \<Rightarrow> 'a list \<Rightarrow> 'a list" where
  "sort_by cmp xs = foldr (insert_by cmp) xs []"

lemma mset_insert_by: "mset (insert_by cmp x ys) = add_mset x (mset ys)"
  by (induction ys) auto

locale comparison =
  fixes cmp :: "'a \<Rightarrow> 'a \<Rightarrow> int"
  assumes either: "cmp x y \<le> 0 \<or> cmp y x \<le> 0"
    and transitive: "cmp x y \<le> 0 \<Longrightarrow> cmp y z \<le> 0 \<Longrightarrow> cmp x z \<le> 0"
begin

lemma sorted_insert_by:
  "sorted_wrt (\<lambda>x y. cmp x y \<le> 0) ys \<Longrightarrow> sorted_wrt (\<lambda>x y. cmp x y \<le> 0) (insert_by cmp x ys)"
proof (induction ys)
  case (Cons y ys)
  have "set (insert_by cmp x ys) = insert x (set ys)"
    using arg_cong[OF mset_insert_by, of set_mset cmp x ys] by simp
  with Cons show ?case using either[of x y] transitive[of x y] by auto
qed simp

lemma qsort_sort_by: "qsort_result cmp xs (sort_by cmp xs)"
  by (induction xs) (simp_all add: qsort_result_def sort_by_def mset_insert_by sorted_insert_by)

end

section \<open>Binary search\<close>

text \<open>
  The loop of \<open>ksyms__map_addr\<close> and \<open>dso__find_sym\<close>: the bounds it ends with; \<open>None\<close> is an index outside
  the table.
\<close>

function last_below :: "u64 list \<Rightarrow> u64 \<Rightarrow> int \<Rightarrow> int \<Rightarrow> (int \<times> int) option" where
  "last_below addrs addr start stop =
     (if start < stop then
        let mid = start + (stop - start + 1) div 2 in
        if mid < 0 \<or> int (length addrs) \<le> mid then None
        else if addrs ! nat mid \<le> addr then last_below addrs addr mid stop
        else last_below addrs addr start (mid - 1)
      else Some (start, stop))"
  by pat_completeness auto
termination
  by (relation "measure (\<lambda>(addrs, addr, start, stop). nat (stop - start))") auto

declare last_below.simps [simp del]

text \<open>On a sorted table the loop ends at the last entry that is not above the address, if there is one.\<close>

definition ends_at :: "u64 list \<Rightarrow> u64 \<Rightarrow> (int \<times> int) option \<Rightarrow> bool" where
  "ends_at addrs addr res \<longleftrightarrow> (\<exists>m < length addrs. res = Some (int m, int m)
     \<and> (\<forall>i. m < i \<and> i < length addrs \<longrightarrow> addr < addrs ! i) \<and> (0 < m \<longrightarrow> addrs ! m \<le> addr))"

lemma last_below_correct:
  assumes "sorted addrs" "0 \<le> start" "start \<le> stop" "stop < int (length addrs)"
    and "\<forall>i. nat stop < i \<and> i < length addrs \<longrightarrow> addr < addrs ! i"
    and "0 < start \<longrightarrow> addrs ! nat start \<le> addr"
  shows "ends_at addrs addr (last_below addrs addr start stop)"
  using assms
proof (induction addrs addr start stop rule: last_below.induct)
  case (1 addrs addr start stop)
  note sorted = "1.prems"(1) and lo = "1.prems"(2,3) and hi = "1.prems"(4) and above = "1.prems"(5)
    and below = "1.prems"(6)
  show ?case
  proof (cases "start < stop")
    case False
    with lo have "stop = start" by simp
    with lo hi above below show ?thesis
      unfolding ends_at_def by (intro exI[of _ "nat start"]) (simp add: last_below.simps)
  next
    case True
    define mid where "mid = start + (stop - start + 1) div 2"
    have m: "start < mid" "mid \<le> stop" using True by (simp_all add: mid_def)
    then have b: "\<not> (mid < 0 \<or> int (length addrs) \<le> mid)" using lo hi by linarith
    have up: "last_below addrs addr start stop
      = (if addrs ! nat mid \<le> addr then last_below addrs addr mid stop else last_below addrs addr start (mid - 1))"
      by (subst last_below.simps) (use True b in \<open>simp add: mid_def Let_def\<close>)
    show ?thesis
    proof (cases "addrs ! nat mid \<le> addr")
      case high: True
      have "0 \<le> mid" using lo m by linarith
      then show ?thesis
        using up high "1.IH"(1)[OF True mid_def b high sorted _ m(2) hi above] by simp
    next
      case low: False
      have "\<forall>i. nat (mid - 1) < i \<and> i < length addrs \<longrightarrow> addr < addrs ! i"
      proof (intro allI impI)
        fix i
        assume i: "nat (mid - 1) < i \<and> i < length addrs"
        then have "nat mid \<le> i" by linarith
        then have "addrs ! nat mid \<le> addrs ! i" using sorted i by (intro sorted_nth_mono) simp_all
        with low show "addr < addrs ! i" by simp
      qed
      moreover have "start \<le> mid - 1" "mid - 1 < int (length addrs)" using m hi by linarith+
      ultimately show ?thesis
        using up low "1.IH"(2)[OF True mid_def b low sorted lo(1) _ _ _ below] by simp
    qed
  qed
qed

lemma filter_last_below:
  assumes "m < length xs" "\<And>i. m < i \<Longrightarrow> i < length xs \<Longrightarrow> \<not> P (xs ! i)" "P (xs ! m)"
  shows "filter P xs \<noteq> []" "last (filter P xs) = xs ! m"
proof -
  have "xs = take m xs @ xs ! m # drop (Suc m) xs" using assms(1) by (simp add: id_take_nth_drop)
  moreover have "filter P (drop (Suc m) xs) = []"
    using assms(2) by (auto simp: filter_empty_conv in_set_conv_nth)
  ultimately have "filter P xs = filter P (take m xs) @ [xs ! m]"
    using assms(3) by (metis filter.simps(2) filter_append)
  then show "filter P xs \<noteq> []" "last (filter P xs) = xs ! m" by simp_all
qed

lemma last_below_filter:
  assumes "sorted (map f xs)" "xs \<noteq> []"
  obtains m where "m < length xs" "last_below (map f xs) addr 0 (int (length xs) - 1) = Some (int m, int m)"
    "filter (\<lambda>x. f x \<le> addr) xs = [] \<longleftrightarrow> \<not> f (xs ! m) \<le> addr"
    "f (xs ! m) \<le> addr \<Longrightarrow> last (filter (\<lambda>x. f x \<le> addr) xs) = xs ! m"
proof -
  have "ends_at (map f xs) addr (last_below (map f xs) addr 0 (int (length xs) - 1))"
    using assms by (intro last_below_correct) (auto simp: Suc_le_eq)
  then obtain m where m: "m < length xs" "last_below (map f xs) addr 0 (int (length xs) - 1) = Some (int m, int m)"
    "\<And>i. m < i \<Longrightarrow> i < length xs \<Longrightarrow> \<not> f (xs ! i) \<le> addr" "0 < m \<Longrightarrow> f (xs ! m) \<le> addr"
    unfolding ends_at_def by (auto simp: not_le)
  have "filter (\<lambda>x. f x \<le> addr) xs = [] \<longleftrightarrow> \<not> f (xs ! m) \<le> addr"
  proof
    assume "\<not> f (xs ! m) \<le> addr"
    with m have "m = 0" by auto
    with m \<open>\<not> f (xs ! m) \<le> addr\<close> show "filter (\<lambda>x. f x \<le> addr) xs = []"
      by (auto simp: filter_empty_conv in_set_conv_nth) (metis gr0I)
  qed (use m(1) in \<open>auto simp: filter_empty_conv\<close>)
  with m filter_last_below[of m xs "\<lambda>x. f x \<le> addr"] that show thesis by blast
qed

lemma last_greatest:
  assumes "sorted (map f xs)" "P x" "x \<in> set xs"
  shows "f x \<le> f (last (filter P xs))"
proof -
  let ?ys = "filter P xs"
  obtain i where i: "i < length ?ys" "?ys ! i = x"
    using assms(2,3) by (metis (no_types, lifting) filter_set in_set_conv_nth Set.mem_Collect_eq set_filter)
  have "map f ?ys ! i \<le> map f ?ys ! (length ?ys - 1)"
    using assms(1) i(1) by (intro sorted_nth_mono sorted_filter) auto
  moreover have "?ys \<noteq> []" using i(1) by auto
  moreover have "length ?ys - 1 < length ?ys" using i(1) by linarith
  ultimately show ?thesis using i(2) by (metis (no_types, lifting) i(1) last_conv_nth nth_map)
qed

end
