(* ===== verification/Kernel_Symbols.thy ===== *)
theory Kernel_Symbols
  imports C_Scanf C_Sort
begin

text \<open>
  The kernel's symbol table of \<open>bpf_programs/cachestat/trace_helpers.c\<close>: a growing array of symbols and
  one growing buffer with all the names. A name is an offset into the buffer while the table is
  built and a pointer afterwards. Arrays are the lists of their initialised elements, so the sizes
  \<open>syms_sz\<close> and \<open>strs_sz\<close> are lengths; a write outside the capacity, and a size outside \<open>int\<close>, is
  undefined (\<open>None\<close>). \<open>alloc\<close> says whether a block of a given size can be allocated.
\<close>

section \<open>The table\<close>

record ksym =
  ks_name :: u64
  ks_addr :: u64

record ksyms =
  syms :: "ksym list"
  syms_cap :: nat
  strs :: "byte list"
  strs_cap :: nat

text \<open>The results of a step: done, or the return value \<open>-1\<close> with what has been changed so far.\<close>

definition grow_strs :: "(nat \<Rightarrow> bool) \<Rightarrow> nat \<Rightarrow> ksyms \<Rightarrow> (bool \<times> ksyms) option" where
  "grow_strs alloc name_len ks =
     (if strs_cap ks < length (strs ks) + name_len then
        let new_cap = max (max (strs_cap ks * 4 div 3) (length (strs ks) + name_len)) 1024 in
        if INT_MAX < strs_cap ks * 4 \<or> INT_MAX < new_cap then None
        else if \<not> alloc new_cap then Some (False, ks)
        else Some (True, ks\<lparr>strs_cap := new_cap\<rparr>)
      else Some (True, ks))"

definition grow_syms :: "(nat \<Rightarrow> bool) \<Rightarrow> ksyms \<Rightarrow> (bool \<times> ksyms) option" where
  "grow_syms alloc ks =
     (if syms_cap ks < length (syms ks) + 1 then
        let new_cap = max (syms_cap ks * 4 div 3) 1024 in
        if INT_MAX < syms_cap ks * 4 \<or> INT_MAX < new_cap then None
        else if \<not> alloc (16 * new_cap) then Some (False, ks)
        else Some (True, ks\<lparr>syms_cap := new_cap\<rparr>)
      else Some (True, ks))"

definition store_symbol :: "path \<Rightarrow> u64 \<Rightarrow> ksyms \<Rightarrow> ksyms option" where
  "store_symbol name addr ks =
     (if syms_cap ks \<le> length (syms ks) \<or> strs_cap ks < length (strs ks) + (length name + 1) then None
      else Some (ks\<lparr>syms := syms ks @ [\<lparr>ks_name = of_nat (length (strs ks)), ks_addr = addr\<rparr>],
                    strs := strs ks @ name @ [0]\<rparr>))"

definition ksyms__add_symbol :: "(nat \<Rightarrow> bool) \<Rightarrow> path \<Rightarrow> u64 \<Rightarrow> ksyms \<Rightarrow> (bool \<times> ksyms) option" where
  "ksyms__add_symbol alloc name addr ks =
     do {
       (ok, ks) \<leftarrow> grow_strs alloc (length name + 1) ks;
       if \<not> ok then Some (False, ks)
       else do {
         (ok, ks) \<leftarrow> grow_syms alloc ks;
         if \<not> ok then Some (False, ks)
         else do { ks \<leftarrow> store_symbol name addr ks; Some (True, ks) }
       }
     }"

text \<open>The string a pointer into the buffer (which is at address \<open>base\<close>) stands for.\<close>

definition name_at :: "u64 \<Rightarrow> byte list \<Rightarrow> u64 \<Rightarrow> path" where
  "name_at base buf p = string_at buf (unat (p - base))"

definition ksym_cmp :: "u64 \<Rightarrow> byte list \<Rightarrow> ksym \<Rightarrow> ksym \<Rightarrow> int" where
  "ksym_cmp base buf s1 s2 =
     (if ks_addr s1 = ks_addr s2 then strcmp (name_at base buf (ks_name s1)) (name_at base buf (ks_name s2))
      else if ks_addr s1 < ks_addr s2 then - 1 else 1)"

section \<open>Loading it\<close>

text \<open>\<open>"%lx %c %s%*[^\n]\n"\<close>\<close>

definition load_format :: "directive list" where
  "load_format =
     [Store Hexadecimal, White, Store One_char, White, Store (Token None), Skip Rest_of_line, White]"

function load_loop :: "(nat \<Rightarrow> bool) \<Rightarrow> byte list \<Rightarrow> ksyms \<Rightarrow> (bool \<times> ksyms) option" where
  "load_loop alloc s ks =
     (let (ret, vs, t) = fscanf load_format s in
      if \<not> fits [8, 1, 256] vs then None
      else if ret = EOF then Some (True, ks)
      else if ret \<noteq> 3 then Some (False, ks)
      else case ksyms__add_symbol alloc (text_of (vs ! 2)) (number_of_item (vs ! 0)) ks of
             None \<Rightarrow> None
           | Some (ok, ks') \<Rightarrow> if \<not> ok then Some (False, ks') else load_loop alloc t ks')"
  by pat_completeness auto
termination
  by (relation "measure (\<lambda>(alloc, s, ks). length s)") (auto dest: fscanf_shorter[OF sym])

declare load_loop.simps [simp del]

definition adjust_names :: "u64 \<Rightarrow> ksyms \<Rightarrow> ksyms" where
  "adjust_names base ks = ks\<lparr>syms := map (\<lambda>s. s\<lparr>ks_name := ks_name s + base\<rparr>) (syms ks)\<rparr>"

definition empty_ksyms :: ksyms where
  "empty_ksyms = \<lparr>syms = [], syms_cap = 0, strs = [], strs_cap = 0\<rparr>"

text \<open>
  \<open>kallsyms\<close> is the contents of the file, if it can be opened; \<open>base\<close> is where the buffer ends up and
  \<open>qs\<close> is \<open>qsort\<close>. The inner \<open>None\<close> is the result \<open>NULL\<close>, after everything has been freed.
\<close>

definition ksyms__load :: "(nat \<Rightarrow> bool) \<Rightarrow> u64 \<Rightarrow> ((ksym \<Rightarrow> ksym \<Rightarrow> int) \<Rightarrow> ksym list \<Rightarrow> ksym list)
    \<Rightarrow> byte list option \<Rightarrow> ksyms option option" where
  "ksyms__load alloc base qs kallsyms =
     (case kallsyms of
        None \<Rightarrow> Some None
      | Some s \<Rightarrow>
          if \<not> alloc 32 then Some None
          else do {
            (ok, ks) \<leftarrow> load_loop alloc s empty_ksyms;
            if \<not> ok then Some None
            else let ks' = adjust_names base ks in
              Some (Some (ks'\<lparr>syms := qs (ksym_cmp base (strs ks')) (syms ks')\<rparr>))
          })"

section \<open>Looking up\<close>

definition ksyms__map_addr :: "ksyms \<Rightarrow> u64 \<Rightarrow> ksym option option" where
  "ksyms__map_addr ks addr =
     do {
       (start, stop) \<leftarrow> last_below (map ks_addr (syms ks)) addr 0 (int (length (syms ks)) - 1);
       if start = stop then
         if start < 0 \<or> int (length (syms ks)) \<le> start then None
         else if ks_addr (syms ks ! nat start) \<le> addr then Some (Some (syms ks ! nat start))
         else Some None
       else Some None
     }"

definition ksyms__get_symbol :: "u64 \<Rightarrow> ksyms \<Rightarrow> path \<Rightarrow> ksym option" where
  "ksyms__get_symbol base ks name = find (\<lambda>s. strcmp (name_at base (strs ks) (ks_name s)) name = 0) (syms ks)"

section \<open>Well-formed tables\<close>

text \<open>
  Nothing is stored outside the capacities, every name ends inside the buffer, and the capacities
  have not run away from the sizes.
\<close>

definition wf_ksyms :: "ksyms \<Rightarrow> bool" where
  "wf_ksyms ks \<longleftrightarrow> length (syms ks) \<le> syms_cap ks \<and> length (strs ks) \<le> strs_cap ks
   \<and> strs_cap ks \<le> INT_MAX \<and> syms_cap ks \<le> INT_MAX
   \<and> (\<forall>s \<in> set (syms ks). 0 \<in> set (drop (unat (ks_name s)) (strs ks)))"

definition slim :: "ksyms \<Rightarrow> bool" where
  "slim ks \<longleftrightarrow> syms_cap ks \<le> 1024 + 2 * length (syms ks) \<and> strs_cap ks \<le> 1024 + 2 * length (strs ks)
   \<and> length (syms ks) \<le> length (strs ks)"

text \<open>The symbols as pairs of an address and a name.\<close>

definition entries :: "u64 \<Rightarrow> ksyms \<Rightarrow> (u64 \<times> path) list" where
  "entries base ks = map (\<lambda>s. (ks_addr s, name_at base (strs ks) (ks_name s))) (syms ks)"

lemma wf_empty_ksyms: "wf_ksyms empty_ksyms" "slim empty_ksyms" "entries 0 empty_ksyms = []"
  by (simp_all add: wf_ksyms_def slim_def empty_ksyms_def entries_def)

lemma grow_strs_wf:
  assumes "grow_strs alloc n ks = Some (ok, ks')" "wf_ksyms ks"
  shows "wf_ksyms ks'" "syms ks' = syms ks" "strs ks' = strs ks" "syms_cap ks' = syms_cap ks"
    "ok \<Longrightarrow> length (strs ks) + n \<le> strs_cap ks'" "slim ks \<Longrightarrow> strs_cap ks' \<le> 1024 + 2 * (length (strs ks) + n)"
  using assms by (auto simp: grow_strs_def wf_ksyms_def slim_def Let_def split: if_splits)

lemma grow_syms_wf:
  assumes "grow_syms alloc ks = Some (ok, ks')" "wf_ksyms ks"
  shows "wf_ksyms ks'" "syms ks' = syms ks" "strs ks' = strs ks" "strs_cap ks' = strs_cap ks"
    "ok \<Longrightarrow> length (syms ks) < syms_cap ks'"
    "syms_cap ks \<le> 1024 + 2 * length (syms ks) \<Longrightarrow> syms_cap ks' \<le> 1024 + 2 * Suc (length (syms ks))"
  using assms by (auto simp: grow_syms_def wf_ksyms_def Let_def split: if_splits)

lemma store_symbol_wf:
  assumes "store_symbol name addr ks = Some ks'" "wf_ksyms ks" "0 \<notin> set name"
  shows "wf_ksyms ks'" "entries 0 ks' = entries 0 ks @ [(addr, name)]"
proof -
  have lt: "length (strs ks) < 2 ^ 64" using assms(2) by (simp add: wf_ksyms_def INT_MAX_def)
  then have off: "unat (of_nat (length (strs ks)) :: u64) = length (strs ks)"
    by (simp add: unat_of_nat take_bit_nat_eq_self)
  have ks': "ks' = ks\<lparr>syms := syms ks @ [\<lparr>ks_name = of_nat (length (strs ks)), ks_addr = addr\<rparr>],
      strs := strs ks @ name @ [0]\<rparr>" "length (syms ks) < syms_cap ks"
      "length (strs ks) + length name < strs_cap ks"
    using assms(1) by (simp_all add: store_symbol_def split: if_splits)
  show "wf_ksyms ks'" using assms(2) unfolding ks'(1) by (auto simp: wf_ksyms_def off ks'(2,3) Suc_le_eq)
  show "entries 0 ks' = entries 0 ks @ [(addr, name)]"
    using assms(2,3) unfolding ks'(1)
    by (auto simp: entries_def name_at_def off string_at_end string_at_append wf_ksyms_def)
qed

lemma bind_pairE:
  assumes "Option.bind m (\<lambda>(a, b). f a b) = Some r"
  obtains a b where "m = Some (a, b)" "f a b = Some r"
  using assms by (cases m) auto

lemma add_symbol_wf:
  assumes "ksyms__add_symbol alloc name addr ks = Some (ok, ks')" "wf_ksyms ks" "0 \<notin> set name"
  shows "wf_ksyms ks'" "ok \<Longrightarrow> entries 0 ks' = entries 0 ks @ [(addr, name)]"
    "\<not> ok \<Longrightarrow> entries 0 ks' = entries 0 ks"
    "slim ks \<Longrightarrow> ok \<Longrightarrow> slim ks'" "ok \<Longrightarrow> length (strs ks') = length (strs ks) + length name + 1"
proof -
  obtain ok1 ks1 where g1: "grow_strs alloc (length name + 1) ks = Some (ok1, ks1)"
    using assms(1) unfolding ksyms__add_symbol_def by (elim bind_pairE)
  note w1 = grow_strs_wf[OF g1 assms(2)]
  consider (no_strs) "\<not> ok1" "ok = False" "ks' = ks1"
    | (no_syms) ks2 where "ok1" "grow_syms alloc ks1 = Some (False, ks2)" "ok = False" "ks' = ks2"
    | (added) ks2 where "ok1" "grow_syms alloc ks1 = Some (True, ks2)" "ok" "store_symbol name addr ks2 = Some ks'"
    using assms(1) g1 unfolding ksyms__add_symbol_def
    by (auto split: if_splits bind_splits)
  then have "wf_ksyms ks' \<and> (ok \<longrightarrow> entries 0 ks' = entries 0 ks @ [(addr, name)]) \<and> (\<not> ok \<longrightarrow> entries 0 ks' = entries 0 ks)
     \<and> (slim ks \<longrightarrow> ok \<longrightarrow> slim ks') \<and> (ok \<longrightarrow> length (strs ks') = length (strs ks) + length name + 1)"
  proof cases
    case no_strs
    then show ?thesis using w1 by (simp add: entries_def)
  next
    case no_syms
    then show ?thesis using w1 grow_syms_wf[OF no_syms(2) w1(1)] by (simp add: entries_def)
  next
    case added
    note w2 = grow_syms_wf[OF added(2) w1(1)] and w3 = store_symbol_wf[OF added(4)]
    have "wf_ksyms ks'" "entries 0 ks' = entries 0 ks2 @ [(addr, name)]" using w3 w2(1) assms(3) by simp_all
    moreover have "entries 0 ks2 = entries 0 ks" using w1 w2 by (simp add: entries_def)
    moreover have "length (strs ks') = length (strs ks) + length name + 1" "length (syms ks') = Suc (length (syms ks))"
      "strs_cap ks' = strs_cap ks2" "syms_cap ks' = syms_cap ks2"
      using added(4) w1 w2 by (auto simp: store_symbol_def split: if_splits)
    ultimately show ?thesis using added(1,3) w1 w2 by (auto simp: slim_def)
  qed
  then show "wf_ksyms ks'" "ok \<Longrightarrow> entries 0 ks' = entries 0 ks @ [(addr, name)]" "\<not> ok \<Longrightarrow> entries 0 ks' = entries 0 ks"
    "slim ks \<Longrightarrow> ok \<Longrightarrow> slim ks'" "ok \<Longrightarrow> length (strs ks') = length (strs ks) + length name + 1" by simp_all
qed

text \<open>With memory, and room in an \<open>int\<close>, adding a symbol always works.\<close>

lemma add_symbol_total:
  assumes "wf_ksyms ks" "slim ks" "\<And>n. alloc n" "length (strs ks) + length name \<le> 2 ^ 27"
  shows "\<exists>ks'. ksyms__add_symbol alloc name addr ks = Some (True, ks')"
proof -
  have "strs_cap ks * 4 \<le> INT_MAX" "syms_cap ks * 4 \<le> INT_MAX"
    using assms(2,4) by (simp_all add: slim_def INT_MAX_def)
  then have "\<exists>ks1. grow_strs alloc (length name + 1) ks = Some (True, ks1)"
    using assms(3,4) by (auto simp: grow_strs_def Let_def INT_MAX_def)
  then obtain ks1 where g1: "grow_strs alloc (length name + 1) ks = Some (True, ks1)" by blast
  note w1 = grow_strs_wf[OF g1 assms(1)]
  have "\<exists>ks2. grow_syms alloc ks1 = Some (True, ks2)"
    using assms(3) w1(4) \<open>syms_cap ks * 4 \<le> INT_MAX\<close> by (auto simp: grow_syms_def Let_def INT_MAX_def)
  then obtain ks2 where g2: "grow_syms alloc ks1 = Some (True, ks2)" by blast
  note w2 = grow_syms_wf[OF g2 w1(1)]
  have "store_symbol name addr ks2 \<noteq> None"
    using w1 w2 by (auto simp: store_symbol_def)
  then show ?thesis using g1 g2 by (auto simp: ksyms__add_symbol_def)
qed

end
