(* ===== verification/Kernel_Symbols_Properties.thy ===== *)
theory Kernel_Symbols_Properties
  imports Kernel_Symbols Attach_Correct
begin

text \<open>
  The kernel's symbol table is well formed at every step, holds exactly the lines of the file once it is
  loaded, and answers both kinds of question from them.
\<close>

section \<open>Growing\<close>

text \<open>
  C33: Adding a symbol has a defined result and keeps the table well formed, as long as four thirds of the capacities and the
  new size of the buffer can be computed in an \<open>int\<close>. It succeeds exactly when memory can be had for what has to grow: the
  buffer if the name and its end do not fit, to four thirds, the need or 1024 bytes, whichever is most; the array if it is full, to
  four thirds or 1024 entries of 16 bytes; nothing else is allocated. Afterwards sizes are within capacities, capacities within \<open>int\<close>,
  and every name ends inside the buffer. On success exactly the new symbol is added at the end and no earlier name changes;
  on failure no symbol changes, though the buffer may have grown.
\<close>

theorem add_symbol_keeps_table:
  assumes "wf_ksyms ks" "0 \<notin> set name"
    and int: "4 * strs_cap ks \<le> INT_MAX" "4 * syms_cap ks \<le> INT_MAX" "length (strs ks) + length name + 1 \<le> INT_MAX"
    and "need = length (strs ks) + length name + 1"
    and "more_strs = max (max (strs_cap ks * 4 div 3) need) 1024" "more_syms = max (syms_cap ks * 4 div 3) 1024"
  shows "\<exists>ok ks'. ksyms__add_symbol alloc name addr ks = Some (ok, ks')
    \<and> (ok \<longleftrightarrow> (need \<le> strs_cap ks \<or> alloc more_strs) \<and> (length (syms ks) < syms_cap ks \<or> alloc (16 * more_syms)))
    \<and> strs_cap ks' = (if strs_cap ks < need \<and> alloc more_strs then more_strs else strs_cap ks)
    \<and> syms_cap ks' = (if length (syms ks) = syms_cap ks \<and> ok then more_syms else syms_cap ks)
    \<and> wf_ksyms ks' \<and> length (syms ks') \<le> syms_cap ks' \<and> length (strs ks') \<le> strs_cap ks'
    \<and> entries 0 ks' = entries 0 ks @ (if ok then [(addr, name)] else [])"
proof -
  have w: "length (syms ks) \<le> syms_cap ks" "length (strs ks) \<le> strs_cap ks" using assms(1) by (simp_all add: wf_ksyms_def)
  have more: "more_strs \<le> INT_MAX" "more_syms \<le> INT_MAX" using int assms(6-8) by (simp_all add: INT_MAX_def)
  let ?s = "strs_cap ks < need" and ?m = "length (syms ks) = syms_cap ks"
  define ks1 where "ks1 = (if ?s \<and> alloc more_strs then ks\<lparr>strs_cap := more_strs\<rparr> else ks)"
  have g1: "grow_strs alloc (length name + 1) ks = Some (\<not> ?s \<or> alloc more_strs, ks1)"
  proof -
    have n: "length (strs ks) + (length name + 1) = need" using assms(6) by simp
    have "\<not> INT_MAX < strs_cap ks * 4" "\<not> INT_MAX < more_strs" using int(1) more(1) by simp_all
    then show ?thesis unfolding grow_strs_def n assms(7)[symmetric] Let_def ks1_def by auto
  qed
  have ks1: "syms ks1 = syms ks" "strs ks1 = strs ks" "syms_cap ks1 = syms_cap ks"
    "strs_cap ks1 = (if ?s \<and> alloc more_strs then more_strs else strs_cap ks)"
    by (simp_all add: ks1_def)
  define ks2 where "ks2 = (if ?m \<and> alloc (16 * more_syms) then ks1\<lparr>syms_cap := more_syms\<rparr> else ks1)"
  have g2: "grow_syms alloc ks1 = Some (\<not> ?m \<or> alloc (16 * more_syms), ks2)"
    using more(2) int(2) assms(8) w(1) by (auto simp: grow_syms_def ks2_def ks1 Let_def)
  have ks2: "syms ks2 = syms ks" "strs ks2 = strs ks" "strs_cap ks2 = strs_cap ks1"
    "syms_cap ks2 = (if ?m \<and> alloc (16 * more_syms) then more_syms else syms_cap ks)"
    by (simp_all add: ks2_def ks1)
  have grown: "syms_cap ks < more_syms" if ?m
    using that int(2) assms(8) by (auto simp: max_def)
  consider (no_strs) "?s" "\<not> alloc more_strs" | (no_syms) "\<not> ?s \<or> alloc more_strs" ?m "\<not> alloc (16 * more_syms)"
    | (both) "\<not> ?s \<or> alloc more_strs" "\<not> ?m \<or> alloc (16 * more_syms)" by blast
  then obtain ok ks' where add: "ksyms__add_symbol alloc name addr ks = Some (ok, ks')"
    and ok: "ok \<longleftrightarrow> (\<not> ?s \<or> alloc more_strs) \<and> (\<not> ?m \<or> alloc (16 * more_syms))"
    and caps: "strs_cap ks' = (if ?s \<and> alloc more_strs then more_strs else strs_cap ks)"
      "syms_cap ks' = (if ?m \<and> ok then more_syms else syms_cap ks)"
  proof cases
    case no_strs
    then show thesis using that[of False ks1] g1 ks1 by (simp add: ksyms__add_symbol_def)
  next
    case no_syms
    then show thesis using that[of False ks2] g1 g2 ks1 ks2 by (auto simp: ksyms__add_symbol_def)
  next
    case both
    have "length (syms ks) < syms_cap ks2" using both(2) w(1) grown by (auto simp: ks2)
    moreover have "need \<le> strs_cap ks2" using both(1) assms(7) by (auto simp: ks1 ks2)
    ultimately have "store_symbol name addr ks2 = Some (ks2\<lparr>syms := syms ks @ [\<lparr>ks_name = of_nat (length (strs ks)), ks_addr = addr\<rparr>],
        strs := strs ks @ name @ [0]\<rparr>)" using assms(6) by (simp add: store_symbol_def ks2)
    then show thesis using that[of True] g1 g2 ks1 ks2 both by (simp add: ksyms__add_symbol_def)
  qed
  note aw = add_symbol_wf(1-3)[OF add assms(1,2)]
  have "entries 0 ks' = entries 0 ks @ (if ok then [(addr, name)] else [])" using aw by simp
  moreover have "length (syms ks') \<le> syms_cap ks' \<and> length (strs ks') \<le> strs_cap ks'" using aw(1) by (simp add: wf_ksyms_def)
  moreover have "?m \<longleftrightarrow> \<not> length (syms ks) < syms_cap ks" using w(1) by auto
  then have "ok \<longleftrightarrow> (need \<le> strs_cap ks \<or> alloc more_strs) \<and> (length (syms ks) < syms_cap ks \<or> alloc (16 * more_syms))"
    using ok by (simp only: not_less[symmetric]) blast
  ultimately show ?thesis using add caps aw(1) by blast
qed

text \<open>A table in which both arrays are full.\<close>

definition demo_symbols :: ksyms where
  "demo_symbols = \<lparr>syms = [\<lparr>ks_name = 0, ks_addr = 4096\<rparr>], syms_cap = 1, strs = [97, 0], strs_cap = 2\<rparr>"

theorem add_symbol_keeps_table_witness:
  "\<exists>ks'. ksyms__add_symbol (\<lambda>n. n = 1024 \<or> n = 16384) [98] 8192 demo_symbols = Some (True, ks')
    \<and> entries 0 ks' = [(4096, [97]), (8192, [98])] \<and> strs_cap ks' = 1024 \<and> syms_cap ks' = 1024"
proof -
  have wf: "wf_ksyms demo_symbols" by (simp add: demo_symbols_def wf_ksyms_def INT_MAX_def)
  have d: "length (syms demo_symbols) = 1" "syms_cap demo_symbols = 1" "length (strs demo_symbols) = 2" "strs_cap demo_symbols = 2"
    by (simp_all add: demo_symbols_def)
  have e: "entries 0 demo_symbols = [(4096, [97])]"
    by (simp add: demo_symbols_def entries_def name_at_def string_at_def)
  let ?alloc = "\<lambda>n. n = 1024 \<or> n = (16384 :: nat)"
  have i: "0 \<notin> set [98 :: byte]" "4 * strs_cap demo_symbols \<le> INT_MAX" "4 * syms_cap demo_symbols \<le> INT_MAX"
    "length (strs demo_symbols) + length [98 :: byte] + 1 \<le> INT_MAX" "4 = length (strs demo_symbols) + length [98 :: byte] + 1"
    "1024 = max (max (strs_cap demo_symbols * 4 div 3) 4) 1024" "1024 = max (syms_cap demo_symbols * 4 div 3) 1024"
    unfolding d INT_MAX_def by simp_all
  obtain ok ks' where r: "ksyms__add_symbol ?alloc [98] 8192 demo_symbols = Some (ok, ks')"
    "ok \<longleftrightarrow> (4 \<le> strs_cap demo_symbols \<or> ?alloc 1024) \<and> (length (syms demo_symbols) < syms_cap demo_symbols \<or> ?alloc (16 * 1024))"
    "strs_cap ks' = (if strs_cap demo_symbols < 4 \<and> ?alloc 1024 then 1024 else strs_cap demo_symbols)"
    "syms_cap ks' = (if length (syms demo_symbols) = syms_cap demo_symbols \<and> ok then 1024 else syms_cap demo_symbols)"
    "entries 0 ks' = entries 0 demo_symbols @ (if ok then [(8192, [98])] else [])"
    using add_symbol_keeps_table[OF wf i, of ?alloc 8192] by blast
  have ok unfolding r(2) d by simp
  with r(1,3,4,5) show ?thesis unfolding d e by simp
qed

section \<open>Loading\<close>

definition line_entry :: "path \<times> byte \<times> path \<times> path \<Rightarrow> u64 \<times> path" where
  "line_entry = (\<lambda>(a, c, s, r). (clamp_unsigned False (hex_number a), s))"

lemma load_line:
  assumes "kallsyms_good l"
  obtains t a c s where "fscanf load_format (kallsyms_line l @ 10 # after) = (3, [Number a, Character c, Text s], t)"
    "dropWhile is_space t = dropWhile is_space after" "line_entry l = (a, s)" "is_word s"
proof -
  obtain a c s r where l: "l = (a, c, s, r)" by (cases l)
  with assms have w: "a \<noteq> []" "list_all is_hex a" "\<not> is_space c" "is_word s" "is_rest r" by (simp_all add: kallsyms_good_def)
  define v where "v = clamp_unsigned False (hex_number a)"
  obtain t where t: "scan [Skip Rest_of_line, White] (r @ 10 # after) [Number v, Character c, Text s]
      = (3, [Number v, Character c, Text s], t)" "dropWhile is_space t = dropWhile is_space after"
    using scan_line_end[OF w(5), of "[Number v, Character c, Text s]" after] by auto
  have "fscanf load_format (kallsyms_line l @ 10 # after) = (3, [Number v, Character c, Text s], t)"
    using scan_hex[OF w(1,2), of "c # 32 # s @ r @ 10 # after", folded v_def] w(3)
      scan_word[OF w(4) rest_starts[OF w(5), of after]] word_starts[OF w(4)] t(1)
    by (simp add: fscanf_def load_format_def kallsyms_line_def l)
  with t(2) w(4) show thesis by (intro that[of v c s t]) (simp_all add: line_entry_def l v_def)
qed

lemma load_skips: "load_loop alloc (dropWhile is_space s) ks = load_loop alloc s ks"
proof -
  have "fscanf load_format (dropWhile is_space s) = fscanf load_format s"
    by (simp add: fscanf_def load_format_def scan_number_skips)
  then show ?thesis by (simp add: load_loop.simps[of _ s] load_loop.simps[of _ "dropWhile is_space s"])
qed

lemma load_file:
  assumes "list_all kallsyms_good ls" "wf_ksyms ks" "slim ks"
    and "length (strs ks) + length (kallsyms_file.file_of ls) \<le> 2 ^ 27"
  shows "\<exists>ks'. load_loop (\<lambda>_. True) (kallsyms_file.file_of ls) ks = Some (True, ks') \<and> wf_ksyms ks'
    \<and> entries 0 ks' = entries 0 ks @ map line_entry ls"
  using assms
proof (induction ls arbitrary: ks)
  case Nil
  have "fscanf load_format [] = (EOF, [], [])"
    by (simp add: fscanf_def load_format_def scan_Nil out_of_input_def)
  then have "load_loop (\<lambda>_. True) [] ks = Some (True, ks)" by (subst load_loop.simps) (simp add: fits_def)
  with Nil.prems(2) show ?case by (simp add: kallsyms_file.file_of_def)
next
  case (Cons l ls)
  let ?f = "kallsyms_file.file_of"
  obtain t a c s where f: "fscanf load_format (kallsyms_line l @ 10 # ?f ls) = (3, [Number a, Character c, Text s], t)"
    "dropWhile is_space t = dropWhile is_space (?f ls)" "line_entry l = (a, s)" "is_word s"
    using Cons.prems(1) load_line[of l "?f ls"] by (metis list.pred_inject(2))
  have len: "length (?f (l # ls)) = length (kallsyms_line l) + 1 + length (?f ls)"
    by (simp add: kallsyms_file.file_of_def)
  have s: "length s + 1 \<le> length (kallsyms_line l)" "0 \<notin> set s" "length s < 256" "text_of (Text s) = s"
    using f(3,4) text_of_word[OF f(4)]
    by (auto simp: line_entry_def kallsyms_line_def is_word_def SYM_SIZE_def list_all_iff split: prod.splits)
  obtain ks1 where ks1: "ksyms__add_symbol (\<lambda>_. True) s a ks = Some (True, ks1)"
    using add_symbol_total[of ks "\<lambda>_. True" s a] Cons.prems(2-4) len s(1) by auto
  note w = add_symbol_wf[OF ks1 Cons.prems(2) s(2)]
  obtain ks' where ks': "load_loop (\<lambda>_. True) (?f ls) ks1 = Some (True, ks')" "wf_ksyms ks'"
    "entries 0 ks' = entries 0 ks1 @ map line_entry ls"
    using Cons.IH[of ks1] Cons.prems(1,3,4) w len s(1) by auto
  have "?f (l # ls) = kallsyms_line l @ 10 # ?f ls" by (simp add: kallsyms_file.file_of_def)
  moreover have "load_loop (\<lambda>_. True) t ks1 = Some (True, ks')"
    using load_skips[of "\<lambda>_. True" t ks1] load_skips[of "\<lambda>_. True" "?f ls" ks1] f(2) ks'(1) by simp
  ultimately have "load_loop (\<lambda>_. True) (?f (l # ls)) ks = Some (True, ks')"
    using f(1) s(3,4) ks1 by (subst load_loop.simps) (simp add: fits_def EOF_def del: text_of.simps)
  with ks' w(2) f(3) show ?case by simp
qed

section \<open>The loaded table\<close>

interpretation ksym_order: comparison "ksym_cmp base buf"
proof
  show "ksym_cmp base buf x y \<le> 0 \<or> ksym_cmp base buf y x \<le> 0" for x y
    using strcmp_swap[of "name_at base buf (ks_name y)" "name_at base buf (ks_name x)"] by (auto simp: ksym_cmp_def)
  show "ksym_cmp base buf x z \<le> 0" if "ksym_cmp base buf x y \<le> 0" "ksym_cmp base buf y z \<le> 0" for x y z
    using that by (auto simp: ksym_cmp_def dest: strcmp_trans split: if_splits)
qed

definition sorts_symbols :: "((ksym \<Rightarrow> ksym \<Rightarrow> int) \<Rightarrow> ksym list \<Rightarrow> ksym list) \<Rightarrow> bool" where
  "sorts_symbols qs \<longleftrightarrow> (\<forall>base buf xs. qsort_result (ksym_cmp base buf) xs (qs (ksym_cmp base buf) xs))"

lemma sort_by_sorts: "sorts_symbols sort_by"
  by (simp add: sorts_symbols_def ksym_order.qsort_sort_by)

lemma entries_adjust: "entries base (adjust_names base ks) = entries 0 ks"
  by (simp add: entries_def adjust_names_def name_at_def)

lemma sorted_by_cmp: "sorted_wrt (\<lambda>x y. ksym_cmp base buf x y \<le> 0) xs \<Longrightarrow> sorted (map ks_addr xs)"
  by (induction xs) (auto simp: ksym_cmp_def split: if_splits)

text \<open>
  Given memory, a readable symbol file of at most 128 MB is loaded completely: nothing is written
  outside the two arrays, and the table holds the addresses and names of the lines, sorted.
\<close>

lemma load_correct:
  assumes "list_all kallsyms_good ls" "length (kallsyms_file.file_of ls) \<le> 2 ^ 27" "sorts_symbols qs"
  obtains ks where "ksyms__load (\<lambda>_. True) base qs (Some (kallsyms_file.file_of ls)) = Some (Some ks)"
    "mset (entries base ks) = mset (map line_entry ls)" "sorted (map ks_addr (syms ks))"
proof -
  obtain ks1 where l: "load_loop (\<lambda>_. True) (kallsyms_file.file_of ls) empty_ksyms = Some (True, ks1)"
    "entries 0 ks1 = map line_entry ls"
    using load_file[of ls empty_ksyms, OF assms(1) wf_empty_ksyms(1,2)] assms(2) wf_empty_ksyms(3)
    by (auto simp: empty_ksyms_def)
  define ks2 where "ks2 = adjust_names base ks1"
  define ks where "ks = ks2\<lparr>syms := qs (ksym_cmp base (strs ks2)) (syms ks2)\<rparr>"
  have q: "qsort_result (ksym_cmp base (strs ks2)) (syms ks2) (syms ks)"
    using assms(3) by (simp add: ks_def sorts_symbols_def)
  have "ksyms__load (\<lambda>_. True) base qs (Some (kallsyms_file.file_of ls)) = Some (Some ks)"
    using l(1) by (simp add: ksyms__load_def ks_def ks2_def Let_def)
  moreover have "strs ks = strs ks2" by (simp add: ks_def)
  then have "mset (entries base ks) = mset (entries base ks2)"
    using q by (simp add: entries_def qsort_result_def)
  moreover have "sorted (map ks_addr (syms ks))" using q by (intro sorted_by_cmp[of base "strs ks2"]) (simp add: qsort_result_def)
  ultimately show thesis using that l(2) entries_adjust[of base ks1] ks2_def by simp
qed

section \<open>Lookups\<close>

lemma map_addr_correct:
  assumes "sorted (map ks_addr (syms ks))"
  shows "ksyms__map_addr ks addr = Some (let low = filter (\<lambda>s. ks_addr s \<le> addr) (syms ks)
    in if low = [] then None else Some (last low))"
proof (cases "syms ks = []")
  case False
  then obtain m where "m < length (syms ks)"
    "last_below (map ks_addr (syms ks)) addr 0 (int (length (syms ks)) - 1) = Some (int m, int m)"
    "filter (\<lambda>s. ks_addr s \<le> addr) (syms ks) = [] \<longleftrightarrow> \<not> ks_addr (syms ks ! m) \<le> addr"
    "ks_addr (syms ks ! m) \<le> addr \<Longrightarrow> last (filter (\<lambda>s. ks_addr s \<le> addr) (syms ks)) = syms ks ! m"
    using last_below_filter[OF assms, of addr] by blast
  then show ?thesis by (simp add: ksyms__map_addr_def)
qed (simp add: ksyms__map_addr_def last_below.simps)

text \<open>
  C34: from a readable symbol file of at most 128 MB, with memory, the table that is loaded answers both
  kinds of question from the lines of the file: an address belongs to the symbol with the greatest
  address that is not above it (and to none if all are above), and a name is found exactly when some
  line has it, with that line's address. No step writes or reads outside an array.
\<close>

theorem kernel_symbols_answer:
  assumes "list_all kallsyms_good ls" "length (kallsyms_file.file_of ls) \<le> 2 ^ 27" "sorts_symbols qs"
  shows "\<exists>ks. ksyms__load (\<lambda>_. True) base qs (Some (kallsyms_file.file_of ls)) = Some (Some ks)
    \<and> (\<forall>addr. case ksyms__map_addr ks addr of
          None \<Rightarrow> False
        | Some None \<Rightarrow> (\<forall>e \<in> set ls. addr < fst (line_entry e))
        | Some (Some s) \<Rightarrow> (ks_addr s, name_at base (strs ks) (ks_name s)) \<in> line_entry ` set ls \<and> ks_addr s \<le> addr
            \<and> (\<forall>e \<in> set ls. fst (line_entry e) \<le> addr \<longrightarrow> fst (line_entry e) \<le> ks_addr s))
    \<and> (\<forall>name. case ksyms__get_symbol base ks name of
          None \<Rightarrow> name \<notin> snd ` line_entry ` set ls
        | Some s \<Rightarrow> (ks_addr s, name) \<in> line_entry ` set ls)"
proof -
  obtain ks where l: "ksyms__load (\<lambda>_. True) base qs (Some (kallsyms_file.file_of ls)) = Some (Some ks)"
    "mset (entries base ks) = mset (map line_entry ls)" "sorted (map ks_addr (syms ks))"
    using load_correct[of ls qs base] assms by blast
  let ?e = "\<lambda>s. (ks_addr s, name_at base (strs ks) (ks_name s))"
  have set: "?e ` set (syms ks) = line_entry ` set ls"
    using mset_eq_setD[OF l(2)] by (simp add: entries_def)
  have "case ksyms__map_addr ks addr of
          None \<Rightarrow> False
        | Some None \<Rightarrow> (\<forall>e \<in> set ls. addr < fst (line_entry e))
        | Some (Some s) \<Rightarrow> ?e s \<in> line_entry ` set ls \<and> ks_addr s \<le> addr
            \<and> (\<forall>e \<in> set ls. fst (line_entry e) \<le> addr \<longrightarrow> fst (line_entry e) \<le> ks_addr s)" for addr
  proof -
    let ?low = "filter (\<lambda>s. ks_addr s \<le> addr) (syms ks)"
    have e: "\<exists>s \<in> set (syms ks). line_entry e = ?e s" if "e \<in> set ls" for e
      using that set by (metis (no_types, lifting) image_iff)
    show ?thesis
    proof (cases "?low = []")
      case True
      then show ?thesis using e by (fastforce simp: map_addr_correct[OF l(3)] filter_empty_conv not_le)
    next
      case False
      then have "last ?low \<in> set ?low" by (rule last_in_set)
      then have "last ?low \<in> set (syms ks)" "ks_addr (last ?low) \<le> addr" by simp_all
      moreover have "fst (line_entry e) \<le> ks_addr (last ?low)" if "e \<in> set ls" "fst (line_entry e) \<le> addr" for e
        using e[OF that(1)] that(2) last_greatest[OF l(3), of "\<lambda>s. ks_addr s \<le> addr"] by auto
      ultimately show ?thesis using False set by (auto simp: map_addr_correct[OF l(3)] Let_def)
    qed
  qed
  moreover have "case ksyms__get_symbol base ks name of
      None \<Rightarrow> name \<notin> snd ` line_entry ` set ls | Some s \<Rightarrow> (ks_addr s, name) \<in> line_entry ` set ls" for name
    unfolding set[symmetric] ksyms__get_symbol_def
    by (auto simp: strcmp_eq find_None_iff image_iff split: option.splits dest!: find_Some_iff[THEN iffD1])
  ultimately show ?thesis using l(1) by blast
qed

definition demo_kallsyms :: "(path \<times> byte \<times> path \<times> path) list" where
  "demo_kallsyms = [(ascii ''ffff2000'', 84, ascii ''vfs_read'', []), (ascii ''ffff1000'', 116, ascii ''vfs_write'', ascii '' [m]'')]"

theorem kernel_symbols_answer_witness:
  "\<exists>ks. ksyms__load (\<lambda>_. True) 4096 sort_by (Some (kallsyms_file.file_of demo_kallsyms)) = Some (Some ks)
    \<and> (\<exists>s. ksyms__get_symbol 4096 ks (ascii ''vfs_read'') = Some s \<and> ks_addr s = 0xffff2000)"
proof -
  have good: "list_all kallsyms_good demo_kallsyms" by code_simp
  have "length (kallsyms_file.file_of demo_kallsyms) \<le> 2 ^ 27"
    unfolding kallsyms_file.file_of_def by (simp add: demo_kallsyms_def kallsyms_line_def ascii_def)
  note a = kernel_symbols_answer[OF good this sort_by_sorts, of 4096]
  obtain ks where "ksyms__load (\<lambda>_. True) 4096 sort_by (Some (kallsyms_file.file_of demo_kallsyms)) = Some (Some ks)"
    and "\<forall>name. case ksyms__get_symbol 4096 ks name of None \<Rightarrow> name \<notin> snd ` line_entry ` set demo_kallsyms
        | Some s \<Rightarrow> (ks_addr s, name) \<in> line_entry ` set demo_kallsyms"
    by (use a in \<open>elim exE conjE\<close>) (rule that; assumption)
  then have ks: "ksyms__load (\<lambda>_. True) 4096 sort_by (Some (kallsyms_file.file_of demo_kallsyms)) = Some (Some ks)"
    "case ksyms__get_symbol 4096 ks (ascii ''vfs_read'') of
          None \<Rightarrow> ascii ''vfs_read'' \<notin> snd ` line_entry ` set demo_kallsyms
        | Some s \<Rightarrow> (ks_addr s, ascii ''vfs_read'') \<in> line_entry ` set demo_kallsyms" by blast+
  have "hex_number (ascii ''ffff2000'') = 0xffff2000" "hex_number (ascii ''ffff1000'') = 0xffff1000"
    by (simp_all add: hex_number_def ascii_def hex_val_def is_digit_def)
  then have "line_entry ` set demo_kallsyms = {(0xffff2000, ascii ''vfs_read''), (0xffff1000, ascii ''vfs_write'')}"
    by (simp add: line_entry_def demo_kallsyms_def clamp_unsigned_def)
  moreover have "ascii ''vfs_read'' \<noteq> ascii ''vfs_write''" by code_simp
  ultimately show ?thesis using ks by (auto split: option.splits)
qed

end
