(* ===== verification/Binary_Path.thy ===== *)
theory Binary_Path
  imports C_Scanf C_Sort
begin

text \<open>
  The rest of \<open>bpf_programs/cachestat/uprobe_helpers.c\<close>: finding the file of a program or of a library a
  process has loaded. What \<open>readlink\<close>, the maps of a process and the \<open>which\<close> command deliver is a record.
  A result is the path that is returned, or nothing (\<open>-1\<close>); a write outside an array has no result.
\<close>

record Proc_Fs =
  exe_link :: "path \<Rightarrow> byte list option"
  maps_file :: "path \<Rightarrow> byte list option"
  command_output :: "path \<Rightarrow> byte list option"

definition proc_path :: "u32 \<Rightarrow> string \<Rightarrow> path" where
  "proc_path pid name = ascii ''/proc/'' @ print_int (sint pid) @ ascii name"

text \<open>\<open>readlink\<close> stores at most \<open>path_sz\<close> bytes and returns how many it stored.\<close>

definition get_pid_binary_path :: "Proc_Fs \<Rightarrow> u32 \<Rightarrow> nat \<Rightarrow> path option" where
  "get_pid_binary_path pf pid path_sz =
     (let name = proc_path pid ''/exe'' in
      if 32 \<le> length name then None
      else case exe_link pf name of
        None \<Rightarrow> None
      | Some target \<Rightarrow>
          let stored = take path_sz target in
          if path_sz \<le> length stored then None else Some (takeWhile (\<lambda>b. b \<noteq> 0) stored))"

text \<open>\<open>"%*x-%*x %*s %*x %*s %*u %s"\<close>\<close>

definition maps_format :: "directive list" where
  "maps_format =
     [Skip Hexadecimal, Literal 45, Skip Hexadecimal, White, Skip (Token None), White, Skip Hexadecimal, White,
      Skip (Token None), White, Skip Decimal, White, Store (Token None)]"

text \<open>\<open>strrchr(s, '/')\<close> and \<open>strncmp(a, b, strlen(a)) == 0\<close>.\<close>

definition strrchr_slash :: "byte list \<Rightarrow> byte list option" where
  "strrchr_slash s =
     (if 47 \<in> set s then Some (47 # rev (takeWhile (\<lambda>b. b \<noteq> 47) (rev s))) else None)"

definition starts_with :: "byte list \<Rightarrow> byte list \<Rightarrow> bool" where
  "starts_with pre s \<longleftrightarrow> take (length pre) s = pre"

text \<open>Whether a path is that of the library: its last component is \<open>lib\<close>, the name, and \<open>.\<close> or \<open>-\<close>.\<close>

definition matches_lib :: "path \<Rightarrow> path \<Rightarrow> bool" where
  "matches_lib lib path \<longleftrightarrow>
     (case strrchr_slash path of
        None \<Rightarrow> False
      | Some p \<Rightarrow>
          starts_with (ascii ''/lib'') p
          \<and> (let p1 = drop 4 p in
             starts_with lib p1
             \<and> (let p2 = drop (length lib) p1 in p2 \<noteq> [] \<and> (hd p2 = 46 \<or> hd p2 = 45))))"

definition LINE_SIZE :: nat where
  "LINE_SIZE = 1024"

text \<open>A line that is longer than the array is read in pieces; a path that does not fit is undefined.\<close>

function lib_loop :: "path \<Rightarrow> nat \<Rightarrow> byte list \<Rightarrow> path option option" where
  "lib_loop lib path_sz s =
     (case fgets LINE_SIZE s of
        None \<Rightarrow> Some None
      | Some (line, t) \<Rightarrow>
          (let (ret, vs) = sscanf maps_format line in
           if \<not> fits [LINE_SIZE] vs then None
           else if ret \<noteq> 1 \<or> \<not> matches_lib lib (text_of (vs ! 0)) then lib_loop lib path_sz t
           else if path_sz \<le> length (text_of (vs ! 0)) then Some None
           else Some (Some (text_of (vs ! 0)))))"
  by pat_completeness auto
termination
  by (relation "measure (\<lambda>(lib, path_sz, s). length s)") (auto dest: fgets_shorter simp: LINE_SIZE_def)

declare lib_loop.simps [simp del]

definition get_pid_lib_path :: "Proc_Fs \<Rightarrow> u32 \<Rightarrow> path \<Rightarrow> nat \<Rightarrow> path option option" where
  "get_pid_lib_path pf pid lib path_sz =
     (let name = proc_path pid ''/maps'' in
      if 32 \<le> length name then Some None
      else case maps_file pf name of None \<Rightarrow> Some None | Some s \<Rightarrow> lib_loop lib path_sz s)"

text \<open>The last byte of the line is cut off, whatever it is.\<close>

definition which_program :: "Proc_Fs \<Rightarrow> path \<Rightarrow> nat \<Rightarrow> path option option" where
  "which_program pf prog path_sz =
     (let cmd = ascii ''which '' @ prog in
      if 100 \<le> length cmd then Some None
      else case command_output pf cmd of
        None \<Rightarrow> Some None
      | Some text \<Rightarrow>
          (case fgets path_sz text of
             None \<Rightarrow> Some None
           | Some (line, _) \<Rightarrow>
               let stored = takeWhile (\<lambda>b. b \<noteq> 0) line in
               if stored = [] then None else Some (Some (butlast stored))))"

definition resolve_binary_path :: "Proc_Fs \<Rightarrow> path \<Rightarrow> u32 \<Rightarrow> nat \<Rightarrow> path option option" where
  "resolve_binary_path pf binary pid path_sz =
     (if binary = [] then
        if pid = 0 then Some None else Some (get_pid_binary_path pf pid path_sz)
      else if pid \<noteq> 0 then get_pid_lib_path pf pid binary path_sz
      else which_program pf binary path_sz)"

section \<open>Names under /proc always fit\<close>

lemma proc_path_fits: "length name \<le> 5 \<Longrightarrow> length (proc_path pid name) < 32"
proof -
  assume n: "length name \<le> 5"
  have b: "- 2147483648 \<le> sint pid" "sint pid < 2147483648" using sint_ge[of pid] sint_lt[of pid] by simp_all
  have "length (digits (nat \<bar>sint pid\<bar>)) \<le> 10"
    using b digits_length[of "nat \<bar>sint pid\<bar>" 9] by simp
  then have "length (print_int (sint pid)) \<le> 11" by (auto simp: print_int_def split: if_splits)
  with n show ?thesis by (simp add: proc_path_def ascii_def)
qed

end
