(* ===== verification/Binary_Path_Properties.thy ===== *)
theory Binary_Path_Properties
  imports Binary_Path Scan_Lines
begin

text \<open>
  Finding the file of a program does what the comment of \<open>resolve_binary_path\<close> says in its four cases,
  on the maps file the kernel prints; and where it does not: a path that is cut off.
\<close>

section \<open>Lines of a maps file\<close>

text \<open>
  Two addresses, the fields up to the inode, a blank, and the path, which an anonymous mapping does not have.
  The kernel pads the line in front of the path with any number of further blanks. The path may hold blanks,
  as in \<open>/lib/libc.so (deleted)\<close>.
\<close>

record maps_line =
  ml_from :: path
  ml_to :: path
  ml_perm :: path
  ml_off :: path
  ml_dev :: path
  ml_inode :: path
  ml_padding :: nat
  ml_path :: "path option"

definition maps_text :: "maps_line \<Rightarrow> byte list" where
  "maps_text l = ml_from l @ [45] @ ml_to l @ [32] @ ml_perm l @ [32] @ ml_off l @ [32] @ ml_dev l @ [32]
     @ ml_inode l @ [32] @ (case ml_path l of None \<Rightarrow> [] | Some p \<Rightarrow> replicate (ml_padding l) 32 @ p)"

definition good_path :: "path \<Rightarrow> bool" where
  "good_path p \<longleftrightarrow> p \<noteq> [] \<and> \<not> is_space (hd p) \<and> 10 \<notin> set p \<and> 0 \<notin> set p"

definition maps_good :: "maps_line \<Rightarrow> bool" where
  "maps_good l \<longleftrightarrow> list_all (\<lambda>h. h \<noteq> [] \<and> list_all is_hex h) [ml_from l, ml_to l, ml_off l]
     \<and> is_word (ml_perm l) \<and> is_word (ml_dev l) \<and> ml_inode l \<noteq> [] \<and> list_all is_digit (ml_inode l)
     \<and> (case ml_path l of None \<Rightarrow> True | Some p \<Rightarrow> good_path p) \<and> length (maps_text l) < LINE_SIZE - 1"

definition maps_of :: "maps_line list \<Rightarrow> byte list" where
  "maps_of ls = concat (map (\<lambda>l. maps_text l @ [10]) ls)"

text \<open>What \<open>%s\<close> takes of a path: the part in front of the first blank.\<close>

definition path_word :: "path \<Rightarrow> path" where
  "path_word p = takeWhile (\<lambda>b. \<not> is_space b) p"

lemma scan_padded_path:
  assumes "good_path p"
  shows "\<exists>t. scan_token None (replicate k 32 @ p @ [10]) = Converted (Text (path_word p)) t"
proof -
  have "dropWhile is_space (replicate k 32 @ p @ [10]) = p @ [10]"
    using assms by (cases p) (simp_all add: dropWhile_blanks good_path_def)
  moreover have "takeWhile (\<lambda>b. \<not> is_space b) (p @ [10]) = path_word p"
    unfolding path_word_def by (induction p) simp_all
  moreover have "path_word p \<noteq> []"
    using assms by (cases p) (simp_all add: good_path_def path_word_def)
  ultimately show ?thesis using assms by (simp add: scan_token_def Let_def good_path_def)
qed

lemma text_of_path: "good_path p \<Longrightarrow> text_of (Text (path_word p)) = path_word p"
  unfolding path_word_def good_path_def by (auto simp: takeWhile_eq_all_conv dest: set_takeWhileD)

lemma path_word_length: "length (path_word p) \<le> length p"
  by (simp add: path_word_def length_takeWhile_le)

lemma scan_maps_line:
  assumes "maps_good l"
  shows "case ml_path l of
      None \<Rightarrow> fscanf maps_format (maps_text l @ [10]) = (EOF, [], [])
    | Some p \<Rightarrow> \<exists>t. fscanf maps_format (maps_text l @ [10]) = (1, [Text (path_word p)], t)"
proof -
  have g: "ml_from l \<noteq> []" "list_all is_hex (ml_from l)" "ml_to l \<noteq> []" "list_all is_hex (ml_to l)"
    "ml_off l \<noteq> []" "list_all is_hex (ml_off l)" "is_word (ml_perm l)" "is_word (ml_dev l)"
    "ml_inode l \<noteq> []" "list_all is_digit (ml_inode l)" "case ml_path l of None \<Rightarrow> True | Some p \<Rightarrow> good_path p"
    using assms by (simp_all add: maps_good_def)
  note scans = scan_hex_then[OF g(1,2) not_hex(2), simplified] scan_hex[OF g(3,4)] scan_hex[OF g(5,6)]
    scan_word[OF g(7)] scan_word[OF g(8)] scan_inode[OF g(9,10)]
    word_starts[OF g(7)] word_starts[OF g(8)] hex_starts[OF g(3,4)] hex_starts[OF g(5,6)] inode_starts[OF g(9,10)]
  show ?thesis
  proof (cases "ml_path l")
    case None
    then show ?thesis
      by (simp add: fscanf_def maps_format_def maps_text_def scans out_of_input_def scan_Nil)
  next
    case (Some p)
    then have p: "good_path p" using g(11) by simp
    obtain t where t: "scan_token None (replicate (ml_padding l) 32 @ p @ [10]) = Converted (Text (path_word p)) t"
      using scan_padded_path[OF p] by blast
    then have "scan_token None (dropWhile is_space (replicate (ml_padding l) 32 @ p @ [10]))
        = Converted (Text (path_word p)) t"
      by (simp only: scan_token_skips)
    with Some show ?thesis
      by (simp add: fscanf_def maps_format_def maps_text_def scans)
  qed
qed

section \<open>Libraries\<close>

definition last_component :: "path \<Rightarrow> path" where
  "last_component p = rev (takeWhile (\<lambda>b. b \<noteq> 47) (rev p))"

lemma starts_with_iff: "starts_with p s \<longleftrightarrow> (\<exists>r. s = p @ r)"
  by (auto simp: starts_with_def) (metis append_take_drop_id)

lemma drop3: "drop (n + 3) (a # b # c # xs) = drop n xs"
  by (simp add: numeral_eq_Suc)

lemma matches_lib_iff:
  "matches_lib lib p \<longleftrightarrow>
     47 \<in> set p \<and> (\<exists>c r. last_component p = ascii ''lib'' @ lib @ c # r \<and> (c = 46 \<or> c = 45))"
proof -
  have s: "ascii ''/lib'' = 47 # ascii ''lib''" by (simp add: ascii_def)
  have l: "length (ascii ''/lib'') = 4" by (simp add: ascii_def)
  show ?thesis
    unfolding matches_lib_def strrchr_slash_def last_component_def[symmetric] starts_with_iff Let_def
    by (auto simp: s l neq_Nil_conv ascii_def drop3)
qed

text \<open>
  What the comment asks for, without the code's tests: the path is a directory, a slash, \<open>lib\<close>, the name, and
  \<open>.\<close> or \<open>-\<close>, and no slash follows.
\<close>

definition names_lib :: "path \<Rightarrow> path \<Rightarrow> bool" where
  "names_lib lib p \<longleftrightarrow>
     (\<exists>dir c r. p = dir @ ascii ''/lib'' @ lib @ c # r \<and> (c = 46 \<or> c = 45) \<and> 47 \<notin> set (lib @ c # r))"

lemma split_last_slash: "47 \<in> set p \<Longrightarrow> \<exists>dir. p = dir @ 47 # last_component p"
  unfolding last_component_def
proof (induction p rule: rev_induct)
  case (snoc b p)
  show ?case
  proof (cases "b = 47")
    case True
    then show ?thesis by simp
  next
    case False
    then have "47 \<in> set p" using snoc.prems by auto
    with False snoc.IH show ?thesis by fastforce
  qed
qed simp

lemma last_component_after_slash: "47 \<notin> set t \<Longrightarrow> last_component (dir @ 47 # t) = t"
proof -
  assume "47 \<notin> set t"
  then have "takeWhile (\<lambda>b. b \<noteq> 47) (rev t @ 47 # rev dir) = rev t" by (subst takeWhile_append2) auto
  then show ?thesis by (simp add: last_component_def)
qed

lemma no_slash_in_last_component: "47 \<notin> set (last_component p)"
  by (auto simp: last_component_def dest: set_takeWhileD)

lemma matches_lib_exact: "matches_lib lib p \<longleftrightarrow> names_lib lib p"
proof
  assume "matches_lib lib p"
  then obtain c r where c: "47 \<in> set p" "last_component p = ascii ''lib'' @ lib @ c # r" "c = 46 \<or> c = 45"
    unfolding matches_lib_iff by blast
  then obtain dir where "p = dir @ 47 # ascii ''lib'' @ lib @ c # r" using split_last_slash by metis
  then have "p = dir @ ascii ''/lib'' @ lib @ c # r" by (simp add: ascii_def)
  moreover have "47 \<notin> set (lib @ c # r)"
    using no_slash_in_last_component[of p] unfolding c(2) by simp
  ultimately show "names_lib lib p" using c(3) unfolding names_lib_def by blast
next
  assume "names_lib lib p"
  then obtain dir c r where p: "p = dir @ ascii ''/lib'' @ lib @ c # r" "c = 46 \<or> c = 45" "47 \<notin> set (lib @ c # r)"
    unfolding names_lib_def by blast
  then have "47 \<notin> set (ascii ''lib'' @ lib @ c # r)" by (auto simp: ascii_def)
  moreover have "p = dir @ 47 # ascii ''lib'' @ lib @ c # r" using p(1) by (simp add: ascii_def)
  ultimately have "last_component p = ascii ''lib'' @ lib @ c # r" "47 \<in> set p"
    using last_component_after_slash by simp_all
  then show "matches_lib lib p" using p(2) unfolding matches_lib_iff by blast
qed

definition mapped_paths :: "maps_line list \<Rightarrow> path list" where
  "mapped_paths ls = concat (map (\<lambda>l. case ml_path l of None \<Rightarrow> [] | Some p \<Rightarrow> [path_word p]) ls)"

definition lib_result :: "path \<Rightarrow> nat \<Rightarrow> maps_line list \<Rightarrow> path option" where
  "lib_result lib path_sz ls =
     (case find (names_lib lib) (mapped_paths ls) of
        None \<Rightarrow> None
      | Some p \<Rightarrow> if length p < path_sz then Some p else None)"

lemma maps_text_bytes:
  assumes "maps_good l"
  shows "10 \<notin> set (maps_text l)" "0 \<notin> set (maps_text l)" "length (maps_text l) < LINE_SIZE - 1"
proof -
  let ?P = "\<lambda>b :: byte. b \<noteq> 10 \<and> b \<noteq> 0"
  have h: "list_all ?P h" if "list_all is_hex h" for h
    using that by (auto simp: list_all_iff is_hex_def is_digit_def)
  have w: "list_all ?P w" if "is_word w" for w
    using that is_space_bytes(1) by (auto simp: is_word_def list_all_iff)
  have d: "list_all ?P (ml_inode l)"
    using assms by (intro h) (auto simp: maps_good_def list_all_iff digit_is_hex)
  have p: "list_all ?P (case ml_path l of None \<Rightarrow> [] | Some p \<Rightarrow> replicate (ml_padding l) 32 @ p)"
    using assms by (auto simp: maps_good_def good_path_def list_all_iff split: option.splits)
  have "list_all ?P (ml_from l)" "list_all ?P (ml_to l)" "list_all ?P (ml_off l)" "list_all ?P (ml_perm l)"
    "list_all ?P (ml_dev l)"
    using assms h w by (simp_all add: maps_good_def)
  with d p have "list_all ?P (maps_text l)" by (simp add: maps_text_def)
  then show "10 \<notin> set (maps_text l)" "0 \<notin> set (maps_text l)" by (auto simp: list_all_iff)
  show "length (maps_text l) < LINE_SIZE - 1" using assms by (simp add: maps_good_def)
qed

lemma lib_loop_file:
  assumes "list_all maps_good ls"
  shows "lib_loop lib path_sz (maps_of ls) = Some (lib_result lib path_sz ls)"
  using assms
proof (induction ls)
  case Nil
  then show ?case by (subst lib_loop.simps) (simp add: maps_of_def fgets_def lib_result_def mapped_paths_def)
next
  case (Cons l ls)
  then have g: "maps_good l" by simp
  note b = maps_text_bytes[OF g]
  have line: "fgets LINE_SIZE (maps_of (l # ls)) = Some (maps_text l @ [10], maps_of ls)"
    using fgets_line[OF b(1,3), of "maps_of ls"] by (simp add: maps_of_def)
  have full: "takeWhile (\<lambda>c. c \<noteq> 0) (maps_text l @ [10]) = maps_text l @ [10]"
    using b(2) by (auto simp: takeWhile_eq_all_conv)
  show ?case
  proof (cases "ml_path l")
    case None
    then have "sscanf maps_format (maps_text l @ [10]) = (EOF, [])"
      using scan_maps_line[OF g] by (simp add: sscanf_def full)
    with None show ?thesis using Cons line
      by (subst lib_loop.simps) (simp add: fits_def EOF_def lib_result_def mapped_paths_def)
  next
    case (Some p)
    then have scan: "sscanf maps_format (maps_text l @ [10]) = (1, [Text (path_word p)])"
      using scan_maps_line[OF g] by (auto simp: sscanf_def full)
    have p: "good_path p" using g Some by (simp add: maps_good_def)
    have "length p \<le> length (maps_text l)" using Some by (simp add: maps_text_def)
    then have "length (path_word p) < LINE_SIZE"
      using path_word_length[of p] b(3) by (simp add: LINE_SIZE_def)
    then show ?thesis using Some Cons line scan text_of_path[OF p]
      by (subst lib_loop.simps)
        (simp add: fits_def lib_result_def mapped_paths_def matches_lib_exact del: text_of.simps)
  qed
qed

section \<open>The four cases\<close>

lemma which_program_line:
  assumes "length binary < 94" "command_output pf (ascii ''which '' @ binary) = Some (p @ [10])"
    and "10 \<notin> set p" "0 \<notin> set p" "p \<noteq> []" "2 < path_sz"
  shows "which_program pf binary path_sz = Some (Some (if length p + 1 < path_sz then p else take (path_sz - 2) p))"
proof -
  have c: "length (ascii ''which '' @ binary) < 100" using assms(1) by (simp add: ascii_def)
  have l: "first_line (p @ [10]) = p @ [10]" using assms(3) by (rule first_line_newline)
  define stored where "stored = take (path_sz - 1) (p @ [10])"
  have "fgets path_sz (p @ [10]) = Some (stored, drop (length stored) (p @ [10]))"
    by (simp add: fgets_def l stored_def Let_def)
  moreover have "takeWhile (\<lambda>b. b \<noteq> 0) stored = stored"
    using assms(4) by (auto simp: takeWhile_eq_all_conv stored_def dest: in_set_takeD)
  moreover have "stored \<noteq> []" using assms(5,6) by (simp add: stored_def)
  moreover have "butlast stored = (if length p + 1 < path_sz then p else take (path_sz - 2) p)"
    using assms(6) by (auto simp: stored_def butlast_take numeral_2_eq_2)
  ultimately show ?thesis
    using assms(2) c by (simp add: which_program_def Let_def del: takeWhile_eq_all_conv)
qed

text \<open>
  C35: the four cases of the comment. With a process and no name, the file the process runs, if its path
  fits. With both, the first mapped path whose last component is \<open>lib\<close>, the name, and \<open>.\<close> or \<open>-\<close>, if it fits;
  a path with a blank counts up to that blank. The lines of the maps file are as the kernel prints them, padded
  with any number of blanks, and shorter than the array of 1024 bytes. With neither, failure. With a name only, the line \<open>which\<close> prints; but when that line does not fit, the
  call succeeds all the same, with a path that is cut off.
\<close>

theorem resolve_binary_path_cases:
  assumes "pid \<noteq> 0" "binary \<noteq> []" "length binary < 94"
    and "exe_link pf (proc_path pid ''/exe'') = Some exe" "0 \<notin> set exe"
    and "maps_file pf (proc_path pid ''/maps'') = Some (maps_of ls)" "list_all maps_good ls"
    and "command_output pf (ascii ''which '' @ binary) = Some (p @ [10])" "10 \<notin> set p" "0 \<notin> set p" "p \<noteq> []"
    and "2 < path_sz"
  shows "resolve_binary_path pf [] pid path_sz = Some (if length exe < path_sz then Some exe else None)
    \<and> resolve_binary_path pf binary pid path_sz = Some (lib_result binary path_sz ls)
    \<and> resolve_binary_path pf [] 0 path_sz = Some None
    \<and> resolve_binary_path pf binary 0 path_sz
        = Some (Some (if length p + 1 < path_sz then p else take (path_sz - 2) p))"
proof (intro conjI)
  have f: "\<not> 32 \<le> length (proc_path pid ''/exe'')" "\<not> 32 \<le> length (proc_path pid ''/maps'')"
    using proc_path_fits[of "''/exe''" pid] proc_path_fits[of "''/maps''" pid] by simp_all
  have "takeWhile (\<lambda>b. b \<noteq> 0) exe = exe" using assms(5) by (auto simp: takeWhile_eq_all_conv)
  then show "resolve_binary_path pf [] pid path_sz = Some (if length exe < path_sz then Some exe else None)"
    using assms(1,4) f(1) by (auto simp: resolve_binary_path_def get_pid_binary_path_def Let_def)
  show "resolve_binary_path pf binary pid path_sz = Some (lib_result binary path_sz ls)"
    using assms(1,2,6) f(2) lib_loop_file[OF assms(7)] by (simp add: resolve_binary_path_def get_pid_lib_path_def Let_def)
  show "resolve_binary_path pf [] 0 path_sz = Some None" by (simp add: resolve_binary_path_def)
  show "resolve_binary_path pf binary 0 path_sz
      = Some (Some (if length p + 1 < path_sz then p else take (path_sz - 2) p))"
    using assms(2) which_program_line[OF assms(3,8-12)] by (simp add: resolve_binary_path_def)
qed

definition demo_maps :: "maps_line list" where
  "demo_maps =
     [\<lparr>ml_from = ascii ''7f00'', ml_to = ascii ''7f10'', ml_perm = ascii ''rw-p'', ml_off = ascii ''00000000'',
       ml_dev = ascii ''00:00'', ml_inode = ascii ''0'', ml_padding = 0, ml_path = None\<rparr>,
      \<lparr>ml_from = ascii ''7f10'', ml_to = ascii ''7f20'', ml_perm = ascii ''r-xp'', ml_off = ascii ''00000000'',
       ml_dev = ascii ''08:01'', ml_inode = ascii ''41'', ml_padding = 24, ml_path = Some (ascii ''/lib/libcap.so'')\<rparr>,
      \<lparr>ml_from = ascii ''7f20'', ml_to = ascii ''7f30'', ml_perm = ascii ''r-xp'', ml_off = ascii ''00000000'',
       ml_dev = ascii ''08:01'', ml_inode = ascii ''42'', ml_padding = 24,
       ml_path = Some (ascii ''/lib/libc-2.so (deleted)'')\<rparr>]"

definition demo_proc :: Proc_Fs where
  "demo_proc = \<lparr>exe_link = \<lambda>_. Some (ascii ''/bin/sh''), maps_file = \<lambda>_. Some (maps_of demo_maps),
     command_output = \<lambda>_. Some (ascii ''/usr/bin/fio'' @ [10])\<rparr>"

theorem resolve_binary_path_cases_witness:
  "resolve_binary_path demo_proc (ascii ''c'') 7 64 = Some (Some (ascii ''/lib/libc-2.so''))
   \<and> resolve_binary_path demo_proc (ascii ''c'') 0 8 = Some (Some (ascii ''/usr/b''))"
proof -
  have good: "list_all maps_good demo_maps"
    by (simp add: demo_maps_def maps_good_def maps_text_def good_path_def is_hex_def is_digit_def is_word_def is_space_def
        ascii_def SYM_SIZE_def LINE_SIZE_def)
  have "mapped_paths demo_maps = [ascii ''/lib/libcap.so'', ascii ''/lib/libc-2.so'']" by code_simp
  moreover have "\<not> names_lib (ascii ''c'') (ascii ''/lib/libcap.so'')" "names_lib (ascii ''c'') (ascii ''/lib/libc-2.so'')"
    unfolding matches_lib_exact[symmetric] by code_simp+
  ultimately have r: "lib_result (ascii ''c'') 64 demo_maps = Some (ascii ''/lib/libc-2.so'')"
    by (simp add: lib_result_def) (simp add: ascii_def)
  have c: "0 \<notin> set (ascii ''/bin/sh'')" "10 \<notin> set (ascii ''/usr/bin/fio'')" "0 \<notin> set (ascii ''/usr/bin/fio'')"
    "ascii ''/usr/bin/fio'' \<noteq> []" "ascii ''c'' \<noteq> []" "length (ascii ''c'') < 94"
    by (simp_all add: ascii_def)
  note a = resolve_binary_path_cases[of 7 "ascii ''c''" demo_proc "ascii ''/bin/sh''" demo_maps "ascii ''/usr/bin/fio''"]
  have "resolve_binary_path demo_proc (ascii ''c'') 7 64 = Some (Some (ascii ''/lib/libc-2.so''))"
    using a[of 64] good r c by (simp add: demo_proc_def)
  moreover have "resolve_binary_path demo_proc (ascii ''c'') 0 8 = Some (Some (ascii ''/usr/b''))"
    using a[of 8] good c by (simp add: demo_proc_def ascii_def)
  ultimately show ?thesis by simp
qed

end
