(* ===== verification/Elf_Files.thy ===== *)
theory Elf_Files
  imports Attach_Points
begin

text \<open>
  The ELF part of \<open>bpf_programs/cachestat/uprobe_helpers.c\<close> and of \<open>trace_helpers.c\<close>: opening a file with
  \<open>libelf\<close>, the offset of a function in it, its type, and where its text is. What \<open>libelf\<close> delivers for a
  file is a record (sections in the order of \<open>elf_nextscn\<close>, symbols in the order of \<open>gelf_getsym\<close>); the
  descriptors and \<open>Elf\<close> handles the process has open are the state.
\<close>

section \<open>What libelf delivers\<close>

record Elf_Sym =
  st_name :: nat
  st_type :: nat
  st_value :: u64
  st_size :: u64

text \<open>A block of symbols; \<open>None\<close> is an index \<open>gelf_getsym\<close> fails for, as it does after the last one.\<close>

record Elf_Data =
  d_size :: nat
  d_syms :: "Elf_Sym option list"

record Shdr =
  sh_name :: nat
  sh_type :: nat
  sh_addr :: u64
  sh_offset :: u64
  sh_link :: nat
  sh_entsize :: nat

record Scn =
  scn_header :: "Shdr option"
  scn_data :: "Elf_Data list"

record Phdr =
  p_type :: u32
  p_flags :: u32
  p_vaddr :: u64
  p_offset :: u64
  p_memsz :: u64

record Elf =
  kind_is_elf :: bool
  e_type :: "nat option"
  e_shstrndx :: "nat option"
  e_scns :: "Scn list"
  e_strptr :: "nat \<Rightarrow> nat \<Rightarrow> path option"
  e_phdrs :: "Phdr option list option"

record Elf_Lib =
  version_ok :: bool
  open_ro :: "path \<Rightarrow> int"
  elf_begin :: "int \<Rightarrow> Elf option"

record Handles =
  fds :: "int set"
  elfs :: int

definition open_fd :: "int \<Rightarrow> Handles \<Rightarrow> Handles" where
  "open_fd fd hs = hs\<lparr>fds := opened fd (fds hs)\<rparr>"

definition close_fd :: "int \<Rightarrow> Handles \<Rightarrow> Handles" where
  "close_fd fd hs = hs\<lparr>fds := closed fd (fds hs)\<rparr>"

definition begin_elf :: "Handles \<Rightarrow> Handles" where
  "begin_elf hs = hs\<lparr>elfs := elfs hs + 1\<rparr>"

definition end_elf :: "Handles \<Rightarrow> Handles" where
  "end_elf hs = hs\<lparr>elfs := elfs hs - 1\<rparr>"

section \<open>Opening and closing\<close>

definition open_elf_by_fd :: "Elf_Lib \<Rightarrow> int \<Rightarrow> Handles \<Rightarrow> Elf option \<times> Handles" where
  "open_elf_by_fd lib fd hs =
     (if \<not> version_ok lib then (None, hs)
      else case elf_begin lib fd of
        None \<Rightarrow> (None, close_fd fd hs)
      | Some e \<Rightarrow>
          if \<not> kind_is_elf e then (None, close_fd fd (end_elf (begin_elf hs)))
          else (Some e, begin_elf hs))"

text \<open>On success the descriptor is returned through \<open>fd_close\<close>.\<close>

definition open_elf :: "Elf_Lib \<Rightarrow> path \<Rightarrow> Handles \<Rightarrow> (Elf \<times> int) option \<times> Handles" where
  "open_elf lib path hs =
     (if \<not> version_ok lib then (None, hs)
      else let fd = open_ro lib path; hs1 = open_fd fd hs in
        if fd < 0 then (None, hs1)
        else case elf_begin lib fd of
          None \<Rightarrow> (None, close_fd fd hs1)
        | Some e \<Rightarrow>
            if \<not> kind_is_elf e then (None, close_fd fd (end_elf (begin_elf hs1)))
            else (Some (e, fd), begin_elf hs1))"

definition close_elf :: "int \<Rightarrow> Handles \<Rightarrow> Handles" where
  "close_elf fd hs = close_fd fd (end_elf hs)"

section \<open>The offset of a function\<close>

definition SHT_SYMTAB :: nat where "SHT_SYMTAB = 2"
definition SHT_DYNSYM :: nat where "SHT_DYNSYM = 11"
definition STT_FUNC :: nat where "STT_FUNC = 2"
definition ET_EXEC :: nat where "ET_EXEC = 2"
definition ET_DYN :: nat where "ET_DYN = 3"
definition PT_LOAD :: u32 where "PT_LOAD = 1"
definition PF_X :: u32 where "PF_X = 1"

definition is_symbol_section :: "Shdr \<Rightarrow> bool" where
  "is_symbol_section sh \<longleftrightarrow> sh_type sh = SHT_SYMTAB \<or> sh_type sh = SHT_DYNSYM"

text \<open>The symbols of one block up to the first index that fails.\<close>

definition block_symbols :: "Elf_Data \<Rightarrow> Elf_Sym list" where
  "block_symbols d = map the (takeWhile (\<lambda>s. s \<noteq> None) (d_syms d))"

definition is_func :: "Elf \<Rightarrow> Shdr \<Rightarrow> path \<Rightarrow> Elf_Sym \<Rightarrow> bool" where
  "is_func e sh func s \<longleftrightarrow>
     (case e_strptr e (sh_link sh) (st_name s) of
        None \<Rightarrow> False
      | Some n \<Rightarrow> st_type s = STT_FUNC \<and> n = func)"

fun find_func :: "Elf \<Rightarrow> path \<Rightarrow> Scn list \<Rightarrow> u64 option" where
  "find_func e func [] = None"
| "find_func e func (scn # scns) =
     (case scn_header scn of
        None \<Rightarrow> find_func e func scns
      | Some sh \<Rightarrow>
          if \<not> is_symbol_section sh then find_func e func scns
          else case find (is_func e sh func) (concat (map block_symbols (scn_data scn))) of
                 Some s \<Rightarrow> Some (st_value s)
               | None \<Rightarrow> find_func e func scns)"

text \<open>The executable segment that contains an address; \<open>ret\<close> is compared as an unsigned number.\<close>

definition holds_address :: "u64 \<Rightarrow> Phdr option \<Rightarrow> bool" where
  "holds_address ret ph \<longleftrightarrow>
     (case ph of None \<Rightarrow> False
      | Some p \<Rightarrow> p_type p = PT_LOAD \<and> and (p_flags p) PF_X \<noteq> 0 \<and> p_vaddr p \<le> ret \<and> ret < p_vaddr p + p_memsz p)"

definition file_offset :: "Elf \<Rightarrow> u64 \<Rightarrow> u64" where
  "file_offset e ret =
     (case e_phdrs e of
        None \<Rightarrow> - 1
      | Some phs \<Rightarrow>
          (case find (holds_address ret) phs of
             Some (Some p) \<Rightarrow> ret - p_vaddr p + p_offset p
           | _ \<Rightarrow> - 1))"

text \<open>
  \<open>-1\<close> is failure. A file that cannot be opened is not noticed as such: \<open>gelf_getehdr\<close> fails on the
  null handle, and closing it does nothing.
\<close>

definition get_elf_func_offset :: "Elf_Lib \<Rightarrow> path \<Rightarrow> path \<Rightarrow> Handles \<Rightarrow> u64 \<times> Handles" where
  "get_elf_func_offset lib path func hs =
     (case open_elf lib path hs of
        (None, hs1) \<Rightarrow> (- 1, hs1)
      | (Some (e, fd), hs1) \<Rightarrow>
          (case (e_type e, e_shstrndx e) of
             (Some ty, Some _) \<Rightarrow>
               (let ret = (case find_func e func (e_scns e) of Some v \<Rightarrow> v | None \<Rightarrow> - 1)
                in (if ty = ET_EXEC \<or> ty = ET_DYN then file_offset e ret else ret, close_elf fd hs1))
           | _ \<Rightarrow> (- 1, close_elf fd hs1)))"

section \<open>The type of a file, and its text\<close>

definition is_vdso :: "path \<Rightarrow> bool" where
  "is_vdso p \<longleftrightarrow> p = ascii ''[vdso]''"

definition is_uprobes :: "path \<Rightarrow> bool" where
  "is_uprobes p \<longleftrightarrow> p = ascii ''[uprobes]''"

definition get_elf_type :: "Elf_Lib \<Rightarrow> path \<Rightarrow> Handles \<Rightarrow> int \<times> Handles" where
  "get_elf_type lib path hs =
     (if is_vdso path \<or> is_uprobes path then (- 1, hs)
      else case open_elf lib path hs of
        (None, hs1) \<Rightarrow> (- 1, hs1)
      | (Some (e, fd), hs1) \<Rightarrow>
          (case e_type e of None \<Rightarrow> - 1 | Some ty \<Rightarrow> int ty, close_elf fd hs1))"

fun find_text :: "Elf \<Rightarrow> nat \<Rightarrow> Scn list \<Rightarrow> (u64 \<times> u64) option" where
  "find_text e stridx [] = None"
| "find_text e stridx (scn # scns) =
     (case scn_header scn of
        None \<Rightarrow> find_text e stridx scns
      | Some sh \<Rightarrow>
          if e_strptr e stridx (sh_name sh) = Some (ascii ''.text'') then Some (sh_addr sh, sh_offset sh)
          else find_text e stridx scns)"

text \<open>\<open>None\<close> stands for a negative result, with the address and the offset left as they are.\<close>

definition get_elf_text_scn_info :: "Elf_Lib \<Rightarrow> path \<Rightarrow> Handles \<Rightarrow> (u64 \<times> u64) option \<times> Handles" where
  "get_elf_text_scn_info lib path hs =
     (case open_elf lib path hs of
        (None, hs1) \<Rightarrow> (None, hs1)
      | (Some (e, fd), hs1) \<Rightarrow>
          (case e_shstrndx e of
             None \<Rightarrow> (None, close_elf fd hs1)
           | Some stridx \<Rightarrow> (find_text e stridx (e_scns e), close_elf fd hs1)))"

section \<open>Nothing is left open\<close>

definition fresh_fds :: "Elf_Lib \<Rightarrow> Handles \<Rightarrow> bool" where
  "fresh_fds lib hs \<longleftrightarrow> (\<forall>path. open_ro lib path \<notin> fds hs)"

lemmas handle_defs = open_fd_def close_fd_def begin_elf_def end_elf_def opened_def closed_def

lemma open_elf_handles:
  assumes "open_ro lib path \<notin> fds hs"
  shows "case open_elf lib path hs of (None, hs1) \<Rightarrow> hs1 = hs
    | (Some (e, fd), hs1) \<Rightarrow> kind_is_elf e \<and> fd \<notin> fds hs \<and> 0 \<le> fd \<and> hs1 = \<lparr>fds = insert fd (fds hs), elfs = elfs hs + 1\<rparr>"
  using assms by (cases hs) (auto simp: open_elf_def handle_defs Let_def split: option.splits)

lemma close_elf_handles: "fd \<notin> fds hs \<Longrightarrow> close_elf fd \<lparr>fds = insert fd (fds hs), elfs = elfs hs + 1\<rparr> = hs"
  by (cases hs) (auto simp: close_elf_def handle_defs)

lemma elf_queries_handles:
  assumes "fresh_fds lib hs"
  shows "snd (get_elf_func_offset lib path func hs) = hs" "snd (get_elf_type lib path hs) = hs"
    "snd (get_elf_text_scn_info lib path hs) = hs"
  using open_elf_handles[of lib path hs] close_elf_handles assms
  by (auto simp: get_elf_func_offset_def get_elf_type_def get_elf_text_scn_info_def fresh_fds_def Let_def
      split: prod.splits option.splits)

end
