(* ===== verification/Process_Symbols.thy ===== *)
theory Process_Symbols
  imports Elf_Files C_Sort
begin

text \<open>
  The symbols of a process, from \<open>bpf_programs/cachestat/trace_helpers.c\<close>: the files mapped into it, the
  file an address belongs to, and the symbol in that file, which is loaded when it is first asked for.
  Strings in a \<open>btf\<close> object are kept as strings: \<open>libbpf\<close> returns for an offset the string it was given for.
  A second use of released memory, a division by zero and a write outside an array have no result.
  (\<open>strdup\<close> and \<open>btf__new_empty\<close> are taken to succeed.)
\<close>

section \<open>Data\<close>

record load_range =
  lr_start :: u64
  lr_end :: u64
  lr_file_off :: u64

datatype elf_type = EXEC | DYN | PERF_MAP | VDSO | UNKNOWN

record sym =
  sym_name :: path
  sym_start :: u64
  sym_size :: u64
  sym_offset :: u64

text \<open>\<open>dso_syms\<close> is \<open>None\<close> for the null pointer; \<open>dso_freed\<close> says that the fields have been released.\<close>

record dso =
  dso_name :: path
  ranges :: "load_range list"
  dso_sh_addr :: u64
  dso_sh_offset :: u64
  dso_type :: elf_type
  dso_syms :: "sym list option"
  dso_cap :: nat
  dso_freed :: bool

record map_entry =
  start_addr :: u64
  end_addr :: u64
  file_off :: u64

record Sym_Env =
  elf_lib :: Elf_Lib
  alloc_ok :: "nat \<Rightarrow> bool"
  btf_add_str_ok :: "path \<Rightarrow> bool"
  own_maps :: "byte list option"
  tmp_fd :: int
  tmp_write_ok :: bool
  sort_syms :: "(sym \<Rightarrow> sym \<Rightarrow> int) \<Rightarrow> sym list \<Rightarrow> sym list"

section \<open>Kinds of mappings\<close>

definition starts_with_string :: "path \<Rightarrow> string \<Rightarrow> bool" where
  "starts_with_string p s \<longleftrightarrow> take (length s) p = ascii s"

definition is_file_backed :: "path \<Rightarrow> bool" where
  "is_file_backed p \<longleftrightarrow> p \<noteq> []
     \<and> \<not> (starts_with_string p ''//anon'' \<or> starts_with_string p ''/dev/zero''
          \<or> starts_with_string p ''/anon_hugepage'' \<or> starts_with_string p ''[stack''
          \<or> starts_with_string p ''/SYSV'' \<or> starts_with_string p ''[heap]''
          \<or> starts_with_string p ''[uprobes]'' \<or> starts_with_string p ''[vsyscall]'')"

definition is_perf_map :: "path \<Rightarrow> bool" where
  "is_perf_map p \<longleftrightarrow> False"

section \<open>The mapped files\<close>

definition new_dso :: "path \<Rightarrow> dso" where
  "new_dso name = \<lparr>dso_name = name, ranges = [], dso_sh_addr = 0, dso_sh_offset = 0, dso_type = EXEC,
     dso_syms = None, dso_cap = 0, dso_freed = False\<rparr>"

fun index_of_dso :: "path \<Rightarrow> dso list \<Rightarrow> nat" where
  "index_of_dso name [] = 0"
| "index_of_dso name (d # ds) = (if dso_name d = name then 0 else Suc (index_of_dso name ds))"

definition set_dso_type :: "Sym_Env \<Rightarrow> path \<Rightarrow> dso \<Rightarrow> Handles \<Rightarrow> bool \<times> dso \<times> Handles" where
  "set_dso_type env name d hs =
     (let (ty, hs1) = get_elf_type (elf_lib env) name hs in
      if ty = int ET_EXEC then (True, d\<lparr>dso_type := EXEC\<rparr>, hs1)
      else if ty = int ET_DYN then
        (let d1 = d\<lparr>dso_type := DYN\<rparr>; (r, hs2) = get_elf_text_scn_info (elf_lib env) name hs1 in
         case r of None \<Rightarrow> (False, d1, hs2)
         | Some (addr, off) \<Rightarrow> (True, d1\<lparr>dso_sh_addr := addr, dso_sh_offset := off\<rparr>, hs2))
      else if is_perf_map name then (True, d\<lparr>dso_type := PERF_MAP\<rparr>, hs1)
      else if is_vdso name then (True, d\<lparr>dso_type := VDSO\<rparr>, hs1)
      else (True, d\<lparr>dso_type := UNKNOWN\<rparr>, hs1))"

definition syms__add_dso :: "Sym_Env \<Rightarrow> map_entry \<Rightarrow> path \<Rightarrow> dso list \<Rightarrow> Handles \<Rightarrow> bool \<times> dso list \<times> Handles" where
  "syms__add_dso env m name dsos hs =
     (let i = index_of_dso name dsos in
      if i = length dsos \<and> \<not> alloc_ok env (72 * (length dsos + 1)) then (False, dsos, hs)
      else let dsos1 = (if i = length dsos then dsos @ [new_dso name] else dsos); d = dsos1 ! i in
        if \<not> alloc_ok env (24 * (length (ranges d) + 1)) then (False, dsos1, hs)
        else let d1 = d\<lparr>ranges := ranges d @ [\<lparr>lr_start = start_addr m, lr_end = end_addr m, lr_file_off = file_off m\<rparr>]\<rparr>;
                 (ok, d2, hs1) = set_dso_type env name d1 hs
             in (ok, dsos1[i := d2], hs1))"

text \<open>An address is looked for in the ranges of one file after the other.\<close>

definition in_range :: "u64 \<Rightarrow> load_range \<Rightarrow> bool" where
  "in_range addr r \<longleftrightarrow> \<not> (addr \<le> lr_start r \<or> lr_end r \<le> addr)"

definition dso_file_offset :: "dso \<Rightarrow> u64 \<Rightarrow> load_range \<Rightarrow> u64" where
  "dso_file_offset d addr r =
     (if dso_type d = DYN \<or> dso_type d = VDSO
      then addr - lr_start r + lr_file_off r + (dso_sh_addr d - dso_sh_offset d)
      else addr)"

fun syms__find_dso :: "dso list \<Rightarrow> u64 \<Rightarrow> (nat \<times> u64) option option" where
  "syms__find_dso [] addr = Some None"
| "syms__find_dso (d # ds) addr =
     (if dso_freed d \<and> ranges d \<noteq> [] then None
      else case find (in_range addr) (ranges d) of
        Some r \<Rightarrow> Some (Some (0, dso_file_offset d addr r))
      | None \<Rightarrow> map_option (map_option (\<lambda>(i, off). (Suc i, off))) (syms__find_dso ds addr))"

section \<open>The symbols of a file\<close>

definition dso__add_sym :: "Sym_Env \<Rightarrow> path \<Rightarrow> u64 \<Rightarrow> u64 \<Rightarrow> dso \<Rightarrow> (bool \<times> dso) option" where
  "dso__add_sym env name start sz d =
     (let xs = (case dso_syms d of None \<Rightarrow> [] | Some xs \<Rightarrow> xs);
          new_cap = max (dso_cap d * 4 div 3) 1024;
          s = \<lparr>sym_name = name, sym_start = start, sym_size = sz, sym_offset = 0\<rparr>
      in if \<not> btf_add_str_ok env name then Some (False, d)
         else if dso_cap d < length xs + 1 then
           (if INT_MAX < dso_cap d * 4 \<or> INT_MAX < new_cap then None
            else if \<not> alloc_ok env (32 * new_cap) then Some (False, d)
            else Some (True, d\<lparr>dso_syms := Some (xs @ [s]), dso_cap := new_cap\<rparr>))
         else Some (True, d\<lparr>dso_syms := Some (xs @ [s])\<rparr>))"

definition sym_cmp :: "sym \<Rightarrow> sym \<Rightarrow> int" where
  "sym_cmp s1 s2 =
     (if sym_start s1 = sym_start s2 then strcmp (sym_name s1) (sym_name s2)
      else if sym_start s1 < sym_start s2 then - 1 else 1)"

definition gelf_getsym :: "Elf_Data \<Rightarrow> nat \<Rightarrow> Elf_Sym option" where
  "gelf_getsym data i = (if i < length (d_syms data) then d_syms data ! i else None)"

fun add_block :: "Sym_Env \<Rightarrow> Elf \<Rightarrow> nat \<Rightarrow> Elf_Data \<Rightarrow> nat list \<Rightarrow> dso \<Rightarrow> (bool \<times> dso) option" where
  "add_block env e stridx data [] d = Some (True, d)"
| "add_block env e stridx data (i # is) d =
     (case gelf_getsym data i of
        None \<Rightarrow> add_block env e stridx data is d
      | Some s \<Rightarrow>
          (case e_strptr e stridx (st_name s) of
             None \<Rightarrow> add_block env e stridx data is d
           | Some name \<Rightarrow>
               if name = [] \<or> st_value s = 0 then add_block env e stridx data is d
               else do {
                 (ok, d1) \<leftarrow> dso__add_sym env name (st_value s) (st_size s) d;
                 if \<not> ok then Some (False, d1) else add_block env e stridx data is d1
               }))"

fun dso__add_syms :: "Sym_Env \<Rightarrow> Elf \<Rightarrow> nat \<Rightarrow> nat \<Rightarrow> Elf_Data list \<Rightarrow> dso \<Rightarrow> (bool \<times> dso) option" where
  "dso__add_syms env e stridx symsize [] d = Some (True, d)"
| "dso__add_syms env e stridx symsize (data # datas) d =
     (if symsize = 0 then None
      else if d_size data mod symsize \<noteq> 0 then Some (False, d)
      else do {
        (ok, d1) \<leftarrow> add_block env e stridx data [0..<d_size data div symsize] d;
        if \<not> ok then Some (False, d1) else dso__add_syms env e stridx symsize datas d1
      })"

fun add_sections :: "Sym_Env \<Rightarrow> Elf \<Rightarrow> Scn list \<Rightarrow> dso \<Rightarrow> (bool \<times> dso) option" where
  "add_sections env e [] d = Some (True, d)"
| "add_sections env e (scn # scns) d =
     (case scn_header scn of
        None \<Rightarrow> add_sections env e scns d
      | Some sh \<Rightarrow>
          if \<not> is_symbol_section sh then add_sections env e scns d
          else do {
            (ok, d1) \<leftarrow> dso__add_syms env e (sh_link sh) (sh_entsize sh) (scn_data scn) d;
            if \<not> ok then Some (False, d1) else add_sections env e scns d1
          })"

definition dso__free_fields :: "dso \<Rightarrow> dso option" where
  "dso__free_fields d = (if dso_freed d then None else Some (d\<lparr>dso_freed := True\<rparr>))"

definition sort_dso :: "Sym_Env \<Rightarrow> dso \<Rightarrow> dso" where
  "sort_dso env d = d\<lparr>dso_syms := map_option (sort_syms env sym_cmp) (dso_syms d)\<rparr>"

definition dso__load_sym_table_from_elf :: "Sym_Env \<Rightarrow> dso \<Rightarrow> int \<Rightarrow> Handles \<Rightarrow> (bool \<times> dso \<times> Handles) option" where
  "dso__load_sym_table_from_elf env d fd hs =
     (let (r, hs1) = (if 0 < fd
            then (let (e, h) = open_elf_by_fd (elf_lib env) fd hs in (map_option (\<lambda>e. (e, fd)) e, h))
            else open_elf (elf_lib env) (dso_name d) hs)
      in case r of
           None \<Rightarrow> Some (False, d, hs1)
         | Some (e, fd1) \<Rightarrow> do {
             (ok, d1) \<leftarrow> add_sections env e (e_scns e) d;
             if ok then Some (True, sort_dso env d1, close_elf fd1 hs1)
             else do { d2 \<leftarrow> dso__free_fields d1; Some (False, d2, close_elf fd1 hs1) }
           })"

text \<open>
  The code of the kernel that is mapped into every process is copied to a temporary file. \<open>own_maps\<close> is
  the maps file of this process, \<open>tmp_fd\<close> what \<open>mkostemp\<close> returns. The addresses are those of the line
  read last; they have not been set if there was none.
  (\<open>"%llx-%llx %*s %*x %*x:%*x %*u%[^\n]"\<close>)
\<close>

definition vdso_format :: "directive list" where
  "vdso_format =
     [Store Hexadecimal, Literal 45, Store Hexadecimal, White, Skip (Token None), White, Skip Hexadecimal, White,
      Skip Hexadecimal, Literal 58, Skip Hexadecimal, White, Skip Decimal, Store Rest_of_line]"

function find_vdso :: "byte list \<Rightarrow> (u64 \<times> u64) option \<Rightarrow> (bool \<times> (u64 \<times> u64) option) option" where
  "find_vdso s addrs =
     (let (ret, vs, t) = fscanf vdso_format s in
      if \<not> fits [8, 8, PATH_MAX] vs then None
      else if ret = EOF then Some (True, addrs)
      else if ret \<noteq> 3 then Some (False, addrs)
      else let name = dropWhile is_space (text_of (vs ! 2));
               addrs1 = Some (number_of_item (vs ! 0), number_of_item (vs ! 1)) in
        if \<not> is_file_backed name then find_vdso t addrs1
        else if is_vdso name then Some (True, addrs1)
        else find_vdso t addrs1)"
  by pat_completeness auto
termination
  by (relation "measure (\<lambda>(s, addrs). length s)") (auto dest: fscanf_shorter[OF sym])

declare find_vdso.simps [simp del]

definition create_tmp_vdso_image :: "Sym_Env \<Rightarrow> Handles \<Rightarrow> (int \<times> Handles) option" where
  "create_tmp_vdso_image env hs =
     (case own_maps env of
        None \<Rightarrow> Some (- 1, hs)
      | Some s \<Rightarrow> do {
          (ok, addrs) \<leftarrow> find_vdso s None;
          if \<not> ok then Some (- 1, hs)
          else do {
            (start_a, end_a) \<leftarrow> addrs;
            if \<not> alloc_ok env (unat (end_a - start_a)) then Some (- 1, hs)
            else if tmp_fd env < 0 then Some (tmp_fd env, hs)
            else if \<not> tmp_write_ok env then Some (- 1, close_fd (tmp_fd env) (open_fd (tmp_fd env) hs))
            else Some (tmp_fd env, open_fd (tmp_fd env) hs)
          }
        })"

definition dso__load_sym_table_from_vdso_image :: "Sym_Env \<Rightarrow> dso \<Rightarrow> Handles \<Rightarrow> (bool \<times> dso \<times> Handles) option" where
  "dso__load_sym_table_from_vdso_image env d hs =
     do {
       (fd, hs1) \<leftarrow> create_tmp_vdso_image env hs;
       if fd < 0 then Some (False, d, hs1) else dso__load_sym_table_from_elf env d fd hs1
     }"

definition dso__load_sym_table_from_perf_map :: "dso \<Rightarrow> bool" where
  "dso__load_sym_table_from_perf_map d = False"

definition dso__load_sym_table :: "Sym_Env \<Rightarrow> dso \<Rightarrow> Handles \<Rightarrow> (bool \<times> dso \<times> Handles) option" where
  "dso__load_sym_table env d hs =
     (case dso_type d of
        UNKNOWN \<Rightarrow> Some (False, d, hs)
      | PERF_MAP \<Rightarrow> Some (dso__load_sym_table_from_perf_map d, d, hs)
      | EXEC \<Rightarrow> dso__load_sym_table_from_elf env d 0 hs
      | DYN \<Rightarrow> dso__load_sym_table_from_elf env d 0 hs
      | VDSO \<Rightarrow> dso__load_sym_table_from_vdso_image env d hs)"

text \<open>The symbol found has its offset set, in the table too.\<close>

definition search_syms :: "sym list \<Rightarrow> u64 \<Rightarrow> (sym option \<times> sym list) option" where
  "search_syms xs offset =
     do {
       (start, stop) \<leftarrow> last_below (map sym_start xs) offset 0 (int (length xs) - 1);
       if start \<noteq> stop then Some (None, xs)
       else if start < 0 \<or> int (length xs) \<le> start then None
       else let s = xs ! nat start in
         if sym_start s \<le> offset \<and> offset < sym_start s + sym_size s then
           (let s' = s\<lparr>sym_offset := offset - sym_start s\<rparr> in Some (Some s', xs[nat start := s']))
         else Some (None, xs)
     }"

definition dso__find_sym :: "Sym_Env \<Rightarrow> dso \<Rightarrow> u64 \<Rightarrow> Handles \<Rightarrow> (sym option \<times> dso \<times> Handles) option" where
  "dso__find_sym env d offset hs =
     do {
       (ok, d1, hs1) \<leftarrow> (if dso_freed d then None
                          else if dso_syms d = None then dso__load_sym_table env d hs else Some (True, d, hs));
       if \<not> ok then Some (None, d1, hs1)
       else do {
         (r, xs) \<leftarrow> search_syms (case dso_syms d1 of None \<Rightarrow> [] | Some xs \<Rightarrow> xs) offset;
         Some (r, d1\<lparr>dso_syms := map_option (\<lambda>_. xs) (dso_syms d1)\<rparr>, hs1)
       }
     }"

section \<open>Looking addresses up\<close>

definition syms__map_addr :: "Sym_Env \<Rightarrow> dso list \<Rightarrow> u64 \<Rightarrow> Handles \<Rightarrow> (sym option \<times> dso list \<times> Handles) option" where
  "syms__map_addr env dsos addr hs =
     do {
       r \<leftarrow> syms__find_dso dsos addr;
       (case r of None \<Rightarrow> Some (None, dsos, hs)
        | Some (i, offset) \<Rightarrow> do {
            (s, d, hs1) \<leftarrow> dso__find_sym env (dsos ! i) offset hs;
            Some (s, dsos[i := d], hs1) })
     }"

record sym_info =
  si_dso_name :: "path option"
  si_dso_offset :: u64
  si_sym_name :: "path option"
  si_sym_offset :: u64

definition empty_info :: sym_info where
  "empty_info = \<lparr>si_dso_name = None, si_dso_offset = 0, si_sym_name = None, si_sym_offset = 0\<rparr>"

definition syms__map_addr_dso :: "Sym_Env \<Rightarrow> dso list \<Rightarrow> u64 \<Rightarrow> Handles
    \<Rightarrow> (bool \<times> sym_info \<times> dso list \<times> Handles) option" where
  "syms__map_addr_dso env dsos addr hs =
     do {
       r \<leftarrow> syms__find_dso dsos addr;
       (case r of None \<Rightarrow> Some (False, empty_info, dsos, hs)
        | Some (i, offset) \<Rightarrow> do {
            let info = empty_info\<lparr>si_dso_name := Some (dso_name (dsos ! i)), si_dso_offset := offset\<rparr>;
            (s, d, hs1) \<leftarrow> dso__find_sym env (dsos ! i) offset hs;
            let info = (case s of None \<Rightarrow> info
              | Some s \<Rightarrow> info\<lparr>si_sym_name := Some (sym_name s), si_sym_offset := sym_offset s\<rparr>);
            Some (True, info, dsos[i := d], hs1) })
     }"

section \<open>Reading the mappings of a process\<close>

text \<open>\<open>"%llx-%llx %4s %llx %llx:%llx %llu%[^\n]"\<close>\<close>

definition process_format :: "directive list" where
  "process_format =
     [Store Hexadecimal, Literal 45, Store Hexadecimal, White, Store (Token (Some 4)), White, Store Hexadecimal, White,
      Store Hexadecimal, Literal 58, Store Hexadecimal, White, Store Decimal, Store Rest_of_line]"

definition syms__free :: "dso list \<Rightarrow> unit option" where
  "syms__free dsos = (if list_all (\<lambda>d. dso__free_fields d \<noteq> None) dsos then Some () else None)"

text \<open>
  Of the permissions the third byte is read. With less than two bytes it has not been set, or is left
  from the line before; such a file, which no kernel writes, has no result.
\<close>

function load_maps :: "Sym_Env \<Rightarrow> byte list \<Rightarrow> dso list \<Rightarrow> Handles \<Rightarrow> (bool \<times> dso list \<times> Handles) option" where
  "load_maps env s dsos hs =
     (let (ret, vs, t) = fscanf process_format s in
      if \<not> fits [8, 8, 5, 8, 8, 8, 8, PATH_MAX] vs then None
      else if ret = EOF then Some (True, dsos, hs)
      else if ret \<noteq> 8 then Some (False, dsos, hs)
      else let perm = text_of (vs ! 2); name = dropWhile is_space (text_of (vs ! 7));
               m = \<lparr>start_addr = number_of_item (vs ! 0), end_addr = number_of_item (vs ! 1),
                    file_off = number_of_item (vs ! 3)\<rparr> in
        if length perm < 2 then None
        else if length perm < 3 \<or> perm ! 2 \<noteq> 120 then load_maps env t dsos hs
        else if \<not> is_file_backed name then load_maps env t dsos hs
        else (case syms__add_dso env m name dsos hs of
                (ok, dsos1, hs1) \<Rightarrow> if \<not> ok then Some (False, dsos1, hs1) else load_maps env t dsos1 hs1))"
  by pat_completeness auto
termination
  by (relation "measure (\<lambda>(env, s, dsos, hs). length s)") (auto dest: fscanf_shorter[OF sym])

declare load_maps.simps [simp del]

text \<open>The inner \<open>None\<close> is the result \<open>NULL\<close>.\<close>

definition syms__load_file :: "Sym_Env \<Rightarrow> byte list option \<Rightarrow> Handles \<Rightarrow> (dso list option \<times> Handles) option" where
  "syms__load_file env content hs =
     (case content of
        None \<Rightarrow> Some (None, hs)
      | Some s \<Rightarrow>
          if \<not> alloc_ok env 16 then Some (None, hs)
          else do {
            (ok, dsos, hs1) \<leftarrow> load_maps env s [] hs;
            if ok then Some (Some dsos, hs1)
            else do { _ \<leftarrow> syms__free dsos; Some (None, hs1) }
          })"

definition syms__load_pid :: "Sym_Env \<Rightarrow> (path \<Rightarrow> byte list option) \<Rightarrow> u32 \<Rightarrow> Handles
    \<Rightarrow> (dso list option \<times> Handles) option" where
  "syms__load_pid env open_file tgid hs =
     syms__load_file env (open_file (snprintf 128 (ascii ''/proc/'' @ print_int (sint tgid) @ ascii ''/maps''))) hs"

section \<open>One table per process\<close>

type_synonym syms_cache = "(dso list option \<times> u32) list"

definition syms_cache__get_syms :: "Sym_Env \<Rightarrow> (path \<Rightarrow> byte list option) \<Rightarrow> syms_cache \<Rightarrow> u32 \<Rightarrow> Handles
    \<Rightarrow> (dso list option \<times> syms_cache \<times> Handles) option" where
  "syms_cache__get_syms env open_file cache tgid hs =
     (case find (\<lambda>(_, t). t = tgid) cache of
        Some (syms, _) \<Rightarrow> Some (syms, cache, hs)
      | None \<Rightarrow>
          if \<not> alloc_ok env (16 * (length cache + 1)) then Some (None, cache, hs)
          else do {
            (syms, hs1) \<leftarrow> syms__load_pid env open_file tgid hs;
            Some (syms, cache @ [(syms, tgid)], hs1)
          })"

definition syms_cache__new :: "Sym_Env \<Rightarrow> syms_cache option" where
  "syms_cache__new env = (if alloc_ok env 16 then Some [] else None)"

definition syms_cache__free :: "syms_cache \<Rightarrow> unit option" where
  "syms_cache__free cache =
     (if list_all (\<lambda>(syms, _). case syms of None \<Rightarrow> True | Some dsos \<Rightarrow> syms__free dsos \<noteq> None) cache
      then Some () else None)"

end
