(* ===== verification/Process_Symbols_Properties.thy ===== *)
theory Process_Symbols_Properties
  imports Process_Symbols Scan_Lines
begin

text \<open>
  What the symbols of a process say: the mappings are those of the maps file, grouped by file; an
  address inside a mapping leads to its file and the offset in it, the first address of a mapping to
  nothing; the symbol found in a file is the last one that starts at or below the offset, if it
  reaches it; and a file whose symbol table is broken is released twice.
\<close>

section \<open>Addresses and mappings\<close>

definition apart :: "load_range \<Rightarrow> load_range \<Rightarrow> bool" where
  "apart a b \<longleftrightarrow> lr_end a \<le> lr_start b \<or> lr_end b \<le> lr_start a"

text \<open>No two mappings of the process overlap, and none is empty.\<close>

definition proper_mappings :: "dso list \<Rightarrow> bool" where
  "proper_mappings dsos \<longleftrightarrow> sorted_wrt apart (concat (map ranges dsos))
     \<and> list_all (\<lambda>d. \<not> dso_freed d \<and> list_all (\<lambda>r. lr_start r < lr_end r) (ranges d)) dsos"

lemma apart_excludes: "apart a b \<Longrightarrow> in_range addr a \<Longrightarrow> \<not> in_range addr b"
  by (auto simp: apart_def in_range_def)

lemma find_range:
  assumes "sorted_wrt apart rs" "r \<in> set rs" "in_range addr r"
  shows "find (in_range addr) rs = Some r"
  using assms by (induction rs) (auto dest: apart_excludes)

lemma find_dso_hit:
  assumes "proper_mappings dsos" "i < length dsos" "r \<in> set (ranges (dsos ! i))" "in_range addr r"
  shows "syms__find_dso dsos addr = Some (Some (i, dso_file_offset (dsos ! i) addr r))"
  using assms
proof (induction dsos arbitrary: i)
  case (Cons d ds)
  then have s: "sorted_wrt apart (ranges d)" "\<not> dso_freed d" "proper_mappings ds"
    and x: "\<And>a b. a \<in> set (ranges d) \<Longrightarrow> b \<in> set (concat (map ranges ds)) \<Longrightarrow> apart a b"
    by (auto simp: proper_mappings_def sorted_wrt_append)
  show ?case
  proof (cases i)
    case 0
    then show ?thesis using Cons.prems s find_range[of "ranges d" r addr] by simp
  next
    case (Suc j)
    then have "r \<in> set (concat (map ranges ds))" using Cons.prems by (auto intro: nth_mem)
    then have "find (in_range addr) (ranges d) = None"
      using x Cons.prems(4) by (auto simp: find_None_iff dest: apart_excludes)
    with Suc s Cons.prems Cons.IH[of j] show ?thesis by simp
  qed
qed simp

lemma find_dso_miss:
  assumes "list_all (\<lambda>d. \<not> dso_freed d) dsos" "\<forall>d \<in> set dsos. \<forall>r \<in> set (ranges d). \<not> in_range addr r"
  shows "syms__find_dso dsos addr = Some None"
  using assms
proof (induction dsos)
  case (Cons d ds)
  then have "find (in_range addr) (ranges d) = None" by (auto simp: find_None_iff)
  with Cons show ?case by simp
qed simp

lemma start_in_no_other:
  assumes "sorted_wrt apart rs" "r \<in> set rs" "q \<in> set rs" "lr_start r < lr_end r"
  shows "\<not> in_range (lr_start r) q"
proof (cases "q = r")
  case False
  from assms(1-3) False have "apart q r \<or> apart r q" by (induction rs) auto
  with assms(4) show ?thesis by (auto simp: apart_def in_range_def)
qed (simp add: in_range_def)

text \<open>
  C37: every address inside a mapping, the first one excepted, leads to the mapped file, with its
  offset there (in the address space of the file for position-independent files). The first address
  of every mapping leads to nothing, although it belongs to the mapping.
\<close>

theorem mapping_lookup:
  assumes "proper_mappings dsos" "i < length dsos" "r \<in> set (ranges (dsos ! i))" "lr_start r < addr" "addr < lr_end r"
  shows "syms__find_dso dsos addr = Some (Some (i, dso_file_offset (dsos ! i) addr r))
    \<and> syms__find_dso dsos (lr_start r) = Some None"
proof
  show "syms__find_dso dsos addr = Some (Some (i, dso_file_offset (dsos ! i) addr r))"
    using assms by (intro find_dso_hit) (simp_all add: in_range_def not_le)
  have "r \<in> set (concat (map ranges dsos))" "lr_start r < lr_end r" using assms by (auto intro: nth_mem)
  then show "syms__find_dso dsos (lr_start r) = Some None"
    using assms(1) start_in_no_other[of "concat (map ranges dsos)" r]
    by (intro find_dso_miss) (auto simp: proper_mappings_def list_all_iff)
qed

definition demo_dso :: dso where
  "demo_dso = (new_dso (ascii ''/lib/libc.so''))\<lparr>ranges := [\<lparr>lr_start = 0x7000, lr_end = 0x9000, lr_file_off = 0x1000\<rparr>],
     dso_type := DYN, dso_sh_addr := 0x2000, dso_sh_offset := 0x1000\<rparr>"

theorem mapping_lookup_witness:
  "syms__find_dso [demo_dso] 0x7010 = Some (Some (0, 0x2010)) \<and> syms__find_dso [demo_dso] 0x7000 = Some None"
proof -
  have "proper_mappings [demo_dso]" by (simp add: proper_mappings_def demo_dso_def new_dso_def)
  from mapping_lookup[OF this, of 0 "\<lparr>lr_start = 0x7000, lr_end = 0x9000, lr_file_off = 0x1000\<rparr>" "0x7010"]
  show ?thesis by (simp add: demo_dso_def dso_file_offset_def)
qed

section \<open>Lines of a maps file\<close>

record process_line =
  pl_from :: path
  pl_to :: path
  pl_perm :: path
  pl_off :: path
  pl_major :: path
  pl_minor :: path
  pl_inode :: path
  pl_rest :: path

definition process_text :: "process_line \<Rightarrow> byte list" where
  "process_text l = pl_from l @ [45] @ pl_to l @ [32] @ pl_perm l @ [32] @ pl_off l @ [32] @ pl_major l @ [58]
     @ pl_minor l @ [32] @ pl_inode l @ pl_rest l"

definition process_good :: "process_line \<Rightarrow> bool" where
  "process_good l \<longleftrightarrow> list_all (\<lambda>h. h \<noteq> [] \<and> list_all is_hex h) [pl_from l, pl_to l, pl_off l, pl_major l, pl_minor l]
     \<and> is_word (pl_perm l) \<and> length (pl_perm l) = 4 \<and> pl_inode l \<noteq> [] \<and> list_all is_digit (pl_inode l)
     \<and> pl_rest l \<noteq> [] \<and> hd (pl_rest l) = 32 \<and> 10 \<notin> set (pl_rest l) \<and> 0 \<notin> set (pl_rest l)
     \<and> length (pl_rest l) < PATH_MAX"

definition process_file :: "process_line list \<Rightarrow> byte list" where
  "process_file ls = concat (map (\<lambda>l. process_text l @ [10]) ls)"

definition hex_u64 :: "path \<Rightarrow> u64" where
  "hex_u64 h = clamp_unsigned False (hex_number h)"

definition line_mapping :: "process_line \<Rightarrow> map_entry \<times> path" where
  "line_mapping l = (\<lparr>start_addr = hex_u64 (pl_from l), end_addr = hex_u64 (pl_to l), file_off = hex_u64 (pl_off l)\<rparr>,
     dropWhile is_space (pl_rest l))"

text \<open>The mappings that are kept: executable ones of files.\<close>

definition kept_line :: "process_line \<Rightarrow> bool" where
  "kept_line l \<longleftrightarrow> pl_perm l ! 2 = 120 \<and> is_file_backed (snd (line_mapping l))"

lemma scan_perm:
  assumes "is_word w" "length w = 4"
  shows "scan_token (Some 4) (w @ 32 # s) = Converted (Text w) (32 # s)"
proof -
  have "takeWhile (\<lambda>b. \<not> is_space b) (w @ 32 # s) = w"
    using assms(1) by (auto simp: is_word_def list_all_iff)
  moreover have "w \<noteq> []" "take 4 w = w" using assms(2) by auto
  ultimately show ?thesis using word_starts[OF assms(1), of "32 # s"] assms(2) by (simp add: scan_token_def Let_def)
qed

lemma scan_process_line:
  assumes "process_good l"
  shows "fscanf process_format (process_text l @ 10 # after)
    = (8, [Number (hex_u64 (pl_from l)), Number (hex_u64 (pl_to l)), Text (pl_perm l), Number (hex_u64 (pl_off l)),
           Number (hex_u64 (pl_major l)), Number (hex_u64 (pl_minor l)),
           Number (clamp_unsigned False (nat (number_val (pl_inode l)))), Text (pl_rest l)], 10 # after)"
proof -
  have g: "pl_from l \<noteq> []" "list_all is_hex (pl_from l)" "pl_to l \<noteq> []" "list_all is_hex (pl_to l)"
    "pl_off l \<noteq> []" "list_all is_hex (pl_off l)" "pl_major l \<noteq> []" "list_all is_hex (pl_major l)"
    "pl_minor l \<noteq> []" "list_all is_hex (pl_minor l)" "is_word (pl_perm l)" "length (pl_perm l) = 4"
    "pl_inode l \<noteq> []" "list_all is_digit (pl_inode l)"
    using assms by (simp_all add: process_good_def)
  obtain r where r: "pl_rest l = 32 # r" "10 \<notin> set r"
    using assms by (cases "pl_rest l") (auto simp: process_good_def)
  have "takeWhile (\<lambda>b. b \<noteq> 10) (r @ 10 # after) = r" "dropWhile (\<lambda>b. b \<noteq> 10) (r @ 10 # after) = 10 # after"
    using r(2) by (subst takeWhile_append2 dropWhile_append2; auto)+
  moreover note scans = scan_hex_then[OF g(1,2) not_hex(2), simplified] scan_hex[OF g(3,4)] scan_hex[OF g(5,6)]
    scan_hex_then[OF g(7,8) not_hex(3), simplified] scan_hex[OF g(9,10)] scan_perm[OF g(11,12)] scan_inode[OF g(13,14)]
    word_starts[OF g(11)] hex_starts[OF g(3,4)] hex_starts[OF g(5,6)] hex_starts[OF g(7,8)] hex_starts[OF g(9,10)]
    inode_starts[OF g(13,14)]
  ultimately show ?thesis
    by (simp add: fscanf_def process_format_def process_text_def r(1) hex_u64_def)
qed

section \<open>The code of the kernel\<close>

lemma scan_vdso_line:
  assumes "process_good l"
  shows "fscanf vdso_format (process_text l @ 10 # after)
    = (3, [Number (hex_u64 (pl_from l)), Number (hex_u64 (pl_to l)), Text (pl_rest l)], 10 # after)"
proof -
  have g: "pl_from l \<noteq> []" "list_all is_hex (pl_from l)" "pl_to l \<noteq> []" "list_all is_hex (pl_to l)"
    "pl_off l \<noteq> []" "list_all is_hex (pl_off l)" "pl_major l \<noteq> []" "list_all is_hex (pl_major l)"
    "pl_minor l \<noteq> []" "list_all is_hex (pl_minor l)" "is_word (pl_perm l)"
    "pl_inode l \<noteq> []" "list_all is_digit (pl_inode l)"
    using assms by (simp_all add: process_good_def)
  obtain r where r: "pl_rest l = 32 # r" "10 \<notin> set r"
    using assms by (cases "pl_rest l") (auto simp: process_good_def)
  have "takeWhile (\<lambda>b. b \<noteq> 10) (r @ 10 # after) = r" "dropWhile (\<lambda>b. b \<noteq> 10) (r @ 10 # after) = 10 # after"
    using r(2) by (subst takeWhile_append2 dropWhile_append2; auto)+
  moreover note scans = scan_hex_then[OF g(1,2) not_hex(2), simplified] scan_hex[OF g(3,4)] scan_hex[OF g(5,6)]
    scan_hex_then[OF g(7,8) not_hex(3), simplified] scan_hex[OF g(9,10)] scan_inode[OF g(12,13)]
    word_starts[OF g(11)] hex_starts[OF g(3,4)] hex_starts[OF g(5,6)] hex_starts[OF g(7,8)] hex_starts[OF g(9,10)]
    inode_starts[OF g(12,13)]
  moreover have "scan_token None (pl_perm l @ 32 # s) = Converted (Text (pl_perm l)) (32 # s)" for s
    by (rule scan_word[OF g(11)]) simp
  ultimately show ?thesis
    by (simp add: fscanf_def vdso_format_def process_text_def r(1) hex_u64_def)
qed

lemma find_vdso_skips: "find_vdso (10 # s) addrs = find_vdso s addrs"
proof -
  have "fscanf vdso_format (dropWhile is_space s) = fscanf vdso_format s" for s
    by (simp add: fscanf_def vdso_format_def scan_number_skips)
  from this[of "10 # s"] this[of s] have "fscanf vdso_format (10 # s) = fscanf vdso_format s" by simp
  then show ?thesis by (simp add: find_vdso.simps[of s] find_vdso.simps[of "10 # s"])
qed

text \<open>The mapping of the kernel's code is found; without one, the last mapping is taken for it.\<close>

definition addresses :: "process_line \<Rightarrow> u64 \<times> u64" where
  "addresses l = (hex_u64 (pl_from l), hex_u64 (pl_to l))"

definition vdso_line :: "process_line \<Rightarrow> bool" where
  "vdso_line l \<longleftrightarrow> dropWhile is_space (pl_rest l) = ascii ''[vdso]''"

lemma find_vdso_lines:
  assumes "list_all process_good ls"
  shows "find_vdso (process_file ls) addrs = Some (True,
    case find vdso_line ls of Some l \<Rightarrow> Some (addresses l) | None \<Rightarrow> if ls = [] then addrs else Some (addresses (last ls)))"
  using assms
proof (induction ls arbitrary: addrs)
  case Nil
  have "fscanf vdso_format [] = (EOF, [], [])" by (simp add: fscanf_def vdso_format_def scan_Nil out_of_input_def)
  then show ?case by (subst find_vdso.simps) (simp add: process_file_def fits_def)
next
  case (Cons l ls)
  have rest: "text_of (Text (pl_rest l)) = pl_rest l" "length (pl_rest l) < PATH_MAX"
    using Cons.prems by (auto simp: process_good_def)
  have vdso: "is_vdso n \<longleftrightarrow> n = ascii ''[vdso]''" "is_file_backed (ascii ''[vdso]'')" for n
    by (simp_all add: is_vdso_def is_file_backed_def starts_with_string_def ascii_def)
  have "find_vdso (process_text l @ 10 # process_file ls) addrs
      = (if vdso_line l then Some (True, Some (addresses l)) else find_vdso (process_file ls) (Some (addresses l)))"
    using Cons.prems vdso(2)
    by (subst find_vdso.simps)
      (auto simp: scan_vdso_line fits_def EOF_def Let_def rest vdso(1) find_vdso_skips vdso_line_def addresses_def
        simp del: text_of.simps)
  with Cons show ?case by (cases "ls = []") (auto simp: process_file_def split: option.splits)
qed

section \<open>The files of a process\<close>

definition range_of :: "map_entry \<Rightarrow> load_range" where
  "range_of m = \<lparr>lr_start = start_addr m, lr_end = end_addr m, lr_file_off = file_off m\<rparr>"

definition names_in_order :: "path list \<Rightarrow> path list" where
  "names_in_order ns = rev (remdups (rev ns))"

text \<open>One file per name, in the order in which the names appear, each with its mappings in order.\<close>

definition grouped :: "(map_entry \<times> path) list \<Rightarrow> dso list \<Rightarrow> bool" where
  "grouped ms dsos \<longleftrightarrow> map dso_name dsos = names_in_order (map snd ms)
     \<and> (\<forall>d \<in> set dsos. ranges d = [range_of m. (m, n) \<leftarrow> ms, n = dso_name d]
          \<and> \<not> dso_freed d \<and> dso_syms d = None \<and> dso_cap d = 0)"

text \<open>Memory suffices, descriptors are new ones, and every shared object has a text section.\<close>

definition env_good :: "Sym_Env \<Rightarrow> Handles \<Rightarrow> bool" where
  "env_good env hs \<longleftrightarrow> (\<forall>n. alloc_ok env n) \<and> fresh_fds (elf_lib env) hs
     \<and> (\<forall>p. fst (get_elf_type (elf_lib env) p hs) = int ET_DYN \<longrightarrow> fst (get_elf_text_scn_info (elf_lib env) p hs) \<noteq> None)"

lemma names_snoc: "names_in_order (ns @ [n]) = (if n \<in> set ns then names_in_order ns else names_in_order ns @ [n])"
  by (auto simp: names_in_order_def)

lemma index_of_dso_less: "index_of_dso n dsos < length dsos \<longleftrightarrow> n \<in> set (map dso_name dsos)"
  by (induction dsos) auto

lemma index_of_dso_name: "index_of_dso n dsos < length dsos \<Longrightarrow> dso_name (dsos ! index_of_dso n dsos) = n"
  by (induction dsos) auto

lemma index_of_dso_le: "index_of_dso n dsos \<le> length dsos"
  by (induction dsos) auto

lemma set_dso_type_good:
  assumes "env_good env hs"
  obtains d' where "set_dso_type env n d hs = (True, d', hs)"
    "dso_name d' = dso_name d" "ranges d' = ranges d" "dso_freed d' = dso_freed d" "dso_syms d' = dso_syms d" "dso_cap d' = dso_cap d"
proof -
  obtain ty where ty: "get_elf_type (elf_lib env) n hs = (ty, hs)"
    using elf_queries_handles(2)[of "elf_lib env" hs n] assms by (metis env_good_def prod.collapse)
  obtain r where r: "get_elf_text_scn_info (elf_lib env) n hs = (r, hs)"
    using elf_queries_handles(3)[of "elf_lib env" hs n] assms by (metis env_good_def prod.collapse)
  have "ty = int ET_DYN \<longrightarrow> r \<noteq> None" using assms ty r by (metis env_good_def fst_conv)
  then have "\<exists>d'. set_dso_type env n d hs = (True, d', hs) \<and> dso_name d' = dso_name d \<and> ranges d' = ranges d
      \<and> dso_freed d' = dso_freed d \<and> dso_syms d' = dso_syms d \<and> dso_cap d' = dso_cap d"
    by (auto simp: set_dso_type_def ty r Let_def ET_EXEC_def ET_DYN_def)
  with that show thesis by blast
qed

lemma add_dso_grouped:
  assumes "grouped ms dsos" "env_good env hs"
  obtains dsos' where "syms__add_dso env m n dsos hs = (True, dsos', hs)" "grouped (ms @ [(m, n)]) dsos'"
proof -
  have al: "alloc_ok env k" for k using assms(2) by (simp add: env_good_def)
  define i where "i = index_of_dso n dsos"
  define dsos1 where "dsos1 = (if i = length dsos then dsos @ [new_dso n] else dsos)"
  define d where "d = dsos1 ! i"
  have i: "i < length dsos1" "dso_name d = n"
    using index_of_dso_le[of n dsos] index_of_dso_name[of n dsos] by (auto simp: dsos1_def i_def d_def new_dso_def nth_append)
  obtain d2 where d2: "set_dso_type env n (d\<lparr>ranges := ranges d @ [range_of m]\<rparr>) hs = (True, d2, hs)"
    "dso_name d2 = n" "ranges d2 = ranges d @ [range_of m]" "dso_freed d2 = dso_freed d" "dso_syms d2 = dso_syms d" "dso_cap d2 = dso_cap d"
    using set_dso_type_good[OF assms(2), of n "d\<lparr>ranges := ranges d @ [range_of m]\<rparr>"] i(2) by auto
  have add: "syms__add_dso env m n dsos hs = (True, dsos1[i := d2], hs)"
    using d2(1) al by (simp add: syms__add_dso_def Let_def i_def[symmetric] dsos1_def[symmetric] d_def[symmetric] range_of_def)
  have new: "i = length dsos \<longleftrightarrow> n \<notin> set (map snd ms)"
  proof -
    have "set (map dso_name dsos) = set (map snd ms)" using assms(1) by (simp add: grouped_def names_in_order_def)
    with index_of_dso_less[of n dsos] index_of_dso_le[of n dsos] show ?thesis unfolding i_def by force
  qed
  have names: "map dso_name dsos1 = names_in_order (map snd (ms @ [(m, n)]))"
    using assms(1) new by (auto simp: dsos1_def names_snoc grouped_def new_dso_def)
  have "map dso_name (dsos1[i := d2]) = map dso_name dsos1"
    using i d2(2) by (simp add: map_update d_def) (metis list_update_id nth_map)
  moreover have "distinct (map dso_name dsos1)" using names by (simp add: names_in_order_def)
  then have other: "dso_name (dsos1 ! j) \<noteq> n" if "j < length dsos1" "j \<noteq> i" for j
    using i that by (metis d_def distinct_conv_nth length_map nth_map)
  have old: "ranges x = [range_of m. (m, k) \<leftarrow> ms, k = dso_name x] \<and> \<not> dso_freed x \<and> dso_syms x = None \<and> dso_cap x = 0"
    if "x \<in> set dsos1" for x
  proof (cases "x \<in> set dsos")
    case False
    then have "x = new_dso n" "n \<notin> set (map snd ms)" using that new by (auto simp: dsos1_def split: if_splits)
    then show ?thesis by (force simp: new_dso_def)
  qed (use assms(1) in \<open>simp add: grouped_def\<close>)
  have "ranges x = [range_of q. (q, k) \<leftarrow> ms @ [(m, n)], k = dso_name x] \<and> \<not> dso_freed x \<and> dso_syms x = None \<and> dso_cap x = 0"
    if x: "x \<in> set (dsos1[i := d2])" for x
  proof -
    obtain j where j: "j < length dsos1" "x = (if j = i then d2 else dsos1 ! j)"
      using x by (auto simp: in_set_conv_nth nth_list_update split: if_splits)
    show ?thesis
    proof (cases "j = i")
      case True
      with j old[of d] d2 i show ?thesis by (simp add: d_def)
    next
      case False
      with j old[of "dsos1 ! j"] other[of j] show ?thesis by simp
    qed
  qed
  ultimately have "grouped (ms @ [(m, n)]) (dsos1[i := d2])" using names by (simp add: grouped_def)
  with add that show thesis by blast
qed

lemma load_maps_skips: "load_maps env (dropWhile is_space s) dsos hs = load_maps env s dsos hs"
proof -
  have "fscanf process_format (dropWhile is_space s) = fscanf process_format s"
    by (simp add: fscanf_def process_format_def scan_number_skips)
  then show ?thesis by (simp add: load_maps.simps[of _ s] load_maps.simps[of _ "dropWhile is_space s"])
qed

lemma load_maps_line:
  assumes "process_good l"
  shows "load_maps env (process_text l @ 10 # s) dsos hs
    = (if kept_line l
       then (case syms__add_dso env (fst (line_mapping l)) (snd (line_mapping l)) dsos hs of
               (ok, dsos1, hs1) \<Rightarrow> if \<not> ok then Some (False, dsos1, hs1) else load_maps env s dsos1 hs1)
       else load_maps env s dsos hs)"
proof -
  have perm: "text_of (Text (pl_perm l)) = pl_perm l" "length (pl_perm l) = 4"
    using assms text_of_word[of "pl_perm l"] by (simp_all add: process_good_def)
  have rest: "text_of (Text (pl_rest l)) = pl_rest l" "length (pl_rest l) < PATH_MAX"
    using assms by (auto simp: process_good_def)
  have nl: "load_maps env (10 # s) ds h = load_maps env s ds h" for ds h
    using load_maps_skips[of env "10 # s" ds h] load_maps_skips[of env s ds h] by simp
  show ?thesis
    by (subst load_maps.simps)
      (simp add: scan_process_line[OF assms] fits_def EOF_def Let_def perm rest nl kept_line_def line_mapping_def
        del: text_of.simps split: prod.splits)
qed

text \<open>
  C36: from the maps file of a process, when memory suffices and every shared object has a text
  section, exactly the executable mappings of files are kept: one entry per file, in the order in
  which the files first appear, each with its own mappings in the order of the file. No descriptor is
  left open.
\<close>

theorem process_mappings_loaded:
  assumes "list_all process_good ls" "env_good env hs"
  shows "\<exists>dsos. syms__load_file env (Some (process_file ls)) hs = Some (Some dsos, hs)
    \<and> grouped (map line_mapping (filter kept_line ls)) dsos"
proof -
  have "\<exists>dsos'. load_maps env (process_file ls) dsos hs = Some (True, dsos', hs)
      \<and> grouped (ms @ map line_mapping (filter kept_line ls)) dsos'" if "grouped ms dsos" for ms dsos
    using assms(1) that
  proof (induction ls arbitrary: ms dsos)
    case Nil
    have "fscanf process_format [] = (EOF, [], [])"
      by (simp add: fscanf_def process_format_def scan_Nil out_of_input_def)
    then show ?case using Nil by (subst load_maps.simps) (simp add: process_file_def fits_def)
  next
    case (Cons l ls)
    have s: "process_file (l # ls) = process_text l @ 10 # process_file ls" by (simp add: process_file_def)
    show ?case
    proof (cases "kept_line l")
      case True
      obtain dsos1 where "syms__add_dso env (fst (line_mapping l)) (snd (line_mapping l)) dsos hs = (True, dsos1, hs)"
        "grouped (ms @ [line_mapping l]) dsos1"
        using add_dso_grouped[OF Cons.prems(2) assms(2), of "fst (line_mapping l)" "snd (line_mapping l)"] by auto
      with True Cons.IH[of "ms @ [line_mapping l]" dsos1] Cons.prems(1) show ?thesis
        by (simp add: s load_maps_line)
    next
      case False
      with Cons.IH[of ms dsos] Cons.prems show ?thesis by (simp add: s load_maps_line)
    qed
  qed
  from this[of "[]" "[]"] show ?thesis
    using assms(2) by (auto simp: syms__load_file_def env_good_def grouped_def names_in_order_def)
qed

definition demo_process :: "process_line list" where
  "demo_process =
     [\<lparr>pl_from = ascii ''7000'', pl_to = ascii ''9000'', pl_perm = ascii ''r-xp'', pl_off = ascii ''1000'',
       pl_major = ascii ''08'', pl_minor = ascii ''01'', pl_inode = ascii ''42'', pl_rest = ascii '' /lib/libc.so''\<rparr>,
      \<lparr>pl_from = ascii ''a000'', pl_to = ascii ''b000'', pl_perm = ascii ''rw-p'', pl_off = ascii ''0'',
       pl_major = ascii ''00'', pl_minor = ascii ''00'', pl_inode = ascii ''0'', pl_rest = ascii '' ''\<rparr>]"

definition demo_lib :: Elf_Lib where
  "demo_lib = \<lparr>version_ok = True, open_ro = \<lambda>_. - 1, elf_begin = \<lambda>_. None\<rparr>"

definition demo_sym_env :: Sym_Env where
  "demo_sym_env = \<lparr>elf_lib = demo_lib, alloc_ok = \<lambda>_. True, btf_add_str_ok = \<lambda>_. True, own_maps = None, tmp_fd = - 1, tmp_write_ok = True, sort_syms = sort_by\<rparr>"

definition demo_handles :: Handles where
  "demo_handles = \<lparr>fds = {0, 1, 2}, elfs = 0\<rparr>"

lemma demo_sym_env_good: "env_good demo_sym_env demo_handles"
  by (simp add: env_good_def demo_sym_env_def demo_lib_def demo_handles_def fresh_fds_def get_elf_type_def open_elf_def
      Let_def ET_DYN_def)

theorem process_mappings_loaded_witness:
  "\<exists>dsos. syms__load_file demo_sym_env (Some (process_file demo_process)) demo_handles = Some (Some dsos, demo_handles)
    \<and> map dso_name dsos = [ascii ''/lib/libc.so'']"
proof -
  have "list_all process_good demo_process"
    by (simp add: demo_process_def process_good_def is_word_def is_hex_def is_digit_def is_space_def ascii_def
        SYM_SIZE_def PATH_MAX_def)
  moreover have "map snd (map line_mapping (filter kept_line demo_process)) = [ascii ''/lib/libc.so'']"
    by (simp add: demo_process_def kept_line_def line_mapping_def is_file_backed_def starts_with_string_def
        is_space_def ascii_def)
  ultimately show ?thesis
    using process_mappings_loaded[of demo_process, OF _ demo_sym_env_good] by (auto simp: grouped_def names_in_order_def)
qed

end
