(* ===== verification/Dso_Symbols.thy ===== *)
theory Dso_Symbols
  imports Process_Symbols_Properties
begin

text \<open>
  The symbols of one mapped file: what is loaded is every named, defined symbol of every symbol section,
  and a lookup finds the last one that starts at or below the offset. A broken symbol section leaves the
  file released but reachable.
\<close>

section \<open>The symbols of an ELF file\<close>

definition block_entry :: "Elf \<Rightarrow> nat \<Rightarrow> Elf_Data \<Rightarrow> nat \<Rightarrow> sym option" where
  "block_entry e stridx data i =
     (case gelf_getsym data i of
        None \<Rightarrow> None
      | Some s \<Rightarrow>
          (case e_strptr e stridx (st_name s) of
             None \<Rightarrow> None
           | Some name \<Rightarrow>
               if name = [] \<or> st_value s = 0 then None
               else Some \<lparr>sym_name = name, sym_start = st_value s, sym_size = st_size s, sym_offset = 0\<rparr>))"

definition section_entries :: "Elf \<Rightarrow> Shdr \<Rightarrow> Elf_Data list \<Rightarrow> sym list" where
  "section_entries e sh datas =
     concat (map (\<lambda>data. List.map_filter (block_entry e (sh_link sh) data) [0..<d_size data div sh_entsize sh]) datas)"

definition scn_entries :: "Elf \<Rightarrow> Scn \<Rightarrow> sym list" where
  "scn_entries e scn =
     (case scn_header scn of None \<Rightarrow> []
      | Some sh \<Rightarrow> if is_symbol_section sh then section_entries e sh (scn_data scn) else [])"

definition elf_entries :: "Elf \<Rightarrow> sym list" where
  "elf_entries e = concat (map (scn_entries e) (e_scns e))"

text \<open>Symbol sections hold whole symbols, of a size that is not zero.\<close>

definition whole_blocks :: "Shdr \<Rightarrow> Elf_Data list \<Rightarrow> bool" where
  "whole_blocks sh datas \<longleftrightarrow> sh_entsize sh \<noteq> 0 \<and> list_all (\<lambda>data. sh_entsize sh dvd d_size data) datas"

definition scn_good :: "Scn \<Rightarrow> bool" where
  "scn_good scn \<longleftrightarrow>
     (case scn_header scn of None \<Rightarrow> True
      | Some sh \<Rightarrow> is_symbol_section sh \<longrightarrow> scn_data scn = [] \<or> whole_blocks sh (scn_data scn))"

section \<open>Loading\<close>

text \<open>\<open>d\<close> with the symbols \<open>xs\<close>, in an array that has not run away from them.\<close>

definition holds_syms :: "dso \<Rightarrow> sym list \<Rightarrow> bool" where
  "holds_syms d xs \<longleftrightarrow> (case dso_syms d of None \<Rightarrow> [] | Some ys \<Rightarrow> ys) = xs
     \<and> length xs \<le> dso_cap d \<and> dso_cap d \<le> 1024 + 2 * length xs"

definition same_file :: "dso \<Rightarrow> dso \<Rightarrow> bool" where
  "same_file d d' \<longleftrightarrow> d' = d\<lparr>dso_syms := dso_syms d', dso_cap := dso_cap d'\<rparr>"

lemma same_file_refl: "same_file d d" and same_file_trans: "same_file a b \<Longrightarrow> same_file b c \<Longrightarrow> same_file a c"
  by (cases a; cases b; cases c; simp add: same_file_def)+

definition memory_ok :: "Sym_Env \<Rightarrow> bool" where
  "memory_ok env \<longleftrightarrow> (\<forall>n. alloc_ok env n) \<and> (\<forall>s. btf_add_str_ok env s)"

lemma add_sym_ok:
  assumes "memory_ok env" "holds_syms d xs" "length xs < 2 ^ 27"
  obtains d' where "dso__add_sym env name start sz d = Some (True, d')" "same_file d d'"
    "holds_syms d' (xs @ [\<lparr>sym_name = name, sym_start = start, sym_size = sz, sym_offset = 0\<rparr>])"
proof -
  have "dso_cap d * 4 \<le> INT_MAX" using assms(2,3) by (simp add: holds_syms_def INT_MAX_def)
  then have "\<exists>d'. dso__add_sym env name start sz d = Some (True, d') \<and> same_file d d'
      \<and> holds_syms d' (xs @ [\<lparr>sym_name = name, sym_start = start, sym_size = sz, sym_offset = 0\<rparr>])"
    using assms by (auto simp: dso__add_sym_def memory_ok_def holds_syms_def same_file_def Let_def INT_MAX_def)
  with that show thesis by blast
qed

lemma add_block_ok:
  assumes "memory_ok env" "holds_syms d xs" "length xs + length is \<le> 2 ^ 27"
  shows "\<exists>d'. add_block env e stridx data is d = Some (True, d') \<and> same_file d d'
    \<and> holds_syms d' (xs @ List.map_filter (block_entry e stridx data) is)"
  using assms(2,3)
proof (induction "is" arbitrary: d xs)
  case (Cons i "is")
  show ?case
  proof (cases "block_entry e stridx data i")
    case None
    then have "add_block env e stridx data (i # is) d = add_block env e stridx data is d"
      by (auto simp: block_entry_def split: option.splits if_splits)
    with None Cons show ?thesis by (simp add: List.map_filter_simps)
  next
    case (Some s)
    then obtain y name where y: "gelf_getsym data i = Some y" "e_strptr e stridx (st_name y) = Some name"
      "name \<noteq> []" "st_value y \<noteq> 0" "s = \<lparr>sym_name = name, sym_start = st_value y, sym_size = st_size y, sym_offset = 0\<rparr>"
      by (auto simp: block_entry_def split: option.splits if_splits)
    obtain d1 where d1: "dso__add_sym env name (st_value y) (st_size y) d = Some (True, d1)" "same_file d d1"
      "holds_syms d1 (xs @ [s])"
      using add_sym_ok[OF assms(1) Cons.prems(1), of name "st_value y" "st_size y"] Cons.prems(2) y(5) by auto
    obtain d2 where d2: "add_block env e stridx data is d1 = Some (True, d2)" "same_file d1 d2"
      "holds_syms d2 ((xs @ [s]) @ List.map_filter (block_entry e stridx data) is)"
      using Cons.IH[OF d1(3)] Cons.prems(2) by auto
    have "add_block env e stridx data (i # is) d = Some (True, d2)" using y d1(1) d2(1) by simp
    with Some d2(3) same_file_trans[OF d1(2) d2(2)] show ?thesis by (simp add: List.map_filter_simps)
  qed
qed (simp add: same_file_refl List.map_filter_simps)

lemma map_filter_length: "length (List.map_filter f xs) \<le> length xs"
  by (induction xs) (auto simp: List.map_filter_simps split: option.splits)

text \<open>How many symbols a file can have, for the bound of \<open>int\<close> on the size of the array.\<close>

definition slots_of :: "Shdr \<Rightarrow> Elf_Data list \<Rightarrow> nat" where
  "slots_of sh datas = sum_list (map (\<lambda>data. d_size data div sh_entsize sh) datas)"

definition scn_slots :: "Scn \<Rightarrow> nat" where
  "scn_slots scn = (case scn_header scn of None \<Rightarrow> 0
     | Some sh \<Rightarrow> if is_symbol_section sh then slots_of sh (scn_data scn) else 0)"

lemma section_entries_length: "length (section_entries e sh datas) \<le> slots_of sh datas"
proof (induction datas)
  case (Cons data datas)
  have "length (List.map_filter (block_entry e (sh_link sh) data) [0..<d_size data div sh_entsize sh])
      \<le> d_size data div sh_entsize sh"
    using map_filter_length[of _ "[0..<d_size data div sh_entsize sh]"] by simp
  with Cons show ?case by (simp add: section_entries_def slots_of_def)
qed (simp add: section_entries_def)

lemma add_syms_ok:
  assumes "memory_ok env" "holds_syms d xs" "datas = [] \<or> whole_blocks sh datas" "length xs + slots_of sh datas \<le> 2 ^ 27"
  shows "\<exists>d'. dso__add_syms env e (sh_link sh) (sh_entsize sh) datas d = Some (True, d') \<and> same_file d d'
    \<and> holds_syms d' (xs @ section_entries e sh datas)"
  using assms(2-4)
proof (induction datas arbitrary: d xs)
  case (Cons data datas)
  let ?is = "[0..<d_size data div sh_entsize sh]"
  have w: "sh_entsize sh \<noteq> 0" "d_size data mod sh_entsize sh = 0" "datas = [] \<or> whole_blocks sh datas"
    using Cons.prems(2) by (auto simp: whole_blocks_def)
  have "length xs + length ?is \<le> 2 ^ 27" using Cons.prems(3) by (simp add: slots_of_def)
  from add_block_ok[OF assms(1) Cons.prems(1) this, of e "sh_link sh" data]
  obtain d1 where d1: "add_block env e (sh_link sh) data ?is d = Some (True, d1)" "same_file d d1"
    "holds_syms d1 (xs @ List.map_filter (block_entry e (sh_link sh) data) ?is)" by blast
  have "length (xs @ List.map_filter (block_entry e (sh_link sh) data) ?is) + slots_of sh datas \<le> 2 ^ 27"
    using Cons.prems(3) map_filter_length[of "block_entry e (sh_link sh) data" ?is] by (simp add: slots_of_def)
  from Cons.IH[OF d1(3) w(3) this] obtain d2 where d2: "dso__add_syms env e (sh_link sh) (sh_entsize sh) datas d1 = Some (True, d2)"
    "same_file d1 d2" "holds_syms d2 ((xs @ List.map_filter (block_entry e (sh_link sh) data) ?is) @ section_entries e sh datas)"
    by blast
  have "dso__add_syms env e (sh_link sh) (sh_entsize sh) (data # datas) d = Some (True, d2)"
    using w d1(1) d2(1) by simp
  with d2(3) same_file_trans[OF d1(2) d2(2)] show ?case by (simp add: section_entries_def)
qed (simp add: same_file_refl section_entries_def)

lemma add_sections_ok:
  assumes "memory_ok env" "holds_syms d xs" "list_all scn_good scns" "length xs + sum_list (map scn_slots scns) \<le> 2 ^ 27"
  shows "\<exists>d'. add_sections env e scns d = Some (True, d') \<and> same_file d d'
    \<and> holds_syms d' (xs @ concat (map (scn_entries e) scns))"
  using assms(2-4)
proof (induction scns arbitrary: d xs)
  case (Cons scn scns)
  show ?case
  proof (cases "\<exists>sh. scn_header scn = Some sh \<and> is_symbol_section sh")
    case False
    then have "add_sections env e (scn # scns) d = add_sections env e scns d" "scn_entries e scn = []" "scn_slots scn = 0"
      by (auto simp: scn_entries_def scn_slots_def split: option.splits)
    with Cons show ?thesis by simp
  next
    case True
    then obtain sh where sh: "scn_header scn = Some sh" "is_symbol_section sh" by blast
    have g: "scn_data scn = [] \<or> whole_blocks sh (scn_data scn)" using Cons.prems(2) sh by (simp add: scn_good_def)
    have b: "length xs + slots_of sh (scn_data scn) + sum_list (map scn_slots scns) \<le> 2 ^ 27"
      using Cons.prems(3) sh by (simp add: scn_slots_def[of scn])
    then have "length xs + slots_of sh (scn_data scn) \<le> 2 ^ 27" by linarith
    from add_syms_ok[OF assms(1) Cons.prems(1) g this, of e]
    obtain d1 where d1: "dso__add_syms env e (sh_link sh) (sh_entsize sh) (scn_data scn) d = Some (True, d1)" "same_file d d1"
      "holds_syms d1 (xs @ section_entries e sh (scn_data scn))" by blast
    have "length (xs @ section_entries e sh (scn_data scn)) + sum_list (map scn_slots scns) \<le> 2 ^ 27"
      using b section_entries_length[of e sh "scn_data scn"] by simp
    with Cons.IH[OF d1(3)] Cons.prems(2) obtain d2 where d2: "add_sections env e scns d1 = Some (True, d2)" "same_file d1 d2"
      "holds_syms d2 ((xs @ section_entries e sh (scn_data scn)) @ concat (map (scn_entries e) scns))" by auto
    have "add_sections env e (scn # scns) d = Some (True, d2)" using sh d1(1) d2(1) by simp
    moreover have "scn_entries e scn = section_entries e sh (scn_data scn)" using sh by (simp add: scn_entries_def)
    ultimately show ?thesis using d2(3) same_file_trans[OF d1(2) d2(2)] by simp
  qed
qed (simp add: same_file_refl)

section \<open>Looking up\<close>

interpretation sym_order: comparison sym_cmp
proof
  show "sym_cmp x y \<le> 0 \<or> sym_cmp y x \<le> 0" for x y
    using strcmp_swap[of "sym_name y" "sym_name x"] by (auto simp: sym_cmp_def)
  show "sym_cmp x z \<le> 0" if "sym_cmp x y \<le> 0" "sym_cmp y z \<le> 0" for x y z
    using that by (auto simp: sym_cmp_def dest: strcmp_trans split: if_splits)
qed

lemma sorted_by_sym_cmp: "sorted_wrt (\<lambda>x y. sym_cmp x y \<le> 0) xs \<Longrightarrow> sorted (map sym_start xs)"
  by (induction xs) (auto simp: sym_cmp_def split: if_splits)

lemma search_syms_correct:
  assumes "sorted (map sym_start xs)"
  shows "\<exists>ys. search_syms xs offset = Some (let low = filter (\<lambda>s. sym_start s \<le> offset) xs; s = last low in
    if low \<noteq> [] \<and> offset < sym_start s + sym_size s then (Some (s\<lparr>sym_offset := offset - sym_start s\<rparr>), ys) else (None, xs))"
proof (cases "xs = []")
  case False
  then obtain m where "m < length xs"
    "last_below (map sym_start xs) offset 0 (int (length xs) - 1) = Some (int m, int m)"
    "filter (\<lambda>s. sym_start s \<le> offset) xs = [] \<longleftrightarrow> \<not> sym_start (xs ! m) \<le> offset"
    "sym_start (xs ! m) \<le> offset \<Longrightarrow> last (filter (\<lambda>s. sym_start s \<le> offset) xs) = xs ! m"
    using last_below_filter[OF assms, of offset] by blast
  then show ?thesis by (auto simp: search_syms_def Let_def)
qed (simp add: search_syms_def last_below.simps)

definition fresh_file :: "dso \<Rightarrow> bool" where
  "fresh_file d \<longleftrightarrow> (dso_type d = EXEC \<or> dso_type d = DYN) \<and> dso_syms d = None \<and> dso_cap d = 0 \<and> \<not> dso_freed d"

definition sorts_syms :: "Sym_Env \<Rightarrow> bool" where
  "sorts_syms env \<longleftrightarrow> (\<forall>xs. qsort_result sym_cmp xs (sort_syms env sym_cmp xs))"

lemma load_sym_table_ok:
  assumes "fresh_file d" "memory_ok env" "sorts_syms env" "fresh_fds (elf_lib env) hs"
    and "open_elf (elf_lib env) (dso_name d) hs = (Some (e, fd), hs1)"
    and "list_all scn_good (e_scns e)" "sum_list (map scn_slots (e_scns e)) \<le> 2 ^ 27"
  obtains d' where "dso__load_sym_table env d hs = Some (True, d', hs)" "\<not> dso_freed d'"
    "mset (case dso_syms d' of None \<Rightarrow> [] | Some xs \<Rightarrow> xs) = mset (elf_entries e)"
    "sorted (map sym_start (case dso_syms d' of None \<Rightarrow> [] | Some xs \<Rightarrow> xs))"
proof -
  have h: "holds_syms d []" using assms(1) by (simp add: fresh_file_def holds_syms_def)
  obtain d1 where d1: "add_sections env e (e_scns e) d = Some (True, d1)" "same_file d d1" "holds_syms d1 (elf_entries e)"
    using add_sections_ok[OF assms(2) h assms(6), of e] assms(7) by (auto simp: elf_entries_def)
  have c: "close_elf fd hs1 = hs"
    using open_elf_handles[of "elf_lib env" "dso_name d" hs] close_elf_handles[of fd hs] assms(4,5)
    by (auto simp: fresh_fds_def)
  define d' where "d' = sort_dso env d1"
  have "dso__load_sym_table env d hs = dso__load_sym_table_from_elf env d 0 hs"
    using assms(1) by (auto simp: fresh_file_def dso__load_sym_table_def)
  also have "\<dots> = Some (True, d', hs)"
    using assms(5) d1(1) c by (simp add: dso__load_sym_table_from_elf_def d'_def)
  finally have "dso__load_sym_table env d hs = Some (True, d', hs)" .
  moreover have "dso_freed d1 = dso_freed d" by (subst d1(2)[unfolded same_file_def]) simp
  then have "\<not> dso_freed d'" using assms(1) by (simp add: d'_def sort_dso_def fresh_file_def)
  moreover have "qsort_result sym_cmp xs (sort_syms env sym_cmp xs)" for xs
    using assms(3) by (simp add: sorts_syms_def)
  then have "mset (case dso_syms d' of None \<Rightarrow> [] | Some xs \<Rightarrow> xs) = mset (elf_entries e)
      \<and> sorted (map sym_start (case dso_syms d' of None \<Rightarrow> [] | Some xs \<Rightarrow> xs))"
    using d1(3) by (auto simp: d'_def sort_dso_def holds_syms_def qsort_result_def sorted_by_sym_cmp split: option.splits)
  ultimately show thesis using that by blast
qed

lemma in_map_filter: "y \<in> set (List.map_filter f xs) \<Longrightarrow> \<exists>x. f x = Some y"
  by (auto simp: List.map_filter_def)

lemma elf_entry_offset:
  assumes "x \<in> set (elf_entries e)"
  shows "x\<lparr>sym_offset := 0\<rparr> = x"
proof -
  obtain sh :: Shdr and data i where "block_entry e (sh_link sh) data i = Some x"
    using assms by (auto simp: elf_entries_def scn_entries_def section_entries_def dest!: in_map_filter
        split: option.splits if_splits)
  then show ?thesis by (auto simp: block_entry_def split: option.splits if_splits)
qed

text \<open>
  C38: the first lookup in a file loads its symbols, leaves no descriptor open, and answers from all
  named, defined symbols of its symbol sections: the answer starts at or below the offset, reaches
  it, carries the distance to its start, and no symbol starts between it and the offset; there is no
  answer only if no symbol starts at or below the offset, or the last one that does ends before it.
\<close>

theorem file_symbol_found:
  assumes "fresh_file d" "memory_ok env" "sorts_syms env" "fresh_fds (elf_lib env) hs"
    and "open_elf (elf_lib env) (dso_name d) hs = (Some (e, fd), hs1)"
    and "list_all scn_good (e_scns e)" "sum_list (map scn_slots (e_scns e)) \<le> 2 ^ 27"
  shows "\<exists>r d'. dso__find_sym env d offset hs = Some (r, d', hs)
    \<and> (case r of
         Some s \<Rightarrow> s\<lparr>sym_offset := 0\<rparr> \<in> set (elf_entries e) \<and> sym_start s \<le> offset \<and> offset < sym_start s + sym_size s
           \<and> sym_offset s = offset - sym_start s
           \<and> (\<forall>t \<in> set (elf_entries e). sym_start t \<le> offset \<longrightarrow> sym_start t \<le> sym_start s)
       | None \<Rightarrow> (\<forall>t \<in> set (elf_entries e). sym_start t \<le> offset \<longrightarrow>
           (\<exists>u \<in> set (elf_entries e). sym_start t \<le> sym_start u \<and> sym_start u \<le> offset \<and> \<not> offset < sym_start u + sym_size u)))"
proof -
  obtain d1 where d1: "dso__load_sym_table env d hs = Some (True, d1, hs)" "\<not> dso_freed d1"
    and m: "mset (case dso_syms d1 of None \<Rightarrow> [] | Some xs \<Rightarrow> xs) = mset (elf_entries e)"
    and s: "sorted (map sym_start (case dso_syms d1 of None \<Rightarrow> [] | Some xs \<Rightarrow> xs))"
    using load_sym_table_ok[OF assms] by blast
  define xs where "xs = (case dso_syms d1 of None \<Rightarrow> [] | Some xs \<Rightarrow> xs)"
  define low where "low = filter (\<lambda>s. sym_start s \<le> offset) xs"
  have set: "set xs = set (elf_entries e)" using m by (metis mset_eq_setD xs_def)
  have great: "sym_start t \<le> sym_start (last low)" if "t \<in> set xs" "sym_start t \<le> offset" for t
    using last_greatest[of sym_start xs "\<lambda>s. sym_start s \<le> offset" t] s that by (simp add: low_def xs_def)
  have last: "last low \<in> set xs" "sym_start (last low) \<le> offset" if "low \<noteq> []"
    using last_in_set[OF that] by (simp_all add: low_def)
  obtain ys where ys: "search_syms xs offset = Some (if low \<noteq> [] \<and> offset < sym_start (last low) + sym_size (last low)
      then (Some ((last low)\<lparr>sym_offset := offset - sym_start (last low)\<rparr>), ys) else (None, xs))"
    using search_syms_correct[OF s[folded xs_def], of offset] unfolding low_def[symmetric] Let_def by blast
  have find: "dso__find_sym env d offset hs
      = Option.bind (search_syms xs offset) (\<lambda>(r, zs). Some (r, d1\<lparr>dso_syms := map_option (\<lambda>_. zs) (dso_syms d1)\<rparr>, hs))"
    using assms(1) d1(1) by (simp add: dso__find_sym_def fresh_file_def xs_def)
  show ?thesis
  proof (cases "low \<noteq> [] \<and> offset < sym_start (last low) + sym_size (last low)")
    case True
    then show ?thesis using last great elf_entry_offset[of "last low" e] set by (auto simp: find ys)
  next
    case False
    have "\<exists>u \<in> set xs. sym_start t \<le> sym_start u \<and> sym_start u \<le> offset \<and> \<not> offset < sym_start u + sym_size u"
      if "t \<in> set xs" "sym_start t \<le> offset" for t
    proof -
      have "low \<noteq> []" using that by (auto simp: low_def filter_empty_conv)
      with False last great[OF that] show ?thesis by blast
    qed
    then show ?thesis using False set by (auto simp: find ys)
  qed
qed

lemma sym_offset_only: "x\<lparr>sym_offset := n\<rparr> = s \<Longrightarrow> sym_name x = sym_name s \<and> sym_start x = sym_start s"
  by auto

definition tiny_elf :: Elf where
  "tiny_elf = \<lparr>kind_is_elf = True, e_type = Some ET_EXEC, e_shstrndx = Some 0,
     e_scns = [\<lparr>scn_header = Some \<lparr>sh_name = 0, sh_type = SHT_SYMTAB, sh_addr = 0, sh_offset = 0, sh_link = 1, sh_entsize = 24\<rparr>,
                scn_data = [\<lparr>d_size = 24, d_syms = [Some \<lparr>st_name = 1, st_type = STT_FUNC, st_value = 0x401000, st_size = 32\<rparr>]\<rparr>]\<rparr>],
     e_strptr = \<lambda>_ n. if n = 1 then Some (ascii ''main'') else None, e_phdrs = None\<rparr>"

definition elf_env :: "Elf \<Rightarrow> Sym_Env" where
  "elf_env e = demo_sym_env\<lparr>elf_lib := \<lparr>version_ok = True, open_ro = \<lambda>_. 3, elf_begin = \<lambda>_. Some e\<rparr>\<rparr>"

lemma sort_by_sorts_syms: "sorts_syms (elf_env e)"
  by (simp add: sorts_syms_def elf_env_def demo_sym_env_def sym_order.qsort_sort_by)

theorem file_symbol_found_witness:
  "\<exists>s d'. dso__find_sym (elf_env tiny_elf) (new_dso (ascii ''/bin/fio'')) 0x401010 demo_handles = Some (Some s, d', demo_handles)
    \<and> sym_name s = ascii ''main'' \<and> sym_offset s = 0x10"
proof -
  let ?s = "\<lparr>sym_name = ascii ''main'', sym_start = 0x401000, sym_size = 32, sym_offset = 0\<rparr>"
  have e: "elf_entries tiny_elf = [?s]"
    by (simp add: elf_entries_def tiny_elf_def scn_entries_def is_symbol_section_def section_entries_def block_entry_def
        gelf_getsym_def List.map_filter_def ascii_def)
  have "fresh_file (new_dso (ascii ''/bin/fio''))" by (simp add: fresh_file_def new_dso_def)
  moreover have "memory_ok (elf_env tiny_elf)" by (simp add: memory_ok_def elf_env_def demo_sym_env_def)
  moreover have "fresh_fds (elf_lib (elf_env tiny_elf)) demo_handles"
    by (simp add: fresh_fds_def elf_env_def demo_handles_def)
  moreover have "open_elf (elf_lib (elf_env tiny_elf)) (dso_name (new_dso (ascii ''/bin/fio''))) demo_handles
      = (Some (tiny_elf, 3), begin_elf (open_fd 3 demo_handles))"
    by (simp add: open_elf_def elf_env_def Let_def tiny_elf_def)
  moreover have "list_all scn_good (e_scns tiny_elf)" "sum_list (map scn_slots (e_scns tiny_elf)) \<le> 2 ^ 27"
    by (simp_all add: tiny_elf_def scn_good_def whole_blocks_def is_symbol_section_def scn_slots_def slots_of_def)
  ultimately show ?thesis
    using file_symbol_found[where d = "new_dso (ascii ''/bin/fio'')" and env = "elf_env tiny_elf" and hs = demo_handles
        and e = tiny_elf and fd = 3 and ?hs1.0 = "begin_elf (open_fd 3 demo_handles)" and offset = "0x401010"]
      sort_by_sorts_syms[of tiny_elf] e
    by (auto split: option.splits dest!: sym_offset_only)
qed

section \<open>A broken symbol section\<close>

text \<open>A section whose data is no whole number of symbols, as in a truncated file.\<close>

definition broken_elf :: Elf where
  "broken_elf = tiny_elf\<lparr>e_scns := [\<lparr>scn_header = Some \<lparr>sh_name = 0, sh_type = SHT_SYMTAB, sh_addr = 0, sh_offset = 0,
     sh_link = 1, sh_entsize = 24\<rparr>, scn_data = [\<lparr>d_size = 20, d_syms = []\<rparr>]\<rparr>]\<rparr>"

definition broken_dso :: dso where
  "broken_dso = (new_dso (ascii ''/bin/fio''))\<lparr>ranges := [\<lparr>lr_start = 0x400000, lr_end = 0x500000, lr_file_off = 0\<rparr>]\<rparr>"

text \<open>
  When the symbols of a file cannot be loaded because a section is truncated, its name and its
  mappings are released although it stays in the table of the process: the lookup fails properly, but
  the next one reads released memory, and releasing the table releases them a second time.
\<close>

lemma broken_symbols_released_twice:
  "\<exists>dsos. syms__map_addr (elf_env broken_elf) [broken_dso] 0x401010 demo_handles = Some (None, dsos, demo_handles)
    \<and> syms__map_addr (elf_env broken_elf) dsos 0x401010 demo_handles = None \<and> syms__free dsos = None"
proof -
  let ?d = "broken_dso\<lparr>dso_freed := True\<rparr>"
  have o: "open_elf (elf_lib (elf_env broken_elf)) (ascii ''/bin/fio'') demo_handles
      = (Some (broken_elf, 3), begin_elf (open_fd 3 demo_handles))"
    by (simp add: open_elf_def elf_env_def Let_def broken_elf_def tiny_elf_def)
  have c: "close_elf 3 (begin_elf (open_fd 3 demo_handles)) = demo_handles"
    by (auto simp: close_elf_def handle_defs demo_handles_def)
  have "add_sections (elf_env broken_elf) broken_elf (e_scns broken_elf) broken_dso = Some (False, broken_dso)"
    by (simp add: broken_elf_def is_symbol_section_def)
  then have "dso__load_sym_table (elf_env broken_elf) broken_dso demo_handles = Some (False, ?d, demo_handles)"
    using o c by (simp add: dso__load_sym_table_def dso__load_sym_table_from_elf_def broken_dso_def new_dso_def
        dso__free_fields_def)
  then have "dso__find_sym (elf_env broken_elf) broken_dso 0x401010 demo_handles = Some (None, ?d, demo_handles)"
    by (simp add: dso__find_sym_def broken_dso_def new_dso_def)
  moreover have "syms__find_dso [broken_dso] 0x401010 = Some (Some (0, 0x401010))" "syms__find_dso [?d] 0x401010 = None"
    by (simp_all add: broken_dso_def new_dso_def in_range_def dso_file_offset_def)
  ultimately show ?thesis
    by (intro exI[of _ "[?d]"]) (simp add: syms__map_addr_def syms__free_def dso__free_fields_def)
qed

section \<open>One table per process\<close>

text \<open>The maps file of a process is read at most once, whatever it says later.\<close>

lemma cached_syms:
  assumes "syms_cache__get_syms env open_file cache tgid hs = Some (ds, cache', hs')" "\<And>n. alloc_ok env n"
  shows "syms_cache__get_syms env' open_file' cache' tgid hs'' = Some (ds, cache', hs'')"
proof (cases "find (\<lambda>(_, t). t = tgid) cache")
  case None
  then have "\<forall>x \<in> set cache. snd x \<noteq> tgid" by (auto simp: find_None_iff)
  then have "find (\<lambda>(_, t). t = tgid) (cache @ [(ds, tgid)]) = Some (ds, tgid)"
    by (induction cache) auto
  moreover have "cache' = cache @ [(ds, tgid)]"
    using assms None by (auto simp: syms_cache__get_syms_def split: bind_splits)
  ultimately show ?thesis by (simp add: syms_cache__get_syms_def)
next
  case (Some p)
  then show ?thesis using assms(1) by (cases p) (auto simp: syms_cache__get_syms_def)
qed

end
