(* ===== verification/Partitions.thy ===== *)
theory Partitions
  imports Scan_Lines
begin

text \<open>
  The list of disk partitions of \<open>bpf_programs/cachestat/trace_helpers.c\<close>, read from \<open>/proc/partitions\<close>.
  A name that does not fit in its array of 32 bytes has no result.
\<close>

record partition_entry =
  part_name :: path
  part_dev :: u32

definition MINORBITS :: nat where
  "MINORBITS = 20"

definition MKDEV :: "u32 \<Rightarrow> u32 \<Rightarrow> u32" where
  "MKDEV ma mi = or (push_bit MINORBITS ma) mi"

definition DISK_NAME_LEN :: nat where
  "DISK_NAME_LEN = 32"

definition partitions__add_partition :: "(nat \<Rightarrow> bool) \<Rightarrow> path \<Rightarrow> u32 \<Rightarrow> partition_entry list \<Rightarrow> bool \<times> partition_entry list" where
  "partitions__add_partition alloc name dev ps =
     (if \<not> alloc (16 * (length ps + 1)) then (False, ps)
      else (True, ps @ [\<lparr>part_name = name, part_dev = dev\<rparr>]))"

text \<open>\<open>"%u %u %llu %s"\<close>; the first two are \<open>unsigned int\<close>.\<close>

definition partition_format :: "directive list" where
  "partition_format = [Store Decimal, White, Store Decimal, White, Store Decimal, White, Store (Token None)]"

definition BUF_SIZE :: nat where
  "BUF_SIZE = 64"

function partition_loop :: "(nat \<Rightarrow> bool) \<Rightarrow> byte list \<Rightarrow> partition_entry list \<Rightarrow> (bool \<times> partition_entry list) option" where
  "partition_loop alloc s ps =
     (case fgets BUF_SIZE s of
        None \<Rightarrow> Some (True, ps)
      | Some (buf, t) \<Rightarrow>
          if buf = [] \<or> hd buf \<noteq> 32 then partition_loop alloc t ps
          else (let (ret, vs) = sscanf partition_format buf in
            if \<not> fits [4, 4, 8, DISK_NAME_LEN] vs then None
            else if ret \<noteq> 4 then Some (False, ps)
            else (case partitions__add_partition alloc (text_of (vs ! 3))
                    (MKDEV (ucast (number_of_item (vs ! 0))) (ucast (number_of_item (vs ! 1)))) ps of
                    (ok, ps') \<Rightarrow> if \<not> ok then Some (False, ps') else partition_loop alloc t ps')))"
  by pat_completeness auto
termination
  by (relation "measure (\<lambda>(alloc, s, ps). length s)") (auto dest: fgets_shorter simp: BUF_SIZE_def)

declare partition_loop.simps [simp del]

text \<open>The inner \<open>None\<close> is the result \<open>NULL\<close>.\<close>

definition partitions__load :: "(nat \<Rightarrow> bool) \<Rightarrow> byte list option \<Rightarrow> partition_entry list option option" where
  "partitions__load alloc content =
     (case content of
        None \<Rightarrow> Some None
      | Some s \<Rightarrow>
          if \<not> alloc 16 then Some None
          else map_option (\<lambda>(ok, ps). if ok then Some ps else None) (partition_loop alloc s []))"

definition partitions__get_by_dev :: "partition_entry list \<Rightarrow> u32 \<Rightarrow> partition_entry option" where
  "partitions__get_by_dev ps dev = find (\<lambda>p. part_dev p = dev) ps"

definition partitions__get_by_name :: "partition_entry list \<Rightarrow> path \<Rightarrow> partition_entry option" where
  "partitions__get_by_name ps name = find (\<lambda>p. part_name p = name) ps"

section \<open>The file as the kernel prints it\<close>

text \<open>A line has a major and a minor number, a size, and a name, with blanks in front of each.\<close>

record partition_line =
  ptl_blanks :: "nat \<times> nat \<times> nat"
  ptl_major :: nat
  ptl_minor :: nat
  ptl_size :: nat
  ptl_name :: path

definition partition_text :: "partition_line \<Rightarrow> byte list" where
  "partition_text l = (case ptl_blanks l of (a, b, c) \<Rightarrow>
     replicate (Suc a) 32 @ digits (ptl_major l) @ replicate (Suc b) 32 @ digits (ptl_minor l)
     @ replicate (Suc c) 32 @ digits (ptl_size l) @ [32] @ ptl_name l)"

definition partition_good :: "partition_line \<Rightarrow> bool" where
  "partition_good l \<longleftrightarrow> ptl_major l < 2 ^ 12 \<and> ptl_minor l < 2 ^ 20 \<and> ptl_size l < 2 ^ 63
     \<and> is_word (ptl_name l) \<and> length (ptl_name l) < DISK_NAME_LEN \<and> length (partition_text l) < BUF_SIZE - 1"

definition heading :: "byte list" where
  "heading = ascii ''major minor  #blocks  name'' @ [10, 10]"

definition partition_file :: "partition_line list \<Rightarrow> byte list" where
  "partition_file ls = heading @ concat (map (\<lambda>l. partition_text l @ [10]) ls)"

definition line_partition :: "partition_line \<Rightarrow> partition_entry" where
  "line_partition l = \<lparr>part_name = ptl_name l, part_dev = MKDEV (of_nat (ptl_major l)) (of_nat (ptl_minor l))\<rparr>"

lemma scan_partition:
  assumes "partition_good l"
  shows "sscanf partition_format (partition_text l @ [10])
    = (4, [Number (of_nat (ptl_major l)), Number (of_nat (ptl_minor l)), Number (of_nat (ptl_size l)), Text (ptl_name l)])"
proof -
  obtain a b c where k: "ptl_blanks l = (a, b, c)" by (cases "ptl_blanks l") auto
  have bounds: "int (ptl_major l) \<le> LONG_MAX" "int (ptl_minor l) \<le> LONG_MAX" "int (ptl_size l) \<le> LONG_MAX"
    using assms by (simp_all add: partition_good_def LONG_MAX_def)
  have w: "is_word (ptl_name l)" using assms by (simp add: partition_good_def)
  have "b \<noteq> 0" if "b \<in> set (partition_text l @ [10])" for b
    using that w digits_are_digits[of "ptl_major l"] digits_are_digits[of "ptl_minor l"] digits_are_digits[of "ptl_size l"]
    by (auto simp: partition_text_def k is_word_def list_all_iff is_digit_def split: if_splits)
  then have "takeWhile (\<lambda>b. b \<noteq> 0) (partition_text l @ [10]) = partition_text l @ [10]"
    by (simp add: takeWhile_eq_all_conv)
  then have "sscanf partition_format (partition_text l @ [10])
      = (let (r, vs, t) = fscanf partition_format (partition_text l @ [10]) in (r, vs))"
    by (simp only: sscanf_def)
  moreover have sk: "scan_number False (32 # s) = scan_number False s" "scan_number False (replicate n 32 @ s) = scan_number False s"
    "scan_token None (32 # s) = scan_token None s" for s n
    by (simp_all add: scan_number_def scan_token_def dropWhile_blanks)
  ultimately show ?thesis
    using scan_digits[OF bounds(1), of 32 0] scan_digits[OF bounds(2), of 32 0] scan_digits[OF bounds(3), of 32 0]
      scan_word[OF w, of "[10]"]
    by (simp add: fscanf_def partition_format_def partition_text_def k scan_number_skips scan_token_skips)
qed

lemma ucast_small: "n < 2 ^ 32 \<Longrightarrow> (ucast (of_nat n :: u64) :: u32) = of_nat n"
  by (simp add: unsigned_of_nat take_bit_nat_eq_self)

lemma partition_loop_line:
  assumes "partition_good l"
  shows "partition_loop (\<lambda>_. True) (partition_text l @ 10 # s) ps = partition_loop (\<lambda>_. True) s (ps @ [line_partition l])"
proof -
  have w: "is_word (ptl_name l)" "length (ptl_name l) < DISK_NAME_LEN" "length (partition_text l) < BUF_SIZE - 1"
    using assms by (simp_all add: partition_good_def)
  have "b \<noteq> 10" if "b \<in> set (partition_text l)" for b
    using that w(1) digits_are_digits[of "ptl_major l"] digits_are_digits[of "ptl_minor l"] digits_are_digits[of "ptl_size l"]
    by (auto simp: partition_text_def is_word_def list_all_iff is_digit_def split: if_splits prod.splits)
  then have "10 \<notin> set (partition_text l)" by blast
  then have f: "fgets BUF_SIZE (partition_text l @ 10 # s) = Some (partition_text l @ [10], s)"
    using w(3) by (rule fgets_line)
  have n: "ptl_major l < 2 ^ 32" "ptl_minor l < 2 ^ 32" using assms by (simp_all add: partition_good_def)
  have h: "hd (partition_text l @ [10]) = 32" by (simp add: partition_text_def split: prod.splits)
  show ?thesis
    by (subst partition_loop.simps)
      (simp add: f h scan_partition[OF assms] fits_def w(2) text_of_word[OF w(1)] partitions__add_partition_def line_partition_def
        ucast_small[OF n(1)] ucast_small[OF n(2)]
        del: text_of.simps)
qed

lemma partition_loop_lines:
  "list_all partition_good ls \<Longrightarrow> partition_loop (\<lambda>_. True) (concat (map (\<lambda>l. partition_text l @ [10]) ls)) ps
    = Some (True, ps @ map line_partition ls)"
proof (induction ls arbitrary: ps)
  case Nil
  then show ?case by (subst partition_loop.simps) (simp add: fgets_def)
next
  case (Cons l ls)
  then show ?case by (simp add: partition_loop_line)
qed

lemma partition_loop_heading: "partition_loop (\<lambda>_. True) (heading @ s) ps = partition_loop (\<lambda>_. True) s ps"
proof -
  define h where "h = ascii ''major minor  #blocks  name''"
  have h: "h \<noteq> []" "hd h \<noteq> 32" "10 \<notin> set h" "length h < BUF_SIZE - 1" by (simp_all add: h_def ascii_def BUF_SIZE_def)
  have "fgets BUF_SIZE (h @ 10 # 10 # s) = Some (h @ [10], 10 # s)" using h(3,4) by (rule fgets_line)
  moreover have "fgets BUF_SIZE ([] @ 10 # s) = Some ([] @ [10], s)" by (rule fgets_line) (simp_all add: BUF_SIZE_def)
  ultimately show ?thesis
    using h(1,2) by (simp add: heading_def h_def[symmetric] partition_loop.simps[of _ "h @ 10 # 10 # s"]
        partition_loop.simps[of _ "10 # s"])
qed

lemma MKDEV_number:
  assumes "mi < 2 ^ 20"
  shows "MKDEV (of_nat ma) (of_nat mi) = of_nat (ma * 2 ^ 20 + mi)"
proof -
  have "take_bit 20 (of_nat mi :: u32) = of_nat mi" using assms by (simp add: take_bit_of_nat take_bit_nat_eq_self)
  then have "\<not> bit (of_nat mi :: u32) n" if "20 \<le> n" for n using that by (metis bit_take_bit_iff not_le)
  then have "and (push_bit 20 (of_nat ma)) (of_nat mi :: u32) = 0"
    by (auto simp: bit_eq_iff bit_and_iff bit_push_bit_iff)
  then have "MKDEV (of_nat ma) (of_nat mi) = push_bit 20 (of_nat ma) + of_nat mi"
    by (simp add: MKDEV_def MINORBITS_def disjunctive_add_eq_or)
  then show ?thesis by (simp add: push_bit_eq_mult mult.commute)
qed

lemma MKDEV_inj:
  assumes "ma < 2 ^ 12" "mi < 2 ^ 20" "ma' < 2 ^ 12" "mi' < 2 ^ 20"
  shows "MKDEV (of_nat ma) (of_nat mi) = MKDEV (of_nat ma') (of_nat mi') \<longleftrightarrow> ma = ma' \<and> mi = mi'"
proof -
  have "MKDEV (of_nat ma) (of_nat mi) = MKDEV (of_nat ma') (of_nat mi') \<longleftrightarrow> ma * 2 ^ 20 + mi = ma' * 2 ^ 20 + mi'"
    unfolding MKDEV_number[OF assms(2)] MKDEV_number[OF assms(4)] using assms
    by (subst word_of_nat_eq_iff) (simp add: take_bit_nat_eq_self)
  also have "\<dots> \<longleftrightarrow> ma = ma' \<and> mi = mi'" 
  proof
    assume eq: "ma * 2 ^ 20 + mi = ma' * 2 ^ 20 + mi'"
    have "(ma * 2 ^ 20 + mi) div 2 ^ 20 = ma" "(ma' * 2 ^ 20 + mi') div 2 ^ 20 = ma'"
      "(ma * 2 ^ 20 + mi) mod 2 ^ 20 = mi" "(ma' * 2 ^ 20 + mi') mod 2 ^ 20 = mi'"
      using assms(2,4) by simp_all
    with eq show "ma = ma' \<and> mi = mi'" by metis
  qed simp
  finally show ?thesis .
qed

lemma find_map: "find P (map f xs) = map_option f (find (P \<circ> f) xs)"
  by (induction xs) simp_all

text \<open>
  From the file that the kernel prints, when memory suffices, the list holds exactly the printed
  partitions in their order; a lookup by device number finds the first line with that major and minor
  number, and nothing when no line has them.
\<close>

lemma partitions_found:
  assumes "list_all partition_good ls" "ma < 2 ^ 12" "mi < 2 ^ 20"
  shows "\<exists>ps. partitions__load (\<lambda>_. True) (Some (partition_file ls)) = Some (Some ps) \<and> ps = map line_partition ls
    \<and> partitions__get_by_dev ps (MKDEV (of_nat ma) (of_nat mi))
        = map_option line_partition (find (\<lambda>l. ptl_major l = ma \<and> ptl_minor l = mi) ls)"
proof -
  have "find ((\<lambda>p. part_dev p = MKDEV (of_nat ma) (of_nat mi)) \<circ> line_partition) ls
      = find (\<lambda>l. ptl_major l = ma \<and> ptl_minor l = mi) ls"
    using assms(1) MKDEV_inj[OF _ _ assms(2,3)]
    by (intro find_cong) (auto simp: list_all_iff partition_good_def line_partition_def)
  then show ?thesis
    using partition_loop_lines[OF assms(1), of "[]"]
    by (simp add: partitions__load_def partition_file_def partition_loop_heading partitions__get_by_dev_def find_map)
qed

definition demo_partitions :: "partition_line list" where
  "demo_partitions = [
     \<lparr>ptl_blanks = (1, 7, 3), ptl_major = 8, ptl_minor = 0, ptl_size = 500107608, ptl_name = ascii ''sda''\<rparr>,
     \<lparr>ptl_blanks = (1, 7, 6), ptl_major = 8, ptl_minor = 1, ptl_size = 524288, ptl_name = ascii ''sda1''\<rparr>]"

theorem partitions_found_witness:
  "\<exists>ps. partitions__load (\<lambda>_. True) (Some (partition_file demo_partitions)) = Some (Some ps)
    \<and> partitions__get_by_dev ps (MKDEV 8 1) = Some \<lparr>part_name = ascii ''sda1'', part_dev = MKDEV 8 1\<rparr>"
proof -
  have "list_all partition_good demo_partitions"
    by (simp add: demo_partitions_def partition_good_def partition_text_def is_word_def is_space_def ascii_def digits.simps
        DISK_NAME_LEN_def BUF_SIZE_def SYM_SIZE_def)
  from partitions_found[OF this, of 8 1] show ?thesis
    by (auto simp: demo_partitions_def line_partition_def)
qed

end
