(* ===== verification/Histograms.thy ===== *)
theory Histograms
  imports C_Numbers
begin

text \<open>
  The histograms of \<open>bpf_programs/cachestat/trace_helpers.c\<close>: \<open>print_stars\<close>, \<open>print_log2_hist\<close> and
  \<open>print_linear_hist\<close>, as the text they print. Counts are 32-bit words, and so are the products in
  \<open>print_stars\<close>. A division by zero and a shift by the whole width have no result.
\<close>

definition pad_left :: "nat \<Rightarrow> byte list \<Rightarrow> byte list" where
  "pad_left n s = replicate (n - length s) 32 @ s"

section \<open>Bars\<close>

text \<open>The product is one of \<open>unsigned int\<close>; the quotient is converted to \<open>int\<close>.\<close>

definition num_stars :: "u32 \<Rightarrow> u32 \<Rightarrow> int \<Rightarrow> int" where
  "num_stars val val_max width = sint (min val val_max * word_of_int width div val_max)"

definition print_stars :: "u32 \<Rightarrow> u32 \<Rightarrow> int \<Rightarrow> byte list option" where
  "print_stars val val_max width =
     (if val_max = 0 then None
      else (let stars = num_stars val val_max width; spaces = width - stars; need_plus = (val > val_max)
        in Some (replicate (nat stars) 42 @ replicate (nat spaces) 32 @ (if need_plus then [43] else []))))"

section \<open>Powers of two\<close>

definition hist_step :: "u32 list \<Rightarrow> int \<times> u32 \<Rightarrow> nat \<Rightarrow> int \<times> u32" where
  "hist_step vals st i = (let val = vals ! i in
     (if val > 0 then int i else fst st, if val > snd st then val else snd st))"

definition hist_max :: "u32 list \<Rightarrow> int \<times> u32" where
  "hist_max vals = foldl (hist_step vals) (- 1, 0) [0..<length vals]"

definition log2_row :: "int \<Rightarrow> u32 \<Rightarrow> int \<Rightarrow> nat \<Rightarrow> u32 \<Rightarrow> byte list option" where
  "log2_row idx_max val_max stars i val =
     (if 64 \<le> i + 1 then None
      else (let low0 = drop_bit 1 (push_bit (i + 1) (1 :: u64));
                high = push_bit (i + 1) (1 :: u64) - 1;
                low = (if low0 = high then low0 - 1 else low0);
                width = (if idx_max \<le> 32 then 10 else 20)
            in map_option (\<lambda>bar. pad_left width (print_int (sint low)) @ ascii '' -> '' @ pad_right width (print_int (sint high))
                 @ ascii '' : '' @ pad_right 8 (print_int (sint val)) @ ascii '' |'' @ bar @ [124, 10])
               (print_stars val val_max stars)))"

fun log2_rows :: "int \<Rightarrow> u32 \<Rightarrow> int \<Rightarrow> nat \<Rightarrow> u32 list \<Rightarrow> byte list option" where
  "log2_rows idx_max val_max stars i [] = Some []"
| "log2_rows idx_max val_max stars i (v # vs) =
     Option.bind (log2_row idx_max val_max stars i v) (\<lambda>row.
     Option.bind (log2_rows idx_max val_max stars (Suc i) vs) (\<lambda>rest. Some (row @ rest)))"

definition print_log2_hist :: "u32 list \<Rightarrow> byte list \<Rightarrow> byte list option" where
  "print_log2_hist vals val_type =
     (case hist_max vals of (idx_max, val_max) \<Rightarrow>
        if idx_max < 0 then Some []
        else (let head = replicate (if idx_max \<le> 32 then 5 else 15) 32 @ pad_right (if idx_max \<le> 32 then 19 else 29) val_type
                    @ ascii '' : count    distribution'' @ [10];
                  stars = (if idx_max \<le> 32 then 40 else 20)
              in map_option (\<lambda>rows. head @ rows)
                   (log2_rows idx_max val_max stars 0 (take (nat idx_max + 1) vals))))"

section \<open>Steps of equal width\<close>

definition linear_scan :: "u32 list \<Rightarrow> int \<times> int \<times> u32" where
  "linear_scan vals = foldl (\<lambda>(idx_min, idx_max, val_max) i.
       let v = vals ! i
       in (if v > 0 \<and> idx_min < 0 then int i else idx_min, if v > 0 then int i else idx_max,
           if v > val_max then v else val_max))
     (- 1, - 1, 0) [0..<length vals]"

definition linear_row :: "u32 \<Rightarrow> u32 \<Rightarrow> u32 \<Rightarrow> u32 \<Rightarrow> nat \<Rightarrow> byte list option" where
  "linear_row start step val_max val i =
     (if val = 0 then Some []
      else map_option (\<lambda>bar. replicate 8 32 @ pad_right 10 (print_int (sint (start + of_nat i * step))) @ ascii '' : ''
             @ pad_right 8 (print_int (sint val)) @ ascii '' |'' @ bar @ [124, 10])
           (print_stars val val_max 40))"

fun linear_rows :: "u32 \<Rightarrow> u32 \<Rightarrow> u32 \<Rightarrow> (nat \<times> u32) list \<Rightarrow> byte list option" where
  "linear_rows start step val_max [] = Some []"
| "linear_rows start step val_max ((i, v) # vs) =
     Option.bind (linear_row start step val_max v i) (\<lambda>row.
     Option.bind (linear_rows start step val_max vs) (\<lambda>rest. Some (row @ rest)))"

definition print_linear_hist :: "u32 list \<Rightarrow> u32 \<Rightarrow> u32 \<Rightarrow> byte list \<Rightarrow> byte list option" where
  "print_linear_hist vals start step val_type =
     (case linear_scan vals of (idx_min, idx_max, val_max) \<Rightarrow>
        if idx_max < 0 then Some []
        else map_option (\<lambda>rows. replicate 5 32 @ pad_right 13 val_type @ ascii '' : count     distribution'' @ [10] @ rows)
               (linear_rows start step val_max
                  (map (\<lambda>i. (i, vals ! i)) [nat idx_min..<nat idx_max + 1])))"

section \<open>How long a bar is\<close>

lemma sint_small:
  fixes w :: "'a::len word"
  assumes "unat w < 2 ^ (LENGTH('a) - 1)"
  shows "sint w = int (unat w)"
proof -
  have "int (unat w) < 2 ^ (LENGTH('a) - 1)" using assms by (metis of_nat_less_iff of_nat_numeral of_nat_power)
  then show ?thesis by (simp add: sint_uint uint_nat signed_take_bit_int_eq_self order_trans[OF _ of_nat_0_le_iff] del: unsigned_of_nat of_nat_unat)
qed

text \<open>The number of stars, for every width: the product wraps around, the quotient fits into an \<open>int\<close>.\<close>

lemma num_stars_nat:
  assumes "val_max \<noteq> 0" "w < 2 ^ 31"
  shows "num_stars val val_max (int w) = int ((unat (min val val_max) * w) mod 2 ^ 32 div unat val_max)"
proof -
  define p where "p = unat (min val val_max) * w"
  define q where "q = min val val_max * word_of_int (int w) div val_max"
  have "unat (of_nat w :: u32) = w" using assms(2) by (simp add: unsigned_of_nat take_bit_nat_eq_self)
  then have u: "unat q = p mod 2 ^ 32 div unat val_max"
    by (simp add: q_def p_def unat_div_distrib unat_word_ariths)
  have "unat val_max \<noteq> 0" using assms(1) by (simp add: unat_eq_0)
  then consider "unat val_max = 1" | "2 \<le> unat val_max" by linarith
  then have "unat q < 2 ^ 31"
  proof cases
    case 1
    then have "p \<le> w" by (simp add: p_def min_def word_le_nat_alt)
    with 1 show ?thesis using assms(2) u by simp
  next
    case 2
    then have "p mod 2 ^ 32 div unat val_max \<le> p mod 2 ^ 32 div 2" by (intro div_le_mono2) simp_all
    also have "\<dots> < 2 ^ 31" by (simp add: less_mult_imp_div_less)
    finally show ?thesis using u by simp
  qed
  then have "sint q = int (unat q)" by (intro sint_small) simp
  then show ?thesis unfolding num_stars_def q_def[symmetric] u p_def .
qed

lemma print_stars_nat:
  assumes "val_max \<noteq> 0" "w < 2 ^ 31" "unat val_max * w < 2 ^ 32"
  defines "n val \<equiv> unat (min val val_max) * w div unat val_max"
  shows "n val \<le> w" "print_stars val val_max (int w)
    = Some (replicate (n val) 42 @ replicate (w - n val) 32 @ (if val_max < val then [43] else []))"
proof -
  have v: "0 < unat val_max" "unat (min val val_max) \<le> unat val_max"
    using assms(1) by (simp_all add: unat_gt_0 min_def word_le_nat_alt)
  have le: "unat (min val val_max) * w \<le> unat val_max * w" using v(2) by (rule mult_le_mono1)
  then show "n val \<le> w" unfolding n_def using div_le_mono[OF le, of "unat val_max"] v(1) by simp
  moreover have "num_stars val val_max (int w) = int (n val)"
    using num_stars_nat[OF assms(1,2), of val] mod_less[OF le_less_trans[OF le assms(3)]] by (simp only: n_def)
  ultimately show "print_stars val val_max (int w)
    = Some (replicate (n val) 42 @ replicate (w - n val) 32 @ (if val_max < val then [43] else []))"
    using assms(1) by (simp add: print_stars_def Let_def nat_diff_distrib)
qed

text \<open>
  C39: the bar of a count is proportional to it, never longer than the width, and padded to the width,
  as long as the greatest count times the width is below 2 to the 32. From there on the product wraps
  around: then not even the greatest count has a full bar.
\<close>

theorem bar_is_proportional:
  assumes "val_max \<noteq> 0" "w < 2 ^ 31"
  shows "(unat val_max * w < 2 ^ 32 \<longrightarrow> (let n = unat (min val val_max) * w div unat val_max in
            n \<le> w \<and> print_stars val val_max (int w)
              = Some (replicate n 42 @ replicate (w - n) 32 @ (if val_max < val then [43] else []))))
    \<and> (num_stars val_max val_max (int w) = int w \<longleftrightarrow> unat val_max * w < 2 ^ 32)"
proof -
  have "num_stars val_max val_max (int w) = int w \<longleftrightarrow> unat val_max * w < 2 ^ 32"
  proof
    assume "num_stars val_max val_max (int w) = int w"
    then have "w = unat val_max * w mod 2 ^ 32 div unat val_max" using num_stars_nat[OF assms, of val_max] by simp
    then have "unat val_max * w \<le> unat val_max * w mod 2 ^ 32" by (metis div_times_less_eq_dividend mult.commute)
    also have "\<dots> < 2 ^ 32" by simp
    finally show "unat val_max * w < 2 ^ 32" .
  next
    assume "unat val_max * w < 2 ^ 32"
    then show "num_stars val_max val_max (int w) = int w"
      using num_stars_nat[OF assms, of val_max] assms(1) by (simp add: unat_eq_0)
  qed
  then show ?thesis using print_stars_nat[OF assms, of val] by (simp add: Let_def)
qed

theorem bar_is_proportional_witness:
  "print_stars 5 10 8 = Some (replicate 4 42 @ replicate 4 32) \<and> num_stars 107374183 107374183 40 \<noteq> 40"
  using bar_is_proportional[of 10 8 5] bar_is_proportional[of 107374183 40 0] by (simp add: min_def Let_def)

section \<open>The histogram of powers of two\<close>

text \<open>The counts without the zeros at the end, the values that a row counts, and the row itself.\<close>

definition used :: "u32 list \<Rightarrow> u32 list" where
  "used vals = rev (dropWhile (\<lambda>v. v = 0) (rev vals))"

definition bucket :: "nat \<Rightarrow> nat \<times> nat" where
  "bucket i = (if i = 0 then 0 else 2 ^ i, 2 ^ Suc i - 1)"

definition expected_row :: "bool \<Rightarrow> nat \<Rightarrow> nat \<Rightarrow> nat \<Rightarrow> byte list" where
  "expected_row narrow m i v =
     (let (low, high) = bucket i; width = (if narrow then 10 else 20); w = (if narrow then 40 else 20); n = v * w div m
      in pad_left width (digits low) @ ascii '' -> '' @ pad_right width (digits high) @ ascii '' : ''
         @ pad_right 8 (digits v) @ ascii '' |'' @ replicate n 42 @ replicate (w - n) 32 @ [124, 10])"

lemma used_snoc: "used (xs @ [x]) = (if x = 0 then used xs else xs @ [x])"
  by (simp add: used_def)

lemma hist_max_snoc: "hist_max (xs @ [x]) = hist_step (xs @ [x]) (hist_max xs) (length xs)"
proof -
  have "foldl (hist_step (xs @ [x])) s [0..<length xs] = foldl (hist_step xs) s [0..<length xs]" for s
    by (rule foldl_cong) (auto simp: hist_step_def nth_append)
  then show ?thesis by (simp add: hist_max_def)
qed

lemma hist_max_correct: "hist_max xs = (int (length (used xs)) - 1, Max (insert 0 (set xs)))"
proof (induction xs rule: rev_induct)
  case (snoc x xs)
  have "insert 0 (set (xs @ [x])) = insert x (insert 0 (set xs))" by auto
  then have m: "Max (insert 0 (set (xs @ [x]))) = max x (Max (insert 0 (set xs)))" by simp
  show ?case
    unfolding hist_max_snoc hist_step_def snoc m by (auto simp: Let_def used_snoc max_def word_gt_0 simp del: Max_insert Max_less_iff)
qed (simp add: hist_max_def used_def)

lemma used_length: "length (used xs) \<le> length xs"
  by (simp add: used_def length_dropWhile_le[of _ "rev xs", simplified])

lemma used_prefix: "take (length (used xs)) xs = used xs"
  by (induction xs rule: rev_induct) (simp_all add: used_snoc used_length, simp add: used_def)

lemma shifted:
  assumes "n < 64"
  shows "unat (push_bit n (1 :: u64)) = 2 ^ n"
proof -
  have "take_bit 64 ((2 :: nat) ^ n) = 2 ^ n"
    using power_strict_increasing[OF assms, of "2 :: nat"] by (intro take_bit_nat_eq_self) simp
  moreover have "push_bit n (1 :: u64) = of_nat (2 ^ n)" by (simp add: push_bit_of_1)
  ultimately show ?thesis by (simp only: unsigned_of_nat) simp
qed

lemma sint_u64: "unat (w :: u64) < 2 ^ 63 \<Longrightarrow> sint w = int (unat w)"
  by (intro sint_small) simp

text \<open>The two ends of a row, as \<open>long long\<close>.\<close>

lemma bucket_bounds:
  assumes "i \<le> 62"
  defines "low0 \<equiv> drop_bit 1 (push_bit (i + 1) (1 :: u64))" and "high \<equiv> push_bit (i + 1) (1 :: u64) - 1"
  shows "sint (if low0 = high then low0 - 1 else low0) = int (fst (bucket i))" "sint high = int (snd (bucket i))"
proof -
  have p: "unat (push_bit (i + 1) (1 :: u64)) = 2 ^ (i + 1)" using shifted[of "i + 1"] assms(1) by simp
  have small: "(2 :: nat) ^ (i + 1) \<le> 2 ^ 63" "(2 :: nat) ^ i < 2 ^ 63"
    using assms(1) by (simp_all only: power_increasing_iff power_strict_increasing_iff one_less_numeral_iff semiring_norm)
  have low: "unat low0 = 2 ^ i" unfolding low0_def unat_drop_bit_eq p by (simp add: drop_bit_Suc)
  have "push_bit (i + 1) (1 :: u64) \<noteq> 0" using p by (metis power_not_zero unat_0 zero_neq_numeral)
  then have high: "unat high = 2 ^ (i + 1) - 1" unfolding high_def using p by (simp add: unat_minus_one)
  have "(2 :: nat) ^ (i + 1) - 1 < 2 ^ 63" using small(1) by (rule order.strict_trans2[rotated]) simp
  with high sint_u64[of high] show "sint high = int (snd (bucket i))" by (simp add: bucket_def)
  have eq: "low0 = high \<longleftrightarrow> i = 0"
  proof -
    have "(2 :: nat) ^ (i + 1) = 2 * 2 ^ i" by simp
    then have "(2 :: nat) ^ i = 2 ^ (i + 1) - 1 \<longleftrightarrow> (2 :: nat) ^ i = 1" using one_le_power[of "2 :: nat" i] by linarith
    also have "\<dots> \<longleftrightarrow> i = 0" by simp
    finally show ?thesis unfolding word_unat_eq_iff low high .
  qed
  show "sint (if low0 = high then low0 - 1 else low0) = int (fst (bucket i))"
  proof (cases "i = 0")
    case True
    then have "low0 = 1" using low by (simp add: word_unat_eq_iff)
    then show ?thesis using eq True by (simp add: bucket_def)
  next
    case False
    then show ?thesis using eq low small(2) sint_u64[of low0] by (simp add: bucket_def)
  qed
qed

lemma log2_row_expected:
  assumes "i \<le> 62" "unat val_max * 40 < 2 ^ 32" "val \<le> val_max" "val_max \<noteq> 0"
  shows "log2_row idx_max val_max (if idx_max \<le> 32 then 40 else 20) i val
    = Some (expected_row (idx_max \<le> 32) (unat val_max) i (unat val))"
proof -
  define w where "w = (if idx_max \<le> 32 then 40 else 20 :: nat)"
  have w: "(if idx_max \<le> 32 then 40 else 20 :: int) = int w" "w < 2 ^ 31" "unat val_max * w < 2 ^ 32"
    using assms(2) by (simp_all add: w_def)
  have "unat val \<le> unat val_max" using assms(3) by (simp add: word_le_nat_alt)
  then have "unat val < 2 ^ 31" using assms(2) by simp
  then have v: "sint val = int (unat val)" by (intro sint_small) simp
  have "print_stars val val_max (int w)
      = Some (replicate (unat val * w div unat val_max) 42 @ replicate (w - unat val * w div unat val_max) 32)"
    using print_stars_nat[OF assms(4) w(2,3), of val] assms(3) by (simp add: min_def)
  then show ?thesis
    unfolding w(1) log2_row_def Let_def bucket_bounds[OF assms(1)] v
    using assms(1) by (simp add: expected_row_def print_int_def w_def[symmetric] case_prod_beta Let_def)
qed

lemma log2_rows_expected:
  assumes "k + length vs \<le> 63" "unat val_max * 40 < 2 ^ 32" "\<forall>v \<in> set vs. v \<le> val_max" "val_max \<noteq> 0"
  shows "log2_rows idx_max val_max (if idx_max \<le> 32 then 40 else 20) k vs
    = Some (concat (map (\<lambda>(i, v). expected_row (idx_max \<le> 32) (unat val_max) i (unat v)) (zip [k..<k + length vs] vs)))"
  using assms(1,3)
proof (induction vs arbitrary: k)
  case (Cons v vs)
  then show ?case
    using log2_row_expected[of k val_max v idx_max] assms(2,4) Cons.IH[of "Suc k"]
    by (simp add: upt_conv_Cons del: upt_Suc)
qed simp

text \<open>
  With at most 63 counts, none of them large enough for the product to wrap around, the histogram
  has a row for every count up to the last one that is not zero: the row of the index \<open>i\<close> covers the
  values from \<open>2 ^ i\<close> (from zero for the first row) to \<open>2 ^ (i + 1) - 1\<close>, with the count and a bar
  whose length is the count's share of the greatest count. Without counts nothing is printed.
\<close>

lemma log2_histogram:
  assumes "length vals \<le> 63" "list_all (\<lambda>v. unat v * 40 < 2 ^ 32) vals"
  shows "print_log2_hist vals val_type = Some (let us = used vals; narrow = (length us \<le> 33) in
     if us = [] then []
     else replicate (if narrow then 5 else 15) 32 @ pad_right (if narrow then 19 else 29) val_type
       @ ascii '' : count    distribution'' @ [10]
       @ concat (map (\<lambda>(i, v). expected_row narrow (unat (Max (set vals))) i (unat v)) (zip [0..<length us] us)))"
proof (cases "used vals = []")
  case True
  then show ?thesis by (simp add: print_log2_hist_def hist_max_correct)
next
  case False
  define m where "m = Max (insert 0 (set vals))"
  have "vals \<noteq> []" "set (used vals) \<subseteq> set vals"
    using False used_prefix[of vals] by (auto simp: used_def dest: in_set_takeD set_dropWhileD)
  then have m: "m = Max (set vals)" "m \<in> set vals" by (simp_all add: m_def max_def)
  have above: "v \<le> m" if "v \<in> set vals" for v using that by (simp add: m(1))
  obtain v where "v \<in> set vals" "v \<noteq> 0" using False by (auto simp: used_def)
  with above have nz: "m \<noteq> 0" by (metis word_le_0_iff)
  have big: "unat m * 40 < 2 ^ 32" using assms(2) m(2) by (auto simp: list_all_iff)
  have "\<forall>v \<in> set (used vals). v \<le> m" using above \<open>set (used vals) \<subseteq> set vals\<close> by blast
  from log2_rows_expected[OF _ big this nz, of 0 "int (length (used vals)) - 1"]
  have "log2_rows (int (length (used vals)) - 1) m (if int (length (used vals)) - 1 \<le> 32 then 40 else 20) 0 (used vals)
    = Some (concat (map (\<lambda>(i, v). expected_row (int (length (used vals)) - 1 \<le> 32) (unat m) i (unat v))
        (zip [0..<length (used vals)] (used vals))))"
    using used_length[of vals] assms(1) by simp
  moreover have "(int (length (used vals)) - 1 \<le> 32) = (length (used vals) \<le> 33)" by linarith
  moreover have "nat (int (length (used vals)) - 1) + 1 = length (used vals)" using False by (cases "used vals") simp_all
  ultimately show ?thesis
    using False by (simp add: print_log2_hist_def hist_max_correct m_def[symmetric] used_prefix Let_def m(1)[symmetric])
qed

definition demo_counts :: "u32 list" where
  "demo_counts = [2, 4, 0]"

theorem log2_histogram_witness:
  "print_log2_hist demo_counts (ascii ''us'') = Some (replicate 5 32 @ pad_right 19 (ascii ''us'')
     @ ascii '' : count    distribution'' @ [10] @ expected_row True 4 0 2 @ expected_row True 4 1 4)"
  using log2_histogram[of demo_counts "ascii ''us''"]
  by (simp add: demo_counts_def used_def max_def)

end
