(* ===== verification/Text_Conversions.thy ===== *)
theory Text_Conversions
  imports C_Numbers Posix_File
begin

text \<open>
  The small conversions at the end of \<open>bpf_programs/cachestat/trace_helpers.c\<close>: a separated list of
  numbers, the load average, and the time. The elements that \<open>split_convert\<close> has written are a list;
  the number of bytes they take is compared with the size of the array as in the code.
\<close>

section \<open>Separated lists\<close>

definition ENOBUFS :: int where
  "ENOBUFS = 105"

definition ERANGE :: int where
  "ERANGE = 34"

text \<open>
  One call of \<open>strtok\<close>: the token and what is left behind the separator that ended it.
\<close>

definition strtok :: "byte list \<Rightarrow> byte list \<Rightarrow> (byte list \<times> byte list) option" where
  "strtok delim s =
     (let s0 = dropWhile (\<lambda>b. b \<in> set delim) s; token = takeWhile (\<lambda>b. b \<notin> set delim) s0
      in if s0 = [] then None else Some (token, drop (length token + 1) s0))"

lemma strtok_shorter: "strtok delim s = Some (token, t) \<Longrightarrow> length t < length s"
proof -
  assume a: "strtok delim s = Some (token, t)"
  define s0 where "s0 = dropWhile (\<lambda>b. b \<in> set delim) s"
  have "s0 \<noteq> []" "length t = length s0 - (length token + 1)"
    using a by (auto simp: strtok_def Let_def s0_def split: if_splits)
  then have "length t < length s0" by (cases s0) auto
  also have "\<dots> \<le> length s" by (simp add: s0_def length_dropWhile_le)
  finally show ?thesis .
qed

text \<open>A conversion returns an error number (zero for none) and the element it has written.\<close>

function split_loop :: "byte list \<Rightarrow> nat \<Rightarrow> nat \<Rightarrow> (byte list \<Rightarrow> int \<times> 'a) \<Rightarrow> byte list \<Rightarrow> 'a list \<Rightarrow> int \<times> 'a list" where
  "split_loop delim elems_size elem_size conv s vs =
     (case strtok delim s of
        None \<Rightarrow> (0, vs)
      | Some (token, t) \<Rightarrow>
          if length vs * elem_size + elem_size > elems_size then (- ENOBUFS, vs)
          else (case conv token of (ret, v) \<Rightarrow>
                  if ret \<noteq> 0 then (- ret, vs @ [v]) else split_loop delim elems_size elem_size conv t (vs @ [v])))"
  by pat_completeness auto
termination
  by (relation "measure (\<lambda>(d, n, m, c, s, vs). length s)") (auto dest: strtok_shorter)

declare split_loop.simps [simp del]

definition split_convert :: "byte list option \<Rightarrow> byte list option \<Rightarrow> bool \<Rightarrow> nat \<Rightarrow> nat \<Rightarrow> (byte list \<Rightarrow> int \<times> 'a)
    \<Rightarrow> int \<times> 'a list" where
  "split_convert s delim elems elems_size elem_size conv =
     (case (s, delim) of
        (Some text, Some ds) \<Rightarrow>
          if elems then split_loop ds elems_size elem_size conv text [] else (- errno_val EINVAL, [])
      | _ \<Rightarrow> (- errno_val EINVAL, []))"

text \<open>\<open>strtol\<close> on the whole token; the value is stored as an \<open>int\<close> or a \<open>long\<close>.\<close>

definition str_to_int :: "byte list \<Rightarrow> int \<times> u32" where
  "str_to_int src = (case strtol10 src of (v, rest, erange) \<Rightarrow> (if erange then ERANGE else 0, word_of_int v))"

definition str_to_long :: "byte list \<Rightarrow> int \<times> u64" where
  "str_to_long src = (case strtol10 src of (v, rest, erange) \<Rightarrow> (if erange then ERANGE else 0, word_of_int v))"

section \<open>The load average and the time\<close>

text \<open>
  The file of the load average is its opening error, or its content and the error number that is set
  when it turns out empty. The result comes with the string in the buffer, if one was written.
\<close>

definition str_loadavg :: "(errno, byte list \<times> int) sum \<Rightarrow> nat option \<Rightarrow> int \<times> byte list option" where
  "str_loadavg loadavg buf =
     (case buf of
        None \<Rightarrow> (- errno_val EINVAL, None)
      | Some buf_len \<Rightarrow>
          if buf_len = 0 then (- errno_val EINVAL, None)
          else (case loadavg of
              Inl e \<Rightarrow> (- errno_val e, None)
            | Inr (content, err) \<Rightarrow>
                (let avg = takeWhile (\<lambda>b. b \<noteq> 0) (take 63 content); s = ascii ''loadavg: '' @ avg; n = int (length s)
                 in if content = [] then (if err \<noteq> 0 then - err else 0, None)
                    else (if n \<ge> int buf_len then - ERANGE else n, Some (take (buf_len - 1) s)))))"

definition NSEC_PER_SEC :: u64 where
  "NSEC_PER_SEC = 1000000000"

definition get_ktime_ns :: "u64 \<Rightarrow> u64 \<Rightarrow> u64" where
  "get_ktime_ns tv_sec tv_nsec = tv_sec * NSEC_PER_SEC + tv_nsec"

section \<open>Lists of numbers\<close>

lemma strtol_print_int:
  assumes "- LONG_MAX - 1 \<le> i" "i \<le> LONG_MAX"
  shows "strtol10 (print_int i) = (i, [], False)"
proof (cases "i < 0")
  case False
  then show ?thesis using strtol_digits[of "nat i"] assms(2) by (simp add: print_int_def)
next
  case True
  define n where "n = nat (- i)"
  have n: "print_int i = 45 # digits n" "int n = - i" using True by (simp_all add: print_int_def n_def)
  have t: "takeWhile is_digit (digits n) = digits n" "dropWhile is_digit (digits n) = []"
    using digits_are_digits[of n] by (auto simp: takeWhile_eq_all_conv dropWhile_eq_Nil_conv)
  have "\<not> is_space 45" by (simp add: is_space_def)
  then show ?thesis unfolding n(1) strtol10_def Let_def
    using assms True number_val_digits[of n] n(2)
    by (simp add: LONG_MAX_def t del: takeWhile_eq_all_conv dropWhile_eq_Nil_conv)
qed

definition separator :: "byte \<Rightarrow> bool" where
  "separator d \<longleftrightarrow> d \<noteq> 45 \<and> \<not> is_digit d"

text \<open>The numbers with a separator behind each but the last.\<close>

fun joined :: "byte \<Rightarrow> int list \<Rightarrow> byte list" where
  "joined d [] = []"
| "joined d [i] = print_int i"
| "joined d (i # ns) = print_int i @ d # joined d ns"

lemma print_int_separator:
  assumes "separator d"
  shows "d \<notin> set (print_int i)" "print_int i \<noteq> []"
  using assms digits_are_digits by (auto simp: print_int_def separator_def)

lemma strtok_number:
  assumes "separator d"
  shows "strtok [d] (print_int i) = Some (print_int i, [])" "strtok [d] (print_int i @ d # s) = Some (print_int i, s)"
proof -
  obtain b bs where b: "print_int i = b # bs" "b \<noteq> d"
    using print_int_separator[OF assms, of i] by (cases "print_int i") auto
  have "takeWhile (\<lambda>b. b \<noteq> d) (print_int i) = print_int i" "takeWhile (\<lambda>b. b \<noteq> d) (print_int i @ d # s) = print_int i"
    using print_int_separator(1)[OF assms, of i] by (auto simp: takeWhile_eq_all_conv, subst takeWhile_append2, auto)
  then show "strtok [d] (print_int i) = Some (print_int i, [])" "strtok [d] (print_int i @ d # s) = Some (print_int i, s)"
    using b by (simp_all add: strtok_def Let_def del: takeWhile_eq_all_conv)
qed

definition long_range :: "int \<Rightarrow> bool" where
  "long_range i \<longleftrightarrow> - LONG_MAX - 1 \<le> i \<and> i \<le> LONG_MAX"

lemma strtok_joined:
  assumes "separator d"
  shows "strtok [d] (joined d (i # ns)) = Some (print_int i, joined d ns)"
  using strtok_number[OF assms] by (cases ns) simp_all

text \<open>Any conversion that reads every printed number of the list without an error.\<close>

lemma split_loop_joined:
  assumes "separator d" "\<forall>i \<in> set ns. conv (print_int i) = (0, f i)" "0 < elem_size"
  shows "split_loop [d] elems_size elem_size conv (joined d ns) vs
    = (let room = elems_size div elem_size - length vs in
       if length ns \<le> room then (0, vs @ map f ns) else (- ENOBUFS, vs @ map f (take room ns)))"
  using assms(2)
proof (induction ns arbitrary: vs)
  case Nil
  then show ?case by (subst split_loop.simps) (simp add: strtok_def)
next
  case (Cons i ns)
  define room where "room = elems_size div elem_size - length vs"
  have full: "elems_size < length vs * elem_size + elem_size \<longleftrightarrow> room = 0"
    using div_less_iff_less_mult[OF assms(3), of elems_size "Suc (length vs)"] by (simp add: room_def algebra_simps less_Suc_eq_le)
  have step: "split_loop [d] elems_size elem_size conv (joined d (i # ns)) vs
      = (if room = 0 then (- ENOBUFS, vs) else split_loop [d] elems_size elem_size conv (joined d ns) (vs @ [f i]))"
    using Cons.prems by (subst split_loop.simps) (simp add: strtok_joined[OF assms(1)] full)
  show ?case
  proof (cases room)
    case 0
    then show ?thesis unfolding step room_def[symmetric] Let_def by simp
  next
    case (Suc r)
    then have "elems_size div elem_size - length (vs @ [f i]) = r" by (simp add: room_def)
    then show ?thesis
      unfolding step room_def[symmetric] Let_def using Cons.IH[of "vs @ [f i]"] Cons.prems Suc by (simp add: Let_def)
  qed
qed

text \<open>
  C40: from the printed numbers with a separator that is neither a digit nor a minus sign, the numbers
  come back in their order, as \<open>long\<close> exactly, as \<open>int\<close> modulo 2 to the 32 and without an error when
  one does not fit; if the array is too small, it is filled and the result is \<open>-ENOBUFS\<close>.
\<close>

theorem separated_numbers_come_back:
  assumes "separator d" "\<forall>i \<in> set ns. long_range i"
  shows "split_convert (Some (joined d ns)) (Some [d]) True elems_size 4 str_to_int
      = (if length ns \<le> elems_size div 4 then (0, map word_of_int ns)
         else (- ENOBUFS, map word_of_int (take (elems_size div 4) ns)))
    \<and> split_convert (Some (joined d ns)) (Some [d]) True elems_size 8 str_to_long
      = (if length ns \<le> elems_size div 8 then (0, map word_of_int ns)
         else (- ENOBUFS, map word_of_int (take (elems_size div 8) ns)))
    \<and> (\<forall>i \<in> set ns. sint (word_of_int i :: u64) = i)"
proof -
  have "str_to_int (print_int i) = (0, word_of_int i)" "str_to_long (print_int i) = (0, word_of_int i)"
    if "i \<in> set ns" for i
    using strtol_print_int[of i] assms(2) that by (auto simp: str_to_int_def str_to_long_def long_range_def)
  then have int: "\<forall>i \<in> set ns. str_to_int (print_int i) = (0, word_of_int i)"
    and long: "\<forall>i \<in> set ns. str_to_long (print_int i) = (0, word_of_int i)" by simp_all
  have "sint (word_of_int i :: u64) = i" if "i \<in> set ns" for i
    using assms(2) that by (auto simp: long_range_def LONG_MAX_def sint_sbintrunc' signed_take_bit_int_eq_self)
  then show ?thesis
    using split_loop_joined[OF assms(1) int, of 4 elems_size "[]"] split_loop_joined[OF assms(1) long, of 8 elems_size "[]"]
    by (simp add: split_convert_def)
qed

theorem separated_numbers_come_back_witness:
  "split_convert (Some (joined 44 [12, - 3, 4294967296])) (Some [44]) True 16 4 str_to_int = (0, [12, - 3, 0])"
proof -
  have "separator 44" by (simp add: separator_def is_digit_def)
  moreover have "\<forall>i \<in> set [12, - 3, 4294967296]. long_range i" by (simp add: long_range_def LONG_MAX_def)
  ultimately show ?thesis using separated_numbers_come_back[of 44 "[12, - 3, 4294967296]" 16] by simp
qed

text \<open>The load average never overruns its buffer, and a string that is cut off is reported.\<close>

lemma loadavg_fits:
  assumes "str_loadavg loadavg (Some buf_len) = (r, Some s)"
  shows "length s < buf_len \<and> (r = int (length s) \<or> r = - ERANGE)"
  using assms by (auto simp: str_loadavg_def Let_def split: if_splits sum.splits)

end
