(* ===== verification/Meminfo.thy ===== *)
theory Meminfo
  imports Scan_Lines
begin

text \<open>
  \<open>get_meminfo\<close> of \<open>bpf_programs/cachestat/cachestat.c\<close>: the sizes of the buffers and of the page cache,
  from the first five lines of \<open>/proc/meminfo\<close>. Its result is what \<open>Cachestat_Report\<close> takes from each
  round and for the JSON file.
\<close>

text \<open>A line of the format: \<open>"<label> %llu kB\n"\<close>, or the same with \<open>%*u\<close>.\<close>

definition meminfo_line :: "string \<Rightarrow> directive \<Rightarrow> directive list" where
  "meminfo_line label number = map Literal (ascii label) @ [White, number, White, Literal 107, Literal 66, White]"

definition meminfo_format :: "directive list" where
  "meminfo_format = meminfo_line ''MemTotal:'' (Skip Decimal) @ meminfo_line ''MemFree:'' (Skip Decimal)
     @ meminfo_line ''MemAvailable:'' (Skip Decimal) @ meminfo_line ''Buffers:'' (Store Decimal)
     @ meminfo_line ''Cached:'' (Store Decimal)"

text \<open>The file is \<open>None\<close> if it cannot be opened; the result \<open>None\<close> stands for the error -1.\<close>

definition get_meminfo :: "byte list option \<Rightarrow> (u64 \<times> u64) option" where
  "get_meminfo content =
     (case content of
        None \<Rightarrow> None
      | Some s \<Rightarrow>
          (let (ret, vs, t) = fscanf meminfo_format s in
           if ret \<noteq> 2 then None else Some (number_of_item (vs ! 0), number_of_item (vs ! 1))))"

section \<open>What the kernel prints is read\<close>

definition memory_text :: "string \<Rightarrow> nat \<Rightarrow> nat \<Rightarrow> byte list" where
  "memory_text label blanks kb = ascii label @ replicate (Suc blanks) 32 @ digits kb @ ascii '' kB'' @ [10]"

definition memory_front :: "nat \<times> nat \<Rightarrow> nat \<times> nat \<Rightarrow> nat \<times> nat \<Rightarrow> byte list" where
  "memory_front l1 l2 l3 = memory_text ''MemTotal:'' (fst l1) (snd l1) @ memory_text ''MemFree:'' (fst l2) (snd l2)
     @ memory_text ''MemAvailable:'' (fst l3) (snd l3)"

lemma scan_literals: "scan (map Literal w @ ds) (w @ s) vs = scan ds s vs"
  by (induction w) simp_all

lemma scan_memory_line:
  assumes "int kb \<le> LONG_MAX"
  shows "scan (meminfo_line label (Skip Decimal) @ ds) (memory_text label k kb @ s) vs = scan ds (dropWhile is_space s) vs"
    "scan (meminfo_line label (Store Decimal) @ ds) (memory_text label k kb @ s) vs
      = scan ds (dropWhile is_space s) (vs @ [Number (of_nat kb)])"
proof -
  have "scan_number False (dropWhile is_space (replicate k 32 @ digits kb @ 32 # t)) = Converted (Number (of_nat kb)) (32 # t)" for t
    using scan_digits[OF assms, of 32 k t] by (simp add: scan_number_skips)
  moreover have "ascii '' kB'' = [32, 107, 66]" by (simp add: ascii_def)
  moreover have "\<not> is_space 107" by (simp add: is_space_def)
  ultimately show "scan (meminfo_line label (Skip Decimal) @ ds) (memory_text label k kb @ s) vs = scan ds (dropWhile is_space s) vs"
    "scan (meminfo_line label (Store Decimal) @ ds) (memory_text label k kb @ s) vs
      = scan ds (dropWhile is_space s) (vs @ [Number (of_nat kb)])"
    by (simp_all add: meminfo_line_def memory_text_def scan_literals)
qed

lemma memory_text_starts: "label \<noteq> [] \<Longrightarrow> \<not> is_space (of_char (hd label)) \<Longrightarrow>
    dropWhile is_space (memory_text label k kb @ s) = memory_text label k kb @ s"
  by (cases label) (simp_all add: memory_text_def ascii_def)

text \<open>
  From the file the kernel prints, with any alignment and whatever follows, \<open>get_meminfo\<close> returns the
  numbers of its fourth and fifth line; with the fourth and fifth line missing it reports an error.
\<close>

lemma meminfo_read:
  assumes "int a \<le> LONG_MAX" "int f \<le> LONG_MAX" "int v \<le> LONG_MAX" "int b \<le> LONG_MAX" "int c \<le> LONG_MAX"
  shows "get_meminfo (Some (memory_front (i, a) (j, f) (k, v) @ memory_text ''Buffers:'' l b @ memory_text ''Cached:'' m c @ after)) = Some (of_nat b, of_nat c)
    \<and> get_meminfo (Some (memory_front (i, a) (j, f) (k, v))) = None"
proof -
  have starts: "dropWhile is_space (memory_text ''MemFree:'' n kb @ s) = memory_text ''MemFree:'' n kb @ s"
    "dropWhile is_space (memory_text ''MemAvailable:'' n kb @ s) = memory_text ''MemAvailable:'' n kb @ s"
    "dropWhile is_space (memory_text ''Buffers:'' n kb @ s) = memory_text ''Buffers:'' n kb @ s"
    "dropWhile is_space (memory_text ''Cached:'' n kb @ s) = memory_text ''Cached:'' n kb @ s" for n kb s
    by (rule memory_text_starts; simp add: is_space_def)+
  have "fscanf meminfo_format (memory_front (i, a) (j, f) (k, v) @ memory_text ''Buffers:'' l b @ memory_text ''Cached:'' m c @ after)
      = (2, [Number (of_nat b), Number (of_nat c)], dropWhile is_space after)"
    using scan_memory_line(2)[OF assms(5), of "''Cached:''" "[]" m after]
    by (simp add: fscanf_def meminfo_format_def memory_front_def starts scan_memory_line assms(1-4))
  moreover have "fscanf meminfo_format (memory_front (i, a) (j, f) (k, v)) = (EOF, [], [])"
  proof -
    have "scan (meminfo_line ''Buffers:'' x @ ds) [] [] = (EOF, [], [])" for x ds
      by (simp add: meminfo_line_def ascii_def out_of_input_def)
    then show ?thesis
      using scan_memory_line(1)[OF assms(3), of "''MemAvailable:''" _ k "[]"] starts(2)[of k v "[]"]
      by (simp add: fscanf_def meminfo_format_def memory_front_def starts scan_memory_line assms(1,2))
  qed
  ultimately show ?thesis by (simp add: get_meminfo_def EOF_def)
qed

theorem meminfo_read_witness:
  "get_meminfo (Some (memory_front (7, 16318232) (8, 1048576) (2, 9000000)
     @ memory_text ''Buffers:'' 9 2048 @ memory_text ''Cached:'' 9 4096 @ [])) = Some (2048, 4096)"
  using meminfo_read[of 16318232 1048576 9000000 2048 4096 7 8 2 9 9 "[]"] by (simp add: LONG_MAX_def)

end
