(* ===== verification/Elem_IO.thy ===== *)
theory Elem_IO
  imports Persistence
begin

text \<open>
  \<open>write_elem\<close> and \<open>read_elem\<close> of \<open>src/persistence.c\<close>: one element behind its size, directly on the file. The
  header offers them to modules with formats of their own. An element is stored at an offset that the
  caller passes on; a call that fails or transfers too little leaves the offset where it got to.
\<close>

definition write_elem :: "byte list \<Rightarrow> int \<Rightarrow> fbytes \<Rightarrow> io list \<Rightarrow> int \<times> fbytes \<times> io list" where
  "write_elem b offset f ios =
     (let (io, ios) = next_io ios;
          (written, err, f) = pwrite_sys io f (le_bytes 8 (of_nat (length b) :: u64)) offset
      in if written \<noteq> 8 then (offset, f, ios)
         else (let (io, ios) = next_io ios;
                   (written, err, f) = pwrite_sys io f b (offset + 8)
               in if written \<noteq> int (length b) then (offset + 8, f, ios)
                  else (offset + 8 + int (length b), f, ios)))"

text \<open>\<open>malloc\<close> is taken to succeed; the result \<open>Null\<close> is the null pointer.\<close>

definition read_elem :: "(byte list \<Rightarrow> 'a decoded) \<Rightarrow> int \<Rightarrow> fbytes \<Rightarrow> io list \<Rightarrow> 'a decoded \<times> int \<times> io list" where
  "read_elem decode offset f ios =
     (let (io, ios) = next_io ios; (got, sb) = pread_sys io f 8 offset
      in if got \<noteq> 8 then (Null, offset, ios)
         else (let n = unat (le_word sb :: u64); (io, ios) = next_io ios; (got, b) = pread_sys io f n (offset + 8)
               in if got \<noteq> int n then (Null, offset + 8, ios)
                  else (decode b, offset + 8 + int n, ios)))"

section \<open>What has been written is read\<close>

lemma file_write_end: "file_write f (length f) bs = f @ bs"
  by (simp add: file_write_def)

lemma pwrite_front:
  assumes "pwrite_sys io g bs off = (x, e, g')" "int n \<le> off" "n \<le> length g"
  shows "take n g' = take n g \<and> n \<le> length g'"
proof -
  have "n \<le> nat off" using assms(2) by linarith
  then show ?thesis
    using assms(1,3) by (auto simp: pwrite_sys_def file_write_def min_def split: if_splits io.splits)
qed

lemma write_elem_front:
  assumes "write_elem b off f ios = (off', f', ios')" "int n \<le> off" "n \<le> length f"
  shows "take n f' = take n f"
proof -
  obtain io ios1 where io: "next_io ios = (io, ios1)" by fastforce
  obtain w e g where w: "pwrite_sys io f (le_bytes 8 (of_nat (length b) :: u64)) off = (w, e, g)" by (metis prod_cases3)
  obtain io2 ios2 where io2: "next_io ios1 = (io2, ios2)" by fastforce
  obtain w2 e2 g2 where w2: "pwrite_sys io2 g b (off + 8) = (w2, e2, g2)" by (metis prod_cases3)
  have g: "take n g = take n f" "n \<le> length g" using pwrite_front[OF w assms(2,3)] by simp_all
  have "int n \<le> off + 8" using assms(2) by linarith
  from pwrite_front[OF w2 this g(2)] g(1) have "take n g2 = take n f" by simp
  then show ?thesis using assms(1) g(1) io w io2 w2 by (auto simp: write_elem_def split: if_splits)
qed

lemma write_elem_ok:
  assumes "length b < 2 ^ 64"
  shows "write_elem b (int (length f)) f [] = (int (length (f @ elem_bytes b)), f @ elem_bytes b, [])"
proof -
  have "pwrite_sys IoOk f bs (int (length f)) = (int (length bs), EIO, f @ bs)" for f bs
    using pwrite_ok[of f bs "length f"] by (simp add: file_write_end)
  from this[of f] this[of "f @ le_bytes 8 (of_nat (length b) :: u64)"] show ?thesis
    by (simp add: write_elem_def elem_bytes_def algebra_simps)
qed

lemma read_elem_ok:
  assumes "length b < 2 ^ 64"
  shows "read_elem decode (int (length f)) (f @ elem_bytes b @ g) [] = (decode b, int (length (f @ elem_bytes b)), [])"
proof -
  have "unat (of_nat (length b) :: u64) = length b" "uint (of_nat (length b) :: u64) = int (length b)"
    using assms by (simp_all add: unsigned_of_nat take_bit_nat_eq_self)
  moreover have "nat (int (length f) + 8) = length f + 8" by simp
  moreover have "pread_sys IoOk (f @ elem_bytes b @ g) 8 (int (length f)) = (8, le_bytes 8 (of_nat (length b) :: u64))"
    "pread_sys IoOk (f @ elem_bytes b @ g) (length b) (int (length f) + 8) = (int (length b), b)"
    by (simp_all add: pread_sys_def elem_bytes_def nat_add_distrib)
  moreover have "int (length (f @ elem_bytes b)) = int (length f) + 8 + int (length b)" by (simp add: elem_bytes_def)
  ultimately show ?thesis by (simp add: read_elem_def del: length_append unsigned_of_nat)
qed

text \<open>Elements one after the other, from an offset on.\<close>

fun write_elems :: "byte list list \<Rightarrow> int \<Rightarrow> fbytes \<Rightarrow> fbytes" where
  "write_elems [] offset f = f"
| "write_elems (b # bs) offset f = (let (offset, f, ios) = write_elem b offset f [] in write_elems bs offset f)"

fun read_elems :: "(byte list \<Rightarrow> 'a decoded) \<Rightarrow> nat \<Rightarrow> int \<Rightarrow> fbytes \<Rightarrow> 'a decoded list" where
  "read_elems decode 0 offset f = []"
| "read_elems decode (Suc n) offset f = (let (x, offset, ios) = read_elem decode offset f [] in x # read_elems decode n offset f)"

lemma write_elems_ok:
  "\<forall>b \<in> set bs. length b < 2 ^ 64 \<Longrightarrow> write_elems bs (int (length f)) f = f @ concat (map elem_bytes bs)"
  by (induction bs arbitrary: f) (simp_all add: write_elem_ok del: length_append)

lemma read_elems_ok:
  "\<forall>b \<in> set bs. length b < 2 ^ 64 \<Longrightarrow>
     read_elems decode (length bs) (int (length f)) (f @ concat (map elem_bytes bs)) = map decode bs"
proof (induction bs arbitrary: f)
  case (Cons b bs)
  then show ?case using read_elem_ok[of b decode f "concat (map elem_bytes bs)"] Cons.IH[of "f @ elem_bytes b"] by simp
qed simp

text \<open>
  Elements written one after the other at the end of a file are read back in their order and the
  bytes in front of them stay; and a write that fails in any way leaves those bytes alone as well.
\<close>

lemma elements_come_back:
  assumes "\<forall>b \<in> set bs. length b < 2 ^ 64"
  shows "read_elems decode (length bs) (int (length f)) (write_elems bs (int (length f)) f) = map decode bs
    \<and> take (length f) (write_elems bs (int (length f)) f) = f
    \<and> take (length f) (fst (snd (write_elem b (int (length f)) f ios))) = f"
proof -
  obtain off' f' ios' where "write_elem b (int (length f)) f ios = (off', f', ios')" by (metis prod_cases3)
  then have "take (length f) (fst (snd (write_elem b (int (length f)) f ios))) = f"
    using write_elem_front[of b "int (length f)" f ios off' f' ios' "length f"] by simp
  then show ?thesis using write_elems_ok[OF assms, of f] read_elems_ok[OF assms, of decode f] by simp
qed

end
