(* ===== verification/Spec2Isabelle.thy ===== *)
theory Spec2Isabelle
  imports
    Mount_Properties Remount First_Mount Thread_Properties Exit_Races
    Report_Properties Cachestat_Properties Attach_Properties Kernel_Symbols_Properties
    Binary_Path_Properties Dso_Symbols Partitions Histograms Text_Conversions
    Meminfo Elem_IO
begin

text \<open>
  \<^bold>\<open>A verification of DedupBlockFS.\<close>

  DedupBlockFS is a FUSE file system that stores every distinct 4096-byte block once. A file the user
  sees is a sequence of references to slots of one master file. Two tracing tools built on BPF,
  \<open>syscounter\<close> and \<open>cachestat\<close>, measure it.

  \<^bold>\<open>The program and how its parts interact.\<close>
  FUSE calls a handler of \<open>src/passthrough.c\<close>. Handlers pass most requests on to the lower file system;
  \<open>read\<close>, \<open>write\<close>, \<open>truncate\<close>, \<open>unlink\<close> and \<open>getattr\<close> also work on the index, through \<open>src/dedup.c\<close>. The
  index (\<open>src/metaindex.c\<close>, \<open>includes/metaindex.h\<close>) has three tables: \<open>hash_to_master\<close> from SHA-512 values
  to \<open>MasterInfo\<close> objects, \<open>file_to_master\<close> from a path and a block number to the same objects, and
  \<open>file_to_sizes\<close>; each object has a slot of the master file and a reference count, and released slots
  are in a free list. A write runs in passes with different locks: it decides which blocks are stored
  already, takes slots, writes the new blocks with \<open>pwrite\<close>, and publishes them. At unmount
  \<open>src/persistence.c\<close> saves the index in five files, from which the next mount rebuilds it.

  \<^bold>\<open>The model of a part and its theory.\<close> C structs are records, tables are finite maps, machine integers
  are words, and code that cannot go on (an access to a freed object, a write outside an array) has the
  result \<open>None\<close>; errors are the values the code returns.

  \<^item> \<open>Dedup_Prelude\<close>, \<open>Posix_File\<close>: machine types, loops, blocks of a buffer; \<open>pread\<close> and \<open>pwrite\<close> with the
    answers of the kernel as input, so that every short transfer and every error of every call is covered.
  \<^item> \<open>Meta_Index\<close>: \<open>metaindex.h\<close> and the table operations of \<open>metaindex.c\<close>; the tables point into an
    explicit heap of \<open>MasterInfo\<close> objects, because two tables share them and they are freed by hand.
    \<open>Codec\<close>: the encoders and decoders of \<open>metaindex.c\<close>.
  \<^item> \<open>Dedup_Alloc\<close>, \<open>Dedup_Flush\<close>, \<open>Dedup_Write\<close>, \<open>Dedup_Read\<close>, \<open>Dedup_Remove\<close>, \<open>Block_Sort\<close>: the functions of
    \<open>dedup.c\<close> and \<open>dedup.h\<close>, one definition per pass.
  \<^item> \<open>Threads\<close>: concurrent calls of \<open>dedup.c\<close>. A call is cut where it takes or drops \<open>metadata_rwlock\<close> or
    \<open>freelist_mutex\<close>; what runs under one lock is one step, and any steps of other threads may come in
    between. The flush and the reads of the master file run under no lock and are one step each: they
    touch only slots their own call holds, or slots it has looked up.
  \<^item> \<open>Fuse_System\<close>, \<open>Passthrough\<close>, \<open>Mount\<close>: the handlers of \<open>passthrough.c\<close>, the dispatch table \<open>xmp_oper\<close>, and
    sessions of requests as a step relation. The lower file system is a record of functions without
    any law; it may change by itself between two requests.
  \<^item> \<open>Buffered_IO\<close>, \<open>Persistence\<close>, \<open>Persistence_Pair\<close>, \<open>Elem_IO\<close>, \<open>Index_Lifecycle\<close>: \<open>persistence.c\<close>, and \<open>index_init\<close> and
    \<open>index_destroy\<close> of \<open>metaindex.c\<close>.
  \<^item> \<open>Bpf_Maps\<close>, \<open>Syscounter_Probe\<close>, \<open>Syscounter_Report\<close>, \<open>Syscall_Names\<close>, \<open>C_Numbers\<close>:
    \<open>bpf_programs/syscounter\<close>. A probe is one step, except that the exit (\<open>update_counter_exit\<close>) is also cut into
    its accesses to the maps, which several CPUs interleave. \<open>Cachestat\<close>, \<open>Cachestat_Report\<close>, \<open>Meminfo\<close>: the BPF side and the user side of
    \<open>bpf_programs/cachestat\<close>.
  \<^item> \<open>Attach_Points\<close>, \<open>Kernel_Symbols\<close>, \<open>Process_Symbols\<close>, \<open>Partitions\<close>, \<open>Histograms\<close>, \<open>Text_Conversions\<close>:
    \<open>trace_helpers.c\<close> of \<open>cachestat\<close>: what it asks the kernel before it attaches, the symbols of the kernel
    and of a process, and small helpers. \<open>Binary_Path\<close>, \<open>Elf_Files\<close>: \<open>uprobe_helpers.c\<close>. They rest on \<open>C_Scanf\<close>
    and \<open>C_Sort\<close>, which model what these files use of \<open>scanf\<close>, \<open>fgets\<close>, \<open>strcmp\<close> and \<open>qsort\<close>.

  \<^bold>\<open>What is shown.\<close>

  \<^item> \<open>Index_Invariant\<close> states the invariant of the index so that it also holds in the middle of an
    operation: a count is the number of mappings to the object plus the references operations hold,
    slots are free, held or in use and never two of these, and a published object's slot holds the
    block with its hash. Each primitive has one lemma that says how it moves these.
  \<^item> \<open>Dedup_Spec\<close> is the abstract store: blocks by file and number, and sizes. \<open>Write_Pass1\<close>,
    \<open>Write_Assign\<close>, \<open>Write_Rollback\<close>, \<open>Write_Publish\<close>, \<open>Write_Map\<close>, \<open>Write_Correct\<close> and \<open>Read_Correct\<close> show that
    the routines refine it, pass by pass, failures included. \<open>Dedup_Properties\<close> states the results.
  \<^item> \<open>Passthrough_Correct\<close>, \<open>Mount\<close> and \<open>Mount_Properties\<close> carry this to the handlers and to sessions;
    \<open>Master_Extent\<close> and \<open>Remount\<close> to unmounting and mounting again. \<open>First_Mount\<close> follows sessions from \<open>xmp_init\<close> on
    empty files: slots are neither lost nor shared, every distinct block has one, and the master file ends with
    the slots until a write reports an error.
  \<^item> \<open>Thread_Frame\<close>, \<open>Thread_Invariant\<close>, \<open>Thread_Steps\<close>, \<open>Thread_Rollback\<close>, \<open>Thread_Publish\<close> and
    \<open>Thread_Safety\<close> show that every schedule keeps an invariant over all threads, as long as no request repeats a
    block inside itself, requests are in range and fit the index together, and SHA-512 does not collide.
    \<open>Thread_Properties\<close> concludes that concurrent calls then serialise, all return, and reply what they did; \<open>Thread_Races\<close> evaluates two races outside that result (a block repeated within one
    request, and a read overtaken by a removal and a write).
  \<^item> The codecs, tables and files of the persistence layer are inverse to each other, whatever order
    GLib visits the tables in.
  \<^item> \<open>Exit_Races\<close> interleaves exit programs: counts of known keys are exact, and the first two calls of a new key
    can be counted as one. \<open>Syscounter_Properties\<close>, \<open>Report_Properties\<close> and \<open>Cachestat_Properties\<close> relate what the tools print to the
    events that happened; \<open>Attach_Properties\<close> and \<open>Kernel_Symbols_Properties\<close> relate what they learn about the
    kernel to the files it offers. \<open>Process_Symbols_Properties\<close>, \<open>Dso_Symbols\<close>, \<open>Binary_Path_Properties\<close>, \<open>Partitions\<close>
    and \<open>Histograms\<close> do this for processes, ELF files, disks and counts, and \<open>Text_Conversions\<close> for lists of numbers.
    \<open>Scan_Lines\<close> and \<open>Attach_Correct\<close> hold what they share: how the lines the kernel prints are read.
  \<^item> Several properties show where the program falls short of what it means to do, with the input on
    which it happens (a rename that leaves the blocks behind, a buffer that overflows after a failed
    flush, slots that are handed out twice after a failed write and a remount).

  \<^bold>\<open>Interfaces.\<close> Where a component relies on another only through some laws, the laws are a locale:
  \<open>ghash_key\<close> and \<open>index_table\<close> (tables), \<open>codec\<close>, \<open>table_codec\<close>, \<open>pair_codec\<close> (persistence), \<open>slot_allocator\<close>
  (allocation), \<open>pair_sort\<close> (the reader's sort), \<open>comparison\<close> (\<open>qsort\<close>), \<open>line_format\<close> (lists of
  symbols). Each is interpreted on the program's own definitions.

  \<^bold>\<open>Bounds.\<close> Reference counts and sizes stay below \<open>2 ^ 32\<close> references, \<open>2 ^ 31\<close> bytes per request and the
  slots an \<open>off_t\<close> can address; these are hypotheses of the theorems, with witnesses. No definition uses
  fuel: every loop is structural or has a measure. Words of the kernel's lists of symbols must be shorter than the
  256 bytes the tools have for them, and lines of a maps file than their 1024 bytes. A thread returns after at most seven steps of its own.

  \<^bold>\<open>Parameters.\<close> SHA-512 (assumed free of collisions on the blocks in play), \<open>qsort\<close>, the lower file
  system, the answers of the kernel to BPF, \<open>pread\<close>, \<open>pwrite\<close> and \<open>open\<close>, the order in which GLib visits
  a table, the padding of structs, and the text of a percentage computed in \<open>float\<close>; for the tracing
  helpers also \<open>libelf\<close>, the files under \<open>/proc\<close> and \<open>/sys\<close>, and whether memory is granted.

  \<^bold>\<open>Not modelled.\<close> Log lines and messages; the waiting for locks (the sequential model has none, and in \<open>Threads\<close> they
  are only the places where a call is cut); signed overflow of the \<open>long\<close> totals of \<open>syscounter.c\<close>, which wrap around in
  the model; an entry time that another thread overwrites between its deletion and its use (it is an argument
  of the exit's steps, taken as intact in the theorems); failing allocations in the file system, except the read buffer; the master file being
  opened through the mount; the FreeBSD branches and the handlers under macros no build defines;
  \<open>fuse_config\<close>; in \<open>trace_helpers.c\<close> the function \<open>is_kernel_module\<close>, whose \<open>sscanf\<close> reads the array it writes,
  \<open>str_timestamp\<close>, which only calls \<open>strftime\<close>, and the functions that only release memory; benchmarks,
  shell scripts and documents, which are not part of the program.
\<close>

end
